(* ===== verification/Prelude.thy ===== *)
theory Prelude
  imports Main "HOL-Library.Word" "HOL-Library.AList"
begin

text \<open>
  The shared layer of the development: bytes and byte slices, big-endian integers, Go strings as
  byte strings, Go maps as association lists with distinct keys, time as nanoseconds, and the two
  interface locales every component instantiates: a \<open>codec\<close> (an encoder and the decoder that
  inverts it) and a \<open>machine\<close> (a state, its steps and an invariant every step keeps).
\<close>

unbundle bit_operations_syntax

named_theorems wire_simps \<open>lengths and projections of encoded values\<close>
named_theorems amap_simps \<open>lookups in updated association maps\<close>

section \<open>Bytes and slices\<close>

type_synonym byte = "8 word"
type_synonym bytes = "byte list"

text \<open>The Go slice expression \<open>xs[i:j]\<close>.\<close>

definition slice :: "nat \<Rightarrow> nat \<Rightarrow> 'a list \<Rightarrow> 'a list" where
  "slice i j xs = take (j - i) (drop i xs)"

lemma length_slice [simp]: "length (slice i j xs) = min (j - i) (length xs - i)"
  by (simp add: slice_def min.commute)

lemma slice_append1 [simp]: "j \<le> length xs \<Longrightarrow> slice i j (xs @ ys) = slice i j xs"
  by (cases "i \<le> length xs") (simp_all add: slice_def)

lemma slice_append2 [simp]:
  "length xs \<le> i \<Longrightarrow> slice i j (xs @ ys) = slice (i - length xs) (j - length xs) ys"
proof -
  assume a: "length xs \<le> i"
  then have "j - i = (j - length xs) - (i - length xs)" by simp
  with a show ?thesis by (simp add: slice_def)
qed

lemma slice_zero [simp]: "slice i 0 xs = []"
  by (simp add: slice_def)

lemma slice_append_over:
  "i \<le> length xs \<Longrightarrow> length xs \<le> j \<Longrightarrow> slice i j (xs @ ys) = drop i xs @ slice 0 (j - length xs) ys"
  by (simp add: slice_def)

lemma slice_Cons [simp]: "0 < i \<Longrightarrow> slice i j (x # xs) = slice (i - 1) (j - 1) xs"
  by (cases i; cases j) (simp_all add: slice_def)

lemma slice_all [simp]: "length xs \<le> j \<Longrightarrow> slice 0 j xs = xs"
  by (simp add: slice_def)

lemma slice_to_end: "length xs \<le> j \<Longrightarrow> slice i j xs = drop i xs"
  by (simp add: slice_def)

lemma nth_slice: "i + k < j \<Longrightarrow> i + k < length xs \<Longrightarrow> slice i j xs ! k = xs ! (i + k)"
  by (simp add: slice_def)

lemma slice_concat: "i \<le> j \<Longrightarrow> j \<le> k \<Longrightarrow> slice i j xs @ slice j k xs = slice i k xs"
proof -
  assume "i \<le> j" "j \<le> k"
  then have k: "k - i = (j - i) + (k - j)" and d: "drop j xs = drop (j - i) (drop i xs)" by simp_all
  show ?thesis unfolding slice_def k take_add d ..
qed

lemma slice_take [simp]: "slice i j (take n xs) = slice i (min j n) xs"
  by (simp add: slice_def drop_take min_diff)

lemma Cons_slice: "xs \<noteq> [] \<Longrightarrow> 0 < n \<Longrightarrow> xs ! 0 # slice 1 n xs = take n xs"
  by (cases xs; cases n) (simp_all add: slice_def)

lemma take_min_length [simp]:
  "take (min (length xs) n) xs = take n xs" "take (min n (length xs)) xs = take n xs"
  by (simp_all add: min_def)

section \<open>Big-endian integers\<close>

text \<open>\<open>binary.BigEndian.PutUintN\<close> and \<open>UintN\<close>, for every width at once.\<close>

definition be_put :: "nat \<Rightarrow> 'a::len word \<Rightarrow> bytes" where
  "be_put n w = map (\<lambda>i. ucast (drop_bit (8 * i) w)) (rev [0..<n])"

definition be_get :: "bytes \<Rightarrow> 'a::len word" where
  "be_get bs = foldl (\<lambda>acc b. push_bit 8 acc OR ucast b) 0 bs"

lemma length_be_put [simp, wire_simps]: "length (be_put n w) = n"
  by (simp add: be_put_def)

lemma be_get_Nil [simp]: "be_get [] = 0"
  by (simp add: be_get_def)

lemma be_get_snoc: "be_get (bs @ [b]) = push_bit 8 (be_get bs) OR ucast b"
  by (simp add: be_get_def)

lemma bit_be_get:
  "bit (be_get bs :: 'a::len word) n \<longleftrightarrow>
     n < LENGTH('a) \<and> n < 8 * length bs \<and> bit (rev bs ! (n div 8)) (n mod 8)"
proof (induction bs arbitrary: n rule: rev_induct)
  case Nil
  then show ?case by simp
next
  case (snoc b bs)
  show ?case
  proof (cases "n < 8")
    case True
    then show ?thesis by (auto simp: be_get_snoc bit_simps nth_append)
  next
    case False
    then have d: "n div 8 = Suc ((n - 8) div 8)" and m: "n mod 8 = (n - 8) mod 8"
      by (simp_all add: le_div_geq le_mod_geq)
    have "\<not> bit b n" using False bit_imp_le_length [of b n] by auto
    then have "bit (be_get (bs @ [b]) :: 'a word) n \<longleftrightarrow> n < LENGTH('a) \<and> bit (be_get bs :: 'a word) (n - 8)"
      using False by (auto simp: be_get_snoc bit_simps)
    also have "\<dots> \<longleftrightarrow> n < LENGTH('a) \<and> n - 8 < LENGTH('a) \<and> n - 8 < 8 * length bs \<and>
        bit (rev bs ! ((n - 8) div 8)) ((n - 8) mod 8)"
      by (simp add: snoc.IH)
    finally show ?thesis using False d m by auto
  qed
qed

lemma be_get_put [simp, wire_simps]:
  fixes w :: "'a::len word"
  assumes "LENGTH('a) = 8 * n"
  shows "be_get (be_put n w) = w"
proof (rule bit_word_eqI)
  fix k assume k: "k < LENGTH('a)"
  have "8 * (k div 8) + k mod 8 = k" by simp
  with k assms show "bit (be_get (be_put n w) :: 'a word) k = bit w k"
    by (auto simp: bit_be_get be_put_def rev_map bit_simps)
qed

lemma be_put_get:
  assumes "LENGTH('a::len) = 8 * length bs"
  shows "be_put (length bs) (be_get bs :: 'a word) = bs"
proof (rule nth_equalityI)
  show "length (be_put (length bs) (be_get bs :: 'a word)) = length bs" by simp
next
  fix i assume "i < length (be_put (length bs) (be_get bs :: 'a word))"
  then have i: "i < length bs" by simp
  show "be_put (length bs) (be_get bs :: 'a word) ! i = bs ! i"
  proof (rule bit_word_eqI)
    fix k assume k: "k < LENGTH(8)"
    let ?j = "length bs - Suc i"
    have r: "rev [0..<length bs] ! i = ?j" using i by (simp add: rev_nth)
    have d: "(8 * ?j + k) div 8 = ?j" "(8 * ?j + k) mod 8 = k" using k by simp_all
    have "8 * ?j + k < 8 * length bs" using i k by simp
    moreover have "rev bs ! ?j = bs ! i" using i by (simp add: rev_nth)
    ultimately show "bit (be_put (length bs) (be_get bs :: 'a word) ! i) k = bit (bs ! i) k"
      using i k d assms by (simp add: be_put_def r bit_simps bit_be_get)
  qed
qed

text \<open>Numeric reading of two- and one-byte values, for the places that compute with lengths.\<close>

lemma be_get_single [simp]: "be_get [b] = (ucast b :: 'a::len word)"
  by (simp add: be_get_def)

lemma be_get_two: "be_get [a, b] = (push_bit 8 (ucast a) OR ucast b :: 'a::len word)"
  by (simp add: be_get_def)

definition put16 :: "16 word \<Rightarrow> bytes" where "put16 = be_put 2"
definition put32 :: "32 word \<Rightarrow> bytes" where "put32 = be_put 4"
definition put64 :: "64 word \<Rightarrow> bytes" where "put64 = be_put 8"
definition get16 :: "bytes \<Rightarrow> 16 word" where "get16 = be_get"
definition get32 :: "bytes \<Rightarrow> 32 word" where "get32 = be_get"
definition get64 :: "bytes \<Rightarrow> 64 word" where "get64 = be_get"

lemma length_put [simp, wire_simps]:
  "length (put16 a) = 2" "length (put32 b) = 4" "length (put64 c) = 8"
  by (simp_all add: put16_def put32_def put64_def)

lemma get_put [simp, wire_simps]:
  "get16 (put16 a) = a" "get32 (put32 b) = b" "get64 (put64 c) = c"
  by (simp_all add: put16_def put32_def put64_def get16_def get32_def get64_def)

lemma put16_get16: "length bs = 2 \<Longrightarrow> put16 (get16 bs) = bs"
  using be_put_get [where 'a = 16, of bs] by (simp add: put16_def get16_def)

lemma put32_get32: "length bs = 4 \<Longrightarrow> put32 (get32 bs) = bs"
  using be_put_get [where 'a = 32, of bs] by (simp add: put32_def get32_def)

lemma put64_get64: "length bs = 8 \<Longrightarrow> put64 (get64 bs) = bs"
  using be_put_get [where 'a = 64, of bs] by (simp add: put64_def get64_def)

lemma put16_not_Nil [simp]: "put16 a \<noteq> []" "put32 b \<noteq> []" "put64 c \<noteq> []"
  by (metis length_put list.size(3) zero_neq_numeral)+

text \<open>Go's \<open>uint8(n)\<close> of a length.\<close>

lemma unat_of_nat_u8 [simp]: "n < 256 \<Longrightarrow> unat (of_nat n :: 8 word) = n"
  by (simp add: unat_of_nat)

lemma unat_of_nat_u16: "n < 65536 \<Longrightarrow> unat (of_nat n :: 16 word) = n"
  by (simp add: unat_of_nat)

lemma unat_u8_lt [simp]: "unat (b :: byte) < 256"
  using unsigned_less [of b] by simp

lemma unat_u16_le: "unat (w :: 16 word) \<le> 65535"
proof -
  have "unat w < 65536" using unsigned_less [of w] by simp
  then show ?thesis by simp
qed

lemma unat_ucast_u8_u16: "unat (ucast (b :: byte) :: 16 word) = unat b"
  using unat_u8_lt [of b] by (simp add: unsigned_ucast_eq take_bit_nat_eq_self del: unat_u8_lt)

lemma unat_ucast_u16_u32: "unat (ucast (w :: 16 word) :: 32 word) = unat w"
  using unat_u16_le [of w] by (simp add: unsigned_ucast_eq take_bit_nat_eq_self)

text \<open>The numeric value of a big-endian pair.\<close>

lemma unat_get16: "unat (get16 [a, b]) = 256 * unat a + unat b"
proof -
  have "push_bit 8 (ucast a) OR ucast b = (push_bit 8 (ucast a) + ucast b :: 16 word)"
    by (rule disjunctive_add [symmetric]) (auto simp: bit_simps dest: bit_imp_le_length)
  moreover have "unat (push_bit 8 (ucast a) :: 16 word) = 256 * unat a"
    using unat_u8_lt [of a]
    by (simp add: push_bit_eq_mult unat_word_ariths(2) unat_ucast_u8_u16 del: unat_u8_lt)
  ultimately show ?thesis using unat_u8_lt [of a] unat_u8_lt [of b]
    by (simp add: get16_def be_get_two unat_word_ariths(1) unat_ucast_u8_u16 del: unat_u8_lt)
qed

section \<open>Go strings\<close>

text \<open>
  A Go string is a byte string; HOL's \<open>char\<close> is a byte, so \<open>string\<close> models it and the two
  conversions \<open>[]byte(s)\<close> and \<open>string(b)\<close> are inverse to each other.
\<close>

definition str_bytes :: "string \<Rightarrow> bytes" where
  "str_bytes s = map (\<lambda>c. of_nat (of_char c)) s"

definition bytes_str :: "bytes \<Rightarrow> string" where
  "bytes_str b = map (\<lambda>w. char_of (unat w)) b"

lemma length_str_bytes [simp, wire_simps]: "length (str_bytes s) = length s"
  by (simp add: str_bytes_def)

lemma length_bytes_str [simp, wire_simps]: "length (bytes_str b) = length b"
  by (simp add: bytes_str_def)

lemma bytes_str_str_bytes [simp, wire_simps]: "bytes_str (str_bytes s) = s"
  by (rule nth_equalityI) (simp_all add: bytes_str_def str_bytes_def unat_of_nat)

lemma str_bytes_bytes_str [simp, wire_simps]: "str_bytes (bytes_str b) = b"
  by (rule nth_equalityI) (simp_all add: bytes_str_def str_bytes_def)

lemma str_bytes_inj [simp]: "str_bytes s = str_bytes t \<longleftrightarrow> s = t"
  by (metis bytes_str_str_bytes)

lemma bytes_str_take: "bytes_str (take n b) = take n (bytes_str b)"
  by (simp add: bytes_str_def take_map)

lemma bytes_str_append: "bytes_str (a @ b) = bytes_str a @ bytes_str b"
  by (simp add: bytes_str_def)

lemma str_bytes_take: "str_bytes (take n s) = take n (str_bytes s)"
  by (simp add: str_bytes_def take_map)

section \<open>Time\<close>

text \<open>Instants and durations are nanoseconds, as \<open>time.Duration\<close> counts them.\<close>

type_synonym time = int

definition millisecond :: time where "millisecond = 1000000"
definition second :: time where "second = 1000000000"
definition minute :: time where "minute = 60 * second"

lemmas time_units = millisecond_def second_def minute_def

section \<open>Go maps\<close>

text \<open>
  A Go map is an association list with distinct keys: the operations are the library's
  \<open>AList.update\<close> and \<open>AList.delete\<close>, lookup is \<open>map_of\<close>, and the list order stands for the
  iteration order the runtime picks.
\<close>

type_synonym ('k, 'v) amap = "('k \<times> 'v) list"

definition amap_ok :: "('k, 'v) amap \<Rightarrow> bool" where
  "amap_ok m \<longleftrightarrow> distinct (map fst m)"

abbreviation mput :: "'k \<Rightarrow> 'v \<Rightarrow> ('k, 'v) amap \<Rightarrow> ('k, 'v) amap" where
  "mput \<equiv> AList.update"

abbreviation mdel :: "'k \<Rightarrow> ('k, 'v) amap \<Rightarrow> ('k, 'v) amap" where
  "mdel \<equiv> AList.delete"

text \<open>Deleting, while iterating, every entry a condition selects.\<close>

definition mdrop :: "('k \<Rightarrow> 'v \<Rightarrow> bool) \<Rightarrow> ('k, 'v) amap \<Rightarrow> ('k, 'v) amap" where
  "mdrop P m = filter (\<lambda>(k, v). \<not> P k v) m"

lemma amap_ok_Nil [simp, intro]: "amap_ok []"
  by (simp add: amap_ok_def)

lemma amap_ok_mput [simp, intro]: "amap_ok m \<Longrightarrow> amap_ok (mput k v m)"
  by (simp add: amap_ok_def distinct_update)

lemma amap_ok_mdel [simp, intro]: "amap_ok m \<Longrightarrow> amap_ok (mdel k m)"
  by (simp add: amap_ok_def distinct_delete)

lemma amap_ok_filter: "amap_ok m \<Longrightarrow> amap_ok (filter P m)"
  by (simp add: amap_ok_def distinct_map_filter)

lemma amap_ok_mdrop [simp, intro]: "amap_ok m \<Longrightarrow> amap_ok (mdrop P m)"
  by (simp add: mdrop_def amap_ok_filter)

lemma map_of_mput [simp, amap_simps]:
  "map_of (mput k v m) k' = (if k' = k then Some v else map_of m k')"
  by (simp add: update_conv')

lemma map_of_mdel [simp, amap_simps]:
  "map_of (mdel k m) k' = (if k' = k then None else map_of m k')"
  by (simp add: delete_conv')

lemma amap_in_set: "amap_ok m \<Longrightarrow> (k, v) \<in> set m \<longleftrightarrow> map_of m k = Some v"
  by (simp add: amap_ok_def map_of_eq_Some_iff)

lemma map_of_mdrop [amap_simps]:
  assumes "amap_ok m"
  shows "map_of (mdrop P m) k = (case map_of m k of None \<Rightarrow> None
           | Some v \<Rightarrow> if P k v then None else Some v)"
proof -
  have iff: "map_of (mdrop P m) k = Some v \<longleftrightarrow> map_of m k = Some v \<and> \<not> P k v" for v
    using assms amap_ok_mdrop [OF assms, of P]
    by (auto simp flip: amap_in_set simp: mdrop_def)
  show ?thesis
  proof (cases "map_of (mdrop P m) k")
    case None
    then have "\<not> (map_of m k = Some v \<and> \<not> P k v)" for v using iff [of v] by simp
    with None show ?thesis by (auto split: option.splits)
  next
    case (Some v)
    then show ?thesis using iff [of v] by simp
  qed
qed

lemma length_mput: "length (mput k v m) = (if k \<in> fst ` set m then length m else Suc (length m))"
  by (induction m) (auto simp: image_iff)

lemma length_mdel_le: "length (mdel k m) \<le> length m"
  by (simp add: AList.delete_eq)

lemma mdel_length_less: "map_of m k = Some v \<Longrightarrow> length (mdel k m) < length m"
  unfolding AList.delete_eq using map_of_SomeD [of m k v]
  by (auto intro!: length_filter_less)

lemma dom_mput: "dom (map_of (mput k v m)) = insert k (dom (map_of m))"
  by (auto simp: dom_def)

section \<open>Interfaces\<close>

text \<open>
  A codec: what a decoder promises about the encoder's output. Every wire format of the program
  (headers, sequence fields, handshake messages, hub lists, stream frames) is an instance.
\<close>

locale codec =
  fixes enc :: "'a \<Rightarrow> 'w" and dec :: "'w \<Rightarrow> 'a option" and wf :: "'a \<Rightarrow> bool"
  assumes dec_enc: "wf x \<Longrightarrow> dec (enc x) = Some x"
begin

lemma enc_inj: "wf x \<Longrightarrow> wf y \<Longrightarrow> enc x = enc y \<Longrightarrow> x = y"
  by (metis dec_enc option.inject)

lemma enc_distinguishes: "wf x \<Longrightarrow> dec w = Some y \<Longrightarrow> x \<noteq> y \<Longrightarrow> enc x \<noteq> w"
  using dec_enc by auto

lemma map_dec_enc: "list_all wf xs \<Longrightarrow> map (dec \<circ> enc) xs = map Some xs"
  by (induction xs) (simp_all add: dec_enc)

end

text \<open>A codec whose decoder accepts nothing but the encoder's image.\<close>

locale exact_codec = codec +
  assumes enc_dec: "dec w = Some x \<Longrightarrow> wf x \<and> enc x = w"
begin

lemma dec_iff: "dec w = Some x \<longleftrightarrow> wf x \<and> w = enc x"
  using dec_enc enc_dec by blast

end

text \<open>
  A machine: deterministic steps over a state, an invariant that holds at the start and is kept by
  every step. Each stateful component of the program is an instance.
\<close>

locale machine =
  fixes init :: 's and step :: "'s \<Rightarrow> 'e \<Rightarrow> 's" and inv :: "'s \<Rightarrow> bool"
  assumes inv_init: "inv init"
    and inv_step: "inv s \<Longrightarrow> inv (step s e)"
begin

lemma inv_foldl: "inv s \<Longrightarrow> inv (foldl step s es)"
  by (induction es arbitrary: s) (simp_all add: inv_step)

lemma inv_run: "inv (foldl step init es)"
  by (rule inv_foldl [OF inv_init])

end

text \<open>
  A reporter: steps that emit values, at most one each, and hold the last one emitted. If a step emits
  only what differs from what is held, no two values in a row agree.
\<close>

fun run_steps :: "('s \<Rightarrow> 'e \<Rightarrow> 'o list \<times> 's) \<Rightarrow> 'e list \<Rightarrow> 's \<Rightarrow> 'o list \<times> 's" where
  "run_steps step [] s = ([], s)"
| "run_steps step (e # es) s =
     (case step s e of (o1, s1) \<Rightarrow> case run_steps step es s1 of (o2, s2) \<Rightarrow> (o1 @ o2, s2))"

locale reporter =
  fixes step :: "'s \<Rightarrow> 'e \<Rightarrow> 'o list \<times> 's" and held :: "'s \<Rightarrow> 'o" and same :: "'o \<Rightarrow> 'o \<Rightarrow> bool"
    and ready :: "'s \<Rightarrow> bool"
  assumes step_reports: "ready s \<Longrightarrow> step s e = (out, s') \<Longrightarrow>
      ready s' \<and> (out = [] \<and> held s' = held s \<or> out = [held s'] \<and> \<not> same (held s) (held s'))"
begin

lemma said_step:
  assumes "ready s" and "outs \<noteq> []" "held s = last outs" "successively (\<lambda>a b. \<not> same a b) outs"
    and "step s e = (out, s')"
  shows "ready s' \<and> held s' = last (outs @ out) \<and> successively (\<lambda>a b. \<not> same a b) (outs @ out)"
  using step_reports [OF assms(1,5)] assms(2-4) by (auto simp: successively_append_iff)

lemma said_run:
  "ready s \<Longrightarrow> outs \<noteq> [] \<Longrightarrow> held s = last outs \<Longrightarrow> successively (\<lambda>a b. \<not> same a b) outs \<Longrightarrow>
     run_steps step es s = (out, s') \<Longrightarrow>
     ready s' \<and> held s' = last (outs @ out) \<and> successively (\<lambda>a b. \<not> same a b) (outs @ out)"
proof (induction es arbitrary: s outs out)
  case (Cons e es)
  obtain o1 s1 o2 where e: "step s e = (o1, s1)" "run_steps step es s1 = (o2, s')" "out = o1 @ o2"
    using Cons.prems(5) by (auto split: prod.splits)
  show ?case
    using Cons.IH [of s1 "outs @ o1" o2] said_step [OF Cons.prems(1-4) e(1)] Cons.prems(2) e(2,3) by auto
qed simp

end

end
