(* ===== verification/Replay.thy ===== *)
theory Replay
  imports Prelude
begin

text \<open>
  \<open>ReplayWindow\<close> of \<open>internal/crypto/crypto.go\<close>: the 512-bit sliding window kept in eight 64-bit
  words, its in-place shift loop, the abstract filter it implements (the greatest counter and the set
  of counters seen within 512 of it), the refinement between the two, and the interface
  \<open>replay_filter\<close> that \<open>Cipher.Open\<close> relies on, with the at-most-once law proved from it.
\<close>

section \<open>The code's window\<close>

record replay_window =
  rw_max :: "64 word"
  rw_win :: "64 word list"

definition replay_init :: replay_window where
  "replay_init = \<lparr>rw_max = 0, rw_win = replicate 8 0\<rparr>"

text \<open>The value the loop body stores in word \<open>i\<close>; \<open>word_shift\<close> and \<open>bit_shift\<close> are the code's.\<close>

definition shift_word :: "nat \<Rightarrow> nat \<Rightarrow> nat \<Rightarrow> 64 word list \<Rightarrow> 64 word" where
  "shift_word word_shift bit_shift i w =
     (if i < word_shift then 0
      else let src = i - word_shift in
        if bit_shift = 0 then w ! src
        else if 0 < src then push_bit bit_shift (w ! src) OR drop_bit (64 - bit_shift) (w ! (src - 1))
        else push_bit bit_shift (w ! src))"

text \<open>\<open>for i := 7; i >= 0; i--\<close>, updating the window in place; the argument is \<open>i + 1\<close>.\<close>

fun shift_loop :: "nat \<Rightarrow> nat \<Rightarrow> nat \<Rightarrow> 64 word list \<Rightarrow> 64 word list" where
  "shift_loop word_shift bit_shift 0 w = w"
| "shift_loop word_shift bit_shift (Suc i) w =
     shift_loop word_shift bit_shift i (w[i := shift_word word_shift bit_shift i w])"

definition replay_check :: "replay_window \<Rightarrow> 64 word \<Rightarrow> bool \<times> replay_window" where
  "replay_check w counter =
     (if counter = 0 then (False, w)
      else if rw_max w < counter then
        let shift = counter - rw_max w;
            win = (if 512 \<le> shift then replicate 8 0
                   else shift_loop (unat (shift div 64)) (unat (shift mod 64)) 8 (rw_win w))
        in (True, \<lparr>rw_max = counter, rw_win = win[0 := win ! 0 OR 1]\<rparr>)
      else
        let diff = rw_max w - counter in
        if 512 \<le> diff then (False, w)
        else let word = unat (diff div 64); mask = push_bit (unat (diff mod 64)) 1 in
          if rw_win w ! word AND mask \<noteq> 0 then (False, w)
          else (True, w\<lparr>rw_win := (rw_win w)[word := rw_win w ! word OR mask]\<rparr>))"

section \<open>The shift loop\<close>

lemma length_shift_loop [simp]: "length (shift_loop ws bs n w) = length w"
  by (induction n arbitrary: w) simp_all

lemma shift_word_update: "j < i \<Longrightarrow> shift_word ws bs j (w[i := v]) = shift_word ws bs j w"
  by (simp add: shift_word_def Let_def)

lemma shift_loop_nth:
  "n \<le> length w \<Longrightarrow> j < length w \<Longrightarrow>
     shift_loop ws bs n w ! j = (if j < n then shift_word ws bs j w else w ! j)"
proof (induction n arbitrary: w)
  case 0
  then show ?case by simp
next
  case (Suc n)
  then have "shift_loop ws bs n (w[n := shift_word ws bs n w]) ! j =
      (if j < n then shift_word ws bs j (w[n := shift_word ws bs n w])
       else w[n := shift_word ws bs n w] ! j)"
    by simp
  with Suc.prems show ?case by (auto simp: shift_word_update nth_list_update less_Suc_eq)
qed

text \<open>Bit \<open>d\<close> of the window, counted from the greatest counter back.\<close>

definition win_bit :: "64 word list \<Rightarrow> nat \<Rightarrow> bool" where
  "win_bit w d = bit (w ! (d div 64)) (d mod 64)"

lemma win_bit_shift_word:
  assumes b: "b < 64" and bs: "bs < 64" and s: "s = 64 * ws + bs" and d: "d = 64 * i + b"
  shows "bit (shift_word ws bs i w) b \<longleftrightarrow> s \<le> d \<and> win_bit w (d - s)"
proof (cases "i < ws")
  case True
  then have "d < s" using assms by linarith
  with True show ?thesis by (simp add: shift_word_def)
next
  case False
  define src where "src = i - ws"
  have i: "i = ws + src" using False by (simp add: src_def)
  show ?thesis
  proof (cases "bs \<le> b")
    case True
    then have sd: "s \<le> d" and ds: "d - s = 64 * src + (b - bs)" using s d i by simp_all
    have "win_bit w (d - s) = bit (w ! src) (b - bs)"
      using b by (simp add: win_bit_def ds)
    moreover have "0 < bs \<Longrightarrow> \<not> bit (drop_bit (64 - bs) (w ! (src - 1))) b"
      using True b bit_imp_le_length [of "w ! (src - 1)" "64 - bs + b"] by (auto simp: bit_simps)
    ultimately show ?thesis
      using False True b sd by (auto simp: shift_word_def Let_def src_def [symmetric] bit_simps)
  next
    case lt: False
    show ?thesis
    proof (cases "src = 0")
      case True
      then have "d < s" using s d i lt by simp
      with False lt b show ?thesis
        by (auto simp: shift_word_def Let_def src_def [symmetric] True bit_simps)
    next
      case sp: False
      then obtain m where m: "src = Suc m" by (cases src) auto
      have sd: "s \<le> d" and ds: "d - s = 64 * m + (64 + b - bs)" using s d i lt bs m by simp_all
      have "64 + b - bs < 64" using lt by simp
      then have "win_bit w (d - s) = bit (w ! m) (64 + b - bs)"
        by (simp add: win_bit_def ds)
      moreover have "64 - bs + b = 64 + b - bs" using bs by simp
      ultimately show ?thesis
        using False lt b sd m by (auto simp: shift_word_def Let_def src_def [symmetric] bit_simps)
    qed
  qed
qed

lemma win_bit_shift_loop:
  assumes "length w = 8" and "d < 512"
  shows "win_bit (shift_loop (s div 64) (s mod 64) 8 w) d \<longleftrightarrow> s \<le> d \<and> win_bit w (d - s)"
proof -
  have "d div 64 < 8" using assms by (simp add: less_mult_imp_div_less)
  then have "win_bit (shift_loop (s div 64) (s mod 64) 8 w) d =
      bit (shift_word (s div 64) (s mod 64) (d div 64) w) (d mod 64)"
    using assms by (simp add: win_bit_def shift_loop_nth)
  also have "\<dots> \<longleftrightarrow> s \<le> d \<and> win_bit w (d - s)"
    by (rule win_bit_shift_word) simp_all
  finally show ?thesis .
qed

lemma win_bit_set:
  assumes "length w = 8" and "d < 512" and "e < 512"
  shows "win_bit (w[e div 64 := w ! (e div 64) OR 2 ^ (e mod 64)]) d \<longleftrightarrow> d = e \<or> win_bit w d"
proof -
  have "d div 64 < 8" "e div 64 < 8" using assms by (simp_all add: less_mult_imp_div_less)
  moreover have "d = e \<longleftrightarrow> d div 64 = e div 64 \<and> d mod 64 = e mod 64"
    by (metis div_mult_mod_eq)
  ultimately show ?thesis
    using assms by (auto simp: win_bit_def nth_list_update bit_simps)
qed

lemma win_bit_mask:
  "(w ! (e div 64) AND 2 ^ (e mod 64) = 0) \<longleftrightarrow> \<not> win_bit w e" for w :: "64 word list"
  by (simp add: win_bit_def and_exp_eq_0_iff_not_bit)

section \<open>The abstract filter\<close>

text \<open>The contract: the greatest counter accepted and the accepted counters within 512 of it.\<close>

type_synonym replay_spec = "nat \<times> nat set"

definition spec_accepts :: "replay_spec \<Rightarrow> nat \<Rightarrow> bool" where
  "spec_accepts s c \<longleftrightarrow> c \<noteq> 0 \<and> (fst s < c \<or> fst s - c < 512 \<and> c \<notin> snd s)"

definition spec_step :: "replay_spec \<Rightarrow> nat \<Rightarrow> replay_spec" where
  "spec_step s c =
     (if spec_accepts s c then (max (fst s) c, {x \<in> insert c (snd s). max (fst s) c - x < 512}) else s)"

definition replay_abs :: "replay_window \<Rightarrow> replay_spec" where
  "replay_abs w = (unat (rw_max w),
     {c. c \<le> unat (rw_max w) \<and> unat (rw_max w) - c < 512 \<and> win_bit (rw_win w) (unat (rw_max w) - c)})"

definition replay_ok :: "replay_window \<Rightarrow> bool" where
  "replay_ok w \<longleftrightarrow> length (rw_win w) = 8"

lemma replay_ok_init [simp]: "replay_ok replay_init"
  by (simp add: replay_ok_def replay_init_def)

lemma replay_ok_check [simp]: "replay_ok w \<Longrightarrow> replay_ok (snd (replay_check w c))"
  by (simp add: replay_ok_def replay_check_def Let_def)

lemma replay_abs_init: "replay_abs replay_init = (0, {})"
  by (auto simp: replay_abs_def replay_init_def win_bit_def)

lemma unat_diff: "b \<le> a \<Longrightarrow> unat (a - b) = unat a - unat b" for a b :: "64 word"
  by (simp add: unat_sub_if_size word_le_nat_alt)

lemma replay_check_advance:
  assumes ok: "replay_ok w" and lt: "rw_max w < c"
  shows "fst (replay_check w c) \<and>
    replay_abs (snd (replay_check w c)) = (unat c, insert (unat c) {x \<in> snd (replay_abs w). unat c - x < 512})"
proof -
  let ?M = "unat (rw_max w)" let ?C = "unat c" let ?s = "?C - ?M"
  have c0: "c \<noteq> 0" using lt by auto
  have MC: "?M < ?C" using lt by (simp add: word_less_nat_alt)
  have sh: "unat (c - rw_max w) = ?s" using lt by (simp add: unat_diff)
  have div: "unat ((c - rw_max w) div 64) = ?s div 64" "unat ((c - rw_max w) mod 64) = ?s mod 64"
    by (simp_all add: unat_div unat_mod sh)
  have big: "512 \<le> c - rw_max w \<longleftrightarrow> 512 \<le> ?s" by (simp add: word_le_nat_alt sh)
  define win where "win = (if 512 \<le> ?s then replicate 8 0
      else shift_loop (?s div 64) (?s mod 64) 8 (rw_win w))"
  have lw: "length win = 8" using ok by (simp add: win_def replay_ok_def)
  have wb: "win_bit win d \<longleftrightarrow> ?s < 512 \<and> ?s \<le> d \<and> win_bit (rw_win w) (d - ?s)" if "d < 512" for d
  proof (cases "512 \<le> ?s")
    case True
    have "d div 64 < 8" using that by (simp add: less_mult_imp_div_less)
    with True show ?thesis by (simp add: win_def win_bit_def)
  next
    case False
    with that ok show ?thesis by (simp add: win_def replay_ok_def win_bit_shift_loop)
  qed
  have eq: "replay_check w c = (True, \<lparr>rw_max = c, rw_win = win[0 := win ! 0 OR 1]\<rparr>)"
    using c0 lt by (simp add: replay_check_def Let_def big div win_def)
  have set0: "win_bit (win[0 := win ! 0 OR 1]) d \<longleftrightarrow> d = 0 \<or> win_bit win d" if "d < 512" for d
    using win_bit_set [OF lw that, of 0] by simp
  have "{x. x \<le> ?C \<and> ?C - x < 512 \<and> win_bit (win[0 := win ! 0 OR 1]) (?C - x)} =
      insert ?C {x \<in> snd (replay_abs w). ?C - x < 512}" (is "?L = ?R")
  proof (rule set_eqI)
    fix x
    have idx: "x \<le> ?M \<Longrightarrow> ?C - x - ?s = ?M - x" using MC by simp
    have "x \<in> ?L \<longleftrightarrow> x = ?C \<or> x \<le> ?C \<and> ?C - x < 512 \<and> ?s < 512 \<and> ?s \<le> ?C - x \<and>
        win_bit (rw_win w) (?C - x - ?s)"
      by (auto simp: set0 wb)
    also have "\<dots> \<longleftrightarrow> x = ?C \<or> x \<le> ?M \<and> ?C - x < 512 \<and> win_bit (rw_win w) (?M - x)"
      using MC idx by auto
    also have "\<dots> \<longleftrightarrow> x \<in> ?R" using MC by (auto simp: replay_abs_def)
    finally show "x \<in> ?L \<longleftrightarrow> x \<in> ?R" .
  qed
  then show ?thesis by (simp add: eq replay_abs_def)
qed

lemma replay_check_inside:
  assumes ok: "replay_ok w" and c0: "c \<noteq> 0" and le: "c \<le> rw_max w"
  shows "(fst (replay_check w c) \<longleftrightarrow> unat (rw_max w) - unat c < 512 \<and> unat c \<notin> snd (replay_abs w)) \<and>
    replay_abs (snd (replay_check w c)) =
      (if fst (replay_check w c) then (unat (rw_max w), insert (unat c) (snd (replay_abs w)))
       else replay_abs w)"
proof -
  let ?M = "unat (rw_max w)" let ?C = "unat c" let ?d = "?M - ?C"
  have CM: "?C \<le> ?M" using le by (simp add: word_le_nat_alt)
  have df: "unat (rw_max w - c) = ?d" using le by (simp add: unat_diff)
  have div: "unat ((rw_max w - c) div 64) = ?d div 64" "unat ((rw_max w - c) mod 64) = ?d mod 64"
    by (simp_all add: unat_div unat_mod df)
  have big: "512 \<le> rw_max w - c \<longleftrightarrow> 512 \<le> ?d" by (simp add: word_le_nat_alt df)
  show ?thesis
  proof (cases "?d < 512")
    case False
    with c0 le show ?thesis by (simp add: replay_check_def Let_def big not_less)
  next
    case True
    let ?w' = "(rw_win w)[?d div 64 := rw_win w ! (?d div 64) OR 2 ^ (?d mod 64)]"
    have eq: "replay_check w c = (if win_bit (rw_win w) ?d then (False, w) else (True, w\<lparr>rw_win := ?w'\<rparr>))"
      using c0 True leD [OF le] by (simp add: replay_check_def Let_def big div win_bit_mask)
    have "{x. x \<le> ?M \<and> ?M - x < 512 \<and> win_bit ?w' (?M - x)} = insert ?C (snd (replay_abs w))"
      using ok True CM by (auto simp: win_bit_set replay_ok_def replay_abs_def)
    then show ?thesis using True CM by (simp add: eq replay_abs_def)
  qed
qed

text \<open>The refinement: verdict and state of the code are those of the abstract filter.\<close>

lemma replay_refines:
  assumes ok: "replay_ok w"
  shows "fst (replay_check w c) = spec_accepts (replay_abs w) (unat c) \<and>
    replay_abs (snd (replay_check w c)) = spec_step (replay_abs w) (unat c)"
proof -
  have M: "fst (replay_abs w) = unat (rw_max w)" by (simp add: replay_abs_def)
  have near: "x \<in> snd (replay_abs w) \<Longrightarrow> unat (rw_max w) - x < 512" for x by (simp add: replay_abs_def)
  consider "c = 0" | "c \<noteq> 0" "rw_max w < c" | "c \<noteq> 0" "c \<le> rw_max w" by force
  then show ?thesis
  proof cases
    case 1
    then show ?thesis by (simp add: replay_check_def spec_accepts_def spec_step_def)
  next
    case 2
    then have lt: "unat (rw_max w) < unat c" and c0: "unat c \<noteq> 0"
      by (simp_all add: word_less_nat_alt unat_eq_zero)
    then have acc: "spec_accepts (replay_abs w) (unat c)" by (simp add: spec_accepts_def M)
    have "spec_step (replay_abs w) (unat c) =
        (unat c, insert (unat c) {x \<in> snd (replay_abs w). unat c - x < 512})"
      using lt by (auto simp: spec_step_def acc M)
    with replay_check_advance [OF ok 2(2)] acc show ?thesis by simp
  next
    case 3
    then have le: "unat c \<le> unat (rw_max w)" and c0: "unat c \<noteq> 0"
      by (simp_all add: word_le_nat_alt unat_eq_zero)
    have acc: "spec_accepts (replay_abs w) (unat c) \<longleftrightarrow> fst (replay_check w c)"
      using replay_check_inside [OF ok 3] le c0 by (simp add: spec_accepts_def M)
    show ?thesis
    proof (cases "fst (replay_check w c)")
      case True
      then have "unat (rw_max w) - unat c < 512" using replay_check_inside [OF ok 3] by simp
      then have "spec_step (replay_abs w) (unat c) = (unat (rw_max w), insert (unat c) (snd (replay_abs w)))"
        using acc True le near by (auto simp: spec_step_def M max_def)
      with True acc replay_check_inside [OF ok 3] show ?thesis by simp
    next
      case False
      with acc have "spec_step (replay_abs w) (unat c) = replay_abs w" by (simp add: spec_step_def)
      moreover have "replay_abs (snd (replay_check w c)) = replay_abs w"
        using replay_check_inside [OF ok 3, THEN conjunct2] False by (simp only: if_False)
      ultimately show ?thesis using False acc by simp
    qed
  qed
qed

section \<open>The interface of \<open>Cipher.Open\<close>\<close>

text \<open>
  What a replay filter promises its client: it refuses exactly the dead values, a value it accepts is
  dead afterwards, and dead values stay dead.
\<close>

locale replay_filter =
  fixes check :: "'w \<Rightarrow> 'c \<Rightarrow> bool \<times> 'w" and dead :: "'w \<Rightarrow> 'c set" and ok :: "'w \<Rightarrow> bool"
  assumes accepts_iff: "ok w \<Longrightarrow> fst (check w c) \<longleftrightarrow> c \<notin> dead w"
    and accepted_dead: "ok w \<Longrightarrow> fst (check w c) \<Longrightarrow> c \<in> dead (snd (check w c))"
    and dead_stays: "ok w \<Longrightarrow> x \<in> dead w \<Longrightarrow> x \<in> dead (snd (check w c))"
    and ok_check: "ok w \<Longrightarrow> ok (snd (check w c))"
begin

primrec accepted :: "'w \<Rightarrow> 'c list \<Rightarrow> 'c list" where
  "accepted w [] = []"
| "accepted w (c # cs) = (if fst (check w c) then [c] else []) @ accepted (snd (check w c)) cs"

lemma accepted_not_dead: "ok w \<Longrightarrow> set (accepted w cs) \<inter> dead w = {}"
proof (induction cs arbitrary: w)
  case (Cons c cs)
  then have "set (accepted (snd (check w c)) cs) \<inter> dead (snd (check w c)) = {}"
    by (simp add: ok_check)
  with Cons.prems show ?case using accepts_iff dead_stays by fastforce
qed simp

lemma accepted_distinct: "ok w \<Longrightarrow> distinct (accepted w cs)"
proof (induction cs arbitrary: w)
  case (Cons c cs)
  then have "distinct (accepted (snd (check w c)) cs)" by (simp add: ok_check)
  moreover have "c \<notin> set (accepted (snd (check w c)) cs)" if "fst (check w c)"
    using accepted_not_dead [OF ok_check [OF Cons.prems]] accepted_dead [OF Cons.prems that] by blast
  ultimately show ?case by simp
qed simp

lemma second_refused: "ok w \<Longrightarrow> fst (check w c) \<Longrightarrow> \<not> fst (check (snd (check w c)) c)"
  by (simp add: accepted_dead accepts_iff ok_check)

end

definition replay_dead :: "replay_window \<Rightarrow> 64 word set" where
  "replay_dead w = {c. \<not> spec_accepts (replay_abs w) (unat c)}"

lemma spec_accepts_mono:
  assumes "\<not> spec_accepts s x" and "\<forall>y \<in> snd s. y \<le> fst s"
  shows "\<not> spec_accepts (spec_step s c) x"
  using assms by (auto simp: spec_accepts_def spec_step_def max_def)

lemma spec_step_refuses: "spec_accepts s c \<Longrightarrow> \<not> spec_accepts (spec_step s c) c"
  by (auto simp: spec_accepts_def spec_step_def max_def)

interpretation window: replay_filter replay_check replay_dead replay_ok
proof
  fix w c x
  assume ok: "replay_ok w"
  show "fst (replay_check w c) \<longleftrightarrow> c \<notin> replay_dead w"
    using replay_refines [OF ok] by (simp add: replay_dead_def)
  show "fst (replay_check w c) \<Longrightarrow> c \<in> replay_dead (snd (replay_check w c))"
    using replay_refines [OF ok] by (simp add: replay_dead_def spec_step_refuses)
  show "x \<in> replay_dead w \<Longrightarrow> x \<in> replay_dead (snd (replay_check w c))"
    using replay_refines [OF ok] spec_accepts_mono [of "replay_abs w" "unat x" "unat c"]
    by (auto simp: replay_dead_def replay_abs_def)
  show "replay_ok (snd (replay_check w c))" using ok by simp
qed

interpretation window_machine: machine replay_init "\<lambda>w c. snd (replay_check w c)" replay_ok
  by unfold_locales simp_all

text \<open>A whole run of \<open>Check\<close> calls, next to the run of the specification.\<close>

lemma window_run_refines:
  "replay_ok w \<Longrightarrow> replay_abs (foldl (\<lambda>w c. snd (replay_check w c)) w cs) =
     foldl spec_step (replay_abs w) (map unat cs)"
  by (induction cs arbitrary: w) (simp_all add: replay_refines)

end
