(* ===== verification/Crypto.thy ===== *)
theory Crypto
  imports Replay "HOL-Library.List_Lexorder" "HOL-Library.Char_ord"
begin

text \<open>
  \<open>Cipher\<close> of \<open>internal/crypto/crypto.go\<close>: the sealed packet layout, the send counter, the
  order of the checks in \<open>Open\<close> and the pairwise key derivation. AES-128-GCM, SHA-256 and HKDF are
  parameters; \<open>aead_law\<close> states what the code relies on of GCM.
\<close>

section \<open>The primitives the code calls\<close>

text \<open>\<open>seal key nonce plaintext aad\<close> and \<open>open key nonce ciphertext aad\<close> of \<open>cipher.AEAD\<close>.\<close>

type_synonym aead_seal = "bytes \<Rightarrow> bytes \<Rightarrow> bytes \<Rightarrow> bytes \<Rightarrow> bytes"
type_synonym aead_open = "bytes \<Rightarrow> bytes \<Rightarrow> bytes \<Rightarrow> bytes \<Rightarrow> bytes option"

text \<open>GCM: opening a sealed text gives the plaintext back, and sealing adds a 16-byte tag.\<close>

definition aead_law :: "aead_seal \<Rightarrow> aead_open \<Rightarrow> bool" where
  "aead_law aseal aopen \<longleftrightarrow>
     (\<forall>k n p a. aopen k n (aseal k n p a) a = Some p \<and> length (aseal k n p a) = length p + 16)"

section \<open>The cipher\<close>

record cipher =
  c_key :: bytes
  c_counter :: "64 word"
  c_peer :: "32 word"
  c_salt :: bytes

datatype crypto_error = KeyTooShort | TokenEmpty | PacketTooShort nat | Replayed | DecryptFailed

definition CryptoHeaderSize :: nat where "CryptoHeaderSize = 24"
definition TagSize :: nat where "TagSize = 16"
definition MinPktSize :: nat where "MinPktSize = CryptoHeaderSize + TagSize"

lemmas crypto_sizes = CryptoHeaderSize_def TagSize_def MinPktSize_def

text \<open>The session salt is drawn from \<open>crypto/rand\<close>: an argument.\<close>

definition new_cipher :: "bytes \<Rightarrow> bytes \<Rightarrow> 32 word \<Rightarrow> crypto_error + cipher" where
  "new_cipher salt key peer =
     (if length key < 16 then Inl KeyTooShort
      else Inr \<lparr>c_key = take 16 key, c_counter = 0, c_peer = peer, c_salt = salt\<rparr>)"

definition seal_nonce :: "64 word \<Rightarrow> bytes \<Rightarrow> bytes" where
  "seal_nonce cnt salt = put64 cnt @ salt"

definition seal_packet :: "aead_seal \<Rightarrow> cipher \<Rightarrow> bytes \<Rightarrow> cipher \<times> bytes" where
  "seal_packet aseal c plain =
     (let cnt = c_counter c + 1; nonce = seal_nonce cnt (c_salt c); peer = put32 (c_peer c)
      in (c\<lparr>c_counter := cnt\<rparr>, peer @ put64 cnt @ nonce @ aseal (c_key c) nonce plain peer))"

definition open_packet ::
  "aead_open \<Rightarrow> cipher \<Rightarrow> bytes \<Rightarrow> replay_window \<Rightarrow> (crypto_error + bytes) \<times> replay_window" where
  "open_packet aopen c pkt w =
     (if length pkt < MinPktSize then (Inl (PacketTooShort (length pkt)), w)
      else
        let cnt = get64 (slice 4 12 pkt);
            nonce = slice 12 24 pkt;
            (fresh, w') = replay_check w cnt
        in if \<not> fresh then (Inl Replayed, w')
           else case aopen (c_key c) nonce (drop CryptoHeaderSize pkt) (slice 0 4 pkt) of
                  None \<Rightarrow> (Inl DecryptFailed, w')
                | Some plain \<Rightarrow> (Inr plain, w'))"

definition packet_counter :: "bytes \<Rightarrow> 64 word" where
  "packet_counter pkt = get64 (slice 4 12 pkt)"

definition cipher_ok :: "cipher \<Rightarrow> bool" where
  "cipher_ok c \<longleftrightarrow> length (c_salt c) = 4 \<and> length (c_key c) = 16"

lemma new_cipher_ok: "new_cipher salt key peer = Inr c \<Longrightarrow> length salt = 4 \<Longrightarrow> cipher_ok c"
  by (auto simp: new_cipher_def cipher_ok_def split: if_splits)

lemma seal_packet_cipher [simp]:
  "c_key (fst (seal_packet aseal c p)) = c_key c" "c_salt (fst (seal_packet aseal c p)) = c_salt c"
  "c_peer (fst (seal_packet aseal c p)) = c_peer c"
  "c_counter (fst (seal_packet aseal c p)) = c_counter c + 1"
  by (simp_all add: seal_packet_def Let_def)

lemma cipher_ok_seal [simp]: "cipher_ok (fst (seal_packet aseal c p)) = cipher_ok c"
  by (simp add: cipher_ok_def)

section \<open>Layout of a sealed packet\<close>

lemma seal_packet_parts:
  fixes aseal :: aead_seal and p :: bytes
  assumes "cipher_ok c"
  defines "pkt \<equiv> snd (seal_packet aseal c p)"
  defines "cnt \<equiv> c_counter c + 1"
  shows "slice 0 4 pkt = put32 (c_peer c)" and "slice 4 12 pkt = put64 cnt"
    and "slice 12 24 pkt = seal_nonce cnt (c_salt c)"
    and "drop 24 pkt = aseal (c_key c) (seal_nonce cnt (c_salt c)) p (put32 (c_peer c))"
  using assms(1)
  by (simp_all add: pkt_def cnt_def seal_packet_def seal_nonce_def cipher_ok_def Let_def slice_append_over)

lemma length_seal_packet:
  assumes "aead_law aseal aopen" and "cipher_ok c"
  shows "length (snd (seal_packet aseal c p)) = length p + 40"
  using assms by (simp add: seal_packet_def seal_nonce_def cipher_ok_def aead_law_def Let_def)

section \<open>Opening what was sealed\<close>

text \<open>
  A packet whose 64-bit counter field is replaced: the receiver takes the counter it checks against
  the window from these bytes, and the nonce from the bytes after them.
\<close>

definition with_counter :: "64 word \<Rightarrow> bytes \<Rightarrow> bytes" where
  "with_counter cnt pkt = slice 0 4 pkt @ put64 cnt @ drop 12 pkt"

lemma with_counter_parts:
  assumes "24 \<le> length pkt"
  shows "slice 0 4 (with_counter cnt pkt) = slice 0 4 pkt" and "packet_counter (with_counter cnt pkt) = cnt"
    and "slice 12 24 (with_counter cnt pkt) = slice 12 24 pkt"
    and "drop 24 (with_counter cnt pkt) = drop 24 pkt" and "length (with_counter cnt pkt) = length pkt"
  using assms by (simp_all add: with_counter_def packet_counter_def, simp add: slice_def)

lemma open_with_counter:
  assumes law: "aead_law aseal aopen" and c: "cipher_ok c" and d: "c_key d = c_key c"
    and fresh: "fst (replay_check w cnt)"
  shows "open_packet aopen d (with_counter cnt (snd (seal_packet aseal c p))) w =
    (Inr p, snd (replay_check w cnt))"
proof -
  let ?pkt = "snd (seal_packet aseal c p)"
  have len: "length ?pkt = length p + 40" by (rule length_seal_packet [OF law c])
  have c24: "24 \<le> length ?pkt" by (simp add: len)
  note parts = with_counter_parts [OF c24, unfolded packet_counter_def]
  have "aopen (c_key c) (slice 12 24 ?pkt) (drop 24 ?pkt) (slice 0 4 ?pkt) = Some p"
    using law unfolding seal_packet_parts [OF c] aead_law_def by blast
  with fresh len d show ?thesis
    by (cases "replay_check w cnt") (simp add: open_packet_def crypto_sizes parts Let_def)
qed

lemma with_own_counter:
  assumes "cipher_ok c" and "aead_law aseal aopen"
  shows "with_counter (c_counter c + 1) (snd (seal_packet aseal c p)) = snd (seal_packet aseal c p)"
  using assms by (simp add: with_counter_def seal_packet_def seal_nonce_def Let_def cipher_ok_def) 

lemma open_seal:
  assumes "aead_law aseal aopen" and "cipher_ok c" and "c_key d = c_key c"
    and "fst (replay_check w (c_counter c + 1))"
  shows "open_packet aopen d (snd (seal_packet aseal c p)) w =
    (Inr p, snd (replay_check w (c_counter c + 1)))"
  using open_with_counter [OF assms] with_own_counter [OF assms(2,1)] by simp

text \<open>A whole stream: sealed in order by one cipher, opened in order, nothing is lost.\<close>

fun seal_all :: "aead_seal \<Rightarrow> cipher \<Rightarrow> bytes list \<Rightarrow> bytes list" where
  "seal_all aseal c [] = []"
| "seal_all aseal c (p # ps) =
     (let (c', pkt) = seal_packet aseal c p in pkt # seal_all aseal c' ps)"

fun open_all :: "aead_open \<Rightarrow> cipher \<Rightarrow> replay_window \<Rightarrow> bytes list \<Rightarrow> (crypto_error + bytes) list" where
  "open_all aopen c w [] = []"
| "open_all aopen c w (pkt # pkts) =
     (let (r, w') = open_packet aopen c pkt w in r # open_all aopen c w' pkts)"

lemma check_next_fresh:
  assumes "rw_max w < cnt"
  shows "fst (replay_check w cnt)" and "rw_max (snd (replay_check w cnt)) = cnt"
  using assms by (auto simp: replay_check_def Let_def)

lemma open_seal_all:
  assumes law: "aead_law aseal aopen"
  shows "cipher_ok c \<Longrightarrow> c_key d = c_key c \<Longrightarrow> rw_max w = c_counter c \<Longrightarrow>
    unat (c_counter c) + length ps < 2 ^ 64 \<Longrightarrow>
    open_all aopen d w (seal_all aseal c ps) = map Inr ps"
proof (induction ps arbitrary: c w)
  case Nil
  then show ?case by simp
next
  case (Cons p ps)
  have u: "unat (c_counter c + 1) = unat (c_counter c) + 1"
    using Cons.prems(4) by (simp add: unat_word_ariths)
  then have lt: "rw_max w < c_counter c + 1" using Cons.prems(3) by (simp add: word_less_nat_alt)
  let ?c = "fst (seal_packet aseal c p)" let ?w = "snd (replay_check w (c_counter c + 1))"
  have "open_packet aopen d (snd (seal_packet aseal c p)) w = (Inr p, ?w)"
    using Cons.prems check_next_fresh [OF lt] by (intro open_seal [OF law]) auto
  moreover have "open_all aopen d ?w (seal_all aseal ?c ps) = map Inr ps"
    using Cons.prems check_next_fresh [OF lt] u by (intro Cons.IH) auto
  ultimately show ?case by (simp add: case_prod_beta Let_def)
qed

section \<open>The window is consulted before the tag\<close>

text \<open>
  \<open>Open\<close> marks the counter before it verifies anything: the window after a packet that does not
  decrypt is the window after one that does.
\<close>

lemma open_packet_window:
  "snd (open_packet aopen c pkt w) =
     (if length pkt < MinPktSize then w else snd (replay_check w (packet_counter pkt)))"
  by (auto simp: open_packet_def packet_counter_def Let_def split: prod.split option.split)

lemma open_packet_Inr_fresh:
  "fst (open_packet aopen c pkt w) = Inr p \<Longrightarrow> fst (replay_check w (packet_counter pkt))"
  by (auto simp: open_packet_def packet_counter_def Let_def split: prod.splits option.splits if_splits)

lemma replay_ok_open [simp]: "replay_ok w \<Longrightarrow> replay_ok (snd (open_packet aopen c pkt w))"
  by (simp add: open_packet_window)

lemma replay_check_max_refuses:
  assumes ok: "replay_ok w" and m: "rw_max w = - 1" and c: "unat c + 512 < 2 ^ 64"
  shows "\<not> fst (replay_check w c)"
proof (cases "c = 0")
  case False
  have "unat (- 1 :: 64 word) = 2 ^ 64 - 1"
    by (simp add: unsigned_minus_1_eq_mask mask_eq_exp_minus_1)
  moreover have "\<not> 2 ^ 64 - 1 - unat c < (512 :: nat)" using c by linarith
  ultimately show ?thesis using replay_check_inside [OF ok False] m by simp
qed (simp add: replay_check_def)

text \<open>The counters of the packets \<open>Open\<close> hands out, over a run of calls on one window.\<close>

fun opened_counters :: "aead_open \<Rightarrow> cipher \<Rightarrow> replay_window \<Rightarrow> bytes list \<Rightarrow> 64 word list" where
  "opened_counters aopen c w [] = []"
| "opened_counters aopen c w (pkt # pkts) =
     (case open_packet aopen c pkt w of (r, w') \<Rightarrow>
        (case r of Inl _ \<Rightarrow> [] | Inr _ \<Rightarrow> [packet_counter pkt]) @ opened_counters aopen c w' pkts)"

lemma open_packet_dead:
  assumes "replay_ok w" and "open_packet aopen c pkt w = (r, w')"
  shows "replay_ok w'" and "replay_dead w \<subseteq> replay_dead w'"
    and "r = Inr p \<Longrightarrow> packet_counter pkt \<in> replay_dead w' - replay_dead w"
proof -
  have w': "w' = (if length pkt < MinPktSize then w else snd (replay_check w (packet_counter pkt)))"
    using open_packet_window [of aopen c pkt w] assms(2) by simp
  show "replay_ok w'" using assms(1) w' by simp
  show "replay_dead w \<subseteq> replay_dead w'" using assms(1) w' window.dead_stays by auto
  show "packet_counter pkt \<in> replay_dead w' - replay_dead w" if "r = Inr p"
  proof -
    have "fst (open_packet aopen c pkt w) = Inr p" using that assms(2) by simp
    then have "fst (replay_check w (packet_counter pkt))" "\<not> length pkt < MinPktSize"
      using open_packet_Inr_fresh by (auto simp: open_packet_def split: if_splits)
    then show ?thesis using w' assms(1) window.accepts_iff window.accepted_dead by auto
  qed
qed

lemma opened_counters_distinct:
  "replay_ok w \<Longrightarrow> distinct (opened_counters aopen c w pkts) \<and>
     set (opened_counters aopen c w pkts) \<inter> replay_dead w = {}"
proof (induction pkts arbitrary: w)
  case (Cons pkt pkts)
  obtain r w' where o: "open_packet aopen c pkt w = (r, w')" by fastforce
  note d = open_packet_dead [OF Cons.prems o]
  have "distinct (opened_counters aopen c w' pkts) \<and>
      set (opened_counters aopen c w' pkts) \<inter> replay_dead w' = {}"
    by (rule Cons.IH [OF d(1)])
  with d show ?case by (cases r) (auto simp: o)
qed simp

section \<open>The pairwise key\<close>

text \<open>\<open>sha\<close> is \<open>sha256.Sum256\<close>; \<open>hkdf master info\<close> reads 16 bytes of HKDF-SHA256 with no salt.\<close>

definition derive_key ::
  "(bytes \<Rightarrow> bytes) \<Rightarrow> (bytes \<Rightarrow> bytes \<Rightarrow> bytes) \<Rightarrow> string \<Rightarrow> string \<Rightarrow> string \<Rightarrow> string \<Rightarrow> crypto_error + bytes"
where
  "derive_key sha hkdf token network name_a name_b =
     (if token = '''' then Inl TokenEmpty
      else let (a, b) = (if name_b < name_a then (name_b, name_a) else (name_a, name_b));
               info = ''myvpn-tunnel:'' @ network @ '':'' @ a @ '':'' @ b
           in Inr (hkdf (sha (str_bytes token)) (str_bytes info)))"

lemma derive_key_commute:
  "derive_key sha hkdf token network a b = derive_key sha hkdf token network b a"
  using less_linear [of a b] by (auto simp: derive_key_def Let_def)

lemma derive_key_error: "derive_key sha hkdf token network a b = Inl e \<longleftrightarrow> token = '''' \<and> e = TokenEmpty"
  by (auto simp: derive_key_def Let_def split: prod.split)

end
