(* ===== verification/GoNet.thy ===== *)
theory GoNet
  imports Prelude
begin

text \<open>
  The parts of Go's standard library that the program computes addresses and numbers with:
  \<open>net.SplitHostPort\<close> and \<open>net.JoinHostPort\<close>, \<open>strconv.Atoi\<close>, \<open>Itoa\<close> and \<open>ParseUint\<close>,
  \<open>strings.ToLower\<close>, \<open>Contains\<close>, \<open>Trim\<close> and \<open>Split\<close> on ASCII strings, and the program's own
  address helpers built from them: \<open>deriveSecondaryAddr\<close> (server and client), \<open>ServerHost\<close>,
  \<open>samePort\<close> and \<open>remapPort\<close>.
\<close>

section \<open>Searching strings\<close>

fun index_byte :: "char \<Rightarrow> string \<Rightarrow> nat option" where
  "index_byte c [] = None"
| "index_byte c (x # xs) = (if x = c then Some 0 else map_option Suc (index_byte c xs))"

definition last_index_byte :: "char \<Rightarrow> string \<Rightarrow> nat option" where
  "last_index_byte c s = map_option (\<lambda>i. length s - Suc i) (index_byte c (rev s))"

lemma index_byte_None [simp]: "index_byte c s = None \<longleftrightarrow> c \<notin> set s"
  by (induction s) auto

lemma index_byte_append:
  "c \<notin> set xs \<Longrightarrow> index_byte c (xs @ c # ys) = Some (length xs)"
  by (induction xs) auto

lemma last_index_byte_append:
  "c \<notin> set ys \<Longrightarrow> last_index_byte c (xs @ c # ys) = Some (length xs)"
  using index_byte_append [of c "rev ys" "rev xs"] by (simp add: last_index_byte_def)

lemma last_index_byte_None [simp]: "last_index_byte c s = None \<longleftrightarrow> c \<notin> set s"
  by (simp add: last_index_byte_def)

lemma index_byte_SomeD:
  "index_byte c s = Some i \<Longrightarrow> i < length s \<and> s ! i = c \<and> c \<notin> set (take i s)"
  by (induction s arbitrary: i) (auto split: if_splits)

lemma last_index_byte_SomeD:
  assumes "last_index_byte c s = Some i"
  shows "i < length s \<and> s ! i = c \<and> c \<notin> set (drop (Suc i) s)"
proof -
  from assms obtain j where j: "index_byte c (rev s) = Some j" "i = length s - Suc j"
    by (auto simp: last_index_byte_def)
  from index_byte_SomeD [OF j(1)] have "j < length s" "rev s ! j = c" "c \<notin> set (take j (rev s))"
    by simp_all
  moreover from this j(2) have "Suc i = length s - j" by simp
  ultimately show ?thesis using j(2) by (auto simp: rev_nth take_rev)
qed

section \<open>Host and port\<close>

datatype addr_error = MissingPort | TooManyColons | MissingBracket | UnexpectedOpen | UnexpectedClose

definition split_rest ::
  "string \<Rightarrow> nat \<Rightarrow> string \<Rightarrow> nat \<Rightarrow> nat \<Rightarrow> addr_error + string \<times> string" where
  "split_rest hp i host j k =
     (if CHR ''['' \<in> set (drop j hp) then Inl UnexpectedOpen
      else if CHR '']'' \<in> set (drop k hp) then Inl UnexpectedClose
      else Inr (host, drop (Suc i) hp))"

definition split_host_port :: "string \<Rightarrow> addr_error + string \<times> string" where
  "split_host_port hp =
     (case last_index_byte (CHR '':'') hp of
        None \<Rightarrow> Inl MissingPort
      | Some i \<Rightarrow>
          if hd hp = CHR ''['' then
            (case index_byte (CHR '']'') hp of
               None \<Rightarrow> Inl MissingBracket
             | Some e \<Rightarrow>
                 if Suc e = length hp then Inl MissingPort
                 else if Suc e = i then split_rest hp i (slice 1 e hp) 1 (Suc e)
                 else if hp ! Suc e = CHR '':'' then Inl TooManyColons
                 else Inl MissingPort)
          else if CHR '':'' \<in> set (take i hp) then Inl TooManyColons
          else split_rest hp i (take i hp) 0 0)"

definition join_host_port :: "string \<Rightarrow> string \<Rightarrow> string" where
  "join_host_port host port =
     (if CHR '':'' \<in> set host then ''['' @ host @ '']:'' @ port else host @ '':'' @ port)"

text \<open>The strings that survive a join and a split: a host without brackets, a port without them or a colon.\<close>

definition plain_host :: "string \<Rightarrow> bool" where
  "plain_host h \<longleftrightarrow> CHR ''['' \<notin> set h \<and> CHR '']'' \<notin> set h"

definition plain_port :: "string \<Rightarrow> bool" where
  "plain_port p \<longleftrightarrow> CHR '':'' \<notin> set p \<and> CHR ''['' \<notin> set p \<and> CHR '']'' \<notin> set p"

lemma split_join_host_port:
  assumes h: "plain_host host" and p: "plain_port port"
  shows "split_host_port (join_host_port host port) = Inr (host, port)"
proof (cases "CHR '':'' \<in> set host")
  case True
  let ?hp = "''['' @ host @ '']:'' @ port"
  have "last_index_byte (CHR '':'') ((''['' @ host @ '']'') @ CHR '':'' # port) = Some (length (''['' @ host @ '']''))"
    by (rule last_index_byte_append) (use p in \<open>simp add: plain_port_def\<close>)
  then have i: "last_index_byte (CHR '':'') ?hp = Some (length host + 2)" by simp
  have "index_byte (CHR '']'') ((''['' @ host) @ CHR '']'' # '':'' @ port) = Some (length (''['' @ host))"
    by (rule index_byte_append) (use h in \<open>simp add: plain_host_def\<close>)
  then have e: "index_byte (CHR '']'') ?hp = Some (length host + 1)" by simp
  have s: "slice 1 (length host + 1) ?hp = host" by (simp add: slice_def)
  show ?thesis
    using True h p i e s
    by (simp add: split_host_port_def join_host_port_def split_rest_def plain_host_def plain_port_def)
next
  case False
  have i: "last_index_byte (CHR '':'') (host @ CHR '':'' # port) = Some (length host)"
    by (rule last_index_byte_append) (use p in \<open>simp add: plain_port_def\<close>)
  have "hd (host @ CHR '':'' # port) \<noteq> CHR ''[''"
    using h by (cases host) (auto simp: plain_host_def)
  with False h p i show ?thesis
    by (simp add: split_host_port_def join_host_port_def split_rest_def plain_host_def plain_port_def)
qed

lemma split_host_port_port_no_colon:
  "split_host_port hp = Inr (h, p) \<Longrightarrow> CHR '':'' \<notin> set p"
  by (auto simp: split_host_port_def split_rest_def split: option.splits if_splits
      dest: last_index_byte_SomeD)

text \<open>A host that was split off has no brackets, so it can be joined again.\<close>

lemma split_host_port_plain:
  assumes "split_host_port hp = Inr (h, p)"
  shows "plain_host h"
proof -
  obtain i where i: "last_index_byte (CHR '':'') hp = Some i"
    using assms by (auto simp: split_host_port_def split: option.splits)
  show ?thesis
  proof (cases "hd hp = CHR ''[''")
    case True
    then obtain e where e: "index_byte (CHR '']'') hp = Some e" "h = slice 1 e hp" "CHR ''['' \<notin> set (drop 1 hp)"
      using assms i by (auto simp: split_host_port_def split_rest_def split: option.splits if_splits)
    have "set (slice 1 e hp) \<subseteq> set (drop 1 hp)" by (simp add: slice_def set_take_subset)
    moreover have "slice 1 e hp = drop 1 (take e hp)" by (simp add: slice_def drop_take)
    then have "set (slice 1 e hp) \<subseteq> set (take e hp)" by (metis set_drop_subset)
    ultimately show ?thesis using e index_byte_SomeD [OF e(1)] by (auto simp: plain_host_def)
  next
    case False
    then have "h = take i hp" "CHR ''['' \<notin> set hp" "CHR '']'' \<notin> set hp"
      using assms i by (auto simp: split_host_port_def split_rest_def split: if_splits)
    then show ?thesis using set_take_subset [of i hp] by (auto simp: plain_host_def)
  qed
qed

interpretation host_port: codec "\<lambda>(h, p). join_host_port h p"
  "\<lambda>s. case split_host_port s of Inl _ \<Rightarrow> None | Inr hp \<Rightarrow> Some hp"
  "\<lambda>(h, p). plain_host h \<and> plain_port p"
  by unfold_locales (auto simp: split_join_host_port)

section \<open>Decimal numbers\<close>

definition digit_char :: "nat \<Rightarrow> char" where
  "digit_char d = char_of (48 + d)"

definition char_digit :: "char \<Rightarrow> nat option" where
  "char_digit c = (if 48 \<le> (of_char c :: nat) \<and> (of_char c :: nat) \<le> 57 then Some (of_char c - 48) else None)"

fun nat_digits :: "nat \<Rightarrow> string" where
  "nat_digits n = (if n < 10 then [digit_char n] else nat_digits (n div 10) @ [digit_char (n mod 10)])"

declare nat_digits.simps [simp del]

definition itoa :: "int \<Rightarrow> string" where
  "itoa i = (if i < 0 then CHR ''-'' # nat_digits (nat (- i)) else nat_digits (nat i))"

fun digits_nat :: "nat \<Rightarrow> string \<Rightarrow> nat option" where
  "digits_nat acc [] = Some acc"
| "digits_nat acc (c # cs) =
     (case char_digit c of None \<Rightarrow> None | Some d \<Rightarrow> digits_nat (10 * acc + d) cs)"

text \<open>\<open>strconv.Atoi\<close>: an optional sign, at least one digit, a value that fits 64 bits.\<close>

definition atoi :: "string \<Rightarrow> int option" where
  "atoi s =
     (let (neg, ds) = (case s of c # cs \<Rightarrow> if c = CHR ''-'' then (True, cs)
                         else if c = CHR ''+'' then (False, cs) else (False, s) | [] \<Rightarrow> (False, []))
      in if ds = [] then None
         else case digits_nat 0 ds of
           None \<Rightarrow> None
         | Some n \<Rightarrow> let v = (if neg then - int n else int n)
                     in if - (2 ^ 63) \<le> v \<and> v < 2 ^ 63 then Some v else None)"

text \<open>\<open>strconv.ParseUint(s, 10, bits)\<close>: digits only, below \<open>2 ^ bits\<close>.\<close>

definition parse_uint :: "nat \<Rightarrow> string \<Rightarrow> nat option" where
  "parse_uint bits s =
     (if s = [] then None
      else case digits_nat 0 s of None \<Rightarrow> None | Some n \<Rightarrow> if n < 2 ^ bits then Some n else None)"

lemma char_digit_digit_char [simp]: "d < 10 \<Longrightarrow> char_digit (digit_char d) = Some d"
  by (simp add: char_digit_def digit_char_def)

lemma digits_nat_append:
  "digits_nat acc (xs @ ys) = Option.bind (digits_nat acc xs) (\<lambda>a. digits_nat a ys)"
  by (induction xs arbitrary: acc) (auto split: option.splits)

lemma nat_digits_nonempty [simp]: "nat_digits n \<noteq> []"
  by (subst nat_digits.simps) simp

lemma digits_nat_nat_digits [simp]: "digits_nat 0 (nat_digits n) = Some n"
proof (induction n rule: nat_digits.induct)
  case (1 n)
  show ?case
  proof (cases "n < 10")
    case True
    then show ?thesis by (subst nat_digits.simps) simp
  next
    case False
    then have "digits_nat 0 (nat_digits (n div 10)) = Some (n div 10)" by (rule "1.IH")
    with False show ?thesis by (subst nat_digits.simps) (simp add: digits_nat_append)
  qed
qed

lemma digit_char_range: "d < 10 \<Longrightarrow> 48 \<le> (of_char (digit_char d) :: nat) \<and> (of_char (digit_char d) :: nat) \<le> 57"
  by (simp add: digit_char_def)

lemma nat_digits_chars: "c \<in> set (nat_digits n) \<Longrightarrow> 48 \<le> (of_char c :: nat) \<and> (of_char c :: nat) \<le> 57"
proof (induction n rule: nat_digits.induct)
  case (1 n)
  show ?case
  proof (cases "n < 10")
    case True
    with "1.prems" show ?thesis using digit_char_range by (auto simp: nat_digits.simps [of n])
  next
    case False
    with "1.prems" have "c \<in> set (nat_digits (n div 10)) \<or> c = digit_char (n mod 10)"
      by (auto simp: nat_digits.simps [of n])
    with "1.IH" False show ?thesis using digit_char_range [of "n mod 10"] by auto
  qed
qed

lemma nat_digits_no [simp]:
  "CHR ''-'' \<notin> set (nat_digits n)" "CHR ''+'' \<notin> set (nat_digits n)"
  "CHR '':'' \<notin> set (nat_digits n)" "CHR ''['' \<notin> set (nat_digits n)" "CHR '']'' \<notin> set (nat_digits n)"
  by (auto dest!: nat_digits_chars)

lemma atoi_itoa:
  assumes "- (2 ^ 63) \<le> i" and "i < 2 ^ 63"
  shows "atoi (itoa i) = Some i"
proof (cases "i < 0")
  case True
  with assms show ?thesis by (simp add: atoi_def itoa_def)
next
  case False
  obtain c cs where cs: "nat_digits (nat i) = c # cs" by (cases "nat_digits (nat i)") auto
  then have "c \<noteq> CHR ''-''" "c \<noteq> CHR ''+''" using nat_digits_no [of "nat i"] by auto
  moreover have "digits_nat 0 (c # cs) = Some (nat i)" by (simp flip: cs)
  ultimately show ?thesis using False assms by (simp add: atoi_def itoa_def cs del: digits_nat.simps)
qed

lemma parse_uint_nat_digits: "n < 2 ^ bits \<Longrightarrow> parse_uint bits (nat_digits n) = Some n"
  by (simp add: parse_uint_def)

lemma parse_uint_lt: "parse_uint bits s = Some n \<Longrightarrow> n < 2 ^ bits"
  by (auto simp: parse_uint_def split: option.splits if_splits)

lemma plain_port_itoa: "0 \<le> i \<Longrightarrow> plain_port (itoa i)"
  by (simp add: plain_port_def itoa_def)

interpretation decimal: codec itoa atoi "\<lambda>i. - (2 ^ 63) \<le> i \<and> i < 2 ^ 63"
  by unfold_locales (simp add: atoi_itoa)

section \<open>ASCII strings\<close>

definition lower_char :: "char \<Rightarrow> char" where
  "lower_char c = (let n = of_char c in if 65 \<le> n \<and> n \<le> (90::nat) then char_of (n + 32) else c)"

definition to_lower :: "string \<Rightarrow> string" where
  "to_lower = map lower_char"

fun contains :: "string \<Rightarrow> string \<Rightarrow> bool" where
  "contains [] sub = (sub = [])"
| "contains (c # cs) sub = (take (length sub) (c # cs) = sub \<or> contains cs sub)"

lemma contains_iff: "contains s sub \<longleftrightarrow> (\<exists>pre post. s = pre @ sub @ post)"
proof (induction s)
  case Nil
  then show ?case by auto
next
  case (Cons c s)
  show ?case
  proof
    assume "contains (c # s) sub"
    then consider "take (length sub) (c # s) = sub" | "contains s sub" by auto
    then show "\<exists>pre post. c # s = pre @ sub @ post"
    proof cases
      case 1
      then show ?thesis by (metis append_Nil append_take_drop_id)
    next
      case 2
      then show ?thesis using Cons.IH by (metis append_Cons)
    qed
  next
    assume "\<exists>pre post. c # s = pre @ sub @ post"
    then obtain pre post where eq: "c # s = pre @ sub @ post" by blast
    show "contains (c # s) sub"
    proof (cases pre)
      case Nil
      with eq have "take (length sub) (c # s) = sub" by simp
      then show ?thesis by simp
    next
      case (Cons p ps)
      with eq Cons.IH show ?thesis by auto
    qed
  qed
qed

section \<open>The program's address helpers\<close>

text \<open>\<open>deriveSecondaryAddr\<close>, the same in the server and in the client: host and port plus one.\<close>

definition derive_secondary_addr :: "string \<Rightarrow> string" where
  "derive_secondary_addr addr =
     (case split_host_port addr of
        Inl _ \<Rightarrow> ''''
      | Inr (host, port) \<Rightarrow>
          (case atoi port of None \<Rightarrow> '''' | Some n \<Rightarrow> join_host_port host (itoa (n + 1))))"

text \<open>\<open>ServerHost\<close>: everything before the last colon, the whole string when there is none.\<close>

definition server_host :: "string \<Rightarrow> string" where
  "server_host addr =
     (case last_index_byte (CHR '':'') addr of
        None \<Rightarrow> addr
      | Some i \<Rightarrow> if i = 0 then addr else take i addr)"

definition same_port :: "string \<Rightarrow> string \<Rightarrow> bool" where
  "same_port a b =
     (case (split_host_port a, split_host_port b) of
        (Inr (_, pa), Inr (_, pb)) \<Rightarrow> pa = pb
      | _ \<Rightarrow> False)"

definition remap_port :: "string \<Rightarrow> string \<Rightarrow> string \<Rightarrow> string \<times> bool" where
  "remap_port addr old_port new_port =
     (if addr = '''' then (addr, False)
      else case split_host_port addr of
        Inl _ \<Rightarrow> (addr, False)
      | Inr (host, port) \<Rightarrow>
          if port \<noteq> old_port then (addr, False) else (join_host_port host new_port, True))"

lemma derive_secondary_addr_join:
  assumes "plain_host h" and "0 \<le> n" and "n < 2 ^ 63"
  shows "derive_secondary_addr (join_host_port h (itoa n)) = join_host_port h (itoa (n + 1))"
  using assms by (simp add: derive_secondary_addr_def split_join_host_port plain_port_itoa atoi_itoa)

lemma server_host_join:
  assumes "CHR '':'' \<notin> set h" and "h \<noteq> []" and "CHR '':'' \<notin> set p"
  shows "server_host (join_host_port h p) = h"
  using assms last_index_byte_append [of "CHR '':''" p h]
  by (simp add: server_host_def join_host_port_def)

lemma remap_port_idem:
  assumes "old_port \<noteq> new_port" and "plain_port new_port"
  shows "remap_port (fst (remap_port addr old_port new_port)) old_port new_port =
         (fst (remap_port addr old_port new_port), False)"
proof (cases "snd (remap_port addr old_port new_port)")
  case False
  then have "fst (remap_port addr old_port new_port) = addr"
    by (auto simp: remap_port_def split: sum.splits if_splits)
  then show ?thesis using False by (metis prod.collapse)
next
  case True
  then obtain h where h: "split_host_port addr = Inr (h, old_port)" "addr \<noteq> ''''"
    by (auto simp: remap_port_def split: sum.splits if_splits)
  then show ?thesis using split_join_host_port [OF split_host_port_plain [OF h(1)] assms(2)] assms(1)
    by (simp add: remap_port_def)
qed

section \<open>Trimming and splitting\<close>

definition trim_left :: "char set \<Rightarrow> string \<Rightarrow> string" where
  "trim_left cs s = dropWhile (\<lambda>c. c \<in> cs) s"

definition trim_right :: "char set \<Rightarrow> string \<Rightarrow> string" where
  "trim_right cs s = rev (dropWhile (\<lambda>c. c \<in> cs) (rev s))"

definition trim :: "char set \<Rightarrow> string \<Rightarrow> string" where
  "trim cs s = trim_right cs (trim_left cs s)"

text \<open>The ASCII white space of \<open>strings.TrimSpace\<close>.\<close>

definition space_chars :: "char set" where
  "space_chars = {CHR 0x09, CHR 0x0A, CHR 0x0B, CHR 0x0C, CHR 0x0D, CHR 0x20}"

definition trim_space :: "string \<Rightarrow> string" where
  "trim_space = trim space_chars"

definition trim_prefix :: "string \<Rightarrow> string \<Rightarrow> string" where
  "trim_prefix s pre = (if take (length pre) s = pre then drop (length pre) s else s)"

text \<open>\<open>strings.Split\<close> at a one-byte separator.\<close>

fun split_at :: "char \<Rightarrow> string \<Rightarrow> string list" where
  "split_at c [] = [[]]"
| "split_at c (x # xs) =
     (if x = c then [] # split_at c xs
      else case split_at c xs of p # ps \<Rightarrow> (x # p) # ps | [] \<Rightarrow> [[x]])"

lemma split_at_nonempty [simp]: "split_at c s \<noteq> []"
  by (induction s) (auto split: list.splits)

lemma split_at_plain: "c \<notin> set s \<Longrightarrow> split_at c s = [s]"
  by (induction s) auto

lemma split_at_append: "c \<notin> set s \<Longrightarrow> split_at c (s @ c # t) = s # split_at c t"
  by (induction s) auto

text \<open>The segments of a path built from parts without the separator are those parts.\<close>

fun join_with :: "char \<Rightarrow> string list \<Rightarrow> string" where
  "join_with c [] = []"
| "join_with c [p] = p"
| "join_with c (p # q # ps) = p @ c # join_with c (q # ps)"

lemma split_at_join: "ps \<noteq> [] \<Longrightarrow> (\<And>p. p \<in> set ps \<Longrightarrow> c \<notin> set p) \<Longrightarrow> split_at c (join_with c ps) = ps"
  by (induction c ps rule: join_with.induct) (auto simp: split_at_append split_at_plain)

lemma join_split_at: "join_with c (split_at c s) = s"
proof (induction s)
  case (Cons x s)
  show ?case
  proof (cases "split_at c s")
    case (Cons p ps)
    then show ?thesis using Cons.IH by (cases ps) (auto split: if_splits)
  qed simp
qed simp

lemma trim_prefix_append [simp]: "trim_prefix (pre @ s) pre = s"
  by (simp add: trim_prefix_def)

lemma trim_space_none:
  assumes "set s \<inter> space_chars = {}"
  shows "trim_space s = s"
proof -
  have "dropWhile (\<lambda>c. c \<in> space_chars) t = t" if "set t \<inter> space_chars = {}" for t
    using that by (cases t) auto
  from this [of s] this [of "rev s"] show ?thesis
    using assms by (simp add: trim_space_def trim_def trim_left_def trim_right_def)
qed

end
