(* ===== verification/Proto.thy ===== *)
theory Proto
  imports GoNet
begin

text \<open>
  \<open>internal/proto/packet.go\<close>: the 15-byte frame header, the three layouts of its sequence field
  (FEC data, FEC repair, fragment), and the handshake messages: AuthHello, AuthOK, AuthError and the
  hub list. Each parser is total and returns an error value where the code does; each format is an
  instance of the \<open>codec\<close> interface, the framed packet of \<open>exact_codec\<close>.
\<close>

section \<open>Frame types\<close>

text \<open>\<open>FrameType\<close> is an open \<open>uint8\<close>: any byte parses, the dispatchers ignore unknown ones.\<close>

type_synonym frame_type = byte

definition FrameData :: frame_type where "FrameData = 0x01"
definition FrameRepair :: frame_type where "FrameRepair = 0x02"
definition FrameJoin :: frame_type where "FrameJoin = 0x03"
definition FrameDataFrag :: frame_type where "FrameDataFrag = 0x04"
definition FrameAuth :: frame_type where "FrameAuth = 0x10"
definition FrameListHubs :: frame_type where "FrameListHubs = 0x11"
definition FramePing :: frame_type where "FramePing = 0x20"
definition FramePong :: frame_type where "FramePong = 0x21"
definition FrameUpdateGet :: frame_type where "FrameUpdateGet = 0x30"
definition FrameUpdateData :: frame_type where "FrameUpdateData = 0x31"

lemmas frame_types = FrameData_def FrameRepair_def FrameJoin_def FrameDataFrag_def FrameAuth_def
  FrameListHubs_def FramePing_def FramePong_def FrameUpdateGet_def FrameUpdateData_def

definition UpdateChunk :: byte where "UpdateChunk = 0"
definition UpdateEOF :: byte where "UpdateEOF = 1"
definition UpdateErr :: byte where "UpdateErr = 2"

lemmas update_statuses = UpdateChunk_def UpdateEOF_def UpdateErr_def

definition HeaderSize :: nat where "HeaderSize = 15"
definition MaxFramePlaintext :: nat where "MaxFramePlaintext = 1400"

section \<open>The header\<close>

record header =
  hdr_type :: frame_type
  hdr_hub :: "16 word"
  hdr_session :: "32 word"
  hdr_seq :: "64 word"

definition marshal_header :: "header \<Rightarrow> bytes" where
  "marshal_header h = hdr_type h # put16 (hdr_hub h) @ put32 (hdr_session h) @ put64 (hdr_seq h)"

definition parse_header :: "bytes \<Rightarrow> header option" where
  "parse_header src =
     (if length src < HeaderSize then None
      else Some \<lparr>hdr_type = src ! 0, hdr_hub = get16 (slice 1 3 src),
                 hdr_session = get32 (slice 3 7 src), hdr_seq = get64 (slice 7 15 src)\<rparr>)"

text \<open>The packets the program builds are a marshalled header followed by a payload.\<close>

definition mk_packet :: "header \<Rightarrow> bytes \<Rightarrow> bytes" where
  "mk_packet h payload = marshal_header h @ payload"

definition split_packet :: "bytes \<Rightarrow> (header \<times> bytes) option" where
  "split_packet pkt = map_option (\<lambda>h. (h, drop HeaderSize pkt)) (parse_header pkt)"

lemma length_marshal_header [simp, wire_simps]: "length (marshal_header h) = 15"
  by (simp add: marshal_header_def)

lemma parse_marshal_header_append:
  "parse_header (marshal_header h @ rest) = Some h"
  by (simp add: parse_header_def HeaderSize_def marshal_header_def slice_def)

lemma marshal_parse_header:
  assumes "parse_header src = Some h"
  shows "marshal_header h = take 15 src"
proof -
  from assms have len: "15 \<le> length src"
    and h: "h = \<lparr>hdr_type = src ! 0, hdr_hub = get16 (slice 1 3 src),
                 hdr_session = get32 (slice 3 7 src), hdr_seq = get64 (slice 7 15 src)\<rparr>"
    by (auto simp: parse_header_def HeaderSize_def split: if_splits)
  have "marshal_header h = src ! 0 # slice 1 3 src @ slice 3 7 src @ slice 7 15 src"
    using len by (simp add: h marshal_header_def put16_get16 put32_get32 put64_get64)
  also have "slice 1 3 src @ slice 3 7 src @ slice 7 15 src = slice 1 15 src"
    by (simp add: slice_concat)
  also have "src ! 0 # slice 1 15 src = take 15 src"
    using len by (intro Cons_slice) auto
  finally show ?thesis .
qed

lemma split_mk_packet [simp, wire_simps]: "split_packet (mk_packet h p) = Some (h, p)"
  by (simp add: split_packet_def mk_packet_def parse_marshal_header_append HeaderSize_def)

lemma mk_split_packet: "split_packet pkt = Some (h, p) \<Longrightarrow> mk_packet h p = pkt"
  using marshal_parse_header [of pkt h]
  by (auto simp: split_packet_def mk_packet_def HeaderSize_def)

lemma split_packet_None: "split_packet pkt = None \<longleftrightarrow> length pkt < 15"
  by (simp add: split_packet_def parse_header_def HeaderSize_def)

interpretation packet: exact_codec "\<lambda>(h, p). mk_packet h p" split_packet "\<lambda>_. True"
  by unfold_locales (auto simp: mk_split_packet)

section \<open>The sequence field\<close>

definition pack_data_seq :: "32 word \<Rightarrow> 16 word \<Rightarrow> 64 word" where
  "pack_data_seq block idx = push_bit 32 (ucast block) OR push_bit 16 (ucast idx)"

definition unpack_data_seq :: "64 word \<Rightarrow> 32 word \<times> 16 word" where
  "unpack_data_seq seq = (ucast (drop_bit 32 seq), ucast (drop_bit 16 seq))"

definition pack_repair_seq :: "32 word \<Rightarrow> byte \<Rightarrow> byte \<Rightarrow> byte \<Rightarrow> 64 word" where
  "pack_repair_seq block idx k r =
     push_bit 32 (ucast block) OR push_bit 24 (ucast idx) OR push_bit 16 (ucast k) OR push_bit 8 (ucast r)"

definition unpack_repair_seq :: "64 word \<Rightarrow> 32 word \<times> byte \<times> byte \<times> byte" where
  "unpack_repair_seq seq =
     (ucast (drop_bit 32 seq), ucast (drop_bit 24 seq), ucast (drop_bit 16 seq), ucast (drop_bit 8 seq))"

definition pack_frag_seq :: "32 word \<Rightarrow> byte \<Rightarrow> byte \<Rightarrow> 64 word" where
  "pack_frag_seq frag idx count =
     push_bit 32 (ucast frag) OR push_bit 24 (ucast idx) OR push_bit 16 (ucast count)"

definition unpack_frag_seq :: "64 word \<Rightarrow> 32 word \<times> byte \<times> byte" where
  "unpack_frag_seq seq =
     (ucast (drop_bit 32 seq), ucast (drop_bit 24 seq), ucast (drop_bit 16 seq))"

lemma bit_beyond: "LENGTH('a) \<le> n \<Longrightarrow> \<not> bit (w :: 'a::len word) n"
  using bit_imp_le_length [of w n] by auto

lemma unpack_pack_data_seq [simp, wire_simps]:
  "unpack_data_seq (pack_data_seq block idx) = (block, idx)"
  unfolding unpack_data_seq_def pack_data_seq_def
  by (auto intro!: bit_word_eqI simp: bit_simps bit_beyond)

lemma unpack_pack_repair_seq [simp, wire_simps]:
  "unpack_repair_seq (pack_repair_seq block idx k r) = (block, idx, k, r)"
  unfolding unpack_repair_seq_def pack_repair_seq_def
  by (auto intro!: bit_word_eqI simp: bit_simps bit_beyond)

lemma unpack_pack_frag_seq [simp, wire_simps]:
  "unpack_frag_seq (pack_frag_seq frag idx count) = (frag, idx, count)"
  unfolding unpack_frag_seq_def pack_frag_seq_def
  by (auto intro!: bit_word_eqI simp: bit_simps bit_beyond)

interpretation data_seq: codec "\<lambda>(b, i). pack_data_seq b i" "\<lambda>s. Some (unpack_data_seq s)" "\<lambda>_. True"
  by unfold_locales auto

interpretation repair_seq: codec "\<lambda>(b, i, k, r). pack_repair_seq b i k r"
  "\<lambda>s. Some (unpack_repair_seq s)" "\<lambda>_. True"
  by unfold_locales auto

interpretation frag_seq: codec "\<lambda>(f, i, c). pack_frag_seq f i c" "\<lambda>s. Some (unpack_frag_seq s)" "\<lambda>_. True"
  by unfold_locales auto

section \<open>Handshake messages\<close>

datatype proto_error =
    AuthHelloTooShort
  | AuthHelloTruncated nat
  | AuthOKTooShort
  | AuthErrorTooShort
  | AuthErrorTruncated nat
  | HubListEmpty
  | HubListTruncated nat
  | HubNameTruncated nat

definition AuthMsgHello :: byte where "AuthMsgHello = 0x01"
definition AuthMsgOK :: byte where "AuthMsgOK = 0x02"
definition AuthMsgError :: byte where "AuthMsgError = 0xFF"
definition FlagFragment :: byte where "FlagFragment = 1"

lemmas auth_msgs = AuthMsgHello_def AuthMsgOK_def AuthMsgError_def

subsection \<open>AuthHello\<close>

record auth_hello =
  ah_hub :: "16 word"
  ah_login :: string
  ah_pwhash :: bytes
  ah_flags :: byte

definition marshal_auth_hello :: "auth_hello \<Rightarrow> bytes" where
  "marshal_auth_hello a =
     put16 (ah_hub a) @ [of_nat (length (ah_login a))] @ str_bytes (ah_login a) @ ah_pwhash a @ [ah_flags a]"

definition parse_auth_hello :: "bytes \<Rightarrow> proto_error + auth_hello" where
  "parse_auth_hello b =
     (if length b < 2 + 1 + 32 then Inl AuthHelloTooShort
      else let n = unat (b ! 2) in
        if length b < 2 + 1 + n + 32 then Inl (AuthHelloTruncated n)
        else Inr \<lparr>ah_hub = get16 (slice 0 2 b), ah_login = bytes_str (slice 3 (3 + n) b),
                  ah_pwhash = slice (3 + n) (3 + n + 32) b,
                  ah_flags = (if 3 + n + 32 + 1 \<le> length b then b ! (3 + n + 32) else 0)\<rparr>)"

definition wf_auth_hello :: "auth_hello \<Rightarrow> bool" where
  "wf_auth_hello a \<longleftrightarrow> length (ah_pwhash a) = 32 \<and> length (ah_login a) < 256"

lemma put16_split: "put16 w = [put16 w ! 0, put16 w ! 1]"
  by (rule nth_equalityI) (auto simp: less_Suc_eq numeral_2_eq_2)

lemma parse_marshal_auth_hello:
  assumes "wf_auth_hello a"
  shows "parse_auth_hello (marshal_auth_hello a) = Inr a"
  using assms
  by (simp add: parse_auth_hello_def marshal_auth_hello_def wf_auth_hello_def nth_append Let_def)

text \<open>A message of the older layout, without the capability byte, is read as \<open>Flags = 0\<close>.\<close>

lemma butlast_marshal_auth_hello:
  "butlast (marshal_auth_hello a) =
     put16 (ah_hub a) @ [of_nat (length (ah_login a))] @ str_bytes (ah_login a) @ ah_pwhash a"
  by (simp add: marshal_auth_hello_def butlast_append)

lemma parse_auth_hello_legacy:
  assumes "wf_auth_hello a"
  shows "parse_auth_hello (butlast (marshal_auth_hello a)) = Inr (a\<lparr>ah_flags := 0\<rparr>)"
  using assms unfolding butlast_marshal_auth_hello
  by (simp add: parse_auth_hello_def wf_auth_hello_def nth_append Let_def)

text \<open>
  The length byte wraps: a login of 256 bytes or more is not refused by the encoder, and the
  receiver reads another login (and takes login bytes for the password hash).
\<close>

lemma parse_auth_hello_long_login:
  assumes p: "length (ah_pwhash a) = 32" and l: "256 \<le> length (ah_login a)"
  shows "\<exists>h. parse_auth_hello (marshal_auth_hello a) = Inr h \<and>
    ah_login h = take (length (ah_login a) mod 256) (ah_login a) \<and> ah_login h \<noteq> ah_login a"
proof -
  define n where "n = length (ah_login a) mod 256"
  have n: "unat (of_nat (length (ah_login a)) :: byte) = n" by (simp add: n_def unat_of_nat)
  have n256: "n < 256" by (simp add: n_def)
  let ?b = "marshal_auth_hello a"
  have len: "length ?b = 2 + 1 + length (ah_login a) + 32 + 1"
    using p by (simp add: marshal_auth_hello_def)
  have nb: "unat (?b ! 2) = n" by (simp add: marshal_auth_hello_def nth_append n)
  have "slice 3 (3 + n) ?b = take n (str_bytes (ah_login a))"
    using l n256 by (simp add: marshal_auth_hello_def) (simp add: slice_def)
  then have s: "bytes_str (slice 3 (3 + n) ?b) = take n (ah_login a)"
    by (simp add: bytes_str_take)
  have "\<exists>h. parse_auth_hello ?b = Inr h \<and> ah_login h = take n (ah_login a)"
    using len l n256 nb s by (simp add: parse_auth_hello_def Let_def)
  moreover have "take n (ah_login a) \<noteq> ah_login a"
    using l n256 by (auto dest: arg_cong [where f = length])
  ultimately show ?thesis by (auto simp: n_def)
qed

interpretation hello: codec marshal_auth_hello
  "\<lambda>b. case parse_auth_hello b of Inl _ \<Rightarrow> None | Inr a \<Rightarrow> Some a" wf_auth_hello
  by unfold_locales (simp add: parse_marshal_auth_hello)

subsection \<open>AuthOK\<close>

record auth_ok =
  ao_session :: "32 word"
  ao_k :: byte
  ao_r :: byte
  ao_delay :: "16 word"
  ao_flags :: byte

definition marshal_auth_ok :: "auth_ok \<Rightarrow> bytes" where
  "marshal_auth_ok a = put32 (ao_session a) @ [ao_k a, ao_r a] @ put16 (ao_delay a) @ [ao_flags a]"

definition parse_auth_ok :: "bytes \<Rightarrow> proto_error + auth_ok" where
  "parse_auth_ok b =
     (if length b < 4 then Inl AuthOKTooShort
      else Inr \<lparr>ao_session = get32 (slice 0 4 b),
                ao_k = (if 6 \<le> length b then b ! 4 else 0),
                ao_r = (if 6 \<le> length b then b ! 5 else 0),
                ao_delay = (if 8 \<le> length b then get16 (slice 6 8 b) else 0),
                ao_flags = (if 9 \<le> length b then b ! 8 else 0)\<rparr>)"

lemma length_marshal_auth_ok [simp, wire_simps]: "length (marshal_auth_ok a) = 9"
  by (simp add: marshal_auth_ok_def)

lemma marshal_auth_ok_nth [simp]:
  "marshal_auth_ok a ! 4 = ao_k a" "marshal_auth_ok a ! 5 = ao_r a" "marshal_auth_ok a ! 8 = ao_flags a"
  by (simp_all add: marshal_auth_ok_def nth_append)

lemma marshal_auth_ok_slices [simp]:
  "slice 0 4 (marshal_auth_ok a) = put32 (ao_session a)"
  "slice 6 8 (marshal_auth_ok a) = put16 (ao_delay a)"
  by (simp_all add: marshal_auth_ok_def)

lemma parse_marshal_auth_ok_take:
  assumes "4 \<le> n"
  shows "parse_auth_ok (take n (marshal_auth_ok a)) =
    Inr \<lparr>ao_session = ao_session a, ao_k = (if 6 \<le> n then ao_k a else 0),
         ao_r = (if 6 \<le> n then ao_r a else 0), ao_delay = (if 8 \<le> n then ao_delay a else 0),
         ao_flags = (if 9 \<le> n then ao_flags a else 0)\<rparr>"
  using assms by (simp add: parse_auth_ok_def min_def)

lemma parse_marshal_auth_ok [simp, wire_simps]: "parse_auth_ok (marshal_auth_ok a) = Inr a"
  by (simp add: parse_auth_ok_def)

interpretation ok: codec marshal_auth_ok
  "\<lambda>b. case parse_auth_ok b of Inl _ \<Rightarrow> None | Inr a \<Rightarrow> Some a" "\<lambda>_. True"
  by unfold_locales simp

subsection \<open>AuthError\<close>

definition marshal_auth_error :: "string \<Rightarrow> bytes" where
  "marshal_auth_error msg = (let m = take 255 (str_bytes msg) in of_nat (length m) # m)"

definition parse_auth_error :: "bytes \<Rightarrow> proto_error + string" where
  "parse_auth_error b =
     (if length b < 1 then Inl AuthErrorTooShort
      else let n = unat (b ! 0) in
        if length b < 1 + n then Inl (AuthErrorTruncated n) else Inr (bytes_str (slice 1 (1 + n) b)))"

lemma parse_marshal_auth_error:
  "parse_auth_error (marshal_auth_error msg) = Inr (take 255 msg)"
  by (simp add: parse_auth_error_def marshal_auth_error_def Let_def slice_def flip: str_bytes_take)

interpretation auth_err: codec marshal_auth_error
  "\<lambda>b. case parse_auth_error b of Inl _ \<Rightarrow> None | Inr m \<Rightarrow> Some m" "\<lambda>m. length m \<le> 255"
  by unfold_locales (simp add: parse_marshal_auth_error)

section \<open>The hub list\<close>

record hub_info =
  hi_id :: "16 word"
  hi_name :: string

definition trunc_hub :: "hub_info \<Rightarrow> hub_info" where
  "trunc_hub h = h\<lparr>hi_name := take 255 (hi_name h)\<rparr>"

definition hub_entry :: "hub_info \<Rightarrow> bytes" where
  "hub_entry h = (let name = take 255 (str_bytes (hi_name h)) in
     put16 (hi_id h) @ [of_nat (length name)] @ name)"

definition marshal_hub_list :: "hub_info list \<Rightarrow> bytes" where
  "marshal_hub_list hubs =
     (let n = min 255 (length hubs) in of_nat n # concat (map hub_entry (take n hubs)))"

fun parse_hubs :: "nat \<Rightarrow> nat \<Rightarrow> bytes \<Rightarrow> proto_error + hub_info list" where
  "parse_hubs i 0 b = Inr []"
| "parse_hubs i (Suc n) b =
     (if length b < 3 then Inl (HubListTruncated i)
      else let len = unat (b ! 2); rest = drop 3 b in
        if length rest < len then Inl (HubNameTruncated i)
        else case parse_hubs (Suc i) n (drop len rest) of
               Inl e \<Rightarrow> Inl e
             | Inr hs \<Rightarrow> Inr (\<lparr>hi_id = get16 (slice 0 2 b), hi_name = bytes_str (take len rest)\<rparr> # hs))"

definition parse_hub_list :: "bytes \<Rightarrow> proto_error + hub_info list" where
  "parse_hub_list b =
     (if length b < 1 then Inl HubListEmpty else parse_hubs 0 (unat (b ! 0)) (drop 1 b))"

lemma parse_hubs_name:
  assumes "length name < 256"
  shows "parse_hubs i (Suc n) (put16 ident @ [of_nat (length name)] @ name @ rest) =
     (case parse_hubs (Suc i) n rest of Inl e \<Rightarrow> Inl e
      | Inr hs \<Rightarrow> Inr (\<lparr>hi_id = ident, hi_name = bytes_str name\<rparr> # hs))"
  using assms by (cases "parse_hubs (Suc i) n rest") (simp_all add: nth_append Let_def)

lemma parse_hubs_entry:
  "parse_hubs i (Suc n) (hub_entry h @ rest) =
     (case parse_hubs (Suc i) n rest of Inl e \<Rightarrow> Inl e | Inr hs \<Rightarrow> Inr (trunc_hub h # hs))"
proof -
  have "trunc_hub h = \<lparr>hi_id = hi_id h, hi_name = bytes_str (take 255 (str_bytes (hi_name h)))\<rparr>"
    by (cases h) (simp add: trunc_hub_def bytes_str_take)
  with parse_hubs_name [of "take 255 (str_bytes (hi_name h))" i n "hi_id h" rest] show ?thesis
    by (cases "parse_hubs (Suc i) n rest") (simp_all add: hub_entry_def Let_def del: parse_hubs.simps)
qed

lemma parse_hubs_concat:
  "parse_hubs i (length hubs) (concat (map hub_entry hubs) @ rest) = Inr (map trunc_hub hubs)"
  by (induction hubs arbitrary: i) (simp_all add: parse_hubs_entry del: parse_hubs.simps(2))

lemma parse_marshal_hub_list:
  "parse_hub_list (marshal_hub_list hubs) = Inr (map trunc_hub (take 255 hubs))"
proof -
  let ?n = "min 255 (length hubs)"
  have t: "take ?n hubs = take 255 hubs" by (simp add: min_def)
  have l: "length (take 255 hubs) = ?n" by simp
  have "parse_hubs 0 ?n (concat (map hub_entry (take 255 hubs)) @ []) = Inr (map trunc_hub (take 255 hubs))"
    unfolding l [symmetric] by (rule parse_hubs_concat)
  then show ?thesis
    by (simp add: parse_hub_list_def marshal_hub_list_def Let_def t)
qed

definition wf_hub_list :: "hub_info list \<Rightarrow> bool" where
  "wf_hub_list hubs \<longleftrightarrow> length hubs \<le> 255 \<and> (\<forall>h \<in> set hubs. length (hi_name h) \<le> 255)"

lemma trunc_hub_id: "length (hi_name h) \<le> 255 \<Longrightarrow> trunc_hub h = h"
  by (simp add: trunc_hub_def)

interpretation hub_list: codec marshal_hub_list
  "\<lambda>b. case parse_hub_list b of Inl _ \<Rightarrow> None | Inr hs \<Rightarrow> Some hs" wf_hub_list
  by unfold_locales (simp add: parse_marshal_hub_list wf_hub_list_def trunc_hub_id map_idI)

end
