(* ===== verification/Fragment.thy ===== *)
theory Fragment
  imports Proto
begin

text \<open>
  \<open>internal/fragment/fragment.go\<close>: splitting an oversized frame into pieces, and the reassembler
  that collects the pieces by fragment id, drops duplicates, keeps a tombstone for a delivered frame
  and evicts expired or overflowing entries. The clock the Go code injects is an argument.
\<close>

section \<open>Splitting\<close>

text \<open>The loop \<open>for off := 0; off < len(frame); off += maxPiece\<close>.\<close>

function split_pieces :: "nat \<Rightarrow> nat \<Rightarrow> bytes \<Rightarrow> bytes list" where
  "split_pieces n off frame =
     (if n = 0 \<or> length frame \<le> off then []
      else slice off (min (off + n) (length frame)) frame # split_pieces n (off + n) frame)"
  by pat_completeness auto
termination
  by (relation "measure (\<lambda>(n, off, frame). length frame - off)") auto

declare split_pieces.simps [simp del]

definition split_frame :: "bytes \<Rightarrow> int \<Rightarrow> bytes list" where
  "split_frame frame max_piece =
     (if max_piece \<le> 0 \<or> int (length frame) \<le> max_piece then [frame]
      else split_pieces (nat max_piece) 0 frame)"

definition needs_split :: "bytes \<Rightarrow> int \<Rightarrow> bool" where
  "needs_split frame max_piece \<longleftrightarrow> 0 < max_piece \<and> max_piece < int (length frame)"

lemma concat_split_pieces: "0 < n \<Longrightarrow> concat (split_pieces n off frame) = drop off frame"
proof (induction n off frame rule: split_pieces.induct)
  case (1 n off frame)
  show ?case
  proof (cases "length frame \<le> off")
    case True
    then show ?thesis by (simp add: split_pieces.simps [of n off frame])
  next
    case False
    then have "concat (split_pieces n (off + n) frame) = drop (off + n) frame"
      using 1 by simp
    moreover have "slice off (min (off + n) (length frame)) frame @ drop (off + n) frame = drop off frame"
      using False by (simp add: slice_def min_def add.commute flip: drop_drop)
    ultimately show ?thesis using False "1.prems" by (simp add: split_pieces.simps [of n off frame])
  qed
qed

lemma split_pieces_length:
  "p \<in> set (split_pieces n off frame) \<Longrightarrow> 0 < length p \<and> length p \<le> n"
proof (induction n off frame rule: split_pieces.induct)
  case (1 n off frame)
  then have c: "0 < n" "off < length frame" by (auto simp: split_pieces.simps [of n off frame] split: if_splits)
  then have "0 < length (slice off (min (off + n) (length frame)) frame) \<and>
      length (slice off (min (off + n) (length frame)) frame) \<le> n" by (simp only: length_slice) auto
  moreover have "p = slice off (min (off + n) (length frame)) frame \<or>
      0 < length p \<and> length p \<le> n"
    using 1 c by (subst (asm) split_pieces.simps) auto
  ultimately show ?case by metis
qed

lemma split_pieces_count: "0 < n \<Longrightarrow> length (split_pieces n off frame) = (length frame - off + n - 1) div n"
proof (induction n off frame rule: split_pieces.induct)
  case (1 n off frame)
  show ?case
  proof (cases "length frame \<le> off")
    case True
    with "1.prems" show ?thesis by (simp add: split_pieces.simps [of n off frame])
  next
    case False
    then have ih: "length (split_pieces n (off + n) frame) = (length frame - (off + n) + n - 1) div n"
      using 1 by simp
    have "(length frame - off + n - 1) div n = Suc ((length frame - off - 1) div n)"
      using False "1.prems" by (simp add: div_add_self2 flip: add_diff_assoc2)
    moreover have "(length frame - (off + n) + n - 1) div n = (length frame - off - 1) div n"
    proof (cases "off + n \<le> length frame")
      case True
      then show ?thesis by (intro arg_cong2 [where f = "(div)"]) auto
    next
      case small: False
      then show ?thesis using False "1.prems" by simp
    qed
    ultimately show ?thesis using False "1.prems" ih by (simp add: split_pieces.simps [of n off frame])
  qed
qed

lemma concat_split_frame: "concat (split_frame frame max_piece) = frame"
  by (simp add: split_frame_def concat_split_pieces)

lemma split_frame_single: "\<not> needs_split frame max_piece \<Longrightarrow> split_frame frame max_piece = [frame]"
  by (auto simp: split_frame_def needs_split_def)

lemma split_frame_pieces:
  assumes "needs_split frame max_piece" and "p \<in> set (split_frame frame max_piece)"
  shows "0 < length p \<and> int (length p) \<le> max_piece"
  using assms split_pieces_length [of p "nat max_piece" 0 frame]
  by (auto simp: split_frame_def needs_split_def)

lemma split_frame_count:
  assumes "needs_split frame max_piece"
  shows "length (split_frame frame max_piece) = (length frame + nat max_piece - 1) div nat max_piece"
  using assms by (auto simp: split_frame_def needs_split_def split_pieces_count)

lemma split_frame_at_least_two:
  assumes "needs_split frame max_piece"
  shows "2 \<le> length (split_frame frame max_piece)"
proof (rule ccontr)
  assume "\<not> ?thesis"
  then have "length (split_frame frame max_piece) \<le> 1" by simp
  then consider "split_frame frame max_piece = []" | p where "split_frame frame max_piece = [p]"
    by (cases "split_frame frame max_piece") auto
  then show False
    using concat_split_frame [of frame max_piece] split_frame_pieces [OF assms] assms
    by cases (auto simp: needs_split_def)
qed

section \<open>The reassembler\<close>

record partial =
  p_pieces :: "bytes option list"
  p_count :: byte
  p_got :: nat
  p_total :: nat
  p_created :: time
  p_done :: bool

type_synonym reassembler = "(32 word, partial) amap"

definition reassembly_ttl :: time where "reassembly_ttl = 2 * second"
definition max_pending :: nat where "max_pending = 256"

definition new_partial :: "byte \<Rightarrow> time \<Rightarrow> partial" where
  "new_partial count now = \<lparr>p_pieces = replicate (unat count) None, p_count = count, p_got = 0,
     p_total = 0, p_created = now, p_done = False\<rparr>"

text \<open>The scan for the entry created first; the earliest in iteration order wins a tie.\<close>

fun oldest_entry :: "(32 word \<times> time) option \<Rightarrow> reassembler \<Rightarrow> (32 word \<times> time) option" where
  "oldest_entry best [] = best"
| "oldest_entry best ((i, p) # ps) =
     oldest_entry (case best of None \<Rightarrow> Some (i, p_created p)
       | Some (j, t) \<Rightarrow> if p_created p < t then Some (i, p_created p) else best) ps"

definition evict :: "time \<Rightarrow> reassembler \<Rightarrow> reassembler" where
  "evict now pending =
     (let live = mdrop (\<lambda>_ p. reassembly_ttl < now - p_created p) pending
      in if length live < max_pending then live
         else case oldest_entry None live of None \<Rightarrow> live | Some (i, _) \<Rightarrow> mdel i live)"

text \<open>Storing one piece in the partial frame; the result is the frame when this piece completes it.\<close>

definition piece_bytes :: "bytes option \<Rightarrow> bytes" where
  "piece_bytes x = (case x of None \<Rightarrow> [] | Some b \<Rightarrow> b)"

definition store_piece :: "32 word \<Rightarrow> nat \<Rightarrow> bytes \<Rightarrow> partial \<Rightarrow> reassembler \<Rightarrow> bytes option \<times> reassembler" where
  "store_piece frag i piece p pending =
     (if p_pieces p ! i \<noteq> None then (None, pending)
      else
        let p' = p\<lparr>p_pieces := (p_pieces p)[i := Some piece], p_got := p_got p + 1,
                   p_total := p_total p + length piece\<rparr>
        in if p_got p' < unat (p_count p') then (None, mput frag p' pending)
           else (Some (concat (map piece_bytes (p_pieces p'))),
                 mput frag (p'\<lparr>p_done := True, p_pieces := []\<rparr>) pending))"

definition reasm_add ::
  "time \<Rightarrow> 32 word \<Rightarrow> byte \<Rightarrow> byte \<Rightarrow> bytes \<Rightarrow> reassembler \<Rightarrow> bytes option \<times> reassembler" where
  "reasm_add now frag idx count piece r =
     (if count = 0 \<or> count \<le> idx then (None, r)
      else if count = 1 then (Some piece, r)
      else case map_of r frag of
        None \<Rightarrow>
          let p = new_partial count now; r' = mput frag p (evict now r)
          in store_piece frag (unat idx) piece p r'
      | Some p \<Rightarrow>
          if p_done p then (None, r)
          else if p_count p \<noteq> count then
            let q = new_partial count now in store_piece frag (unat idx) piece q (mput frag q r)
          else store_piece frag (unat idx) piece p r)"

section \<open>The reassembler's invariant\<close>

definition filled :: "bytes option list \<Rightarrow> nat" where
  "filled xs = length (filter (\<lambda>x. x \<noteq> None) xs)"

definition partial_ok :: "partial \<Rightarrow> bool" where
  "partial_ok p \<longleftrightarrow>
     (if p_done p then p_pieces p = []
      else length (p_pieces p) = unat (p_count p) \<and> p_got p = filled (p_pieces p) \<and>
        p_total p = length (concat (map piece_bytes (p_pieces p))) \<and> p_got p < unat (p_count p))"

definition reasm_ok :: "reassembler \<Rightarrow> bool" where
  "reasm_ok r \<longleftrightarrow> amap_ok r \<and> length r \<le> max_pending \<and> (\<forall>p \<in> snd ` set r. partial_ok p)"

lemma reasm_ok_Nil [simp]: "reasm_ok []"
  by (simp add: reasm_ok_def)

lemma partial_ok_new: "0 < count \<Longrightarrow> partial_ok (new_partial count now)"
  by (simp add: partial_ok_def new_partial_def piece_bytes_def filled_def word_gt_0 unat_gt_0)

lemma oldest_entry_in: "oldest_entry best ps = Some (i, t) \<Longrightarrow> best = Some (i, t) \<or> i \<in> fst ` set ps"
proof (induction best ps rule: oldest_entry.induct)
  case (2 best j p ps)
  then show ?case by (auto split: option.splits if_splits)
qed simp

lemma oldest_entry_some: "best \<noteq> None \<or> ps \<noteq> [] \<Longrightarrow> \<exists>i t. oldest_entry best ps = Some (i, t)"
  by (induction best ps rule: oldest_entry.induct) (auto split: option.splits)

lemma length_mdrop_le: "length (mdrop P m) \<le> length m"
  by (simp add: mdrop_def)

lemma evict_subset: "set (evict now r) \<subseteq> set r"
proof -
  have "set (mdrop P r) \<subseteq> set r" and "set (mdel k (mdrop P r)) \<subseteq> set r" for P k
    by (auto simp: mdrop_def AList.delete_eq)
  then show ?thesis by (simp add: evict_def Let_def split: option.split)
qed

lemma evict_room:
  assumes "length r \<le> max_pending"
  shows "length (evict now r) < max_pending"
proof -
  define live where "live = mdrop (\<lambda>_ p. reassembly_ttl < now - p_created p) r"
  show ?thesis
  proof (cases "length live < max_pending")
    case True
    then show ?thesis by (simp add: evict_def live_def [symmetric])
  next
    case False
    then have ne: "live \<noteq> []" by (auto simp: max_pending_def)
    then obtain i t where o: "oldest_entry None live = Some (i, t)"
      using oldest_entry_some [of None live] by auto
    then have "i \<in> fst ` set live" using oldest_entry_in [of None live i t] by simp
    then have "length (mdel i live) < length live"
      by (auto simp: AList.delete_eq intro!: length_filter_less)
    also have "length live \<le> max_pending"
      unfolding live_def by (rule order_trans [OF length_mdrop_le assms])
    finally show ?thesis using False o by (simp add: evict_def live_def [symmetric])
  qed
qed

lemma evict_ok: "reasm_ok r \<Longrightarrow> reasm_ok (evict now r)"
proof -
  assume r: "reasm_ok r"
  then have "amap_ok (evict now r)"
    by (auto simp: reasm_ok_def evict_def Let_def split: option.split)
  with r evict_room [of r now] evict_subset [of now r] show ?thesis
    by (auto simp: reasm_ok_def)
qed

lemma reasm_ok_mput:
  assumes "reasm_ok r" and "partial_ok p" and "length r < max_pending \<or> frag \<in> dom (map_of r)"
  shows "reasm_ok (mput frag p r)"
proof -
  have "snd ` set (mput frag p r) \<subseteq> insert p (snd ` set r)"
    by (induction r) auto
  moreover have "length (mput frag p r) \<le> max_pending"
    using assms by (auto simp: length_mput reasm_ok_def dom_map_of_conv_image_fst)
  ultimately show ?thesis using assms unfolding reasm_ok_def by blast
qed

lemma filled_update_some:
  "i < length xs \<Longrightarrow> xs ! i = None \<Longrightarrow> filled (xs[i := Some b]) = Suc (filled xs)"
  unfolding filled_def by (induction xs arbitrary: i) (auto split: nat.splits simp: nth_Cons')

lemma concat_update_some:
  "i < length xs \<Longrightarrow> xs ! i = None \<Longrightarrow>
     length (concat (map piece_bytes (xs[i := Some b]))) = length (concat (map piece_bytes xs)) + length b"
  by (induction xs arbitrary: i) (auto split: nat.splits simp: nth_Cons' piece_bytes_def)

lemma store_piece_ok:
  assumes r: "reasm_ok r" and p: "partial_ok p" "\<not> p_done p" and i: "i < unat (p_count p)"
    and room: "frag \<in> dom (map_of r)"
  shows "reasm_ok (snd (store_piece frag i piece p r))"
proof -
  have len: "i < length (p_pieces p)" using p i by (simp add: partial_ok_def)
  show ?thesis
    using r p len room
    by (auto simp: store_piece_def Let_def partial_ok_def filled_update_some concat_update_some
        intro!: reasm_ok_mput)
qed

lemma reasm_add_ok:
  assumes "reasm_ok r"
  shows "reasm_ok (snd (reasm_add now frag idx count piece r))"
proof (cases "count = 0 \<or> count \<le> idx \<or> count = 1")
  case True
  with assms show ?thesis by (auto simp: reasm_add_def)
next
  case False
  then have lt: "unat idx < unat count" and c: "0 < count"
    by (auto simp: word_less_nat_alt word_gt_0 not_le)
  have new: "partial_ok (new_partial count now)" "\<not> p_done (new_partial count now)"
    "p_count (new_partial count now) = count"
    using partial_ok_new [OF c] by (simp_all add: new_partial_def)
  show ?thesis
  proof (cases "map_of r frag")
    case None
    have "reasm_ok (mput frag (new_partial count now) (evict now r))"
      using assms evict_room [of r now] evict_ok new by (intro reasm_ok_mput) (auto simp: reasm_ok_def)
    then show ?thesis
      using False None new lt by (auto simp: reasm_add_def Let_def intro!: store_piece_ok)
  next
    case (Some p)
    then have p: "partial_ok p" using assms map_of_SomeD [OF Some] by (force simp: reasm_ok_def)
    have "reasm_ok (mput frag (new_partial count now) r)"
      using assms new Some by (intro reasm_ok_mput) auto
    then show ?thesis
      using False Some assms p new lt by (auto simp: reasm_add_def Let_def intro!: store_piece_ok)
  qed
qed

interpretation reasm: machine "[] :: reassembler"
  "\<lambda>r (now, frag, idx, count, piece). snd (reasm_add now frag idx count piece r)" reasm_ok
  by unfold_locales (auto simp: reasm_add_ok split: prod.split)

section \<open>Reassembly in any order\<close>

text \<open>\<open>tracks ps S p\<close>: the partial frame holds exactly the pieces of \<open>ps\<close> whose index is in \<open>S\<close>.\<close>

definition tracks :: "bytes list \<Rightarrow> nat set \<Rightarrow> partial \<Rightarrow> bool" where
  "tracks ps S p \<longleftrightarrow> \<not> p_done p \<and> unat (p_count p) = length ps \<and>
     p_pieces p = map (\<lambda>i. if i \<in> S then Some (ps ! i) else None) [0..<length ps] \<and>
     p_got p = card S \<and> S \<subseteq> {..<length ps}"

lemma tracks_new: "unat count = length ps \<Longrightarrow> tracks ps {} (new_partial count now)"
  by (simp add: tracks_def new_partial_def map_replicate_const)

lemma tracks_nth: "tracks ps S p \<Longrightarrow> i < length ps \<Longrightarrow> p_pieces p ! i \<noteq> None \<longleftrightarrow> i \<in> S"
  by (simp add: tracks_def)

lemma tracks_update:
  assumes "tracks ps S p" and "i < length ps" and "i \<notin> S"
  shows "(p_pieces p)[i := Some (ps ! i)] =
      map (\<lambda>j. if j \<in> insert i S then Some (ps ! j) else None) [0..<length ps]"
  using assms by (intro nth_equalityI) (auto simp: tracks_def nth_list_update)

lemma store_piece_tracks:
  assumes t: "tracks ps S p" and i: "i < length ps" "i \<notin> S"
  shows "store_piece frag i (ps ! i) p r =
    (if insert i S \<noteq> {..<length ps}
     then (None, mput frag (p\<lparr>p_pieces := map (\<lambda>j. if j \<in> insert i S then Some (ps ! j) else None) [0..<length ps],
             p_got := card (insert i S), p_total := p_total p + length (ps ! i)\<rparr>) r)
     else (Some (concat ps), mput frag (p\<lparr>p_got := card (insert i S),
             p_total := p_total p + length (ps ! i), p_done := True, p_pieces := []\<rparr>) r))"
proof -
  have fin: "finite S" and sub: "insert i S \<subseteq> {..<length ps}"
    using t i finite_subset [of S "{..<length ps}"] by (auto simp: tracks_def)
  have card: "card (insert i S) = Suc (card S)" using fin i by simp
  have "card (insert i S) < length ps \<longleftrightarrow> insert i S \<noteq> {..<length ps}"
    by (metis card_lessThan finite_lessThan less_irrefl psubsetI psubset_card_mono sub)
  then have less: "Suc (card S) < length ps \<longleftrightarrow> insert i S \<noteq> {..<length ps}" by (simp only: card)
  have cat: "concat (map piece_bytes (map (\<lambda>j. if j \<in> insert i S then Some (ps ! j) else None) [0..<length ps]))
      = concat ps" if "insert i S = {..<length ps}"
  proof -
    have "map piece_bytes (map (\<lambda>j. if j \<in> insert i S then Some (ps ! j) else None) [0..<length ps]) =
        map ((!) ps) [0..<length ps]"
      unfolding that by (auto simp: piece_bytes_def)
    then show ?thesis by (simp add: map_nth)
  qed
  have none: "p_pieces p ! i = None" using tracks_nth [OF t i(1)] i(2) by simp
  have got: "p_got p = card S" and cnt: "unat (p_count p) = length ps" using t by (simp_all add: tracks_def)
  let ?ps = "map (\<lambda>j. if j \<in> insert i S then Some (ps ! j) else None) [0..<length ps]"
  have "store_piece frag i (ps ! i) p r =
    (if Suc (card S) < length ps
     then (None, mput frag (p\<lparr>p_pieces := ?ps, p_got := Suc (card S), p_total := p_total p + length (ps ! i)\<rparr>) r)
     else (Some (concat (map piece_bytes ?ps)), mput frag (p\<lparr>p_got := Suc (card S),
             p_total := p_total p + length (ps ! i), p_done := True, p_pieces := []\<rparr>) r))"
    unfolding store_piece_def none tracks_update [OF t i] got Let_def using cnt by simp
  then show ?thesis using cat by (simp only: less card split: if_split) simp
qed

text \<open>Deliveries of one fragment id: each is an instant and a piece index.\<close>

fun deliver_pieces ::
  "32 word \<Rightarrow> bytes list \<Rightarrow> (time \<times> nat) list \<Rightarrow> reassembler \<Rightarrow> bytes option list \<times> reassembler" where
  "deliver_pieces frag ps [] r = ([], r)"
| "deliver_pieces frag ps ((now, i) # ds) r =
     (let (out, r') = reasm_add now frag (of_nat i) (of_nat (length ps)) (ps ! i) r;
          (outs, r'') = deliver_pieces frag ps ds r'
      in (out # outs, r''))"

definition tracked :: "32 word \<Rightarrow> bytes list \<Rightarrow> nat set \<Rightarrow> reassembler \<Rightarrow> bool" where
  "tracked frag ps S r \<longleftrightarrow> (if S = {} then map_of r frag = None
     else \<exists>p. map_of r frag = Some p \<and> (if S = {..<length ps} then p_done p else tracks ps S p))"

lemma reasm_add_tracked:
  assumes n: "2 \<le> length ps" "length ps < 256" and i: "i < length ps"
    and t: "tracked frag ps S r" and S: "S \<subseteq> {..<length ps}"
  shows "fst (reasm_add now frag (of_nat i) (of_nat (length ps)) (ps ! i) r) =
      (if S \<noteq> {..<length ps} \<and> insert i S = {..<length ps} then Some (concat ps) else None)"
    and "tracked frag ps (insert i S) (snd (reasm_add now frag (of_nat i) (of_nat (length ps)) (ps ! i) r))"
proof -
  let ?c = "of_nat (length ps) :: byte" and ?i = "of_nat i :: byte"
  have uc: "unat ?c = length ps" and ui: "unat ?i = i" using n i by simp_all
  have "?c \<noteq> 0" by (metis n(1) not_numeral_le_zero uc unat_0)
  moreover have "?c \<noteq> 1" by (metis n(1) numeral_le_one_iff semiring_norm(69) uc unat_1)
  moreover have "\<not> ?c \<le> ?i" using n i by (simp add: word_le_nat_alt)
  ultimately have cond: "\<not> (?c = 0 \<or> ?c \<le> ?i)" "?c \<noteq> 1" by simp_all
  have full: "{..<length ps} \<noteq> {}" using n by (metis lessThan_empty_iff not_numeral_le_zero)
  have sing: "insert i {} \<noteq> {..<length ps}"
  proof
    assume "insert i {} = {..<length ps}"
    then have "card (insert i {}) = length ps" by (simp only: card_lessThan)
    then show False using n(1) by simp
  qed
  consider (fresh) "S = {}" | (finished) "S = {..<length ps}" | (going) "S \<noteq> {}" "S \<noteq> {..<length ps}" by blast
  then have "fst (reasm_add now frag ?i ?c (ps ! i) r) =
      (if S \<noteq> {..<length ps} \<and> insert i S = {..<length ps} then Some (concat ps) else None) \<and>
    tracked frag ps (insert i S) (snd (reasm_add now frag ?i ?c (ps ! i) r))"
  proof cases
    case fresh
    then have m: "map_of r frag = None" using t by (simp add: tracked_def)
    let ?q = "new_partial ?c now" let ?r = "mput frag ?q (evict now r)"
    have q: "\<not> p_done ?q" "unat (p_count ?q) = length ps" using uc by (simp_all add: new_partial_def)
    have add: "reasm_add now frag ?i ?c (ps ! i) r = store_piece frag i (ps ! i) ?q ?r"
      using m cond by (simp add: reasm_add_def Let_def ui)
    have sub: "insert i {} \<subseteq> {..<length ps}" using i by simp
    show ?thesis
      unfolding add store_piece_tracks [OF tracks_new [OF uc] i, simplified] fresh
      using sing sub q by (simp add: tracked_def tracks_def)
  next
    case finished
    then obtain p where "map_of r frag = Some p" "p_done p" using t full by (auto simp: tracked_def)
    with finished cond i full show ?thesis
      by (simp add: reasm_add_def tracked_def insert_absorb)
  next
    case going
    then obtain p where p: "map_of r frag = Some p" "tracks ps S p" using t by (auto simp: tracked_def)
    then have "\<not> p_done p" and "unat (p_count p) = unat ?c" using uc by (auto simp: tracks_def)
    then have pc: "\<not> p_done p" "p_count p = ?c" by (auto simp only: word_unat_eq_iff)
    show ?thesis
    proof (cases "i \<in> S")
      case True
      then have "p_pieces p ! i \<noteq> None" using tracks_nth [OF p(2) i] by simp
      with True going cond p pc ui t show ?thesis
        by (auto simp: reasm_add_def store_piece_def insert_absorb)
    next
      case False
      note st = store_piece_tracks [OF p(2) i False]
      have "insert i S \<subseteq> {..<length ps}" using S i by auto
      with False going cond p pc ui st show ?thesis
        by (auto simp: reasm_add_def tracked_def tracks_def)
    qed
  qed
  then show "fst (reasm_add now frag ?i ?c (ps ! i) r) =
      (if S \<noteq> {..<length ps} \<and> insert i S = {..<length ps} then Some (concat ps) else None)"
    and "tracked frag ps (insert i S) (snd (reasm_add now frag ?i ?c (ps ! i) r))" by blast+
qed

text \<open>The outputs of a whole delivery sequence: the frame at the completing piece, nothing elsewhere.\<close>

fun expected_outputs :: "bytes list \<Rightarrow> nat set \<Rightarrow> nat list \<Rightarrow> bytes option list" where
  "expected_outputs ps S [] = []"
| "expected_outputs ps S (i # is) =
     (if S \<noteq> {..<length ps} \<and> insert i S = {..<length ps} then Some (concat ps) else None) #
     expected_outputs ps (insert i S) is"

lemma deliver_pieces_outputs:
  assumes "2 \<le> length ps" and "length ps < 256"
  shows "(\<forall>i \<in> set (map snd ds). i < length ps) \<Longrightarrow> tracked frag ps S r \<Longrightarrow> S \<subseteq> {..<length ps} \<Longrightarrow>
    fst (deliver_pieces frag ps ds r) = expected_outputs ps S (map snd ds)"
proof (induction ds arbitrary: S r)
  case Nil
  then show ?case by simp
next
  case (Cons d ds)
  obtain now i where d: "d = (now, i)" by (cases d)
  have i: "i < length ps" using Cons.prems(1) d by simp
  note add = reasm_add_tracked [OF assms i Cons.prems(2,3), of now]
  have "fst (deliver_pieces frag ps ds (snd (reasm_add now frag (of_nat i) (of_nat (length ps)) (ps ! i) r)))
      = expected_outputs ps (insert i S) (map snd ds)"
    using Cons.prems i by (intro Cons.IH [OF _ add(2)]) auto
  then show ?case using add(1) by (simp add: d case_prod_beta Let_def)
qed

lemma expected_outputs_full: "expected_outputs ps {..<length ps} is = replicate (length is) None"
  if "\<forall>i \<in> set is. i < length ps"
  using that by (induction "is") (simp_all add: insert_absorb)

lemma expected_outputs_once:
  "S \<subseteq> {..<length ps} \<Longrightarrow> S \<noteq> {..<length ps} \<Longrightarrow> \<forall>i \<in> set is. i < length ps \<Longrightarrow>
     S \<union> set is = {..<length ps} \<Longrightarrow>
     filter (\<lambda>x. x \<noteq> None) (expected_outputs ps S is) = [Some (concat ps)]"
proof (induction "is" arbitrary: S)
  case Nil
  then show ?case by simp
next
  case (Cons i "is")
  show ?case
  proof (cases "insert i S = {..<length ps}")
    case True
    with Cons.prems show ?thesis by (simp add: expected_outputs_full)
  next
    case False
    with Cons.prems Cons.IH [of "insert i S"] show ?thesis by simp
  qed
qed

lemma expected_outputs_partial:
  "S \<union> set is \<noteq> {..<length ps} \<Longrightarrow> S \<union> set is \<subseteq> {..<length ps} \<Longrightarrow>
     expected_outputs ps S is = replicate (length is) None"
proof (induction "is" arbitrary: S)
  case Nil
  then show ?case by simp
next
  case (Cons i "is")
  then have "insert i S \<noteq> {..<length ps}" by auto
  moreover have "insert i S \<union> set is = S \<union> set (i # is)" by auto
  ultimately show ?case using Cons by simp
qed

lemma deliver_pieces_complete:
  assumes "2 \<le> length ps" and "length ps < 256" and "map_of r frag = None"
    and "set (map snd ds) = {..<length ps}"
  shows "filter (\<lambda>x. x \<noteq> None) (fst (deliver_pieces frag ps ds r)) = [Some (concat ps)]"
proof -
  have "fst (deliver_pieces frag ps ds r) = expected_outputs ps {} (map snd ds)"
    using assms by (intro deliver_pieces_outputs) (auto simp: tracked_def)
  moreover have "filter (\<lambda>x. x \<noteq> None) (expected_outputs ps {} (map snd ds)) = [Some (concat ps)]"
  proof (rule expected_outputs_once)
    show "{} \<noteq> {..<length ps}" using assms(1) by (metis lessThan_empty_iff not_numeral_le_zero)
    show "\<forall>i \<in> set (map snd ds). i < length ps" unfolding assms(4) by simp
  qed (use assms(4) in auto)
  ultimately show ?thesis by simp
qed

lemma deliver_pieces_incomplete:
  assumes "2 \<le> length ps" and "length ps < 256" and "map_of r frag = None"
    and "set (map snd ds) \<subset> {..<length ps}"
  shows "fst (deliver_pieces frag ps ds r) = replicate (length ds) None"
proof -
  have "fst (deliver_pieces frag ps ds r) = expected_outputs ps {} (map snd ds)"
    using assms by (intro deliver_pieces_outputs) (auto simp: tracked_def)
  then show ?thesis using assms(4) by (simp add: expected_outputs_partial psubset_eq)
qed

end
