(* ===== verification/FecCode.thy ===== *)
theory FecCode
  imports Prelude
begin

text \<open>
  The coding half of \<open>internal/fec/fec.go\<close>: the encoder that groups packets into blocks, the XOR
  parity used for one repair packet, the calls into the Reed-Solomon library for more than one, and
  the recovery routines of the decoder. The Reed-Solomon matrix code is a parameter with the law the
  code relies on; the XOR code is proved from its definition.
\<close>

section \<open>Parameters and errors\<close>

definition MaxK :: int where "MaxK = 128"
definition MaxR :: int where "MaxR = 32"
definition max_old_blocks :: nat where "max_old_blocks = 8"
definition block_keep_age :: time where "block_keep_age = 2 * second"

datatype fec_error = KOutOfRange int | ROutOfRange int | RsInitFailed | Unrecoverable

text \<open>
  The \<open>klauspost/reedsolomon\<close> encoder for \<open>k\<close> data and \<open>r\<close> repair shards: \<open>Encode\<close> fills the
  repair shards from equally long data shards, \<open>ReconstructData\<close> fills the missing data shards.
  \<open>None\<close> is an error return.
\<close>

record rs_code =
  rs_new_ok :: "nat \<Rightarrow> nat \<Rightarrow> bool"
  rs_encode :: "nat \<Rightarrow> nat \<Rightarrow> bytes list \<Rightarrow> bytes list option"
  rs_reconstruct :: "nat \<Rightarrow> nat \<Rightarrow> bytes option list \<Rightarrow> bytes option list option"

text \<open>
  What the decoder relies on: encoding succeeds on nonempty shards and produces \<open>r\<close> shards of the
  same length, and any \<open>k\<close> of the \<open>k + r\<close> shards determine the data.
\<close>

definition present_count :: "'a option list \<Rightarrow> nat" where
  "present_count xs = length (filter (\<lambda>x. x \<noteq> None) xs)"

definition agrees :: "'a option list \<Rightarrow> 'a list \<Rightarrow> bool" where
  "agrees xs ys \<longleftrightarrow> list_all2 (\<lambda>x y. x = None \<or> x = Some y) xs ys"

definition rs_law :: "rs_code \<Rightarrow> nat \<Rightarrow> nat \<Rightarrow> bool" where
  "rs_law rs k r \<longleftrightarrow>
     (\<forall>n data. 0 < n \<longrightarrow> length data = k \<longrightarrow> (\<forall>d \<in> set data. length d = n) \<longrightarrow>
        (\<exists>reps. rs_encode rs k r data = Some reps \<and> length reps = r \<and> (\<forall>d \<in> set reps. length d = n) \<and>
           (\<forall>shards. agrees shards (data @ reps) \<longrightarrow> k \<le> present_count shards \<longrightarrow>
              (\<exists>out. rs_reconstruct rs k r shards = Some out \<and> take k out = map Some data))))"

section \<open>Padding and XOR parity\<close>

definition pad :: "nat \<Rightarrow> bytes \<Rightarrow> bytes" where
  "pad n p = p @ replicate (n - length p) 0"

definition max_len :: "bytes list \<Rightarrow> nat" where
  "max_len ps = foldl (\<lambda>m p. if m < length p then length p else m) 0 ps"

text \<open>\<open>for j, b := range p { if j < len(out) { out[j] ^= b } }\<close>\<close>

fun xor_into :: "bytes \<Rightarrow> bytes \<Rightarrow> bytes" where
  "xor_into (a # as) (b # bs) = (a XOR b) # xor_into as bs"
| "xor_into as [] = as"
| "xor_into [] bs = []"

definition xor_all :: "bytes list \<Rightarrow> bytes" where
  "xor_all ps = foldl xor_into (replicate (max_len ps) 0) ps"

definition opt_bytes :: "bytes option \<Rightarrow> bytes" where
  "opt_bytes x = (case x of None \<Rightarrow> [] | Some b \<Rightarrow> b)"

text \<open>The indices of the empty slots, in the order the scan finds them.\<close>

definition missing_idx :: "bytes option list \<Rightarrow> nat list" where
  "missing_idx data = filter (\<lambda>i. data ! i = None) [0..<length data]"

definition xor_recover :: "bytes option list \<Rightarrow> bytes \<Rightarrow> fec_error + bytes option list" where
  "xor_recover data repair =
     (case missing_idx data of
        [] \<Rightarrow> Inr data
      | [m] \<Rightarrow> Inr (data[m := Some (foldl xor_into repair (map opt_bytes data))])
      | _ \<Rightarrow> Inl Unrecoverable)"

definition rs_encode_block :: "rs_code \<Rightarrow> nat \<Rightarrow> nat \<Rightarrow> bytes list \<Rightarrow> bytes list option" where
  "rs_encode_block rs k r data = rs_encode rs k r (map (pad (max_len data)) data)"

definition rs_recover ::
  "rs_code \<Rightarrow> nat \<Rightarrow> nat \<Rightarrow> bytes option list \<Rightarrow> bytes option list \<Rightarrow> fec_error + bytes option list" where
  "rs_recover rs k r data repair =
     (let n = max_len (map opt_bytes data @ map opt_bytes repair);
          shards = map (map_option (pad n)) data @ map (map_option (pad n)) repair
      in case rs_reconstruct rs k r shards of None \<Rightarrow> Inl Unrecoverable | Some out \<Rightarrow> Inr (take k out))"

section \<open>The encoder\<close>

record encoder =
  e_k :: nat
  e_r :: nat
  e_buf :: "bytes list"
  e_block :: "32 word"

definition new_encoder :: "rs_code \<Rightarrow> int \<Rightarrow> int \<Rightarrow> fec_error + encoder" where
  "new_encoder rs k r =
     (if k < 1 \<or> MaxK < k then Inl (KOutOfRange k)
      else if r < 0 \<or> MaxR < r then Inl (ROutOfRange r)
      else if 1 < r \<and> \<not> rs_new_ok rs (nat k) (nat r) then Inl RsInitFailed
      else Inr \<lparr>e_k = nat k, e_r = nat r, e_buf = [], e_block = 0\<rparr>)"

text \<open>\<open>None\<close> is the \<open>nil\<close> slice of repairs: the block is not full, \<open>r = 0\<close>, or encoding failed.\<close>

definition block_repairs :: "rs_code \<Rightarrow> nat \<Rightarrow> nat \<Rightarrow> bytes list \<Rightarrow> bytes list option" where
  "block_repairs rs k r data =
     (if r = 0 then None else if r = 1 then Some [xor_all data] else rs_encode_block rs k r data)"

definition encoder_add :: "rs_code \<Rightarrow> bytes \<Rightarrow> encoder \<Rightarrow> bytes list option \<times> encoder" where
  "encoder_add rs pkt e =
     (let buf = e_buf e @ [pkt] in
      if length buf < e_k e then (None, e\<lparr>e_buf := buf\<rparr>)
      else (block_repairs rs (e_k e) (e_r e) buf, e\<lparr>e_buf := [], e_block := e_block e + 1\<rparr>))"

definition encoder_ok :: "encoder \<Rightarrow> bool" where
  "encoder_ok e \<longleftrightarrow> 1 \<le> e_k e \<and> e_k e \<le> 128 \<and> e_r e \<le> 32 \<and> length (e_buf e) < e_k e"

lemma new_encoder_ok: "new_encoder rs k r = Inr e \<Longrightarrow> encoder_ok e"
  by (auto simp: new_encoder_def encoder_ok_def MaxK_def MaxR_def split: if_splits)

lemma encoder_add_ok: "encoder_ok e \<Longrightarrow> encoder_ok (snd (encoder_add rs pkt e))"
  by (auto simp: encoder_add_def encoder_ok_def Let_def)

section \<open>Lengths\<close>

lemma length_pad: "length p \<le> n \<Longrightarrow> length (pad n p) = n"
  by (simp add: pad_def)

lemma pad_id [simp]: "length p = n \<Longrightarrow> pad n p = p"
  by (simp add: pad_def)

lemma max_len_foldl: "foldl (\<lambda>m p. if m < length p then length p else m) a ps = max a (max_len ps)"
proof -
  have 0: "foldl (\<lambda>m p. if m < length p then length p else m) a ps = foldl max a (map length ps)" for a
    by (induction ps arbitrary: a) (simp_all add: max_def)
  then have 1: "max_len ps = foldl max 0 (map length ps)" unfolding max_len_def .
  have 2: "foldl max a xs = max a (foldl max 0 xs)" for a :: nat and xs
  proof (induction xs arbitrary: a)
    case (Cons x xs)
    have "foldl max a (x # xs) = max (max a x) (foldl max 0 xs)" using Cons.IH [of "max a x"] by simp
    moreover have "foldl max 0 (x # xs) = max x (foldl max 0 xs)" using Cons.IH [of x] by simp
    ultimately show ?case by (simp only: max.assoc)
  qed simp
  show ?thesis unfolding 0 1 by (rule 2)
qed

lemma max_len_Nil [simp]: "max_len [] = 0"
  by (simp add: max_len_def)

lemma max_len_Cons [simp]: "max_len (p # ps) = max (length p) (max_len ps)"
  using max_len_foldl [of "length p" ps] by (simp add: max_len_def)

lemma max_len_append [simp]: "max_len (ps @ qs) = max (max_len ps) (max_len qs)"
  by (induction ps) (simp_all add: max.assoc)

lemma length_le_max_len: "p \<in> set ps \<Longrightarrow> length p \<le> max_len ps"
  by (induction ps) auto

lemma max_len_le: "(\<And>p. p \<in> set ps \<Longrightarrow> length p \<le> n) \<Longrightarrow> max_len ps \<le> n"
  by (induction ps) auto

lemma length_xor_into [simp]: "length (xor_into a b) = length a"
  by (induction a b rule: xor_into.induct) simp_all

lemma length_foldl_xor_into [simp]: "length (foldl xor_into a ps) = length a"
  by (induction ps arbitrary: a) simp_all

lemma length_xor_all [simp]: "length (xor_all ps) = max_len ps"
  by (simp add: xor_all_def)

section \<open>The XOR code recovers one loss\<close>

definition byte_at :: "bytes \<Rightarrow> nat \<Rightarrow> byte" where
  "byte_at p j = (if j < length p then p ! j else 0)"

definition xor_at :: "nat \<Rightarrow> bytes list \<Rightarrow> byte" where
  "xor_at j ps = foldr (\<lambda>p acc. byte_at p j XOR acc) ps 0"

lemma nth_xor_into: "j < length a \<Longrightarrow> xor_into a b ! j = a ! j XOR byte_at b j"
  by (induction a b arbitrary: j rule: xor_into.induct)
    (auto simp: byte_at_def nth_Cons' less_Suc_eq_0_disj)

lemma nth_foldl_xor_into: "j < length a \<Longrightarrow> foldl xor_into a ps ! j = a ! j XOR xor_at j ps"
  by (induction ps arbitrary: a) (simp_all add: xor_at_def nth_xor_into xor.assoc)

lemma nth_xor_all: "j < max_len ps \<Longrightarrow> xor_all ps ! j = xor_at j ps"
  by (simp add: xor_all_def nth_foldl_xor_into)

lemma xor_at_Nil [simp]: "xor_at j [] = 0" and
  xor_at_Cons [simp]: "xor_at j (p # ps) = byte_at p j XOR xor_at j ps"
  by (simp_all add: xor_at_def)

lemma xor_cancel: "a XOR (a XOR b) = b" for a b :: byte
  by (simp flip: xor.assoc)

lemma xor_at_update_Nil:
  "m < length ps \<Longrightarrow> xor_at j ps = byte_at (ps ! m) j XOR xor_at j (ps[m := []])"
  by (induction ps arbitrary: m)
    (auto split: nat.split simp: nth_Cons' byte_at_def xor.left_commute gr0_conv_Suc)

lemma nth_pad: "j < n \<Longrightarrow> length p \<le> n \<Longrightarrow> pad n p ! j = byte_at p j"
  by (simp add: pad_def byte_at_def nth_append)

lemma missing_idx_single:
  assumes "length data = length src" and "m < length src" and "data = (map Some src)[m := None]"
  shows "missing_idx data = [m]"
proof -
  have "data ! i = None \<longleftrightarrow> i = m" if "i < length src" for i
    using assms that by (cases "i = m") simp_all
  then have "missing_idx data = filter (\<lambda>i. i = m) [0..<length src]"
    unfolding missing_idx_def using assms(1) by (intro filter_cong) auto
  also have "[0..<length src] = [0..<m] @ m # [Suc m..<length src]"
    using assms(2) by (metis less_imp_le_nat upt_add_eq_append upt_conv_Cons le_add_diff_inverse zero_le)
  also have "filter (\<lambda>i. i = m) \<dots> = [m]" by (simp add: filter_empty_conv)
  finally show ?thesis .
qed

lemma xor_at_map_opt:
  assumes "m < length src"
  shows "xor_at j src = byte_at (src ! m) j XOR xor_at j (map opt_bytes ((map Some src)[m := None]))"
proof -
  have "map opt_bytes ((map Some src)[m := None]) = src[m := []]"
    by (simp add: map_update opt_bytes_def comp_def)
  with xor_at_update_Nil [OF assms, of j] show ?thesis by simp
qed

text \<open>
  One data packet lost, the parity received: the scan finds it and the XOR of the parity with the
  remaining packets is the lost packet, zero-padded to the longest packet of the block.
\<close>

lemma xor_recover_one:
  assumes "m < length src"
  shows "xor_recover ((map Some src)[m := None]) (xor_all src) =
         Inr ((map Some src)[m := Some (pad (max_len src) (src ! m))])"
proof -
  let ?d = "(map Some src)[m := None]"
  have le: "length (src ! m) \<le> max_len src" using assms by (simp add: length_le_max_len)
  have "foldl xor_into (xor_all src) (map opt_bytes ?d) = pad (max_len src) (src ! m)"
  proof (rule nth_equalityI)
    show "length (foldl xor_into (xor_all src) (map opt_bytes ?d)) = length (pad (max_len src) (src ! m))"
      using le by (simp add: length_pad)
  next
    fix j assume "j < length (foldl xor_into (xor_all src) (map opt_bytes ?d))"
    then have j: "j < max_len src" by simp
    have "foldl xor_into (xor_all src) (map opt_bytes ?d) ! j = xor_at j src XOR xor_at j (map opt_bytes ?d)"
      using j by (simp add: nth_foldl_xor_into nth_xor_all)
    also have "\<dots> = byte_at (src ! m) j"
      by (subst xor_at_map_opt [OF assms]) (simp add: xor.assoc)
    finally show "foldl xor_into (xor_all src) (map opt_bytes ?d) ! j = pad (max_len src) (src ! m) ! j"
      using nth_pad [OF j le] by simp
  qed
  moreover have "missing_idx ?d = [m]" using assms by (intro missing_idx_single) simp_all
  ultimately show ?thesis by (simp add: xor_recover_def)
qed

end
