(* ===== verification/FecDecoder.thy ===== *)
theory FecDecoder
  imports FecCode
begin

text \<open>
  The \<open>Decoder\<close> of \<open>internal/fec/fec.go\<close>: blocks keyed by ID, the pool of recycled blocks, expiry,
  recovery, in-order delivery and the flush of stale blocks. The clock is an argument. The lemmas
  end with the erasure property: any \<open>k\<close> of the \<open>k + r\<close> symbols of a block, in any order and with
  duplicates, deliver its \<open>k\<close> packets in order and once.
\<close>

section \<open>State\<close>

record dec_block =
  b_data :: "bytes option list"
  b_repair :: "bytes option list"
  b_present :: "bool list"
  b_count :: nat
  b_delivered :: nat
  b_done :: bool
  b_last :: "time option"

definition new_block :: "nat \<Rightarrow> nat \<Rightarrow> dec_block" where
  "new_block k r = \<lparr>b_data = replicate k None, b_repair = replicate r None,
     b_present = replicate (k + r) False, b_count = 0, b_delivered = 0, b_done = False, b_last = None\<rparr>"

record decoder =
  d_k :: nat
  d_r :: nat
  d_blocks :: "(32 word, dec_block) amap"
  d_pool :: "dec_block list"
  d_max_seen :: "32 word"
  d_min_block :: "32 word"

definition new_decoder :: "rs_code \<Rightarrow> int \<Rightarrow> int \<Rightarrow> fec_error + decoder" where
  "new_decoder rs k r =
     (if 1 < r \<and> \<not> rs_new_ok rs (nat k) (nat r) then Inl RsInitFailed
      else Inr \<lparr>d_k = nat k, d_r = nat r, d_blocks = [], d_pool = [], d_max_seen = 0, d_min_block = 0\<rparr>)"

section \<open>Operations\<close>

definition block_done :: "32 word \<Rightarrow> decoder \<Rightarrow> bool" where
  "block_done bid d = (case map_of (d_blocks d) bid of None \<Rightarrow> False | Some b \<Rightarrow> b_done b)"

text \<open>\<open>sync.Pool.Get\<close> hands out a returned block when there is one, else a new one.\<close>

definition pool_get :: "decoder \<Rightarrow> dec_block \<times> decoder" where
  "pool_get d = (case d_pool d of [] \<Rightarrow> (new_block (d_k d) (d_r d), d) | b # bs \<Rightarrow> (b, d\<lparr>d_pool := bs\<rparr>))"

definition get_or_create :: "32 word \<Rightarrow> decoder \<Rightarrow> dec_block \<times> decoder" where
  "get_or_create bid d =
     (case map_of (d_blocks d) bid of
        Some b \<Rightarrow> (b, d)
      | None \<Rightarrow> (case pool_get d of (b, d') \<Rightarrow> (b, d'\<lparr>d_blocks := mput bid b (d_blocks d')\<rparr>)))"

definition reset_block :: "dec_block \<Rightarrow> dec_block" where
  "reset_block b = \<lparr>b_data = map (\<lambda>_. None) (b_data b), b_repair = map (\<lambda>_. None) (b_repair b),
     b_present = map (\<lambda>_. False) (b_present b), b_count = 0, b_delivered = 0, b_done = False, b_last = None\<rparr>"

definition return_block :: "dec_block \<Rightarrow> decoder \<Rightarrow> decoder" where
  "return_block b d = d\<lparr>d_pool := reset_block b # d_pool d\<rparr>"

definition expired_block :: "time \<Rightarrow> dec_block \<Rightarrow> bool" where
  "expired_block now b = (case b_last b of None \<Rightarrow> True | Some t \<Rightarrow> block_keep_age < now - t)"

function expire_loop :: "time \<Rightarrow> 32 word \<Rightarrow> decoder \<Rightarrow> decoder" where
  "expire_loop now threshold d =
     (if d_min_block d < threshold then
        (case map_of (d_blocks d) (d_min_block d) of
           None \<Rightarrow> expire_loop now threshold (d\<lparr>d_min_block := d_min_block d + 1\<rparr>)
         | Some b \<Rightarrow>
             if expired_block now b then
               expire_loop now threshold
                 ((return_block b (d\<lparr>d_blocks := mdel (d_min_block d) (d_blocks d)\<rparr>))
                    \<lparr>d_min_block := d_min_block d + 1\<rparr>)
             else d)
      else d)"
  by pat_completeness auto

lemma unat_Suc_less: "a < (b :: 32 word) \<Longrightarrow> unat (a + 1) = Suc (unat a)"
proof -
  assume "a < b"
  moreover have "unat b < 2 ^ 32" using unsigned_less [of b] by simp
  ultimately show ?thesis by (simp add: unat_word_ariths(1) word_less_nat_alt)
qed

termination expire_loop
  by (relation "measure (\<lambda>(_, threshold, d). unat threshold - unat (d_min_block d))")
    (auto simp: unat_Suc_less word_less_nat_alt)

declare expire_loop.simps [simp del]

definition expire :: "time \<Rightarrow> decoder \<Rightarrow> decoder" where
  "expire now d =
     (if d_max_seen d < of_nat max_old_blocks then d
      else expire_loop now (d_max_seen d - of_nat max_old_blocks) d)"

text \<open>The merge after a recovery: a slot that was already present keeps its packet.\<close>

definition fill_missing :: "bytes option list \<Rightarrow> dec_block \<Rightarrow> dec_block" where
  "fill_missing result b = b\<lparr>
     b_data := map (\<lambda>i. if i < length result \<and> \<not> b_present b ! i then result ! i else b_data b ! i)
                 [0..<length (b_data b)],
     b_present := map (\<lambda>i. i < length result \<or> b_present b ! i) [0..<length (b_present b)]\<rparr>"

text \<open>\<open>for b.delivered < d.k && b.present[b.delivered]\<close>\<close>

function deliver_loop :: "nat \<Rightarrow> dec_block \<Rightarrow> bytes list \<times> dec_block" where
  "deliver_loop k b =
     (if b_delivered b < k \<and> b_present b ! b_delivered b then
        (case deliver_loop k (b\<lparr>b_delivered := Suc (b_delivered b)\<rparr>) of
           (out, b') \<Rightarrow> (opt_bytes (b_data b ! b_delivered b) # out, b'))
      else ([], b))"
  by pat_completeness auto

termination deliver_loop
  by (relation "measure (\<lambda>(k, b). k - b_delivered b)") auto

declare deliver_loop.simps [simp del]

definition missing_count :: "nat \<Rightarrow> dec_block \<Rightarrow> nat" where
  "missing_count k b = length (filter (\<lambda>i. \<not> b_present b ! i) [b_delivered b..<k])"

definition repair_count :: "nat \<Rightarrow> nat \<Rightarrow> dec_block \<Rightarrow> nat" where
  "repair_count k r b = length (filter (\<lambda>i. b_present b ! (k + i)) [0..<r])"

definition recover_data :: "rs_code \<Rightarrow> nat \<Rightarrow> nat \<Rightarrow> dec_block \<Rightarrow> fec_error + bytes option list" where
  "recover_data rs k r b =
     (if r = 1 then xor_recover (b_data b) (opt_bytes (b_repair b ! 0))
      else rs_recover rs k r (b_data b) (b_repair b))"

definition deliver_block :: "nat \<Rightarrow> dec_block \<Rightarrow> bytes list \<times> dec_block" where
  "deliver_block k b =
     (case deliver_loop k b of (out, b') \<Rightarrow>
        (out, if b_delivered b' = k then b'\<lparr>b_done := True\<rparr> else b'))"

definition try_recover :: "rs_code \<Rightarrow> nat \<Rightarrow> nat \<Rightarrow> dec_block \<Rightarrow> (fec_error + bytes list) \<times> dec_block" where
  "try_recover rs k r b =
     (if 0 < missing_count k b \<and> missing_count k b \<le> repair_count k r b then
        (case recover_data rs k r b of
           Inl e \<Rightarrow> (Inl e, b)
         | Inr result \<Rightarrow> (case deliver_block k (fill_missing result b) of (out, b') \<Rightarrow> (Inr out, b')))
      else (case deliver_block k b of (out, b') \<Rightarrow> (Inr out, b')))"

text \<open>The part of \<open>add\<close> after \<open>getOrCreate\<close>: one symbol into one block.\<close>

definition block_add ::
  "rs_code \<Rightarrow> nat \<Rightarrow> nat \<Rightarrow> time \<Rightarrow> int \<Rightarrow> bytes \<Rightarrow> bool \<Rightarrow> dec_block \<Rightarrow> (fec_error + bytes list) \<times> dec_block"
where
  "block_add rs k r now idx pkt is_repair b =
     (if b_done b then (Inr [], b)
      else if is_repair then
        (if idx < 0 \<or> int r \<le> idx \<or> b_present b ! (k + nat idx) then (Inr [], b)
         else try_recover rs k r (b\<lparr>b_repair := (b_repair b)[nat idx := Some pkt],
                b_present := (b_present b)[k + nat idx := True],
                b_count := Suc (b_count b), b_last := Some now\<rparr>))
      else
        (if idx < 0 \<or> int k \<le> idx \<or> b_present b ! nat idx then (Inr [], b)
         else try_recover rs k r (b\<lparr>b_data := (b_data b)[nat idx := Some pkt],
                b_present := (b_present b)[nat idx := True],
                b_count := Suc (b_count b), b_last := Some now\<rparr>)))"

definition track_max :: "time \<Rightarrow> 32 word \<Rightarrow> decoder \<Rightarrow> decoder" where
  "track_max now bid d = (if d_max_seen d < bid then expire now (d\<lparr>d_max_seen := bid\<rparr>) else d)"

definition decoder_add ::
  "rs_code \<Rightarrow> time \<Rightarrow> 32 word \<Rightarrow> int \<Rightarrow> bytes \<Rightarrow> bool \<Rightarrow> decoder \<Rightarrow> (fec_error + bytes list) \<times> decoder"
where
  "decoder_add rs now bid idx pkt is_repair d =
     (case get_or_create bid (track_max now bid d) of (b, d') \<Rightarrow>
        (case block_add rs (d_k d') (d_r d') now idx pkt is_repair b of (out, b') \<Rightarrow>
           (out, d'\<lparr>d_blocks := mput bid b' (d_blocks d')\<rparr>)))"

definition add_data :: "rs_code \<Rightarrow> time \<Rightarrow> 32 word \<Rightarrow> int \<Rightarrow> bytes \<Rightarrow> decoder \<Rightarrow> (fec_error + bytes list) \<times> decoder" where
  "add_data rs now bid idx pkt d = decoder_add rs now bid idx pkt False d"

definition add_repair :: "rs_code \<Rightarrow> time \<Rightarrow> 32 word \<Rightarrow> int \<Rightarrow> bytes \<Rightarrow> decoder \<Rightarrow> (fec_error + bytes list) \<times> decoder" where
  "add_repair rs now bid idx pkt d = decoder_add rs now bid idx pkt True d"

text \<open>\<open>FlushStale\<close>: one block, then the ascending scan.\<close>

definition stale_block :: "time \<Rightarrow> time \<Rightarrow> dec_block \<Rightarrow> bool" where
  "stale_block now max_age b \<longleftrightarrow>
     \<not> (b_done b \<or> (case b_last b of None \<Rightarrow> True | Some t \<Rightarrow> now - t < max_age))"

definition stuck_positions :: "nat \<Rightarrow> dec_block \<Rightarrow> nat list" where
  "stuck_positions k b = filter (\<lambda>i. b_present b ! i) [b_delivered b..<k]"

definition flush_block :: "nat \<Rightarrow> time \<Rightarrow> time \<Rightarrow> dec_block \<Rightarrow> bytes list \<times> dec_block" where
  "flush_block k now max_age b =
     (if \<not> stale_block now max_age b \<or> stuck_positions k b = [] then ([], b)
      else (map (\<lambda>i. opt_bytes (b_data b ! i)) (stuck_positions k b),
            b\<lparr>b_delivered := k, b_done := True\<rparr>))"

fun flush_ids :: "time \<Rightarrow> time \<Rightarrow> 32 word list \<Rightarrow> decoder \<Rightarrow> bytes list \<times> decoder" where
  "flush_ids now max_age [] d = ([], d)"
| "flush_ids now max_age (bid # ids) d =
     (case map_of (d_blocks d) bid of
        None \<Rightarrow> flush_ids now max_age ids d
      | Some b \<Rightarrow>
          (case flush_block (d_k d) now max_age b of (out, b') \<Rightarrow>
             (case flush_ids now max_age ids (d\<lparr>d_blocks := mput bid b' (d_blocks d)\<rparr>) of
                (rest, d') \<Rightarrow> (out @ rest, d'))))"

definition flush_stale :: "time \<Rightarrow> time \<Rightarrow> decoder \<Rightarrow> bytes list \<times> decoder" where
  "flush_stale now max_age d = flush_ids now max_age (sort (map fst (d_blocks d))) d"

section \<open>Block and decoder invariants\<close>

definition block_ok :: "nat \<Rightarrow> nat \<Rightarrow> dec_block \<Rightarrow> bool" where
  "block_ok k r b \<longleftrightarrow> length (b_data b) = k \<and> length (b_repair b) = r \<and> length (b_present b) = k + r \<and>
     b_delivered b \<le> k \<and> (b_done b \<longleftrightarrow> b_delivered b = k)"

definition decoder_ok :: "decoder \<Rightarrow> bool" where
  "decoder_ok d \<longleftrightarrow> 0 < d_k d \<and> amap_ok (d_blocks d) \<and>
     (\<forall>bid b. map_of (d_blocks d) bid = Some b \<longrightarrow> block_ok (d_k d) (d_r d) b) \<and>
     (\<forall>b \<in> set (d_pool d). b = new_block (d_k d) (d_r d))"

lemma new_block_simps [simp]:
  "b_data (new_block k r) = replicate k None" "b_repair (new_block k r) = replicate r None"
  "b_present (new_block k r) = replicate (k + r) False" "b_delivered (new_block k r) = 0"
  "b_done (new_block k r) = False" "b_last (new_block k r) = None" "b_count (new_block k r) = 0"
  by (simp_all add: new_block_def)

lemma block_ok_new: "0 < k \<Longrightarrow> block_ok k r (new_block k r)"
  by (simp add: block_ok_def)

text \<open>A recycled block is indistinguishable from a new one.\<close>

lemma reset_block_new: "block_ok k r b \<Longrightarrow> reset_block b = new_block k r"
  by (simp add: block_ok_def reset_block_def new_block_def map_replicate_const)

lemma decoder_okD:
  "decoder_ok d \<Longrightarrow> map_of (d_blocks d) bid = Some b \<Longrightarrow> block_ok (d_k d) (d_r d) b"
  by (simp add: decoder_ok_def)

lemma decoder_ok_put:
  "decoder_ok d \<Longrightarrow> block_ok (d_k d) (d_r d) b \<Longrightarrow> decoder_ok (d\<lparr>d_blocks := mput bid b (d_blocks d)\<rparr>)"
  by (simp add: decoder_ok_def)

lemma decoder_ok_more [simp]:
  "decoder_ok (d\<lparr>d_max_seen := x\<rparr>) = decoder_ok d" "decoder_ok (d\<lparr>d_min_block := x\<rparr>) = decoder_ok d"
  by (simp_all add: decoder_ok_def)

lemma decoder_ok_return:
  "decoder_ok d \<Longrightarrow> map_of (d_blocks d) bid = Some b \<Longrightarrow>
     decoder_ok (return_block b (d\<lparr>d_blocks := mdel bid (d_blocks d)\<rparr>))"
  using reset_block_new [OF decoder_okD, of d bid b]
  by (auto simp: decoder_ok_def return_block_def split: if_splits)

lemma new_decoder_ok: "new_decoder rs k r = Inr d \<Longrightarrow> 0 < k \<Longrightarrow> decoder_ok d"
  by (auto simp: new_decoder_def decoder_ok_def split: if_splits)

lemma pool_get_new:
  "decoder_ok d \<Longrightarrow> fst (pool_get d) = new_block (d_k d) (d_r d)"
  by (auto simp: pool_get_def decoder_ok_def split: list.splits)

lemma pool_get_decoder_ok:
  "decoder_ok d \<Longrightarrow> decoder_ok (snd (pool_get d))"
  by (auto simp: pool_get_def decoder_ok_def split: list.splits)

lemma pool_get_frame [simp]:
  "d_k (snd (pool_get d)) = d_k d" "d_r (snd (pool_get d)) = d_r d"
  "d_blocks (snd (pool_get d)) = d_blocks d"
  "d_max_seen (snd (pool_get d)) = d_max_seen d" "d_min_block (snd (pool_get d)) = d_min_block d"
  by (simp_all add: pool_get_def split: list.split)

definition lookup_block :: "32 word \<Rightarrow> decoder \<Rightarrow> dec_block" where
  "lookup_block bid d =
     (case map_of (d_blocks d) bid of None \<Rightarrow> new_block (d_k d) (d_r d) | Some b \<Rightarrow> b)"

lemma lookup_block_cong:
  "map_of (d_blocks d) bid = map_of (d_blocks e) bid \<Longrightarrow> d_k d = d_k e \<Longrightarrow> d_r d = d_r e \<Longrightarrow>
     lookup_block bid d = lookup_block bid e"
  by (cases "map_of (d_blocks e) bid") (simp_all add: lookup_block_def)

lemma get_or_create_fst: "decoder_ok d \<Longrightarrow> fst (get_or_create bid d) = lookup_block bid d"
  using pool_get_new [of d]
  by (cases "map_of (d_blocks d) bid") (simp_all add: get_or_create_def lookup_block_def case_prod_beta)

lemma lookup_block_ok: "decoder_ok d \<Longrightarrow> block_ok (d_k d) (d_r d) (lookup_block bid d)"
  by (auto simp: lookup_block_def decoder_ok_def block_ok_new split: option.split)

lemma get_or_create_frame [simp]:
  "d_k (snd (get_or_create bid d)) = d_k d" "d_r (snd (get_or_create bid d)) = d_r d"
  "d_max_seen (snd (get_or_create bid d)) = d_max_seen d"
  "d_min_block (snd (get_or_create bid d)) = d_min_block d"
  by (simp_all add: get_or_create_def case_prod_beta split: option.split)

lemma get_or_create_other:
  "bid' \<noteq> bid \<Longrightarrow> map_of (d_blocks (snd (get_or_create bid d))) bid' = map_of (d_blocks d) bid'"
  by (simp add: get_or_create_def case_prod_beta split: option.split)

lemma get_or_create_decoder_ok:
  assumes "decoder_ok d" shows "decoder_ok (snd (get_or_create bid d))"
proof (cases "map_of (d_blocks d) bid")
  case None
  have "block_ok (d_k d) (d_r d) (fst (pool_get d))"
    using assms by (simp add: pool_get_new block_ok_new decoder_ok_def)
  then show ?thesis using None pool_get_decoder_ok [OF assms]
    decoder_ok_put [of "snd (pool_get d)" "fst (pool_get d)" bid]
    by (simp add: get_or_create_def case_prod_beta)
qed (simp add: get_or_create_def assms)

section \<open>Expiry\<close>

lemma return_block_frame [simp]:
  "d_k (return_block b d) = d_k d" "d_r (return_block b d) = d_r d"
  "d_blocks (return_block b d) = d_blocks d" "d_max_seen (return_block b d) = d_max_seen d"
  "d_min_block (return_block b d) = d_min_block d"
  by (simp_all add: return_block_def)

lemma expire_loop_decoder_ok: "decoder_ok d \<Longrightarrow> decoder_ok (expire_loop now th d)"
proof (induction now th d rule: expire_loop.induct)
  case (1 now th d)
  show ?case
    using 1 decoder_ok_return [of d "d_min_block d"]
    by (subst expire_loop.simps) (simp split: option.split)
qed

text \<open>Expiry deletes blocks from the pointer up to the threshold, and no other.\<close>

lemma expire_loop_frame:
  "d_k (expire_loop now th d) = d_k d \<and> d_r (expire_loop now th d) = d_r d \<and>
   d_max_seen (expire_loop now th d) = d_max_seen d \<and> d_min_block d \<le> d_min_block (expire_loop now th d) \<and>
   (bid < d_min_block d \<or> th \<le> bid \<longrightarrow>
      map_of (d_blocks (expire_loop now th d)) bid = map_of (d_blocks d) bid)"
proof (induction now th d rule: expire_loop.induct)
  case (1 now th d)
  have up: "d_min_block d < th \<Longrightarrow> d_min_block d \<le> d_min_block d + 1"
    by (simp add: word_le_nat_alt unat_Suc_less)
  have bid: "d_min_block d < th \<Longrightarrow> bid < d_min_block d \<Longrightarrow> bid < d_min_block d + 1"
    using up by auto
  show ?case
    by (subst (1 2 3 4 5) expire_loop.simps)
      (use 1 up bid in \<open>auto split: option.split\<close>)
qed

lemma track_max_frame:
  "d_k (track_max now bid d) = d_k d \<and> d_r (track_max now bid d) = d_r d"
  using expire_loop_frame [of now _ "d\<lparr>d_max_seen := bid\<rparr>"]
  by (simp add: track_max_def expire_def)

lemma track_max_decoder_ok: "decoder_ok d \<Longrightarrow> decoder_ok (track_max now bid d)"
  by (simp add: track_max_def expire_def expire_loop_decoder_ok)

lemma word_minus_8_le: "(8 :: 32 word) \<le> x \<Longrightarrow> x - 8 \<le> x"
  by (simp add: word_le_nat_alt unat_sub)

text \<open>The block a packet belongs to is never the one its arrival expires.\<close>

lemma track_max_keeps: "d_max_seen d < bid \<or> d_max_seen d = bid \<Longrightarrow>
   map_of (d_blocks (track_max now bid d)) bid = map_of (d_blocks d) bid"
  using expire_loop_frame [of now "bid - of_nat max_old_blocks" "d\<lparr>d_max_seen := bid\<rparr>" bid]
  by (auto simp: track_max_def expire_def max_old_blocks_def word_minus_8_le not_less)

section \<open>Delivery\<close>

lemma deliver_loop_spec:
  "\<exists>m. b_delivered b \<le> m \<and> (m \<le> k \<or> m = b_delivered b) \<and>
     (\<forall>j. b_delivered b \<le> j \<longrightarrow> j < m \<longrightarrow> b_present b ! j) \<and>
     (m < k \<longrightarrow> \<not> b_present b ! m) \<and>
     deliver_loop k b = (map (\<lambda>i. opt_bytes (b_data b ! i)) [b_delivered b..<m], b\<lparr>b_delivered := m\<rparr>)"
proof (induction k b rule: deliver_loop.induct)
  case (1 k b)
  show ?case
  proof (cases "b_delivered b < k \<and> b_present b ! b_delivered b")
    case True
    then obtain m where m: "Suc (b_delivered b) \<le> m" "m \<le> k \<or> m = Suc (b_delivered b)"
        "\<And>j. Suc (b_delivered b) \<le> j \<Longrightarrow> j < m \<Longrightarrow> b_present b ! j" "m < k \<Longrightarrow> \<not> b_present b ! m"
        "deliver_loop k (b\<lparr>b_delivered := Suc (b_delivered b)\<rparr>) =
           (map (\<lambda>i. opt_bytes (b_data b ! i)) [Suc (b_delivered b)..<m], b\<lparr>b_delivered := m\<rparr>)"
      using "1.IH" by auto
    have "[b_delivered b..<m] = b_delivered b # [Suc (b_delivered b)..<m]"
      using m(1) by (simp add: upt_conv_Cons)
    moreover have "b_present b ! j" if "b_delivered b \<le> j" "j < m" for j
      using m(3) [of j] that True by (cases "j = b_delivered b") simp_all
    ultimately show ?thesis using True m
      by (intro exI [of _ m], subst deliver_loop.simps) auto
  next
    case False
    then show ?thesis
      by (intro exI [of _ "b_delivered b"], subst deliver_loop.simps) auto
  qed
qed

text \<open>The whole effect of a delivery on a well-formed block.\<close>

lemma deliver_block_spec:
  assumes "b_delivered b \<le> k" and "\<not> b_done b"
  obtains m where "b_delivered b \<le> m" and "m \<le> k"
    and "\<And>j. b_delivered b \<le> j \<Longrightarrow> j < m \<Longrightarrow> b_present b ! j" and "m < k \<Longrightarrow> \<not> b_present b ! m"
    and "deliver_block k b = (map (\<lambda>i. opt_bytes (b_data b ! i)) [b_delivered b..<m],
           b\<lparr>b_delivered := m, b_done := (m = k)\<rparr>)"
proof -
  obtain m where m: "b_delivered b \<le> m" "m \<le> k \<or> m = b_delivered b"
      "\<forall>j. b_delivered b \<le> j \<longrightarrow> j < m \<longrightarrow> b_present b ! j" "m < k \<longrightarrow> \<not> b_present b ! m"
      "deliver_loop k b = (map (\<lambda>i. opt_bytes (b_data b ! i)) [b_delivered b..<m], b\<lparr>b_delivered := m\<rparr>)"
    using deliver_loop_spec [of b k] by blast
  moreover have "b\<lparr>b_delivered := m\<rparr> = b\<lparr>b_delivered := m, b_done := False\<rparr>"
    using assms(2) by (simp add: dec_block.equality)
  ultimately show ?thesis using assms(1)
    by (intro that [of m]) (auto simp: deliver_block_def)
qed

lemma fill_missing_frame [simp]:
  "b_repair (fill_missing result b) = b_repair b" "b_delivered (fill_missing result b) = b_delivered b"
  "b_done (fill_missing result b) = b_done b" "length (b_data (fill_missing result b)) = length (b_data b)"
  "length (b_present (fill_missing result b)) = length (b_present b)"
  by (simp_all add: fill_missing_def)

lemma deliver_block_ok:
  assumes "length (b_data b) = k" "length (b_repair b) = r" "length (b_present b) = k + r"
    and "b_delivered b \<le> k" and "\<not> b_done b"
  shows "block_ok k r (snd (deliver_block k b)) \<and>
         length (fst (deliver_block k b)) = b_delivered (snd (deliver_block k b)) - b_delivered b \<and>
         b_delivered b \<le> b_delivered (snd (deliver_block k b))"
proof -
  obtain m where "b_delivered b \<le> m" "m \<le> k" "m < k \<Longrightarrow> \<not> b_present b ! m"
      "deliver_block k b = (map (\<lambda>i. opt_bytes (b_data b ! i)) [b_delivered b..<m],
           b\<lparr>b_delivered := m, b_done := (m = k)\<rparr>)"
    using deliver_block_spec [OF assms(4,5)] by metis
  then show ?thesis using assms by (auto simp: block_ok_def)
qed

text \<open>The packets an operation of the decoder hands to the caller.\<close>

definition delivered_of :: "fec_error + bytes list \<Rightarrow> bytes list" where
  "delivered_of res = (case res of Inl _ \<Rightarrow> [] | Inr out \<Rightarrow> out)"

lemma delivered_of_simps [simp]: "delivered_of (Inl e) = []" "delivered_of (Inr out) = out"
  by (simp_all add: delivered_of_def)

lemma try_recover_ok:
  assumes b: "length (b_data b) = k" "length (b_repair b) = r" "length (b_present b) = k + r"
    and le: "b_delivered b < k" and nd: "\<not> b_done b" and res: "try_recover rs k r b = (out, b')"
  shows "block_ok k r b' \<and> b_delivered b' = b_delivered b + length (delivered_of out)"
proof -
  have stay: "block_ok k r b" using b le nd by (simp add: block_ok_def)
  have deliver: "block_ok k r (snd (deliver_block k c)) \<and>
      b_delivered (snd (deliver_block k c)) = b_delivered b + length (fst (deliver_block k c))"
    if "length (b_data c) = k" "length (b_repair c) = r" "length (b_present c) = k + r"
      "b_delivered c = b_delivered b" "\<not> b_done c" for c
    using deliver_block_ok [of c k r] that le by auto
  show ?thesis using res stay deliver [of b] deliver [of "fill_missing _ b"] b le nd
    by (auto simp: try_recover_def case_prod_beta split: if_splits sum.splits)
qed

lemma block_add_ok:
  assumes ok: "block_ok k r b" and res: "block_add rs k r now idx pkt rep b = (out, b')"
  shows "block_ok k r b' \<and> b_delivered b' = b_delivered b + length (delivered_of out)"
proof (cases "b' = b \<and> out = Inr []")
  case True
  then show ?thesis using ok by simp
next
  case False
  then have nd: "\<not> b_done b" using res by (auto simp: block_add_def)
  with ok have lt: "b_delivered b < k" by (auto simp: block_ok_def)
  show ?thesis using ok res nd lt False
    by (cases rep) (auto simp: block_ok_def block_add_def split: if_splits dest!: try_recover_ok [rotated 5])
qed

lemma flush_block_ok:
  assumes "block_ok k r b" and "flush_block k now age b = (out, b')"
  shows "block_ok k r b' \<and> b_delivered b + length out \<le> b_delivered b'"
proof -
  have "length (stuck_positions k b) \<le> k - b_delivered b"
    unfolding stuck_positions_def using length_filter_le [of _ "[b_delivered b..<k]"] by simp
  then show ?thesis using assms
    by (auto simp: flush_block_def block_ok_def split: if_splits)
qed

section \<open>The decoder keeps its invariant\<close>

lemma decoder_add_step:
  assumes "decoder_ok d"
  shows "decoder_ok (snd (decoder_add rs now bid idx pkt rep d))"
proof -
  let ?d = "snd (get_or_create bid (track_max now bid d))"
  have ok: "decoder_ok ?d" using assms by (intro get_or_create_decoder_ok track_max_decoder_ok)
  have b: "block_ok (d_k ?d) (d_r ?d) (fst (get_or_create bid (track_max now bid d)))"
    using assms lookup_block_ok [of "track_max now bid d" bid]
    by (simp add: get_or_create_fst track_max_decoder_ok)
  have "block_ok (d_k ?d) (d_r ?d) (snd (block_add rs (d_k ?d) (d_r ?d) now idx pkt rep
      (fst (get_or_create bid (track_max now bid d)))))"
    using block_add_ok [OF b] by (metis prod.collapse)
  from decoder_ok_put [OF ok this] show ?thesis
    by (simp add: decoder_add_def case_prod_beta)
qed

lemma flush_ids_ok: "decoder_ok d \<Longrightarrow> decoder_ok (snd (flush_ids now age ids d))"
proof (induction now age ids d rule: flush_ids.induct)
  case (2 now age bid ids d)
  show ?case
  proof (cases "map_of (d_blocks d) bid")
    case None
    then show ?thesis using 2 by simp
  next
    case (Some b)
    obtain out b' where f: "flush_block (d_k d) now age b = (out, b')" by fastforce
    then have "decoder_ok (d\<lparr>d_blocks := mput bid b' (d_blocks d)\<rparr>)"
      using 2(3) Some flush_block_ok [OF decoder_okD] by (intro decoder_ok_put) blast+
    then show ?thesis using "2.IH"(2) [OF Some f [symmetric]] Some f
      by (simp add: case_prod_beta)
  qed
qed simp

lemma flush_stale_ok: "decoder_ok d \<Longrightarrow> decoder_ok (snd (flush_stale now age d))"
  by (simp add: flush_stale_def flush_ids_ok)

text \<open>The events of a decoder: a symbol for a block, the flush tick.\<close>

datatype dec_event =
    SymbolEv time "32 word" int bytes bool
  | FlushEv time time

definition dec_step :: "rs_code \<Rightarrow> decoder \<Rightarrow> dec_event \<Rightarrow> decoder" where
  "dec_step rs d ev = (case ev of
      SymbolEv now bid idx pkt rep \<Rightarrow> snd (decoder_add rs now bid idx pkt rep d)
    | FlushEv now age \<Rightarrow> snd (flush_stale now age d))"

lemma dec_step_ok: "decoder_ok d \<Longrightarrow> decoder_ok (dec_step rs d ev)"
  by (cases ev) (simp_all add: dec_step_def decoder_add_step flush_stale_ok)

definition fresh_decoder :: "nat \<Rightarrow> nat \<Rightarrow> decoder" where
  "fresh_decoder k r =
     \<lparr>d_k = k, d_r = r, d_blocks = [], d_pool = [], d_max_seen = 0, d_min_block = 0\<rparr>"

interpretation fec_decoder: machine "fresh_decoder (Suc k) r" "dec_step rs" decoder_ok for rs k r
proof unfold_locales
  show "decoder_ok (fresh_decoder (Suc k) r)" by (simp add: decoder_ok_def fresh_decoder_def)
qed (rule dec_step_ok)

section \<open>Erasures\<close>

text \<open>
  \<open>tracks_fec\<close>: the block holds exactly the symbols in \<open>S\<close> of the block with data \<open>src\<close> and
  repairs \<open>reps\<close>; symbols are numbered data first.
\<close>

definition tracks_fec :: "nat \<Rightarrow> nat \<Rightarrow> bytes list \<Rightarrow> bytes list \<Rightarrow> nat set \<Rightarrow> dec_block \<Rightarrow> bool" where
  "tracks_fec k r src reps S b \<longleftrightarrow>
     length (b_data b) = k \<and> length (b_repair b) = r \<and> length (b_present b) = k + r \<and>
     S \<subseteq> {..<k + r} \<and> (\<forall>i < k + r. b_present b ! i = (i \<in> S)) \<and>
     (\<forall>i < k. b_data b ! i = (if i \<in> S then Some (src ! i) else None)) \<and>
     (\<forall>i < r. b_repair b ! i = (if k + i \<in> S then Some (reps ! i) else None)) \<and>
     \<not> b_done b \<and> b_delivered b < k \<and> {..<b_delivered b} \<subseteq> S"

definition waiting :: "nat \<Rightarrow> nat \<Rightarrow> bytes list \<Rightarrow> bytes list \<Rightarrow> nat set \<Rightarrow> dec_block \<Rightarrow> bool" where
  "waiting k r src reps S b \<longleftrightarrow> tracks_fec k r src reps S b \<and> b_delivered b \<notin> S \<and> card S < k"

definition sym_idx :: "nat \<Rightarrow> nat \<Rightarrow> int" where
  "sym_idx k i = (if i < k then int i else int (i - k))"

definition sym_payload :: "nat \<Rightarrow> bytes list \<Rightarrow> bytes list \<Rightarrow> nat \<Rightarrow> bytes" where
  "sym_payload k src reps i = (if i < k then src ! i else reps ! (i - k))"

fun feed_symbols ::
  "rs_code \<Rightarrow> nat \<Rightarrow> nat \<Rightarrow> bytes list \<Rightarrow> bytes list \<Rightarrow> (time \<times> nat) list \<Rightarrow> dec_block \<Rightarrow> bytes list \<times> dec_block"
where
  "feed_symbols rs k r src reps [] b = ([], b)"
| "feed_symbols rs k r src reps ((now, i) # xs) b =
     (case block_add rs k r now (sym_idx k i) (sym_payload k src reps i) (k \<le> i) b of (out, b') \<Rightarrow>
        (case feed_symbols rs k r src reps xs b' of (rest, b'') \<Rightarrow> (delivered_of out @ rest, b'')))"

lemma length_filter_upt: "length (filter P [a..<b]) = card {i. a \<le> i \<and> i < b \<and> P i}"
proof -
  have "distinct (filter P [a..<b])" by simp
  from distinct_card [OF this] show ?thesis by (simp add: conj_assoc)
qed

lemma tracks_fec_counts:
  assumes t: "tracks_fec k r src reps S b"
  shows "missing_count k b = card ({..<k} - S)" and "repair_count k r b = card (S \<inter> {k..<k + r})"
    and "card S + missing_count k b = k + repair_count k r b"
proof -
  have pres: "b_present b ! i = (i \<in> S)" if "i < k + r" for i using t that by (simp add: tracks_fec_def)
  have low: "{..<b_delivered b} \<subseteq> S" and sub: "S \<subseteq> {..<k + r}" using t by (auto simp: tracks_fec_def)
  have "{i. b_delivered b \<le> i \<and> i < k \<and> \<not> b_present b ! i} = {..<k} - S"
    using low pres by (auto simp: not_less[symmetric])
  then show m: "missing_count k b = card ({..<k} - S)"
    by (simp add: missing_count_def length_filter_upt)
  have "S \<inter> {k..<k + r} = (\<lambda>i. k + i) ` {i. i < r \<and> b_present b ! (k + i)}"
  proof (rule set_eqI)
    fix x show "x \<in> S \<inter> {k..<k + r} \<longleftrightarrow> x \<in> (\<lambda>i. k + i) ` {i. i < r \<and> b_present b ! (k + i)}"
      using pres [of x] by (auto simp: image_iff intro!: exI [of _ "x - k"] dest: pres [THEN iffD1, rotated])
  qed
  then have "card (S \<inter> {k..<k + r}) = card {i. i < r \<and> b_present b ! (k + i)}"
    by (simp add: card_image)
  then show q: "repair_count k r b = card (S \<inter> {k..<k + r})"
    by (simp add: repair_count_def length_filter_upt)
  have fin: "finite S" using sub finite_subset by blast
  have "S = (S \<inter> {..<k}) \<union> (S \<inter> {k..<k + r})" using sub by auto
  moreover have "card ((S \<inter> {..<k}) \<union> (S \<inter> {k..<k + r})) = card (S \<inter> {..<k}) + card (S \<inter> {k..<k + r})"
    by (rule card_Un_disjoint) auto
  ultimately have "card S = card (S \<inter> {..<k}) + card (S \<inter> {k..<k + r})" by simp
  moreover have "card ({..<k} - S) + card (S \<inter> {..<k}) = k"
    by (metis Int_commute card_Diff_subset_Int card_lessThan card_mono finite_Int finite_lessThan inf_le1 le_add_diff_inverse2)
  ultimately show "card S + missing_count k b = k + repair_count k r b" using m q by simp
qed

text \<open>A block as the encoder made it: for \<open>r > 1\<close>, under the Reed-Solomon law.\<close>

definition fec_block_ok :: "rs_code \<Rightarrow> nat \<Rightarrow> nat \<Rightarrow> bytes list \<Rightarrow> bytes list \<Rightarrow> bool" where
  "fec_block_ok rs k r src reps \<longleftrightarrow> length src = k \<and> (r = 0 \<or> block_repairs rs k r src = Some reps) \<and>
     (1 < r \<longrightarrow> rs_law rs k r \<and> 0 < max_len src)"

lemma recover_one_loss:
  assumes t: "tracks_fec k 1 src reps S b" and l: "length src = k" and reps: "reps = [xor_all src]"
    and miss: "0 < missing_count k b" "missing_count k b \<le> repair_count k 1 b"
  shows "\<exists>res. recover_data rs k 1 b = Inr res \<and> length res = k \<and>
           (\<forall>i < k. i \<notin> S \<longrightarrow> res ! i = Some (pad (max_len src) (src ! i)))"
proof -
  have "card (S \<inter> {k..<k + 1}) \<le> card {k}" by (intro card_mono) auto
  then have rc: "repair_count k 1 b \<le> 1" using tracks_fec_counts(2) [OF t] by simp
  then have one: "card ({..<k} - S) = 1" "card (S \<inter> {k..<k + 1}) = 1"
    using miss tracks_fec_counts(1,2) [OF t] by simp_all
  from one(1) obtain m where m: "{..<k} - S = {m}" by (auto simp: card_1_singleton_iff)
  then have mk: "m < k" "m \<notin> S" by auto
  have others: "i \<in> S" if "i < k" "i \<noteq> m" for i using m that by auto
  have "S \<inter> {k..<k + 1} \<noteq> {}" using one(2) by (metis card.empty zero_neq_one)
  then have "k \<in> S" by (auto simp: less_Suc_eq_le)
  then have rep: "b_repair b ! 0 = Some (xor_all src)" using t reps by (simp add: tracks_fec_def)
  have "b_data b = (map Some src)[m := None]"
  proof (rule nth_equalityI)
    fix i assume i: "i < length (b_data b)"
    then have ik: "i < k" using t by (simp add: tracks_fec_def)
    then have "b_data b ! i = (if i \<in> S then Some (src ! i) else None)" using t by (simp add: tracks_fec_def)
    also have "\<dots> = (map Some src)[m := None] ! i"
      using ik mk l others [of i] by (cases "i = m") simp_all
    finally show "b_data b ! i = (map Some src)[m := None] ! i" .
  qed (use t l in \<open>simp add: tracks_fec_def\<close>)
  then have "recover_data rs k 1 b = Inr ((map Some src)[m := Some (pad (max_len src) (src ! m))])"
    using xor_recover_one [of m src] mk l rep by (simp add: recover_data_def opt_bytes_def)
  moreover have "(map Some src)[m := Some (pad (max_len src) (src ! m))] ! i =
      Some (pad (max_len src) (src ! i))" if "i < k" "i \<notin> S" for i
  proof -
    have "i = m" using others that by blast
    then show ?thesis using mk l by simp
  qed
  ultimately show ?thesis using l by (metis length_list_update length_map)
qed

lemma tracks_fec_shards:
  assumes t: "tracks_fec k r src reps S b" and l: "length src = k" "length reps = r"
    and len: "\<forall>p \<in> set src. length p \<le> n" "\<forall>p \<in> set reps. length p = n"
  shows "agrees (map (map_option (pad n)) (b_data b) @ map (map_option (pad n)) (b_repair b))
           (map (pad n) src @ reps)"
    and "present_count (map (map_option (pad n)) (b_data b) @ map (map_option (pad n)) (b_repair b)) = card S"
proof -
  let ?sh = "map (map_option (pad n)) (b_data b) @ map (map_option (pad n)) (b_repair b)"
  have sh: "?sh ! i = (if i \<in> S then Some ((map (pad n) src @ reps) ! i) else None)" if i: "i < k + r" for i
  proof (cases "i < k")
    case True
    then show ?thesis using t l by (simp add: tracks_fec_def nth_append)
  next
    case False
    then obtain j where j: "i = k + j" "j < r" using i by (metis le_Suc_ex not_less nat_add_left_cancel_less)
    then have "pad n (reps ! j) = reps ! j" using l len(2) by simp
    then show ?thesis using t l j by (simp add: tracks_fec_def nth_append)
  qed
  have shl: "length ?sh = k + r" using t by (simp add: tracks_fec_def)
  show "agrees ?sh (map (pad n) src @ reps)"
    unfolding agrees_def by (rule list_all2_all_nthI) (use shl l sh in auto)
  have "length (filter (\<lambda>x. x \<noteq> None) ?sh) = card {i. i < k + r \<and> ?sh ! i \<noteq> None}"
    using shl by (simp only: length_filter_conv_card)
  also have "{i. i < k + r \<and> ?sh ! i \<noteq> None} = S"
    using sh t by (auto simp: tracks_fec_def split: if_splits)
  finally show "present_count ?sh = card S" by (simp add: present_count_def)
qed

lemma recover_many_losses:
  assumes t: "tracks_fec k r src reps S b" and l: "length src = k" and r: "1 < r"
    and law: "rs_law rs k r" and pos: "0 < max_len src"
    and enc: "rs_encode_block rs k r src = Some reps"
    and miss: "0 < missing_count k b" "missing_count k b \<le> repair_count k r b"
  shows "\<exists>res. recover_data rs k r b = Inr res \<and> length res = k \<and>
           (\<forall>i < k. i \<notin> S \<longrightarrow> res ! i = Some (pad (max_len src) (src ! i)))"
proof -
  let ?n = "max_len src"
  have le: "\<forall>p \<in> set src. length p \<le> ?n" by (simp add: length_le_max_len)
  then have "\<forall>d \<in> set (map (pad ?n) src). length d = ?n" by (simp add: length_pad)
  then obtain reps' where r1: "rs_encode rs k r (map (pad ?n) src) = Some reps'" "length reps' = r"
      "\<forall>d \<in> set reps'. length d = ?n"
      "\<And>shards. agrees shards (map (pad ?n) src @ reps') \<Longrightarrow> k \<le> present_count shards \<Longrightarrow>
         \<exists>out. rs_reconstruct rs k r shards = Some out \<and> take k out = map Some (map (pad ?n) src)"
    using law pos l unfolding rs_law_def by (metis length_map)
  have "reps' = reps" using r1(1) enc by (simp add: rs_encode_block_def)
  note r1 = r1[unfolded this]
  have ge: "k \<le> card S" using tracks_fec_counts(3) [OF t] miss(2) by simp
  have "0 < card (S \<inter> {k..<k + r})" using miss tracks_fec_counts(2) [OF t] by simp
  then obtain j where "j \<in> S" "k \<le> j" "j < k + r" by (auto simp: card_gt_0_iff)
  then have j: "k + (j - k) \<in> S" "j - k < r" by auto
  then have rep: "b_repair b ! (j - k) = Some (reps ! (j - k))" using t by (simp add: tracks_fec_def)
  have lr: "length (b_repair b) = r" "length (b_data b) = k" using t by (simp_all add: tracks_fec_def)
  have "max_len (map opt_bytes (b_data b) @ map opt_bytes (b_repair b)) = ?n"
  proof (rule antisym)
    have "length (opt_bytes (b_data b ! i)) \<le> ?n" if "i < k" for i
      using t that le l by (auto simp: tracks_fec_def opt_bytes_def)
    moreover have "length (opt_bytes (b_repair b ! i)) \<le> ?n" if "i < r" for i
      using t that r1(2,3) by (auto simp: tracks_fec_def opt_bytes_def)
    ultimately show "max_len (map opt_bytes (b_data b) @ map opt_bytes (b_repair b)) \<le> ?n"
      using lr by (intro max_len_le) (auto simp: in_set_conv_nth)
  next
    have "b_repair b ! (j - k) \<in> set (b_repair b)" using j lr by simp
    then have "opt_bytes (b_repair b ! (j - k)) \<in> set (map opt_bytes (b_repair b))" by simp
    from length_le_max_len [OF this] show "?n \<le> max_len (map opt_bytes (b_data b) @ map opt_bytes (b_repair b))"
      using rep r1(2,3) j by (auto simp: opt_bytes_def)
  qed
  moreover from r1(4) [OF tracks_fec_shards(1) [OF t l r1(2) le r1(3)]]
      tracks_fec_shards(2) [OF t l r1(2) le r1(3)] ge
  obtain out where "rs_reconstruct rs k r (map (map_option (pad ?n)) (b_data b) @
        map (map_option (pad ?n)) (b_repair b)) = Some out" "take k out = map Some (map (pad ?n) src)"
    by auto
  ultimately have "recover_data rs k r b = Inr (map Some (map (pad ?n) src))"
    using r by (simp add: recover_data_def rs_recover_def)
  then show ?thesis using l by simp
qed

lemma recover_losses:
  assumes t: "tracks_fec k r src reps S b" and ok: "fec_block_ok rs k r src reps"
    and miss: "0 < missing_count k b" "missing_count k b \<le> repair_count k r b"
  shows "\<exists>res. recover_data rs k r b = Inr res \<and> length res = k \<and>
           (\<forall>i < k. i \<notin> S \<longrightarrow> res ! i = Some (pad (max_len src) (src ! i)))"
proof -
  have "r \<noteq> 0" using miss by (intro notI) (simp add: repair_count_def)
  then consider "r = 1" | "1 < r" by linarith
  then show ?thesis
  proof cases
    case 1
    then show ?thesis using recover_one_loss [where k = k and src = src and S = S and b = b and rs = rs] t ok miss
      by (simp add: fec_block_ok_def block_repairs_def)
  next
    case 2
    then show ?thesis using recover_many_losses [OF t _ 2 _ _ _ miss] ok
      by (simp add: fec_block_ok_def block_repairs_def)
  qed
qed

section \<open>One symbol, then all of them\<close>

definition restored :: "nat \<Rightarrow> bytes \<Rightarrow> bytes \<Rightarrow> bool" where
  "restored n out p \<longleftrightarrow> out = p \<or> out = pad n p"

lemma deliver_waiting:
  assumes t: "tracks_fec k r src reps S b" and l: "length src = k" and lt: "missing_count k b > 0"
  shows "\<exists>m < k. b_delivered b \<le> m \<and> m \<notin> S \<and> {..<m} \<subseteq> S \<and>
           fst (deliver_block k b) = map ((!) src) [b_delivered b..<m] \<and>
           tracks_fec k r src reps S (snd (deliver_block k b)) \<and> b_delivered (snd (deliver_block k b)) = m"
proof -
  have d: "b_delivered b \<le> k" "\<not> b_done b" using t by (simp_all add: tracks_fec_def)
  obtain m where m: "b_delivered b \<le> m" "m \<le> k"
      "\<And>j. b_delivered b \<le> j \<Longrightarrow> j < m \<Longrightarrow> b_present b ! j" "m < k \<Longrightarrow> \<not> b_present b ! m"
      "deliver_block k b = (map (\<lambda>i. opt_bytes (b_data b ! i)) [b_delivered b..<m],
           b\<lparr>b_delivered := m, b_done := (m = k)\<rparr>)"
    using deliver_block_spec [OF d] by metis
  have low: "{..<m} \<subseteq> S"
  proof
    fix j assume "j \<in> {..<m}"
    then show "j \<in> S" using t m(2) m(3) [of j]
      by (cases "j < b_delivered b") (auto simp: tracks_fec_def)
  qed
  have "m \<noteq> k" using low lt tracks_fec_counts(1) [OF t] by (auto simp: Diff_eq_empty_iff [THEN iffD2])
  then have mk: "m < k" using m(2) by simp
  then have "m \<notin> S" using t m(4) by (simp add: tracks_fec_def)
  moreover have "map (\<lambda>i. opt_bytes (b_data b ! i)) [b_delivered b..<m] = map ((!) src) [b_delivered b..<m]"
    using low mk t by (auto simp: tracks_fec_def opt_bytes_def)
  ultimately show ?thesis using mk low m(1,5) t
    by (intro exI [of _ m]) (simp add: tracks_fec_def)
qed

lemma deliver_full:
  assumes "b_delivered b \<le> k" and "\<not> b_done b" and "\<And>j. j < k \<Longrightarrow> b_present b ! j"
  shows "deliver_block k b =
    (map (\<lambda>i. opt_bytes (b_data b ! i)) [b_delivered b..<k], b\<lparr>b_delivered := k, b_done := True\<rparr>)"
proof -
  obtain m where "m \<le> k" "m < k \<Longrightarrow> \<not> b_present b ! m"
      "deliver_block k b = (map (\<lambda>i. opt_bytes (b_data b ! i)) [b_delivered b..<m],
           b\<lparr>b_delivered := m, b_done := (m = k)\<rparr>)"
    using deliver_block_spec [OF assms(1,2)] by metis
  moreover from this have "m = k" using assms(3) [of m] by linarith
  ultimately show ?thesis by simp
qed

lemma list_all2_drop_map:
  assumes "length src = k" and "\<And>i. i < k \<Longrightarrow> P (f i) (src ! i)"
  shows "list_all2 P (map f [d..<k]) (drop d src)"
  by (rule list_all2_all_nthI) (use assms in auto)

lemma try_recover_waiting:
  assumes t: "tracks_fec k r src reps S b" and l: "length src = k" and c: "card S < k"
  shows "\<exists>m < k. b_delivered b \<le> m \<and> (\<exists>b'. try_recover rs k r b = (Inr (map ((!) src) [b_delivered b..<m]), b') \<and>
           waiting k r src reps S b' \<and> b_delivered b' = m)"
proof -
  have gt: "repair_count k r b < missing_count k b" using tracks_fec_counts(3) [OF t] c by simp
  then obtain m where "m < k" "b_delivered b \<le> m" "m \<notin> S"
      "fst (deliver_block k b) = map ((!) src) [b_delivered b..<m]"
      "tracks_fec k r src reps S (snd (deliver_block k b))" "b_delivered (snd (deliver_block k b)) = m"
    using deliver_waiting [OF t l] by auto
  then show ?thesis using gt c
    by (intro exI [of _ m]) (simp add: try_recover_def waiting_def case_prod_beta)
qed

lemma try_recover_complete:
  assumes t: "tracks_fec k r src reps S b" and ok: "fec_block_ok rs k r src reps" and c: "k \<le> card S"
  shows "\<exists>out b'. try_recover rs k r b = (Inr out, b') \<and> b_done b' \<and>
           list_all2 (restored (max_len src)) out (drop (b_delivered b) src)"
proof -
  have l: "length src = k" using ok by (simp add: fec_block_ok_def)
  have d: "b_delivered b \<le> k" "\<not> b_done b" using t by (simp_all add: tracks_fec_def)
  have le: "missing_count k b \<le> repair_count k r b" using tracks_fec_counts(3) [OF t] c by simp
  show ?thesis
  proof (cases "0 < missing_count k b")
    case False
    then have all: "{..<k} \<subseteq> S" using tracks_fec_counts(1) [OF t] by (simp add: card_eq_0_iff)
    then have "deliver_block k b = (map (\<lambda>i. opt_bytes (b_data b ! i)) [b_delivered b..<k],
        b\<lparr>b_delivered := k, b_done := True\<rparr>)"
      by (intro deliver_full d) (use t in \<open>auto simp: tracks_fec_def\<close>)
    moreover have "list_all2 (restored (max_len src)) (map (\<lambda>i. opt_bytes (b_data b ! i)) [b_delivered b..<k])
        (drop (b_delivered b) src)"
      by (rule list_all2_drop_map [OF l]) (use t all in \<open>auto simp: tracks_fec_def opt_bytes_def restored_def\<close>)
    ultimately show ?thesis using False by (simp add: try_recover_def)
  next
    case True
    obtain res where res: "recover_data rs k r b = Inr res" "length res = k"
        "\<And>i. i < k \<Longrightarrow> i \<notin> S \<Longrightarrow> res ! i = Some (pad (max_len src) (src ! i))"
      using recover_losses [OF t ok True le] by blast
    let ?c = "fill_missing res b"
    have "b_present ?c ! i" if "i < k" for i
      using that t res(2) by (simp add: fill_missing_def tracks_fec_def)
    then have "deliver_block k ?c = (map (\<lambda>i. opt_bytes (b_data ?c ! i)) [b_delivered b..<k],
        ?c\<lparr>b_delivered := k, b_done := True\<rparr>)"
      using deliver_full [of ?c k] d by simp
    moreover have "restored (max_len src) (opt_bytes (b_data ?c ! i)) (src ! i)" if "i < k" for i
      using that t res(2) res(3) [of i]
      by (auto simp: fill_missing_def tracks_fec_def restored_def opt_bytes_def)
    then have "list_all2 (restored (max_len src)) (map (\<lambda>i. opt_bytes (b_data ?c ! i)) [b_delivered b..<k])
        (drop (b_delivered b) src)"
      by (rule list_all2_drop_map [OF l])
    ultimately show ?thesis using True le res(1) by (simp add: try_recover_def)
  qed
qed

lemma sym_idx_simps:
  "\<not> sym_idx k i < 0" "nat (sym_idx k i) = (if i < k then i else i - k)"
  "int k \<le> sym_idx k i \<longleftrightarrow> \<not> i < k \<and> 2 * k \<le> i \<or> i < k \<and> k \<le> i"
  "k \<le> i \<Longrightarrow> int r \<le> sym_idx k i \<longleftrightarrow> k + r \<le> i"
  by (auto simp: sym_idx_def)

text \<open>An arriving symbol: a duplicate changes nothing, a new one joins the tracked set.\<close>

lemma block_add_duplicate:
  assumes t: "tracks_fec k r src reps S b" and i: "i \<in> S"
  shows "block_add rs k r now (sym_idx k i) p (k \<le> i) b = (Inr [], b)"
proof -
  have "i < k + r" using t i by (auto simp: tracks_fec_def)
  then show ?thesis using t i by (auto simp: block_add_def sym_idx_simps tracks_fec_def)
qed

lemma block_add_new:
  assumes t: "tracks_fec k r src reps S b" and i: "i < k + r" "i \<notin> S"
  shows "\<exists>c. block_add rs k r now (sym_idx k i) (sym_payload k src reps i) (k \<le> i) b = try_recover rs k r c \<and>
           tracks_fec k r src reps (insert i S) c \<and> b_delivered c = b_delivered b"
proof (cases "i < k")
  case True
  let ?c = "b\<lparr>b_data := (b_data b)[i := Some (src ! i)], b_present := (b_present b)[i := True],
     b_count := Suc (b_count b), b_last := Some now\<rparr>"
  have "block_add rs k r now (sym_idx k i) (sym_payload k src reps i) (k \<le> i) b = try_recover rs k r ?c"
    using True t i by (simp add: block_add_def sym_idx_simps sym_payload_def tracks_fec_def)
  moreover have "tracks_fec k r src reps (insert i S) ?c"
    using True t i by (auto simp: tracks_fec_def nth_list_update)
  ultimately show ?thesis by (intro exI [of _ ?c]) simp
next
  case False
  let ?c = "b\<lparr>b_repair := (b_repair b)[i - k := Some (reps ! (i - k))], b_present := (b_present b)[i := True],
     b_count := Suc (b_count b), b_last := Some now\<rparr>"
  have "block_add rs k r now (sym_idx k i) (sym_payload k src reps i) (k \<le> i) b = try_recover rs k r ?c"
    using False t i by (simp add: block_add_def sym_idx_simps sym_payload_def tracks_fec_def)
  moreover have "tracks_fec k r src reps (insert i S) ?c"
    using False t i by (auto simp: tracks_fec_def nth_list_update)
  ultimately show ?thesis by (intro exI [of _ ?c]) simp
qed

lemma feed_symbols_done: "b_done b \<Longrightarrow> feed_symbols rs k r src reps xs b = ([], b)"
  by (induction xs) (auto simp: block_add_def)

lemma list_all2_restored_refl: "list_all2 (restored n) xs xs"
  by (simp add: list.rel_refl restored_def)

lemma waiting_delivered_card:
  assumes "waiting k r src reps S b" shows "b_delivered b < k"
  using assms by (simp add: waiting_def tracks_fec_def)

lemma map_nth_join:
  "a \<le> m \<Longrightarrow> m \<le> n \<Longrightarrow> map ((!) xs) [a..<m] @ map ((!) xs) [m..<n] = map ((!) xs) [a..<n]"
  by (metis le_add_diff_inverse map_append upt_add_eq_append)

lemma drop_map_nth: "a \<le> m \<Longrightarrow> m \<le> length xs \<Longrightarrow> drop a xs = map ((!) xs) [a..<m] @ drop m xs"
  by (rule nth_equalityI) (auto simp: nth_append add.commute)

lemma restored_join:
  "a \<le> m \<Longrightarrow> m \<le> length src \<Longrightarrow> list_all2 (restored n) out (drop m src) \<Longrightarrow>
     list_all2 (restored n) (map ((!) src) [a..<m] @ out) (drop a src)"
  by (simp add: drop_map_nth list_all2_appendI list_all2_restored_refl)

text \<open>The two outcomes of a sequence of arrivals, by how many distinct symbols came in.\<close>

definition fec_outcome ::
  "nat \<Rightarrow> nat \<Rightarrow> bytes list \<Rightarrow> bytes list \<Rightarrow> nat set \<Rightarrow> nat \<Rightarrow> bytes list \<times> dec_block \<Rightarrow> bool" where
  "fec_outcome k r src reps S d res \<longleftrightarrow>
     (if card S < k then
        d \<le> b_delivered (snd res) \<and> fst res = map ((!) src) [d..<b_delivered (snd res)] \<and>
        waiting k r src reps S (snd res)
      else b_done (snd res) \<and> list_all2 (restored (max_len src)) (fst res) (drop d src))"

lemma fec_outcome_prepend:
  assumes "d \<le> m" and "m \<le> length src" and "fec_outcome k r src reps S m (out, b)"
  shows "fec_outcome k r src reps S d (map ((!) src) [d..<m] @ out, b)"
proof (cases "card S < k")
  case True
  then show ?thesis using assms map_nth_join [OF assms(1), of "b_delivered b" src]
    by (simp add: fec_outcome_def)
next
  case False
  then show ?thesis using assms restored_join [OF assms(1,2)] by (simp add: fec_outcome_def)
qed

lemma feed_symbols_spec:
  assumes "fec_block_ok rs k r src reps" and "waiting k r src reps S b" and "\<forall>(t, i) \<in> set xs. i < k + r"
  shows "fec_outcome k r src reps (S \<union> snd ` set xs) (b_delivered b) (feed_symbols rs k r src reps xs b)"
  using assms(2,3)
proof (induction xs arbitrary: S b)
  case Nil
  then show ?case by (simp add: fec_outcome_def waiting_def)
next
  case (Cons x xs)
  obtain now i where x: "x = (now, i)" by fastforce
  have l: "length src = k" using assms(1) by (simp add: fec_block_ok_def)
  have t: "tracks_fec k r src reps S b" using Cons.prems(1) by (simp add: waiting_def)
  have ik: "i < k + r" and xs: "\<forall>(t, i) \<in> set xs. i < k + r" using Cons.prems(2) x by auto
  have eq: "S \<union> snd ` set (x # xs) = insert i S \<union> snd ` set xs" using x by auto
  show ?case
  proof (cases "i \<in> S")
    case True
    then have "insert i S = S" by blast
    then show ?thesis using Cons.IH [OF Cons.prems(1) xs] block_add_duplicate [OF t True]
      unfolding eq by (simp add: x case_prod_beta)
  next
    case False
    obtain c where c: "block_add rs k r now (sym_idx k i) (sym_payload k src reps i) (k \<le> i) b = try_recover rs k r c"
        "tracks_fec k r src reps (insert i S) c" "b_delivered c = b_delivered b"
      using block_add_new [OF t ik False] by blast
    have fin: "finite (insert i S \<union> snd ` set xs)" using c(2) finite_subset
      by (auto simp: tracks_fec_def)
    show ?thesis
    proof (cases "card (insert i S) < k")
      case True
      obtain m b' where m: "m < k" "b_delivered b \<le> m"
          "try_recover rs k r c = (Inr (map ((!) src) [b_delivered b..<m]), b')"
          "waiting k r src reps (insert i S) b'" "b_delivered b' = m"
        using try_recover_waiting [OF c(2) l True] c(3) by metis
      show ?thesis unfolding eq
        using fec_outcome_prepend [OF m(2), of src k r reps _ "fst (feed_symbols rs k r src reps xs b')"
            "snd (feed_symbols rs k r src reps xs b')"] Cons.IH [OF m(4) xs] m(1,5) l
        by (simp add: x c(1) m(3) case_prod_beta)
    next
      case False
      then have ge: "k \<le> card (insert i S)" by simp
      obtain out b' where o: "try_recover rs k r c = (Inr out, b')" "b_done b'"
          "list_all2 (restored (max_len src)) out (drop (b_delivered b) src)"
        using try_recover_complete [OF c(2) assms(1) ge] c(3) by metis
      have "k \<le> card (insert i S \<union> snd ` set xs)"
        by (rule le_trans [OF ge card_mono [OF fin]]) auto
      then show ?thesis unfolding eq using o feed_symbols_done [OF o(2)]
        by (simp add: x c(1) fec_outcome_def)
    qed
  qed
qed

lemma waiting_new_block: "0 < k \<Longrightarrow> waiting k r src reps {} (new_block k r)"
  by (simp add: waiting_def tracks_fec_def)

lemma feed_symbols_fresh:
  assumes "fec_block_ok rs k r src reps" and "0 < k" and "\<forall>(t, i) \<in> set xs. i < k + r"
  shows "fec_outcome k r src reps (snd ` set xs) 0 (feed_symbols rs k r src reps xs (new_block k r))"
  using feed_symbols_spec [OF assms(1) waiting_new_block [OF assms(2)] assms(3)] by simp

text \<open>With enough symbols the block is delivered whole.\<close>

lemma feed_symbols_enough:
  assumes "fec_block_ok rs k r src reps" and "0 < k" and "\<forall>(t, i) \<in> set xs. i < k + r"
    and "k \<le> card (snd ` set xs)"
  shows "list_all2 (restored (max_len src)) (fst (feed_symbols rs k r src reps xs (new_block k r))) src"
  using feed_symbols_fresh [OF assms(1-3)] assms(4) by (simp add: fec_outcome_def)

lemma restored_same_length:
  assumes "list_all2 (restored (max_len src)) out src" and "\<forall>p \<in> set src. length p = n"
  shows "out = src"
proof (rule nth_equalityI)
  show len: "length out = length src" using assms(1) by (rule list_all2_lengthD)
  fix i assume i: "i < length out"
  have "max_len src = n"
  proof (rule antisym)
    show "max_len src \<le> n" using assms(2) by (intro max_len_le) simp
    show "n \<le> max_len src" using assms(2) i len length_le_max_len [of "src ! i" src] by auto
  qed
  then show "out ! i = src ! i"
    using list_all2_nthD [OF assms(1) i] assms(2) i len by (auto simp: restored_def)
qed

section \<open>Many blocks, interleaved\<close>

text \<open>
  A symbol \<open>(t, bid, i)\<close> arrives at time \<open>t\<close> and is number \<open>i\<close> of block \<open>bid\<close>; \<open>blk bid\<close> gives the
  packets and repairs of the block. As long as all arrivals fall within the keep age, expiry touches
  no block and every block is decoded as if it were alone.
\<close>

definition add_symbol ::
  "rs_code \<Rightarrow> (32 word \<Rightarrow> bytes list \<times> bytes list) \<Rightarrow> time \<times> 32 word \<times> nat \<Rightarrow> decoder \<Rightarrow>
     (fec_error + bytes list) \<times> decoder" where
  "add_symbol rs blk ev d = (case ev of (now, bid, i) \<Rightarrow> case blk bid of (src, reps) \<Rightarrow>
     decoder_add rs now bid (sym_idx (d_k d) i) (sym_payload (d_k d) src reps i) (d_k d \<le> i) d)"

fun feed_decoder ::
  "rs_code \<Rightarrow> (32 word \<Rightarrow> bytes list \<times> bytes list) \<Rightarrow> (time \<times> 32 word \<times> nat) list \<Rightarrow> decoder \<Rightarrow>
     (32 word \<times> bytes list) list" where
  "feed_decoder rs blk [] d = []"
| "feed_decoder rs blk (ev # evs) d =
     (case add_symbol rs blk ev d of (out, d') \<Rightarrow>
        (fst (snd ev), delivered_of out) # feed_decoder rs blk evs d')"

definition out_of_block :: "32 word \<Rightarrow> (32 word \<times> bytes list) list \<Rightarrow> bytes list" where
  "out_of_block bid outs = concat (map snd (filter (\<lambda>(b, _). b = bid) outs))"

definition arrivals_of :: "32 word \<Rightarrow> (time \<times> 32 word \<times> nat) list \<Rightarrow> (time \<times> nat) list" where
  "arrivals_of bid evs = map (\<lambda>(t, _, i). (t, i)) (filter (\<lambda>(_, b, _). b = bid) evs)"

lemma feed_simps [simp]:
  "out_of_block bid [] = []" "arrivals_of bid [] = []"
  "out_of_block bid ((b, out) # outs) = (if b = bid then out else []) @ out_of_block bid outs"
  "arrivals_of bid ((t, b, i) # evs) = (if b = bid then [(t, i)] else []) @ arrivals_of bid evs"
  by (simp_all add: out_of_block_def arrivals_of_def)

definition live_since :: "time \<Rightarrow> decoder \<Rightarrow> bool" where
  "live_since t0 d \<longleftrightarrow> (\<forall>bid b. map_of (d_blocks d) bid = Some b \<longrightarrow> (\<exists>t \<ge> t0. b_last b = Some t))"

lemma deliver_block_last [simp]: "b_last (snd (deliver_block k b)) = b_last b"
proof -
  have "b_last (snd (deliver_loop k b)) = b_last b" for b
    using deliver_loop_spec [of b k] by auto
  then show ?thesis by (simp add: deliver_block_def case_prod_beta)
qed

lemma try_recover_last: "b_last (snd (try_recover rs k r b)) = b_last b"
  by (simp add: try_recover_def case_prod_beta fill_missing_def split: sum.split)

lemma block_add_last:
  "b_last (snd (block_add rs k r now idx pkt rep b)) \<in> {b_last b, Some now}"
  by (simp add: block_add_def try_recover_last)

lemma block_add_last_new:
  assumes "i < k + r"
  shows "b_last (snd (block_add rs k r now (sym_idx k i) p (k \<le> i) (new_block k r))) = Some now"
  using assms by (simp add: block_add_def sym_idx_simps try_recover_last)

lemma expire_loop_live:
  assumes "live_since t0 d" and "now \<le> t0 + block_keep_age"
  shows "d_blocks (expire_loop now th d) = d_blocks d"
  using assms
proof (induction now th d rule: expire_loop.induct)
  case (1 now th d)
  have "\<not> expired_block now b" if "map_of (d_blocks d) (d_min_block d) = Some b" for b
    using "1.prems" that by (fastforce simp: live_since_def expired_block_def)
  moreover have "live_since t0 (d\<lparr>d_min_block := d_min_block d + 1\<rparr>)"
    using "1.prems" by (simp add: live_since_def)
  ultimately show ?case using 1
    by (subst expire_loop.simps) (simp split: option.split)
qed

lemma track_max_live:
  "live_since t0 d \<Longrightarrow> now \<le> t0 + block_keep_age \<Longrightarrow> d_blocks (track_max now bid d) = d_blocks d"
  using expire_loop_live [of t0 "d\<lparr>d_max_seen := bid\<rparr>"]
  by (simp add: track_max_def expire_def live_since_def)

text \<open>One addition, seen from every block.\<close>

lemma decoder_add_blocks:
  assumes "decoder_ok d" and "live_since t0 d" and "now \<le> t0 + block_keep_age"
    and res: "decoder_add rs now bid idx pkt rep d = (out, d')"
  shows "(out, lookup_block bid d') = block_add rs (d_k d) (d_r d) now idx pkt rep (lookup_block bid d)"
    and "bid' \<noteq> bid \<Longrightarrow> map_of (d_blocks d') bid' = map_of (d_blocks d) bid'"
    and "map_of (d_blocks d') bid = Some (lookup_block bid d')"
    and "d_k d' = d_k d" and "d_r d' = d_r d"
proof -
  let ?d = "track_max now bid d"
  have b: "d_blocks ?d = d_blocks d" by (rule track_max_live [OF assms(2,3)])
  have k: "d_k ?d = d_k d" "d_r ?d = d_r d" using track_max_frame by auto
  have l: "fst (get_or_create bid ?d) = lookup_block bid d"
    using get_or_create_fst [OF track_max_decoder_ok [OF assms(1)]] b k lookup_block_cong [of ?d bid d]
    by simp
  show "(out, lookup_block bid d') = block_add rs (d_k d) (d_r d) now idx pkt rep (lookup_block bid d)"
    "map_of (d_blocks d') bid = Some (lookup_block bid d')" "d_k d' = d_k d" "d_r d' = d_r d"
    using res k l by (auto simp: decoder_add_def case_prod_beta lookup_block_def)
  show "bid' \<noteq> bid \<Longrightarrow> map_of (d_blocks d') bid' = map_of (d_blocks d) bid'"
    using res b get_or_create_other [of bid' bid ?d] by (auto simp: decoder_add_def case_prod_beta)
qed

lemma add_symbol_live:
  assumes "decoder_ok d" and "live_since t0 d" and "t0 \<le> now" and "now \<le> t0 + block_keep_age"
    and "i < d_k d + d_r d" and res: "add_symbol rs blk (now, bid, i) d = (out, d')"
  shows "live_since t0 d'"
  unfolding live_since_def
proof (intro allI impI)
  fix bid' b assume b: "map_of (d_blocks d') bid' = Some b"
  obtain src reps where blk: "blk bid = (src, reps)" by fastforce
  note step = decoder_add_blocks [OF assms(1,2,4) res[unfolded add_symbol_def, simplified blk prod.case]]
  show "\<exists>t \<ge> t0. b_last b = Some t"
  proof (cases "bid' = bid")
    case False
    then show ?thesis using b step(2) assms(2) by (auto simp: live_since_def)
  next
    case True
    then have beq: "b = snd (block_add rs (d_k d) (d_r d) now (sym_idx (d_k d) i)
        (sym_payload (d_k d) src reps i) (d_k d \<le> i) (lookup_block bid d))"
      using b step(1,3) by (metis option.inject snd_conv)
    show ?thesis
    proof (cases "map_of (d_blocks d) bid")
      case None
      then have "b_last b = Some now" using beq block_add_last_new [OF assms(5)] by (simp add: lookup_block_def)
      then show ?thesis using assms(3) by blast
    next
      case (Some c)
      then have "b_last b \<in> {b_last c, Some now}" using beq block_add_last by (simp add: lookup_block_def)
      then show ?thesis using Some assms(2,3) by (auto simp: live_since_def)
    qed
  qed
qed

lemma feed_decoder_block:
  assumes "decoder_ok d" and "live_since t0 d" and "d_k d = k" and "d_r d = r"
    and "\<forall>(t, b, i) \<in> set evs. t0 \<le> t \<and> t \<le> t0 + block_keep_age \<and> i < k + r"
  shows "out_of_block bid (feed_decoder rs blk evs d) =
         fst (feed_symbols rs k r (fst (blk bid)) (snd (blk bid)) (arrivals_of bid evs) (lookup_block bid d))"
  using assms
proof (induction evs arbitrary: d)
  case Nil
  then show ?case by simp
next
  case (Cons ev evs)
  obtain now b i where ev: "ev = (now, b, i)" by (metis prod_cases3)
  obtain src reps where blk: "blk b = (src, reps)" by fastforce
  obtain out d' where add: "add_symbol rs blk ev d = (out, d')" by fastforce
  have now: "t0 \<le> now" "now \<le> t0 + block_keep_age" "i < d_k d + d_r d" using Cons.prems ev by auto
  have dadd: "decoder_add rs now b (sym_idx k i) (sym_payload k src reps i) (k \<le> i) d = (out, d')"
    using add ev blk Cons.prems(3) by (simp add: add_symbol_def)
  note step = decoder_add_blocks [OF Cons.prems(1,2) now(2) dadd]
  have ok': "decoder_ok d'" using decoder_add_step [OF Cons.prems(1)] dadd by (metis snd_conv)
  have ih: "out_of_block bid (feed_decoder rs blk evs d') =
      fst (feed_symbols rs k r (fst (blk bid)) (snd (blk bid)) (arrivals_of bid evs) (lookup_block bid d'))"
    using Cons.IH [OF ok' add_symbol_live [OF Cons.prems(1,2) now add[unfolded ev]]] step(4,5) Cons.prems(3-5)
    by simp
  show ?case
  proof (cases "b = bid")
    case False
    then have "lookup_block bid d' = lookup_block bid d"
      using step(2) [of bid] step(4,5) by (intro lookup_block_cong) simp_all
    then show ?thesis using ih False by (simp add: ev add[unfolded ev])
  next
    case True
    have "block_add rs k r now (sym_idx k i) (sym_payload k src reps i) (k \<le> i) (lookup_block bid d) =
        (out, lookup_block bid d')"
      using step(1) True Cons.prems(3,4) by simp
    then show ?thesis using ih True blk by (simp add: ev add[unfolded ev True] case_prod_beta)
  qed
qed

section \<open>Flushing\<close>

text \<open>\<open>FlushStale\<close> concatenates the flushes of the blocks in ascending block order.\<close>

lemma flush_ids_append:
  assumes "distinct ids" and "set ids \<subseteq> dom (map_of (d_blocks d))"
  shows "fst (flush_ids now age ids d) =
         concat (map (\<lambda>bid. fst (flush_block (d_k d) now age (the (map_of (d_blocks d) bid)))) ids)"
  using assms
proof (induction ids arbitrary: d)
  case (Cons bid ids)
  obtain b where b: "map_of (d_blocks d) bid = Some b" using Cons.prems(2) by auto
  obtain out b' where f: "flush_block (d_k d) now age b = (out, b')" by fastforce
  let ?d = "d\<lparr>d_blocks := mput bid b' (d_blocks d)\<rparr>"
  have "set ids \<subseteq> dom (map_of (d_blocks ?d))" using Cons.prems(2) by (simp add: dom_mput) blast
  then have "fst (flush_ids now age ids ?d) =
      concat (map (\<lambda>i. fst (flush_block (d_k ?d) now age (the (map_of (d_blocks ?d) i)))) ids)"
    using Cons.prems(1) by (intro Cons.IH) (simp_all del: map_of_mput)
  also have "map (\<lambda>i. fst (flush_block (d_k ?d) now age (the (map_of (d_blocks ?d) i)))) ids =
      map (\<lambda>i. fst (flush_block (d_k d) now age (the (map_of (d_blocks d) i)))) ids"
    using Cons.prems(1) by (intro map_cong) auto
  finally show ?case using b f by (simp add: case_prod_beta)
qed simp

lemma flush_stale_ascending:
  assumes "decoder_ok d"
  shows "fst (flush_stale now age d) =
         concat (map (\<lambda>bid. fst (flush_block (d_k d) now age (the (map_of (d_blocks d) bid))))
           (sort (map fst (d_blocks d))))"
  unfolding flush_stale_def
  using assms by (intro flush_ids_append) (auto simp: decoder_ok_def amap_ok_def dom_map_of_conv_image_fst)

end
