(* ===== verification/FecPipe.thy ===== *)
theory FecPipe
  imports FecDecoder "HOL-Library.Multiset"
begin

text \<open>
  \<open>internal/fec/pipe.go\<close>: the pipe that numbers outgoing frames, sends the repairs of a full block at
  once or through the delayed queue, and feeds the decoder. Callbacks are modelled by the list of
  wire events they are called with and by a predicate saying which calls succeed.
\<close>

section \<open>The pipe\<close>

datatype wire =
    WireData "32 word" "16 word" bytes
  | WireRepair "32 word" byte bytes

record repair_job =
  job_at :: time
  job_block :: "32 word"
  job_repairs :: "bytes list"

record pipe =
  p_enc :: encoder
  p_dec :: decoder
  p_delay :: time
  p_idx :: "16 word"
  p_has_repair :: bool
  p_queue :: "repair_job list option"

definition repair_queue_cap :: nat where "repair_queue_cap = 2048"

definition new_pipe :: "rs_code \<Rightarrow> int \<Rightarrow> int \<Rightarrow> time \<Rightarrow> bool \<Rightarrow> fec_error + pipe" where
  "new_pipe rs k r delay has_repair =
     (case new_encoder rs k r of
        Inl e \<Rightarrow> Inl e
      | Inr enc \<Rightarrow>
          (case new_decoder rs k r of
             Inl e \<Rightarrow> Inl e
           | Inr dec \<Rightarrow> Inr \<lparr>p_enc = enc, p_dec = dec, p_delay = delay, p_idx = 0, p_has_repair = has_repair,
               p_queue = (if 0 < delay \<and> has_repair then Some [] else None)\<rparr>))"

text \<open>\<open>for i, rep := range repairs\<close>: all of them, or up to the first failing call.\<close>

definition repair_wires :: "32 word \<Rightarrow> bytes list \<Rightarrow> wire list" where
  "repair_wires bid reps = map (\<lambda>i. WireRepair bid (of_nat i) (reps ! i)) [0..<length reps]"

fun until_error :: "(wire \<Rightarrow> bool) \<Rightarrow> wire list \<Rightarrow> bool \<times> wire list" where
  "until_error ok [] = (True, [])"
| "until_error ok (w # ws) =
     (if ok w then (case until_error ok ws of (res, out) \<Rightarrow> (res, w # out)) else (False, [w]))"

text \<open>\<open>Send\<close>: the flag is \<open>err == nil\<close>, the list the callback invocations.\<close>

definition pipe_number :: "rs_code \<Rightarrow> bytes \<Rightarrow> pipe \<Rightarrow> bytes list option \<times> pipe" where
  "pipe_number rs frame p =
     (case encoder_add rs frame (p_enc p) of (repairs, enc) \<Rightarrow>
        (repairs, p\<lparr>p_enc := enc, p_idx := (if repairs = None then p_idx p + 1 else 0)\<rparr>))"

definition pipe_send ::
  "rs_code \<Rightarrow> (wire \<Rightarrow> bool) \<Rightarrow> time \<Rightarrow> bytes \<Rightarrow> pipe \<Rightarrow> bool \<times> wire list \<times> pipe" where
  "pipe_send rs ok now frame p =
     (let bid = e_block (p_enc p); w = WireData bid (p_idx p) frame in
      case pipe_number rs frame p of (repairs, p1) \<Rightarrow>
        if \<not> ok w then (False, [w], p1)
        else case repairs of
          None \<Rightarrow> (True, [w], p1)
        | Some reps \<Rightarrow>
            if reps = [] \<or> \<not> p_has_repair p then (True, [w], p1)
            else if 0 < p_delay p then
              (case p_queue p1 of
                 Some q \<Rightarrow>
                   if length q < repair_queue_cap then
                     (True, [w], p1\<lparr>p_queue :=
                        Some (q @ [\<lparr>job_at = now + p_delay p, job_block = bid, job_repairs = reps\<rparr>])\<rparr>)
                   else (True, w # repair_wires bid reps, p1)
               | None \<Rightarrow> (True, w # repair_wires bid reps, p1))
            else (case until_error ok (repair_wires bid reps) of (res, out) \<Rightarrow> (res, w # out, p1)))"

text \<open>The background sender: the job at the head of the queue once its time has come.\<close>

definition repair_sender_step :: "time \<Rightarrow> pipe \<Rightarrow> wire list \<times> pipe" where
  "repair_sender_step now p =
     (case p_queue p of
        Some (job # q) \<Rightarrow>
          if job_at job \<le> now then (repair_wires (job_block job) (job_repairs job), p\<lparr>p_queue := Some q\<rparr>)
          else ([], p)
      | _ \<Rightarrow> ([], p))"

definition pipe_recv_data ::
  "rs_code \<Rightarrow> time \<Rightarrow> 32 word \<Rightarrow> 16 word \<Rightarrow> bytes \<Rightarrow> pipe \<Rightarrow> (fec_error + bytes list) \<times> pipe" where
  "pipe_recv_data rs now bid idx data p =
     (case add_data rs now bid (uint idx) data (p_dec p) of (out, d) \<Rightarrow> (out, p\<lparr>p_dec := d\<rparr>))"

definition pipe_recv_repair ::
  "rs_code \<Rightarrow> time \<Rightarrow> 32 word \<Rightarrow> byte \<Rightarrow> bytes \<Rightarrow> pipe \<Rightarrow> (fec_error + bytes list) \<times> pipe" where
  "pipe_recv_repair rs now bid idx data p =
     (case add_repair rs now bid (uint idx) data (p_dec p) of (out, d) \<Rightarrow> (out, p\<lparr>p_dec := d\<rparr>))"

definition repair_block_done :: "32 word \<Rightarrow> pipe \<Rightarrow> bool" where
  "repair_block_done bid p = block_done bid (p_dec p)"

definition flush_tick :: "time \<Rightarrow> time" where
  "flush_tick max_age = (let tick = max_age div 4 in if tick < 10 * millisecond then 10 * millisecond else tick)"

definition pipe_flush :: "time \<Rightarrow> time \<Rightarrow> pipe \<Rightarrow> bytes list \<times> pipe" where
  "pipe_flush now max_age p = (case flush_stale now max_age (p_dec p) of (out, d) \<Rightarrow> (out, p\<lparr>p_dec := d\<rparr>))"

section \<open>No repair is lost in the queue\<close>

definition pending :: "pipe \<Rightarrow> wire list" where
  "pending p = (case p_queue p of None \<Rightarrow> []
     | Some q \<Rightarrow> concat (map (\<lambda>j. repair_wires (job_block j) (job_repairs j)) q))"

lemma until_error_all: "(\<And>w. w \<in> set ws \<Longrightarrow> ok w) \<Longrightarrow> until_error ok ws = (True, ws)"
  by (induction ws) simp_all

lemma pipe_number_frame [simp]:
  "p_queue (snd (pipe_number rs frame p)) = p_queue p" "p_delay (snd (pipe_number rs frame p)) = p_delay p"
  "p_has_repair (snd (pipe_number rs frame p)) = p_has_repair p" "p_dec (snd (pipe_number rs frame p)) = p_dec p"
  by (simp_all add: pipe_number_def case_prod_beta)

lemma pipe_number_delay:
  "pipe_number rs frame (p\<lparr>p_delay := x\<rparr>) =
     (fst (pipe_number rs frame p), (snd (pipe_number rs frame p))\<lparr>p_delay := x\<rparr>)"
  by (simp add: pipe_number_def case_prod_beta)

text \<open>
  Delaying repairs only moves them: what is on the wire plus what is queued is what an undelayed pipe
  would have sent, whether the queue accepts the job or is full.
\<close>

lemma pipe_send_delay:
  assumes "pipe_send rs (\<lambda>_. True) now frame p = (res, out, p')"
    and "pipe_send rs (\<lambda>_. True) now frame (p\<lparr>p_delay := 0\<rparr>) = (res0, out0, p0)"
  shows "mset out + mset (pending p') = mset out0 + mset (pending p)"
proof -
  obtain repairs p1 where n: "pipe_number rs frame p = (repairs, p1)" by fastforce
  then have q: "p_queue p1 = p_queue p" "p_has_repair p1 = p_has_repair p" "p_delay p1 = p_delay p"
    using pipe_number_frame [of rs frame p] by simp_all
  have n0: "pipe_number rs frame (p\<lparr>p_delay := 0\<rparr>) = (repairs, p1\<lparr>p_delay := 0\<rparr>)"
    using pipe_number_delay [where p = p and frame = frame and rs = rs and x = 0] n by simp
  have u: "until_error (\<lambda>_. True) ws = (True, ws)" for ws by (rule until_error_all) simp
  show ?thesis
  proof (cases repairs)
    case None
    then show ?thesis using assms q by (auto simp: pipe_send_def n n0 pending_def Let_def)
  next
    case (Some reps)
    then show ?thesis using assms q
      by (cases "p_queue p") (auto simp: pipe_send_def n n0 pending_def Let_def u split: if_splits)
  qed
qed

lemma repair_sender_pending:
  "repair_sender_step now p = (out, p') \<Longrightarrow> out @ pending p' = pending p"
  by (auto simp: repair_sender_step_def pending_def split: option.splits list.splits if_splits)

section \<open>Numbering\<close>

text \<open>A run of sends without delay and without errors.\<close>

fun send_run :: "rs_code \<Rightarrow> bytes list \<Rightarrow> pipe \<Rightarrow> wire list \<times> pipe" where
  "send_run rs [] p = ([], p)"
| "send_run rs (f # fs) p =
     (case pipe_send rs (\<lambda>_. True) 0 f p of (_, out, p1) \<Rightarrow>
        (case send_run rs fs p1 of (rest, p2) \<Rightarrow> (out @ rest, p2)))"

lemma send_run_append:
  "send_run rs (fs @ gs) p =
     (fst (send_run rs fs p) @ fst (send_run rs gs (snd (send_run rs fs p))),
      snd (send_run rs gs (snd (send_run rs fs p))))"
  by (induction fs arbitrary: p) (simp_all add: case_prod_beta)

text \<open>The pipe at the start of block \<open>bid\<close>.\<close>

definition at_block :: "nat \<Rightarrow> nat \<Rightarrow> 32 word \<Rightarrow> pipe \<Rightarrow> bool" where
  "at_block k r bid p \<longleftrightarrow> e_k (p_enc p) = k \<and> e_r (p_enc p) = r \<and> e_buf (p_enc p) = [] \<and>
     e_block (p_enc p) = bid \<and> p_idx p = 0 \<and> p_delay p = 0 \<and> p_has_repair p"

text \<open>Symbol \<open>i\<close> of block \<open>bid\<close> on the wire.\<close>

definition wire_sym :: "nat \<Rightarrow> 32 word \<Rightarrow> bytes list \<Rightarrow> bytes list \<Rightarrow> nat \<Rightarrow> wire" where
  "wire_sym k bid src reps i =
     (if i < k then WireData bid (of_nat i) (src ! i) else WireRepair bid (of_nat (i - k)) (reps ! (i - k)))"

lemma send_run_partial:
  assumes "at_block k r bid p" and "length fs < k"
  shows "send_run rs fs p =
    (map (\<lambda>i. WireData bid (of_nat i) (fs ! i)) [0..<length fs],
     p\<lparr>p_enc := (p_enc p)\<lparr>e_buf := fs\<rparr>, p_idx := of_nat (length fs)\<rparr>)"
  using assms(2)
proof (induction fs rule: rev_induct)
  case Nil
  then show ?case using assms(1) by (simp add: at_block_def)
next
  case (snoc f fs)
  have "send_run rs [f] (snd (send_run rs fs p)) =
      ([WireData bid (of_nat (length fs)) f],
       p\<lparr>p_enc := (p_enc p)\<lparr>e_buf := fs @ [f]\<rparr>, p_idx := of_nat (length (fs @ [f]))\<rparr>)"
    using snoc assms(1)
    by (simp add: at_block_def pipe_send_def pipe_number_def encoder_add_def add.commute)
  moreover have "fst (send_run rs fs p) = map (\<lambda>i. WireData bid (of_nat i) ((fs @ [f]) ! i)) [0..<length fs]"
    using snoc by (simp add: nth_append)
  ultimately show ?case by (simp add: send_run_append)
qed

lemma send_run_block:
  assumes "at_block k r bid p" and "0 < k" and "length fs = k"
    and "block_repairs rs k r fs = Some reps" and "length reps = r"
  shows "fst (send_run rs fs p) = map (wire_sym k bid fs reps) [0..<k + r] \<and>
         at_block k r (bid + 1) (snd (send_run rs fs p))"
proof -
  obtain gs f where fs: "fs = gs @ [f]" using assms(2,3) by (metis length_0_conv neq_Nil_conv rev_exhaust less_numeral_extra(3))
  then have g: "length gs < k" "k = Suc (length gs)" using assms(3) by simp_all
  note part = send_run_partial [OF assms(1) g(1), of rs]
  have u: "until_error (\<lambda>_. True) ws = (True, ws)" for ws by (rule until_error_all) simp
  let ?p = "snd (send_run rs gs p)"
  have add: "encoder_add rs f ((p_enc p)\<lparr>e_buf := gs\<rparr>) =
      (Some reps, (p_enc p)\<lparr>e_buf := [], e_block := bid + 1\<rparr>)"
    using assms(1,4) g(2) fs by (simp add: encoder_add_def at_block_def)
  have num: "pipe_number rs f ?p = (Some reps, ?p\<lparr>p_enc := (p_enc p)\<lparr>e_buf := [], e_block := bid + 1\<rparr>, p_idx := 0\<rparr>)"
    by (simp add: pipe_number_def part add)
  have sel: "e_block (p_enc ?p) = bid" "p_idx ?p = of_nat (length gs)" "p_delay ?p = 0" "p_has_repair ?p"
    using assms(1) by (simp_all add: part at_block_def)
  have "pipe_send rs (\<lambda>_. True) 0 f ?p =
     (True, WireData bid (of_nat (length gs)) f # repair_wires bid reps,
      ?p\<lparr>p_enc := (p_enc p)\<lparr>e_buf := [], e_block := bid + 1\<rparr>, p_idx := 0\<rparr>)"
    unfolding pipe_send_def Let_def num sel by (simp add: u sel) (simp add: repair_wires_def)
  then have run: "send_run rs fs p =
     (map (\<lambda>i. WireData bid (of_nat i) (gs ! i)) [0..<length gs] @
        WireData bid (of_nat (length gs)) f # repair_wires bid reps,
      ?p\<lparr>p_enc := (p_enc p)\<lparr>e_buf := [], e_block := bid + 1\<rparr>, p_idx := 0\<rparr>)"
    unfolding fs send_run_append by (simp add: part)
  have split: "map (wire_sym k bid fs reps) [0..<k + r] =
     map (wire_sym k bid fs reps) [0..<k] @ map (wire_sym k bid fs reps) [k..<k + r]"
    using upt_add_eq_append [of 0 k r] by simp
  have "map (wire_sym k bid fs reps) [0..<k] =
     map (\<lambda>i. WireData bid (of_nat i) (gs ! i)) [0..<length gs] @ [WireData bid (of_nat (length gs)) f]"
    using g fs by (auto simp: wire_sym_def nth_append)
  moreover have "map (wire_sym k bid fs reps) [k..<k + r] = repair_wires bid reps"
    by (rule nth_equalityI) (simp_all add: repair_wires_def wire_sym_def assms(5))
  ultimately show ?thesis using run split assms(1) by (simp add: at_block_def part)
qed

text \<open>Full blocks, one after the other: block \<open>j\<close> of the stream is block \<open>bid + j\<close> on the wire.\<close>

definition good_blocks :: "rs_code \<Rightarrow> nat \<Rightarrow> nat \<Rightarrow> (bytes list \<times> bytes list) list \<Rightarrow> bool" where
  "good_blocks rs k r bs \<longleftrightarrow>
     (\<forall>(src, reps) \<in> set bs. length reps = r \<and> fec_block_ok rs k r src reps)"

lemma send_run_blocks:
  assumes "at_block k r bid p" and "0 < k" and "0 < r" and "good_blocks rs k r bs"
  shows "fst (send_run rs (concat (map fst bs)) p) =
         concat (map (\<lambda>j. map (wire_sym k (bid + of_nat j) (fst (bs ! j)) (snd (bs ! j))) [0..<k + r])
           [0..<length bs])"
  using assms(1,4)
proof (induction bs arbitrary: bid p)
  case (Cons b bs)
  obtain src reps where b: "b = (src, reps)" by fastforce
  have "length src = k" "block_repairs rs k r src = Some reps" "length reps = r"
    using Cons.prems(2) b assms(3) by (auto simp: good_blocks_def fec_block_ok_def)
  note one = send_run_block [OF Cons.prems(1) assms(2) this]
  have ih: "fst (send_run rs (concat (map fst bs)) (snd (send_run rs src p))) =
      concat (map (\<lambda>j. map (wire_sym k (bid + 1 + of_nat j) (fst (bs ! j)) (snd (bs ! j))) [0..<k + r])
        [0..<length bs])"
    using Cons one by (simp add: good_blocks_def)
  have up: "[0..<length (b # bs)] = 0 # map Suc [0..<length bs]"
    by (simp add: map_Suc_upt upt_conv_Cons del: upt_Suc)
  show ?case unfolding up
    using one ih b by (simp add: send_run_append comp_def add.assoc)
qed simp

section \<open>End to end\<close>

definition recv_wire :: "rs_code \<Rightarrow> time \<Rightarrow> wire \<Rightarrow> decoder \<Rightarrow> (fec_error + bytes list) \<times> decoder" where
  "recv_wire rs now w d = (case w of
      WireData bid i p \<Rightarrow> add_data rs now bid (uint i) p d
    | WireRepair bid i p \<Rightarrow> add_repair rs now bid (uint i) p d)"

fun wire_block :: "wire \<Rightarrow> 32 word" where
  "wire_block (WireData b _ _) = b" | "wire_block (WireRepair b _ _) = b"

fun wire_index :: "nat \<Rightarrow> wire \<Rightarrow> nat" where
  "wire_index k (WireData _ i _) = unat i" | "wire_index k (WireRepair _ i _) = k + unat i"

fun recv_run :: "rs_code \<Rightarrow> (time \<times> wire) list \<Rightarrow> decoder \<Rightarrow> (32 word \<times> bytes list) list" where
  "recv_run rs [] d = []"
| "recv_run rs ((now, w) # ws) d =
     (case recv_wire rs now w d of (out, d') \<Rightarrow> (wire_block w, delivered_of out) # recv_run rs ws d')"

lemma wire_sym_block [simp]: "wire_block (wire_sym k bid src reps i) = bid"
  by (simp add: wire_sym_def)

lemma wire_sym_index: "i < k + r \<Longrightarrow> k \<le> 128 \<Longrightarrow> r \<le> 32 \<Longrightarrow> wire_index k (wire_sym k bid src reps i) = i"
  by (auto simp: wire_sym_def unat_of_nat_u16 simp del: of_nat_diff)

lemma recv_wire_sym:
  assumes "i < k + r" "k \<le> 128" "r \<le> 32" "d_k d = k" "blk bid = (src, reps)"
  shows "recv_wire rs now (wire_sym k bid src reps i) d = add_symbol rs blk (now, bid, i) d"
proof (cases "i < k")
  case True
  then have "uint (of_nat i :: 16 word) = int i" using assms by (simp add: uint_nat unat_of_nat_u16)
  then show ?thesis using True assms
    by (simp add: recv_wire_def wire_sym_def add_symbol_def add_data_def sym_idx_def sym_payload_def)
next
  case False
  then have "uint (of_nat (i - k) :: byte) = int (i - k)" using assms
    by (simp add: uint_nat del: of_nat_diff)
  then show ?thesis using False assms
    by (simp add: recv_wire_def wire_sym_def add_symbol_def add_repair_def sym_idx_def sym_payload_def
        del: of_nat_diff)
qed

definition sym_of_wire :: "nat \<Rightarrow> time \<times> wire \<Rightarrow> time \<times> 32 word \<times> nat" where
  "sym_of_wire k tw = (case tw of (t, w) \<Rightarrow> (t, wire_block w, wire_index k w))"

lemma add_symbol_k: "decoder_ok d \<Longrightarrow> d_k (snd (add_symbol rs blk ev d)) = d_k d"
  by (simp add: add_symbol_def decoder_add_def case_prod_beta track_max_frame)

lemma recv_run_feed:
  assumes "decoder_ok d" "d_k d = k" "k \<le> 128" "r \<le> 32"
    and "\<forall>(t, w) \<in> set net. \<exists>bid i. i < k + r \<and> w = wire_sym k bid (fst (blk bid)) (snd (blk bid)) i"
  shows "recv_run rs net d = feed_decoder rs blk (map (sym_of_wire k) net) d"
  using assms(1,2,5)
proof (induction net arbitrary: d)
  case (Cons tw net)
  obtain t w where tw: "tw = (t, w)" by fastforce
  obtain bid i where w: "i < k + r" "w = wire_sym k bid (fst (blk bid)) (snd (blk bid)) i"
    using Cons.prems(3) tw by auto
  have one: "recv_wire rs t w d = add_symbol rs blk (t, bid, i) d"
    using recv_wire_sym [OF w(1) assms(3,4) Cons.prems(2)] w(2) by simp
  have "decoder_ok (snd (add_symbol rs blk (t, bid, i) d))"
    using Cons.prems(1) decoder_add_step by (simp add: add_symbol_def case_prod_beta)
  from Cons.IH [OF this] show ?case
    using one w Cons.prems wire_sym_index [OF w(1) assms(3,4)] add_symbol_k [OF Cons.prems(1)]
    by (simp add: tw sym_of_wire_def case_prod_beta)
qed simp

lemma arrivals_sym_of_wire:
  "snd ` set (arrivals_of bid (map (sym_of_wire k) net)) =
     wire_index k ` {w \<in> snd ` set net. wire_block w = bid}"
proof -
  have "set (arrivals_of bid evs) = {(t, i). (t, bid, i) \<in> set evs}" for evs
    by (auto simp: arrivals_of_def image_iff)
  then show ?thesis by (force simp: sym_of_wire_def)
qed

definition blocks_at :: "(bytes list \<times> bytes list) list \<Rightarrow> 32 word \<Rightarrow> bytes list \<times> bytes list" where
  "blocks_at bs b = (if unat b < length bs then bs ! unat b else ([], []))"

lemma unat_of_nat_u32: "n < 4294967296 \<Longrightarrow> unat (of_nat n :: 32 word) = n"
  by (simp add: unat_of_nat)

lemma sent_wires:
  assumes "at_block k r 0 p" and "0 < k" and "0 < r" and "good_blocks rs k r bs"
    and "length bs \<le> 4294967296" and "w \<in> set (fst (send_run rs (concat (map fst bs)) p))"
  shows "\<exists>bid i. i < k + r \<and> w = wire_sym k bid (fst (blocks_at bs bid)) (snd (blocks_at bs bid)) i"
proof -
  obtain j i where "j < length bs" "i < k + r"
      "w = wire_sym k (of_nat j) (fst (bs ! j)) (snd (bs ! j)) i"
    using assms(6) unfolding send_run_blocks [OF assms(1-4)] by auto
  then show ?thesis using assms(5)
    by (intro exI [of _ "of_nat j"] exI [of _ i]) (simp add: blocks_at_def unat_of_nat_u32)
qed

text \<open>
  A stream of full blocks goes through the sending pipe, the network delivers any selection of the
  wire events, in any order and with duplicates, within the keep age: each block of which \<open>k\<close>
  distinct events arrive is delivered whole, in order and once.
\<close>

lemma pipe_end_to_end:
  assumes pipe: "at_block k r 0 p" and k: "0 < k" "k \<le> 128" and r: "0 < r" "r \<le> 32"
    and good: "good_blocks rs k r bs" "length bs \<le> 4294967296"
    and net: "\<forall>(t, w) \<in> set net. t0 \<le> t \<and> t \<le> t0 + block_keep_age \<and>
                w \<in> set (fst (send_run rs (concat (map fst bs)) p))"
    and j: "j < length bs"
    and enough: "k \<le> card {w \<in> snd ` set net. wire_block w = of_nat j}"
  shows "list_all2 (restored (max_len (fst (bs ! j))))
           (out_of_block (of_nat j) (recv_run rs net (fresh_decoder k r))) (fst (bs ! j))"
proof -
  let ?blk = "blocks_at bs" and ?b = "of_nat j :: 32 word" and ?d = "fresh_decoder k r"
  let ?evs = "map (sym_of_wire k) net"
  have d: "decoder_ok ?d" "live_since t0 ?d" "d_k ?d = k" "d_r ?d = r"
    using k by (simp_all add: fresh_decoder_def decoder_ok_def live_since_def)
  have gen: "\<exists>bid i. i < k + r \<and> w = wire_sym k bid (fst (?blk bid)) (snd (?blk bid)) i"
    if "(t, w) \<in> set net" for t w
    using sent_wires [OF pipe k(1) r(1) good, of w] net that by auto
  have idx: "wire_index k w < k + r" if "(t, w) \<in> set net" for t w
    using gen [OF that] wire_sym_index k r by fastforce
  have bj: "?blk ?b = bs ! j" using j good(2) by (simp add: blocks_at_def unat_of_nat_u32)
  have "out_of_block ?b (recv_run rs net ?d) =
      fst (feed_symbols rs k r (fst (bs ! j)) (snd (bs ! j)) (arrivals_of ?b ?evs) (new_block k r))"
    using feed_decoder_block [OF d, where evs = ?evs and bid = ?b and blk = ?blk and rs = rs] net idx
      recv_run_feed [OF d(1,3) k(2) r(2), of net ?blk rs] gen bj d(3,4)
    by (fastforce simp: sym_of_wire_def lookup_block_def fresh_decoder_def)
  moreover have "list_all2 (restored (max_len (fst (bs ! j))))
      (fst (feed_symbols rs k r (fst (bs ! j)) (snd (bs ! j)) (arrivals_of ?b ?evs) (new_block k r))) (fst (bs ! j))"
  proof (rule feed_symbols_enough [OF _ k(1)])
    show "fec_block_ok rs k r (fst (bs ! j)) (snd (bs ! j))"
      using good(1) nth_mem [OF j] by (cases "bs ! j") (force simp: good_blocks_def)
    show "\<forall>(t, i) \<in> set (arrivals_of ?b ?evs). i < k + r"
      using idx by (auto simp: arrivals_of_def sym_of_wire_def)
    have "inj_on (wire_index k) {w \<in> snd ` set net. wire_block w = ?b}"
    proof (rule inj_onI)
      fix v w assume v: "v \<in> {w \<in> snd ` set net. wire_block w = ?b}"
        and w: "w \<in> {w \<in> snd ` set net. wire_block w = ?b}" and eq: "wire_index k v = wire_index k w"
      have "u = wire_sym k ?b (fst (?blk ?b)) (snd (?blk ?b)) (wire_index k u)"
        if "u \<in> {w \<in> snd ` set net. wire_block w = ?b}" for u
        using that gen k r by (fastforce simp: wire_sym_index [OF _ k(2) r(2)])
      from this [OF v] this [OF w] eq show "v = w" by metis
    qed
    then show "k \<le> card (snd ` set (arrivals_of ?b ?evs))"
      using enough by (simp add: arrivals_sym_of_wire card_image)
  qed
  ultimately show ?thesis by simp
qed

section \<open>Without repairs\<close>

text \<open>
  With \<open>r = 0\<close> the encoder returns no repairs for a full block, so \<open>Send\<close> never resets the packet
  index although the block ID advances: only the first \<open>k\<close> frames carry indices a decoder accepts.
\<close>

lemma send_run_no_repairs:
  assumes "e_k (p_enc p) = k" "e_r (p_enc p) = 0" "e_buf (p_enc p) = []" "e_block (p_enc p) = 0"
    "p_idx p = 0" and "0 < k"
  shows "fst (send_run rs fs p) = map (\<lambda>i. WireData (of_nat (i div k)) (of_nat i) (fs ! i)) [0..<length fs] \<and>
    (let q = snd (send_run rs fs p) in e_k (p_enc q) = k \<and> e_r (p_enc q) = 0 \<and>
       length (e_buf (p_enc q)) = length fs mod k \<and> e_block (p_enc q) = of_nat (length fs div k) \<and>
       p_idx q = of_nat (length fs))"
proof (induction fs rule: rev_induct)
  case Nil
  then show ?case using assms by simp
next
  case (snoc f fs)
  let ?q = "snd (send_run rs fs p)"
  have q: "e_k (p_enc ?q) = k" "e_r (p_enc ?q) = 0" "length (e_buf (p_enc ?q)) = length fs mod k"
      "e_block (p_enc ?q) = of_nat (length fs div k)" "p_idx ?q = of_nat (length fs)"
    using snoc.IH by (simp_all add: Let_def)
  have step: "\<not> Suc (length fs mod k) < k \<Longrightarrow> Suc (length fs) mod k = 0 \<and> Suc (length fs) div k = Suc (length fs div k)"
    using assms(6) by (metis Suc_lessI div_Suc mod_Suc mod_less_divisor)
  have step': "Suc (length fs mod k) < k \<Longrightarrow>
      Suc (length fs) mod k = Suc (length fs mod k) \<and> Suc (length fs) div k = length fs div k"
    using assms(6) by (simp add: div_Suc mod_Suc)
  have one: "fst (send_run rs [f] ?q) = [WireData (of_nat (length fs div k)) (of_nat (length fs)) f]"
    using q by (simp add: pipe_send_def pipe_number_def encoder_add_def block_repairs_def Let_def)
  have out: "fst (send_run rs (fs @ [f]) p) =
      map (\<lambda>i. WireData (of_nat (i div k)) (of_nat i) ((fs @ [f]) ! i)) [0..<length (fs @ [f])]"
    using snoc.IH one by (simp add: send_run_append nth_append Let_def)
  have state: "snd (send_run rs (fs @ [f]) p) = ?q\<lparr>p_enc := snd (encoder_add rs f (p_enc ?q)), p_idx := p_idx ?q + 1\<rparr>"
    using q by (simp add: send_run_append pipe_send_def pipe_number_def encoder_add_def block_repairs_def Let_def)
  show ?case
  proof (cases "Suc (length fs mod k) < k")
    case True
    have "e_k (p_enc (snd (send_run rs (fs @ [f]) p))) = k" "e_r (p_enc (snd (send_run rs (fs @ [f]) p))) = 0"
      "length (e_buf (p_enc (snd (send_run rs (fs @ [f]) p)))) = Suc (length fs mod k)"
      "e_block (p_enc (snd (send_run rs (fs @ [f]) p))) = of_nat (length fs div k)"
      "p_idx (snd (send_run rs (fs @ [f]) p)) = of_nat (length fs) + 1"
      using True by (simp_all add: state q encoder_add_def Let_def)
    then show ?thesis using out step' [OF True] unfolding Let_def by (simp only: length_append_singleton of_nat_Suc add.commute)
  next
    case False
    have "e_k (p_enc (snd (send_run rs (fs @ [f]) p))) = k" "e_r (p_enc (snd (send_run rs (fs @ [f]) p))) = 0"
      "length (e_buf (p_enc (snd (send_run rs (fs @ [f]) p)))) = 0"
      "e_block (p_enc (snd (send_run rs (fs @ [f]) p))) = of_nat (length fs div k) + 1"
      "p_idx (snd (send_run rs (fs @ [f]) p)) = of_nat (length fs) + 1"
      using False by (simp_all add: state q encoder_add_def Let_def)
    moreover have "length (fs @ [f]) mod k = 0"
      using step [OF False] by (metis length_append_singleton)
    moreover have "length (fs @ [f]) div k = length fs div k + 1"
      using step [OF False] by (metis length_append_singleton Suc_eq_plus1)
    moreover have "(of_nat (length (fs @ [f])) :: 16 word) = of_nat (length fs) + 1"
      by (simp only: length_append_singleton of_nat_Suc add.commute)
    ultimately show ?thesis unfolding Let_def using out by (simp only: of_nat_add of_nat_1)
  qed
qed

lemma recv_out_of_range:
  assumes "d_k d \<le> unat i"
  shows "fst (recv_wire rs now (WireData bid i f) d) = Inr []"
proof -
  let ?g = "get_or_create bid (track_max now bid d)"
  have "int (d_k d) \<le> int (unat i)" using assms by (simp only: of_nat_le_iff)
  then have "int (d_k (snd ?g)) \<le> uint i" by (simp add: track_max_frame)
  then show ?thesis
    by (simp add: recv_wire_def add_data_def decoder_add_def case_prod_beta block_add_def)
qed

end
