(* ===== verification/Hub.thy ===== *)
theory Hub
  imports Prelude
begin

text \<open>
  \<open>internal/hub/hub.go\<close>: one layer-2 broadcast domain with its client table and its MAC learning
  table, and the manager of all hubs. A frame's delivery is the list of sessions whose \<open>Send\<close> is
  called. \<open>switch_targets\<close> is the contract of a learning switch; \<open>hub_forward\<close> refines it.
\<close>

section \<open>State\<close>

type_synonym mac = bytes
type_synonym session_id = "32 word"

definition mac_table_ttl :: time where "mac_table_ttl = 5 * minute"

record hub_client =
  hc_session :: session_id
  hc_login :: string

record mac_entry =
  me_session :: session_id
  me_expires :: time
  me_ip :: "bytes option"

record hub =
  h_id :: "16 word"
  h_name :: string
  h_clients :: "(session_id, hub_client) amap"
  h_macs :: "(mac, mac_entry) amap"
  h_last_flap :: "time option"
  h_flaps :: "64 word"

record mac_record =
  mr_mac :: mac
  mr_session :: session_id
  mr_login :: string
  mr_ip :: "bytes option"
  mr_expires_in :: time

definition new_hub :: "16 word \<Rightarrow> string \<Rightarrow> hub" where
  "new_hub n name = \<lparr>h_id = n, h_name = name, h_clients = [], h_macs = [], h_last_flap = None, h_flaps = 0\<rparr>"

section \<open>Operations\<close>

definition hub_join :: "hub_client \<Rightarrow> hub \<Rightarrow> hub" where
  "hub_join c h = h\<lparr>h_clients := mput (hc_session c) c (h_clients h)\<rparr>"

definition hub_leave :: "session_id \<Rightarrow> hub \<Rightarrow> hub" where
  "hub_leave s h = h\<lparr>h_clients := mdel s (h_clients h)\<rparr>"

definition client_count :: "hub \<Rightarrow> nat" where
  "client_count h = length (h_clients h)"

definition dst_mac :: "bytes \<Rightarrow> mac" where "dst_mac f = slice 0 6 f"
definition src_mac :: "bytes \<Rightarrow> mac" where "src_mac f = slice 6 12 f"

definition ether_type :: "bytes \<Rightarrow> 16 word" where
  "ether_type f = push_bit 8 (ucast (f ! 12)) OR ucast (f ! 13)"

text \<open>The IPv4 address the frame announces for its source, or the one already known.\<close>

definition learned_ip :: "bytes \<Rightarrow> bytes option \<Rightarrow> bytes option" where
  "learned_ip f old =
     (if 14 \<le> length f then
        if ether_type f = 0x0806 then (if 32 \<le> length f then Some (slice 28 32 f) else old)
        else if ether_type f = 0x0800 then (if 30 \<le> length f then Some (slice 26 30 f) else old)
        else old
      else old)"

definition is_broadcast :: "mac \<Rightarrow> bool" where
  "is_broadcast m \<longleftrightarrow> m = replicate 6 0xff"

definition is_multicast :: "mac \<Rightarrow> bool" where
  "is_multicast m \<longleftrightarrow> m ! 0 AND 1 \<noteq> 0"

definition moved :: "session_id \<Rightarrow> mac_entry option \<Rightarrow> bool" where
  "moved s e = (case e of None \<Rightarrow> False | Some e \<Rightarrow> me_session e \<noteq> s)"

definition needs_update :: "time \<Rightarrow> session_id \<Rightarrow> mac_entry option \<Rightarrow> bool" where
  "needs_update now s e =
     (case e of None \<Rightarrow> True | Some e \<Rightarrow> me_session e \<noteq> s \<or> me_expires e - now < minute)"

text \<open>The flap diagnosis: the count always, the log time at most every five seconds.\<close>

definition count_flap :: "time \<Rightarrow> hub \<Rightarrow> hub" where
  "count_flap now h =
     (let log_now = (case h_last_flap h of None \<Rightarrow> True | Some t \<Rightarrow> 5 * second < now - t)
      in h\<lparr>h_last_flap := (if log_now then Some now else h_last_flap h), h_flaps := h_flaps h + 1\<rparr>)"

definition learn_entry :: "time \<Rightarrow> session_id \<Rightarrow> bytes \<Rightarrow> mac_entry option \<Rightarrow> mac_entry" where
  "learn_entry now s f old = \<lparr>me_session = s, me_expires = now + mac_table_ttl,
     me_ip = learned_ip f (case old of None \<Rightarrow> None | Some e \<Rightarrow> me_ip e)\<rparr>"

definition hub_learn :: "time \<Rightarrow> session_id \<Rightarrow> bytes \<Rightarrow> hub \<Rightarrow> hub" where
  "hub_learn now s f h =
     (let old = map_of (h_macs h) (src_mac f);
          h1 = (if moved s old then count_flap now h else h)
      in if needs_update now s old then h1\<lparr>h_macs := mput (src_mac f) (learn_entry now s f old) (h_macs h1)\<rparr>
         else h1)"

definition flood_targets :: "session_id \<Rightarrow> hub \<Rightarrow> session_id list" where
  "flood_targets s h = map hc_session (filter (\<lambda>c. hc_session c \<noteq> s) (map snd (h_clients h)))"

definition hub_targets :: "session_id \<Rightarrow> bytes \<Rightarrow> hub \<Rightarrow> session_id list" where
  "hub_targets s f h =
     (case map_of (h_macs h) (dst_mac f) of
        Some e \<Rightarrow>
          if \<not> is_broadcast (dst_mac f) \<and> \<not> is_multicast (dst_mac f) then
            (case map_of (h_clients h) (me_session e) of
               Some c \<Rightarrow> if hc_session c = s then [] else [hc_session c]
             | None \<Rightarrow> flood_targets s h)
          else flood_targets s h
      | None \<Rightarrow> flood_targets s h)"

definition hub_forward :: "time \<Rightarrow> session_id \<Rightarrow> bytes \<Rightarrow> hub \<Rightarrow> session_id list \<times> hub" where
  "hub_forward now s f h =
     (if length f < 12 then ([], h)
      else let h' = hub_learn now s f h in (hub_targets s f h', h'))"

definition mac_table_snapshot :: "time \<Rightarrow> hub \<Rightarrow> mac_record list" where
  "mac_table_snapshot now h =
     map (\<lambda>(m, e). \<lparr>mr_mac = m, mr_session = me_session e,
            mr_login = (case map_of (h_clients h) (me_session e) of None \<Rightarrow> '''' | Some c \<Rightarrow> hc_login c),
            mr_ip = me_ip e, mr_expires_in = ((me_expires e - now) div second) * second\<rparr>)
       (filter (\<lambda>(m, e). \<not> me_expires e < now) (h_macs h))"

definition purge_mac_table :: "time \<Rightarrow> hub \<Rightarrow> hub" where
  "purge_mac_table now h = h\<lparr>h_macs := mdrop (\<lambda>_ e. me_expires e < now) (h_macs h)\<rparr>"

section \<open>The manager\<close>

type_synonym manager = "(16 word, hub) amap"

definition manager_add :: "hub \<Rightarrow> manager \<Rightarrow> manager" where
  "manager_add h m = mput (h_id h) h m"

definition manager_get :: "16 word \<Rightarrow> manager \<Rightarrow> hub option" where
  "manager_get n m = map_of m n"

definition manager_list :: "manager \<Rightarrow> hub list" where
  "manager_list m = map snd m"

section \<open>Invariant\<close>

definition hub_ok :: "hub \<Rightarrow> bool" where
  "hub_ok h \<longleftrightarrow> amap_ok (h_clients h) \<and> amap_ok (h_macs h) \<and>
     (\<forall>s c. map_of (h_clients h) s = Some c \<longrightarrow> hc_session c = s)"

datatype hub_event =
    HubJoin hub_client
  | HubLeave session_id
  | HubFrame time session_id bytes
  | HubPurge time

definition hub_step :: "hub \<Rightarrow> hub_event \<Rightarrow> hub" where
  "hub_step h ev = (case ev of
      HubJoin c \<Rightarrow> hub_join c h
    | HubLeave s \<Rightarrow> hub_leave s h
    | HubFrame now s f \<Rightarrow> snd (hub_forward now s f h)
    | HubPurge now \<Rightarrow> purge_mac_table now h)"

lemma count_flap_frame [simp]:
  "h_clients (count_flap now h) = h_clients h" "h_macs (count_flap now h) = h_macs h"
  "h_flaps (count_flap now h) = h_flaps h + 1" "h_id (count_flap now h) = h_id h"
  by (simp_all add: count_flap_def Let_def)

lemma hub_learn_frame [simp]:
  "h_clients (hub_learn now s f h) = h_clients h" "h_id (hub_learn now s f h) = h_id h"
  by (simp_all add: hub_learn_def Let_def)

lemma hub_learn_macs:
  "h_macs (hub_learn now s f h) =
     (if needs_update now s (map_of (h_macs h) (src_mac f))
      then mput (src_mac f) (learn_entry now s f (map_of (h_macs h) (src_mac f))) (h_macs h)
      else h_macs h)"
  by (simp add: hub_learn_def Let_def)

lemma hub_step_ok: "hub_ok h \<Longrightarrow> hub_ok (hub_step h ev)"
  by (cases ev) (auto simp: hub_ok_def hub_step_def hub_join_def hub_leave_def hub_forward_def Let_def
      hub_learn_macs purge_mac_table_def split: if_splits)

interpretation hub_machine: machine "new_hub n name" hub_step hub_ok for n name
  by unfold_locales (simp_all add: hub_step_ok, simp add: hub_ok_def new_hub_def)

section \<open>The switch contract\<close>

text \<open>
  The abstract switch: a set of attached sessions and a partial map from addresses to sessions.
\<close>

definition switch_targets ::
  "session_id set \<Rightarrow> (mac \<Rightarrow> session_id option) \<Rightarrow> session_id \<Rightarrow> mac \<Rightarrow> session_id set" where
  "switch_targets clients tab s dst =
     (if is_broadcast dst \<or> is_multicast dst then clients - {s}
      else case tab dst of
          None \<Rightarrow> clients - {s}
        | Some t \<Rightarrow> if t \<in> clients then {t} - {s} else clients - {s})"

definition abs_clients :: "hub \<Rightarrow> session_id set" where
  "abs_clients h = dom (map_of (h_clients h))"

definition abs_table :: "hub \<Rightarrow> mac \<Rightarrow> session_id option" where
  "abs_table h m = map_option me_session (map_of (h_macs h) m)"

lemma flood_targets_set: "hub_ok h \<Longrightarrow> set (flood_targets s h) = abs_clients h - {s}"
  by (auto simp: flood_targets_def abs_clients_def hub_ok_def image_iff amap_in_set
      dest!: amap_in_set [THEN iffD1, rotated]) (metis amap_in_set snd_conv)+

lemma flood_targets_distinct: "hub_ok h \<Longrightarrow> distinct (flood_targets s h)"
proof -
  assume ok: "hub_ok h"
  have "hc_session c = t" if "(t, c) \<in> set (h_clients h)" for t c
    using ok that by (simp add: hub_ok_def amap_in_set)
  then have "map hc_session (map snd (h_clients h)) = map fst (h_clients h)" by auto
  moreover have "distinct (map fst (h_clients h))" using ok by (simp add: hub_ok_def amap_ok_def)
  ultimately show ?thesis unfolding flood_targets_def by (metis distinct_map_filter)
qed

text \<open>Learning binds the source address to the sending session, and nothing else changes.\<close>

lemma hub_learn_abs:
  "abs_table (hub_learn now s f h) = (abs_table h)(src_mac f \<mapsto> s)"
  by (rule ext) (auto simp: abs_table_def hub_learn_macs needs_update_def learn_entry_def split: option.splits)

text \<open>\<open>Forward\<close> refines the switch: learn, then deliver to the contract's targets, each once.\<close>

lemma hub_forward_refines:
  assumes "hub_ok h" and "12 \<le> length f" and "hub_forward now s f h = (ts, h')"
  shows "set ts = switch_targets (abs_clients h) ((abs_table h)(src_mac f \<mapsto> s)) s (dst_mac f)"
    and "distinct ts"
    and "abs_clients h' = abs_clients h" and "abs_table h' = (abs_table h)(src_mac f \<mapsto> s)"
proof -
  let ?h = "hub_learn now s f h"
  have ok: "hub_ok ?h" using hub_step_ok [OF assms(1), of "HubFrame now s f"] assms(2)
    by (simp add: hub_step_def hub_forward_def Let_def)
  have f: "ts = hub_targets s f ?h" "h' = ?h" using assms(2,3) by (auto simp: hub_forward_def Let_def)
  show "abs_clients h' = abs_clients h" "abs_table h' = (abs_table h)(src_mac f \<mapsto> s)"
    by (simp_all add: f(2) abs_clients_def hub_learn_abs)
  have cl: "abs_clients ?h = abs_clients h" by (simp add: abs_clients_def)
  have hc: "hc_session c = t" if "map_of (h_clients h) t = Some c" for t c
    using assms(1) that by (simp add: hub_ok_def)
  show "distinct ts" unfolding f(1) hub_targets_def
    using flood_targets_distinct [OF ok] by (auto split: option.split)
  show "set ts = switch_targets (abs_clients h) ((abs_table h)(src_mac f \<mapsto> s)) s (dst_mac f)"
    unfolding hub_learn_abs [of now s f h, symmetric] f(1)
    using flood_targets_set [OF ok, of s] hc cl
    by (auto simp: hub_targets_def switch_targets_def abs_table_def abs_clients_def split: option.splits)
qed

section \<open>What the contract gives\<close>

lemma switch_no_echo: "s \<notin> switch_targets clients tab s dst"
  by (auto simp: switch_targets_def split: option.split)

lemma switch_attached: "switch_targets clients tab s dst \<subseteq> clients"
  by (auto simp: switch_targets_def split: option.split)

text \<open>A station whose session is attached gets every unicast frame sent to it by another.\<close>

lemma switch_reaches:
  "tab dst = Some t \<Longrightarrow> t \<in> clients \<Longrightarrow> t \<noteq> s \<Longrightarrow> t \<in> switch_targets clients tab s dst"
  by (auto simp: switch_targets_def split: option.split)

lemma short_frame_ignored: "length f < 12 \<Longrightarrow> hub_forward now s f h = ([], h)"
  by (simp add: hub_forward_def)

text \<open>A reply goes to the session that was just heard, alone.\<close>

lemma reply_unicast:
  assumes "hub_ok h" and "12 \<le> length f" and "12 \<le> length g"
    and "dst_mac g = src_mac f" and "src_mac g \<noteq> src_mac f"
    and "\<not> is_multicast (src_mac f)" and "\<not> is_broadcast (src_mac f)"
    and "a \<in> abs_clients h" and "a \<noteq> b"
    and "hub_forward now a f h = (ts, h1)"
  shows "fst (hub_forward now' b g h1) = [a]"
proof -
  have ok: "hub_ok h1" using hub_step_ok [OF assms(1), of "HubFrame now a f"] assms(10)
    by (simp add: hub_step_def)
  note r1 = hub_forward_refines [OF assms(1,2,10)]
  obtain us h2 where g: "hub_forward now' b g h1 = (us, h2)" by fastforce
  note r2 = hub_forward_refines [OF ok assms(3) g]
  have "set us = {a}" unfolding r2(1) r1(3,4) assms(4)
    using assms by (auto simp: switch_targets_def)
  then have "us = [a]" using r2(2)
    by (metis distinct_singleton distinct_card card_1_singleton_iff length_0_conv length_Suc_conv
        list.set_intros(1) set_ConsD singletonD list.set(1) list.set(2) card.empty One_nat_def
        insert_not_empty card_insert_if finite.emptyI empty_iff)
  then show ?thesis using g by simp
qed

lemma flap_counted:
  assumes "map_of (h_macs h) (src_mac f) = Some e" and "12 \<le> length f"
  shows "h_flaps (snd (hub_forward now s f h)) = h_flaps h + (if me_session e = s then 0 else 1)"
  using assms by (auto simp: hub_forward_def hub_learn_def Let_def moved_def)

text \<open>After a frame, the sender's entry has at least a minute to live.\<close>

lemma forward_refreshes:
  assumes "12 \<le> length f"
  shows "\<exists>e. map_of (h_macs (snd (hub_forward now s f h))) (src_mac f) = Some e \<and>
             me_session e = s \<and> now + minute \<le> me_expires e"
proof (cases "needs_update now s (map_of (h_macs h) (src_mac f))")
  case True
  then show ?thesis using assms
    by (simp add: hub_forward_def Let_def hub_learn_macs learn_entry_def mac_table_ttl_def time_units)
next
  case False
  then show ?thesis using assms
    by (auto simp: hub_forward_def Let_def hub_learn_macs needs_update_def split: option.splits)
qed

lemma purge_exact:
  "hub_ok h \<Longrightarrow> map_of (h_macs (purge_mac_table now h)) m =
     (case map_of (h_macs h) m of None \<Rightarrow> None | Some e \<Rightarrow> if me_expires e < now then None else Some e)"
  by (simp add: purge_mac_table_def hub_ok_def map_of_mdrop)

text \<open>The snapshot lists exactly the entries a purge at the same instant would keep.\<close>

lemma snapshot_purge:
  "map (\<lambda>r. (mr_mac r, mr_session r)) (mac_table_snapshot now h) =
   map (\<lambda>(m, e). (m, me_session e)) (h_macs (purge_mac_table now h))"
  by (simp add: mac_table_snapshot_def purge_mac_table_def mdrop_def case_prod_beta)

lemma manager_get_add: "manager_get n (manager_add h m) = (if n = h_id h then Some h else manager_get n m)"
  by (simp add: manager_get_def manager_add_def)

end
