(* ===== verification/Auth.thy ===== *)
theory Auth
  imports GoNet
begin

text \<open>
  \<open>internal/auth/auth.go\<close> and the client's own \<open>wireHashHex\<close>: the password representation on the
  wire and the check against the stored hash. SHA-256 and bcrypt are parameters.
\<close>

definition hextable :: string where "hextable = ''0123456789abcdef''"

text \<open>\<open>hex.EncodeToString\<close>.\<close>

definition hex_encode :: "bytes \<Rightarrow> string" where
  "hex_encode b = concat (map (\<lambda>x. [hextable ! unat (drop_bit 4 x), hextable ! unat (x AND 0xf)]) b)"

definition wire_hash :: "(bytes \<Rightarrow> bytes) \<Rightarrow> string \<Rightarrow> string" where
  "wire_hash sha256 plain = hex_encode (sha256 (str_bytes plain))"

text \<open>\<open>bcrypt stored plain\<close> is \<open>CompareHashAndPassword\<close> returning no error.\<close>

definition check_password :: "(string \<Rightarrow> string \<Rightarrow> bool) \<Rightarrow> string \<Rightarrow> string \<Rightarrow> bool" where
  "check_password bcrypt plain stored = bcrypt stored plain"

text \<open>\<open>wireHashHex\<close> of \<open>vpnclient/client.go\<close>: two writes per byte into a 64-byte buffer.\<close>

fun hex_loop :: "nat \<Rightarrow> bytes \<Rightarrow> string \<Rightarrow> string" where
  "hex_loop i [] buf = buf"
| "hex_loop i (b # bs) buf =
     hex_loop (Suc i) bs
       (buf[i * 2 := hextable ! unat (drop_bit 4 b), i * 2 + 1 := hextable ! unat (b AND 0xf)])"

definition wire_hash_hex :: "(bytes \<Rightarrow> bytes) \<Rightarrow> string \<Rightarrow> string" where
  "wire_hash_hex sha256 password = hex_loop 0 (sha256 (str_bytes password)) (replicate 64 CHR 0x00)"

lemma length_hex_encode [simp]: "length (hex_encode b) = 2 * length b"
  by (induction b) (simp_all add: hex_encode_def)

lemma hex_loop_encode:
  "length buf = i * 2 + 2 * length bs \<Longrightarrow> hex_loop i bs buf = take (i * 2) buf @ hex_encode bs"
proof (induction bs arbitrary: i buf)
  case Nil
  then show ?case by (simp add: hex_encode_def)
next
  case (Cons b bs)
  let ?buf = "buf[i * 2 := hextable ! unat (drop_bit 4 b), i * 2 + 1 := hextable ! unat (b AND 0xf)]"
  have len: "i * 2 + 1 < length buf" using Cons.prems by simp
  have "take (Suc i * 2) ?buf = take (i * 2) buf @ [hextable ! unat (drop_bit 4 b), hextable ! unat (b AND 0xf)]"
    using len by (intro nth_equalityI) (auto simp: nth_append nth_list_update less_Suc_eq)
  then show ?case using Cons.prems Cons.IH [of ?buf "Suc i"] by (simp add: hex_encode_def)
qed

text \<open>The client's hand-written encoder and the library's agree on a SHA-256 sum.\<close>

lemma wire_hash_hex_eq: "length (sha256 (str_bytes p)) = 32 \<Longrightarrow> wire_hash_hex sha256 p = wire_hash sha256 p"
  by (simp add: wire_hash_hex_def wire_hash_def hex_loop_encode)

lemma hextable_inj: "i < 16 \<Longrightarrow> j < 16 \<Longrightarrow> hextable ! i = hextable ! j \<Longrightarrow> i = j"
proof -
  have "distinct hextable" "length hextable = 16" by (simp_all add: hextable_def)
  then show "i < 16 \<Longrightarrow> j < 16 \<Longrightarrow> hextable ! i = hextable ! j \<Longrightarrow> i = j"
    by (simp add: nth_eq_iff_index_eq)
qed

lemma nibbles: "b = push_bit 4 (drop_bit 4 b) + (b AND 0xf)" for b :: byte
proof -
  have "b AND 0xf = take_bit 4 b" by (simp add: take_bit_eq_mask mask_eq_exp_minus_1)
  then show ?thesis by (simp only: bits_ident)
qed

lemma unat_nibble: "unat (drop_bit 4 b) < 16" "unat (b AND 0xf) < 16" for b :: byte
proof -
  have "unat (drop_bit 4 b) = unat b div 16" unfolding unat_drop_bit_eq by (simp add: drop_bit_eq_div)
  then show "unat (drop_bit 4 b) < 16" using unat_u8_lt [of b] by (simp add: less_mult_imp_div_less)
  have "b AND 0xf = take_bit 4 b" by (simp add: take_bit_eq_mask mask_eq_exp_minus_1)
  then have "unat (b AND 0xf) = take_bit 4 (unat b)" by (simp only: unsigned_take_bit_eq)
  then show "unat (b AND 0xf) < 16" by (simp add: take_bit_eq_mod)
qed

text \<open>Different sums have different wire forms.\<close>

lemma hex_encode_inj: "hex_encode a = hex_encode b \<Longrightarrow> a = b"
proof (induction a arbitrary: b)
  case Nil
  then show ?case by (cases b) (simp_all add: hex_encode_def)
next
  case (Cons x a)
  then obtain y b' where b: "b = y # b'" by (cases b) (simp_all add: hex_encode_def)
  then have eq: "hextable ! unat (drop_bit 4 x) = hextable ! unat (drop_bit 4 y)"
      "hextable ! unat (x AND 0xf) = hextable ! unat (y AND 0xf)" "hex_encode a = hex_encode b'"
    using Cons.prems by (simp_all add: hex_encode_def)
  have "drop_bit 4 x = drop_bit 4 y" "x AND 0xf = y AND 0xf"
    using hextable_inj [OF unat_nibble(1) unat_nibble(1) eq(1)]
      hextable_inj [OF unat_nibble(2) unat_nibble(2) eq(2)] by (simp_all only: word_unat_eq_iff)
  then have "x = y" using nibbles [of x] nibbles [of y] by simp
  then show ?case using Cons.IH [OF eq(3)] b by simp
qed

end
