(* ===== verification/Config.thy ===== *)
theory Config
  imports GoNet
begin

text \<open>
  \<open>internal/config/config.go\<close>: the configuration records, the defaults, validation, the server's
  port layout and the migration of stale client configurations. The TOML decoder is an input: its
  result, or \<open>None\<close> for an error.
\<close>

section \<open>Records\<close>

definition DefaultRealitySNI :: string where "DefaultRealitySNI = ''www.gstatic.com''"
definition DefaultTLSSNI :: string where "DefaultTLSSNI = ''www.googleapis.com''"
definition DefaultBridgeMSSClamp :: int where "DefaultBridgeMSSClamp = 1300"

record reality_server_config =
  rs_listen :: string
  rs_dest :: string
  rs_names :: "string list"
  rs_private_key :: string
  rs_private_keys :: "string list"
  rs_short_ids :: "string list"
  rs_time_window :: int
  rs_disable :: bool

record user_config =
  uc_login :: string
  uc_hash :: string

record hub_config =
  hcfg_id :: "16 word"
  hcfg_name :: string
  hcfg_users :: "user_config list"

record fec_config =
  fc_k :: int
  fc_r :: int
  fc_delay :: int

record tls_server_config =
  ts_cert :: string
  ts_key :: string

record server_config =
  sc_listen :: string
  sc_listen_tcp :: string
  sc_status_listen :: string
  sc_update_listen :: string
  sc_update_dir :: string
  sc_hubs :: "hub_config list"
  sc_fec :: fec_config
  sc_tls :: tls_server_config
  sc_reality :: reality_server_config

record udp_config =
  ud_knock_count :: int
  ud_knock_size :: int
  ud_attempts :: int

record bridge_config =
  br_tap :: string
  br_nic :: string
  br_setup :: string
  br_mss_clamp :: int

record reality_client_config =
  rcl_addr :: string
  rcl_sni :: string
  rcl_public_key :: string
  rcl_short_id :: string
  rcl_fingerprint :: string

record client_config =
  cc_server :: string
  cc_server_tcp :: string
  cc_status_listen :: string
  cc_hub_id :: "16 word"
  cc_login :: string
  cc_password :: string
  cc_transport :: string
  cc_mode :: string
  cc_tun_name :: string
  cc_tun_ip :: string
  cc_fec :: fec_config
  cc_tls_sni :: string
  cc_tls_skip :: bool
  cc_udp :: udp_config
  cc_bridge :: bridge_config
  cc_reality :: reality_client_config
  cc_mirrors :: "string list"
  cc_timeout :: string
  cc_minimize :: bool
  cc_auto_connect :: bool
  cc_start_windows :: bool
  cc_no_battery :: bool

section \<open>Defaults\<close>

definition reality_server_defaults :: "reality_server_config \<Rightarrow> reality_server_config" where
  "reality_server_defaults r =
     r\<lparr>rs_listen := (if rs_listen r = '''' then ''0.0.0.0:443'' else rs_listen r),
       rs_dest := (if rs_dest r = '''' then DefaultRealitySNI @ '':443'' else rs_dest r),
       rs_names := (if rs_names r = [] then [DefaultRealitySNI] else rs_names r),
       rs_time_window := (if rs_time_window r = 0 then 90 else rs_time_window r)\<rparr>"

definition fec_defaults :: "fec_config \<Rightarrow> fec_config" where
  "fec_defaults f =
     f\<lparr>fc_k := (if fc_k f = 0 then 4 else fc_k f), fc_r := (if fc_r f = 0 then 2 else fc_r f),
       fc_delay := (if fc_delay f = 0 then 50 else fc_delay f)\<rparr>"

definition repair_delay_duration :: "fec_config \<Rightarrow> time" where
  "repair_delay_duration f = fc_delay f * millisecond"

definition udp_defaults :: "udp_config \<Rightarrow> udp_config" where
  "udp_defaults u =
     u\<lparr>ud_knock_count := (if ud_knock_count u = 0 then 3 else ud_knock_count u),
       ud_knock_size := (if ud_knock_size u = 0 then 16 else ud_knock_size u),
       ud_attempts := (if ud_attempts u = 0 then 3 else ud_attempts u)\<rparr>"

definition bridge_defaults :: "bridge_config \<Rightarrow> bridge_config" where
  "bridge_defaults b =
     b\<lparr>br_tap := (if br_tap b = '''' then ''supervpn-tap'' else br_tap b),
       br_setup := (if br_setup b = '''' then ''netbridge'' else br_setup b),
       br_mss_clamp := (if br_mss_clamp b = 0 then DefaultBridgeMSSClamp else br_mss_clamp b)\<rparr>"

definition reality_client_defaults :: "reality_client_config \<Rightarrow> reality_client_config" where
  "reality_client_defaults r =
     r\<lparr>rcl_fingerprint := (if rcl_fingerprint r = '''' then ''chrome'' else rcl_fingerprint r),
       rcl_sni := (if rcl_sni r = '''' then DefaultRealitySNI else rcl_sni r)\<rparr>"

section \<open>Validation and loading\<close>

datatype config_error =
  DecodeFailed | ListenRequired | HubUnnamed "16 word" | ServerRequired | CredentialsRequired

definition validate_server :: "server_config \<Rightarrow> config_error option" where
  "validate_server s =
     (if sc_listen s = '''' then Some ListenRequired
      else map_option (\<lambda>h. HubUnnamed (hcfg_id h)) (find (\<lambda>h. hcfg_name h = '''') (sc_hubs s)))"

definition validate_client :: "client_config \<Rightarrow> config_error option" where
  "validate_client c =
     (if cc_server c = '''' then Some ServerRequired
      else if cc_login c = '''' \<or> cc_password c = '''' then Some CredentialsRequired
      else None)"

text \<open>The port layout: Reality owns its port, plain TLS moves to 8443.\<close>

definition layout_ports :: "server_config \<Rightarrow> server_config" where
  "layout_ports c =
     (let tcp = (if sc_listen_tcp c = '''' then ''0.0.0.0:8443'' else sc_listen_tcp c)
      in c\<lparr>sc_listen_tcp :=
             (if \<not> rs_disable (sc_reality c) \<and> same_port tcp (rs_listen (sc_reality c))
              then ''0.0.0.0:8443'' else tcp)\<rparr>)"

definition load_server_config :: "server_config option \<Rightarrow> server_config option \<times> config_error option" where
  "load_server_config decoded =
     (case decoded of
        None \<Rightarrow> (None, Some DecodeFailed)
      | Some c \<Rightarrow>
          let c' = layout_ports (c\<lparr>sc_fec := fec_defaults (sc_fec c),
                     sc_reality := reality_server_defaults (sc_reality c)\<rparr>)
          in (Some c', validate_server c'))"

definition migrate_client_config :: "client_config \<Rightarrow> bool \<times> client_config" where
  "migrate_client_config c =
     (case remap_port (cc_server_tcp c) ''443'' ''8443'' of (tcp, ch1) \<Rightarrow>
        case remap_port (rcl_addr (cc_reality c)) ''8443'' ''443'' of (addr, ch2) \<Rightarrow>
          (ch1 \<or> ch2, c\<lparr>cc_server_tcp := tcp, cc_reality := (cc_reality c)\<lparr>rcl_addr := addr\<rparr>\<rparr>))"

definition parse_client_config :: "client_config option \<Rightarrow> client_config option" where
  "parse_client_config decoded =
     map_option (\<lambda>c. snd (migrate_client_config (c\<lparr>cc_fec := fec_defaults (cc_fec c),
        cc_udp := udp_defaults (cc_udp c), cc_bridge := bridge_defaults (cc_bridge c),
        cc_reality := reality_client_defaults (cc_reality c)\<rparr>))) decoded"

definition load_client_config :: "client_config option \<Rightarrow> client_config option \<times> config_error option" where
  "load_client_config decoded =
     (case parse_client_config decoded of
        None \<Rightarrow> (None, Some DecodeFailed) | Some c \<Rightarrow> (Some c, validate_client c))"

definition default_server_config_path :: "string \<Rightarrow> string" where
  "default_server_config_path env = (if env \<noteq> '''' then env else ''/etc/supervpn/server.toml'')"

section \<open>Properties\<close>

lemma defaults_idem:
  "reality_server_defaults (reality_server_defaults r) = reality_server_defaults r"
  "fec_defaults (fec_defaults f) = fec_defaults f" "udp_defaults (udp_defaults u) = udp_defaults u"
  "bridge_defaults (bridge_defaults b) = bridge_defaults b"
  "reality_client_defaults (reality_client_defaults q) = reality_client_defaults q"
  by (simp_all add: reality_server_defaults_def fec_defaults_def udp_defaults_def bridge_defaults_def
      reality_client_defaults_def DefaultRealitySNI_def DefaultBridgeMSSClamp_def)

lemma layout_ports_frame [simp]:
  "sc_listen (layout_ports c) = sc_listen c" "sc_hubs (layout_ports c) = sc_hubs c"
  "sc_fec (layout_ports c) = sc_fec c" "sc_reality (layout_ports c) = sc_reality c"
  by (simp_all add: layout_ports_def Let_def)

lemma validate_server_None:
  "validate_server s = None \<longleftrightarrow> sc_listen s \<noteq> '''' \<and> (\<forall>h \<in> set (sc_hubs s). hcfg_name h \<noteq> '''')"
  by (auto simp: validate_server_def find_None_iff)

lemma load_server_config_valid:
  assumes "load_server_config decoded = (Some c, None)"
  shows "sc_listen c \<noteq> '''' \<and> (\<forall>h \<in> set (sc_hubs c). hcfg_name h \<noteq> '''') \<and>
         fc_k (sc_fec c) \<noteq> 0 \<and> fc_r (sc_fec c) \<noteq> 0 \<and> rs_time_window (sc_reality c) \<noteq> 0 \<and>
         rs_names (sc_reality c) \<noteq> []"
proof -
  obtain d where d: "decoded = Some d" using assms by (cases decoded) (simp_all add: load_server_config_def)
  let ?d = "d\<lparr>sc_fec := fec_defaults (sc_fec d), sc_reality := reality_server_defaults (sc_reality d)\<rparr>"
  have c: "c = layout_ports ?d" "validate_server c = None"
    using assms d by (auto simp: load_server_config_def Let_def)
  show ?thesis using c(2) unfolding validate_server_None
    by (simp add: c(1) fec_defaults_def reality_server_defaults_def)
qed

text \<open>The layout separates the two listeners, unless Reality itself is configured on port 8443.\<close>

lemma same_port_8443: "same_port ''0.0.0.0:8443'' b \<longleftrightarrow> (\<exists>h. split_host_port b = Inr (h, ''8443''))"
proof -
  have "split_host_port ''0.0.0.0:8443'' = Inr (''0.0.0.0'', ''8443'')" by code_simp
  then show ?thesis by (auto simp: same_port_def split: sum.split)
qed

lemma layout_ports_separate:
  assumes "\<not> rs_disable (sc_reality c)" and "\<nexists>h. split_host_port (rs_listen (sc_reality c)) = Inr (h, ''8443'')"
  shows "\<not> same_port (sc_listen_tcp (layout_ports c)) (rs_listen (sc_reality (layout_ports c)))"
  using assms same_port_8443 by (simp add: layout_ports_def Let_def)

lemma layout_ports_collision:
  assumes "\<not> rs_disable (sc_reality c)" and "rs_listen (sc_reality c) = ''0.0.0.0:8443''"
    and "sc_listen_tcp c = ''''"
  shows "same_port (sc_listen_tcp (layout_ports c)) (rs_listen (sc_reality (layout_ports c)))"
proof -
  have "split_host_port ''0.0.0.0:8443'' = Inr (''0.0.0.0'', ''8443'')" by code_simp
  then show ?thesis using assms same_port_8443 by (simp add: layout_ports_def Let_def)
qed

text \<open>Migration settles in one pass.\<close>

lemma migrate_idem:
  "migrate_client_config (snd (migrate_client_config c)) = (False, snd (migrate_client_config c))"
proof -
  have a: "remap_port (fst (remap_port x ''443'' ''8443'')) ''443'' ''8443'' = (fst (remap_port x ''443'' ''8443''), False)" for x
    by (rule remap_port_idem) (simp_all add: plain_port_def)
  have b: "remap_port (fst (remap_port x ''8443'' ''443'')) ''8443'' ''443'' = (fst (remap_port x ''8443'' ''443''), False)" for x
    by (rule remap_port_idem) (simp_all add: plain_port_def)
  show ?thesis by (simp add: migrate_client_config_def case_prod_beta a b)
qed

end
