(* ===== verification/Update.thy ===== *)
theory Update
  imports Proto Config
begin

text \<open>
  Self-update: \<open>internal/update/update.go\<close> and \<open>inband.go\<close> (the client side) and the mirror of
  \<open>cmd/supervpn-server/main.go\<close> (\<open>updateDir\<close>, \<open>handleUpdateGet\<close>, \<open>handleUpdateAsset\<close>, \<open>mirrorURL\<close>,
  \<open>checkUpdateAssets\<close>). The file system is an association map from paths to contents with the
  outcomes of its operations as a parameter; an HTTP server is a function from URLs to replies.
\<close>

section \<open>Paths\<close>

text \<open>\<open>filepath.Clean\<close>, \<open>Join\<close> and \<open>Dir\<close> with the separator of Unix.\<close>

fun clean_step :: "bool \<Rightarrow> string list \<Rightarrow> string \<Rightarrow> string list" where
  "clean_step rooted stack p =
     (if p = '''' \<or> p = ''.'' then stack
      else if p = ''..'' then
        (if stack \<noteq> [] \<and> last stack \<noteq> ''..'' then butlast stack
         else if rooted then stack else stack @ [p])
      else stack @ [p])"

definition path_clean :: "string \<Rightarrow> string" where
  "path_clean s =
     (let rooted = (take 1 s = ''/'');
          out = (if rooted then ''/'' else '''') @
            join_with (CHR ''/'') (foldl (clean_step rooted) [] (split_at (CHR ''/'') s))
      in if out = '''' then ''.'' else out)"

definition path_join :: "string list \<Rightarrow> string" where
  "path_join ps = (case filter (\<lambda>p. p \<noteq> '''') ps of [] \<Rightarrow> '''' | qs \<Rightarrow> path_clean (join_with (CHR ''/'') qs))"

definition path_dir :: "string \<Rightarrow> string" where
  "path_dir s = path_clean (case last_index_byte (CHR ''/'') s of None \<Rightarrow> '''' | Some i \<Rightarrow> take (Suc i) s)"

section \<open>The file system\<close>

type_synonym fs = "(string, bytes) amap"

record fs_ops =
  op_create :: "string \<Rightarrow> bool"
  op_write :: "string \<Rightarrow> bool"
  op_close :: "string \<Rightarrow> bool"
  op_read :: "string \<Rightarrow> bool"
  op_rename :: "string \<Rightarrow> string \<Rightarrow> bool"
  op_remove :: "string \<Rightarrow> bool"

definition fs_remove :: "fs_ops \<Rightarrow> string \<Rightarrow> fs \<Rightarrow> fs" where
  "fs_remove ops p fs = (if op_remove ops p then mdel p fs else fs)"

definition fs_rename :: "fs_ops \<Rightarrow> string \<Rightarrow> string \<Rightarrow> fs \<Rightarrow> fs option" where
  "fs_rename ops a b fs =
     (case map_of fs a of
        Some d \<Rightarrow> if op_rename ops a b then Some (mput b d (mdel a fs)) else None
      | None \<Rightarrow> None)"

definition fs_read :: "fs_ops \<Rightarrow> string \<Rightarrow> fs \<Rightarrow> bytes option" where
  "fs_read ops p fs = (if op_read ops p then map_of fs p else None)"

section \<open>Replacing a binary\<close>

datatype inband_error = NoPool | DialFailed | SendFailed | RecvFailed | AssetTooLarge | PeerRefused bytes

datatype update_error =
    CreateFailed | WriteFailed | CloseFailed | BinaryUnchanged | RenameOldFailed | RenameNewFailed
  | HttpFailed | HttpStatus nat | NoPeers | InBand inband_error

definition files_bytes_equal :: "fs_ops \<Rightarrow> string \<Rightarrow> string \<Rightarrow> fs \<Rightarrow> bool" where
  "files_bytes_equal ops a b fs =
     (case fs_read ops a fs of
        None \<Rightarrow> False
      | Some x \<Rightarrow> (case fs_read ops b fs of None \<Rightarrow> False | Some y \<Rightarrow> x = y))"

text \<open>\<open>applyBinary\<close>: the reader is what it yields and whether it ends without an error.\<close>

definition apply_binary :: "fs_ops \<Rightarrow> bool \<Rightarrow> bytes \<times> bool \<Rightarrow> string \<Rightarrow> fs \<Rightarrow> update_error option \<times> fs" where
  "apply_binary ops windows src exe fs =
     (let tmp = exe @ ''.new''; fs1 = mput tmp (fst src) fs in
      if \<not> op_create ops tmp then (Some CreateFailed, fs)
      else if \<not> snd src \<or> \<not> op_write ops tmp then (Some WriteFailed, fs_remove ops tmp fs1)
      else if \<not> op_close ops tmp then (Some CloseFailed, fs_remove ops tmp fs1)
      else if files_bytes_equal ops exe tmp fs1 then (Some BinaryUnchanged, fs_remove ops tmp fs1)
      else
        let old = exe @ ''.old'';
            moved = (if windows then fs_rename ops exe old (fs_remove ops old fs1) else Some fs1)
        in case moved of
             None \<Rightarrow> (Some RenameOldFailed, fs_remove ops tmp (fs_remove ops old fs1))
           | Some fs2 \<Rightarrow>
               (case fs_rename ops tmp exe fs2 of
                  None \<Rightarrow> (Some RenameNewFailed, fs2)
                | Some fs3 \<Rightarrow> (None, fs3)))"

datatype http_reply = HttpFail | HttpReply nat bytes bool

type_synonym http = "string \<Rightarrow> http_reply"

definition download_and_replace :: "http \<Rightarrow> fs_ops \<Rightarrow> bool \<Rightarrow> string \<Rightarrow> string \<Rightarrow> fs \<Rightarrow> update_error option \<times> fs" where
  "download_and_replace get ops windows url exe fs =
     (case get url of
        HttpFail \<Rightarrow> (Some HttpFailed, fs)
      | HttpReply code body complete \<Rightarrow>
          if code \<noteq> 200 then (Some (HttpStatus code), fs)
          else apply_binary ops windows (body, complete) exe fs)"

lemma append_neq_self [simp]: "s @ x # t \<noteq> s" "s \<noteq> s @ x # t"
  by simp_all

lemma apply_binary_unix:
  assumes "apply_binary ops False src exe fs = (r, fs')"
  shows "map_of fs' exe = (if r = None then Some (fst src) else map_of fs exe) \<and>
    (r = None \<longrightarrow> snd src)"
proof -
  have rm: "map_of (fs_remove ops (exe @ ''.new'') f) exe = map_of f exe" for f
    by (simp add: fs_remove_def)
  show ?thesis
    using assms by (auto simp: apply_binary_def Let_def rm fs_rename_def split: if_splits option.splits)
qed

lemma apply_binary_other:
  assumes "apply_binary ops w src exe fs = (r, fs')" "p \<noteq> exe" "p \<noteq> exe @ ''.new''" "p \<noteq> exe @ ''.old''"
  shows "map_of fs' p = map_of fs p"
  using assms by (auto simp: apply_binary_def Let_def fs_remove_def fs_rename_def split: if_splits option.splits)

text \<open>On success the temporary file is gone, and on Windows the previous binary is kept as \<open>.old\<close>.\<close>

lemma apply_binary_windows:
  assumes "apply_binary ops True src exe fs = (None, fs')"
  shows "map_of fs' exe = Some (fst src) \<and> map_of fs' (exe @ ''.old'') = map_of fs exe \<and>
    map_of fs' (exe @ ''.new'') = None"
  using assms
  by (auto simp: apply_binary_def Let_def fs_remove_def fs_rename_def split: if_splits option.splits)

text \<open>A failing last rename on Windows leaves no executable at all.\<close>

lemma apply_binary_windows_lost:
  assumes "apply_binary ops True src exe fs = (Some RenameNewFailed, fs')"
  shows "map_of fs' exe = None"
  using assms
  by (auto simp: apply_binary_def Let_def fs_remove_def fs_rename_def split: if_splits option.splits)

section \<open>The in-band channel\<close>

definition maxInBandAsset :: nat where "maxInBandAsset = 64 * 1024 * 1024"

text \<open>\<open>processUpdateFrame\<close>: the new buffer and whether the stream is done.\<close>

definition process_update_frame :: "bytes \<Rightarrow> bytes \<Rightarrow> (inband_error + bool) \<times> bytes" where
  "process_update_frame frame out =
     (case split_packet frame of
        None \<Rightarrow> (Inr False, out)
      | Some (h, body) \<Rightarrow>
          if hdr_type h \<noteq> FrameUpdateData then (Inr False, out)
          else (case body of
              [] \<Rightarrow> (Inr False, out)
            | status # data \<Rightarrow>
                if status = UpdateChunk then
                  (if maxInBandAsset < length out + length data then (Inl AssetTooLarge, out)
                   else (Inr False, out @ data))
                else if status = UpdateEOF then (Inr True, out)
                else if status = UpdateErr then (Inl (PeerRefused data), out)
                else (Inr False, out)))"

text \<open>The receive loop; the end of the list is a receive error.\<close>

fun fetch_loop :: "bytes list \<Rightarrow> bytes \<Rightarrow> inband_error + bytes" where
  "fetch_loop [] out = Inl RecvFailed"
| "fetch_loop (f # fs) out =
     (case process_update_frame f out of
        (Inl e, _) \<Rightarrow> Inl e
      | (Inr done, out') \<Rightarrow> if done then Inr out' else fetch_loop fs out')"

text \<open>
  A peer is what a Reality connection to an address gives for one request: a dial or send error, or
  the frames received until the connection ends.
\<close>

type_synonym peer = "string \<Rightarrow> bytes \<Rightarrow> inband_error + bytes list"

definition update_request :: "string \<Rightarrow> bytes" where
  "update_request asset =
     mk_packet \<lparr>hdr_type = FrameUpdateGet, hdr_hub = 0, hdr_session = 0, hdr_seq = 0\<rparr> (str_bytes asset)"

definition fetch_in_band :: "string \<Rightarrow> peer \<Rightarrow> string \<Rightarrow> string \<Rightarrow> inband_error + bytes" where
  "fetch_in_band pub peer ip asset =
     (if pub = '''' then Inl NoPool
      else case peer (ip @ '':443'') (update_request asset) of
          Inl e \<Rightarrow> Inl e
        | Inr frames \<Rightarrow> fetch_loop frames [])"

text \<open>The peers in the shuffled order, each with the pool key drawn for it.\<close>

fun latest_tag_in_band :: "peer \<Rightarrow> (string \<times> string) list \<Rightarrow> string option" where
  "latest_tag_in_band peer [] = None"
| "latest_tag_in_band peer ((ip, pub) # ps) =
     (case fetch_in_band pub peer ip ''version'' of
        Inl _ \<Rightarrow> latest_tag_in_band peer ps
      | Inr d \<Rightarrow> let tag = trim_space (bytes_str d) in
          if tag \<noteq> '''' then Some tag else latest_tag_in_band peer ps)"

fun download_in_band ::
  "peer \<Rightarrow> fs_ops \<Rightarrow> bool \<Rightarrow> string \<Rightarrow> string \<Rightarrow> (string \<times> string) list \<Rightarrow> update_error \<Rightarrow> fs \<Rightarrow>
     update_error option \<times> fs"
where
  "download_in_band peer ops windows asset exe [] lastErr fs = (Some lastErr, fs)"
| "download_in_band peer ops windows asset exe ((ip, pub) # ps) lastErr fs =
     (case fetch_in_band pub peer ip asset of
        Inl e \<Rightarrow> download_in_band peer ops windows asset exe ps (InBand e) fs
      | Inr d \<Rightarrow>
          (case apply_binary ops windows (d, True) exe fs of
             (None, fs') \<Rightarrow> (None, fs')
           | (Some e, fs') \<Rightarrow>
               if e = BinaryUnchanged then (Some BinaryUnchanged, fs')
               else download_in_band peer ops windows asset exe ps e fs'))"

section \<open>The update check\<close>

definition githubDLBase :: string where
  "githubDLBase = ''https://github.com/atlanteg/supervpn-releases/releases/download/''"

definition known_server_ips :: "string list" where
  "known_server_ips = [''81.27.241.25'', ''185.108.16.16'', ''212.48.224.5'', ''162.55.48.218'', ''49.13.4.85'']"

definition mirror_ports :: "string list" where "mirror_ports = [''993'']"

text \<open>\<open>DefaultMirrors\<close> before the shuffle.\<close>

definition default_mirrors :: "string list" where
  "default_mirrors = concat (map (\<lambda>ip. map (\<lambda>port. ''http://'' @ ip @ '':'' @ port @ ''/update'') mirror_ports)
     known_server_ips)"

definition parse_version :: "string \<Rightarrow> int option" where
  "parse_version v = atoi (trim_prefix v ''b'')"

definition latest_tag_url :: "http \<Rightarrow> string \<Rightarrow> string option" where
  "latest_tag_url get url =
     (case get url of
        HttpFail \<Rightarrow> None
      | HttpReply code body complete \<Rightarrow>
          if code \<noteq> 200 \<or> (\<not> complete \<and> length body < 32) then None
          else let tag = trim_space (bytes_str (take 32 body)) in if tag = '''' then None else Some tag)"

definition mirror_url_of :: "string \<Rightarrow> string \<Rightarrow> string" where
  "mirror_url_of m name = trim_right {CHR ''/''} m @ ''/'' @ name"

fun tag_from_mirrors :: "http \<Rightarrow> string list \<Rightarrow> (string \<times> string) option" where
  "tag_from_mirrors get [] = None"
| "tag_from_mirrors get (m # ms) =
     (case latest_tag_url get (mirror_url_of m ''version'') of
        Some t \<Rightarrow> Some (t, m)
      | None \<Rightarrow> tag_from_mirrors get ms)"

text \<open>\<open>github\<close> is the decoded \<open>tag_name\<close>, or \<open>None\<close> for a request or decoding error.\<close>

definition latest_tag_github :: "string option \<Rightarrow> string option" where
  "latest_tag_github github = (case github of None \<Rightarrow> None | Some t \<Rightarrow> if t = '''' then None else Some t)"

definition resolve_latest_tag ::
  "string option \<Rightarrow> http \<Rightarrow> string list \<Rightarrow> peer \<Rightarrow> (string \<times> string) list \<Rightarrow> (string \<times> string) option"
where
  "resolve_latest_tag github get mirrors peer peers =
     (case latest_tag_github github of
        Some t \<Rightarrow> Some (t, ''github'')
      | None \<Rightarrow>
          (case tag_from_mirrors get mirrors of
             Some r \<Rightarrow> Some r
           | None \<Rightarrow> map_option (\<lambda>t. (t, ''reality'')) (latest_tag_in_band peer peers)))"

fun try_sources ::
  "http \<Rightarrow> fs_ops \<Rightarrow> bool \<Rightarrow> string \<Rightarrow> string list \<Rightarrow> update_error option \<Rightarrow> fs \<Rightarrow>
     (update_error option, update_error option) sum \<times> fs"
where
  "try_sources get ops windows exe [] lastErr fs = (Inr lastErr, fs)"
| "try_sources get ops windows exe (u # us) lastErr fs =
     (case download_and_replace get ops windows u exe fs of
        (None, fs') \<Rightarrow> (Inl None, fs')
      | (Some e, fs') \<Rightarrow>
          if e = BinaryUnchanged then (Inl (Some BinaryUnchanged), fs')
          else try_sources get ops windows exe us (Some e) fs')"

definition update_sources :: "string \<Rightarrow> string \<Rightarrow> string list \<Rightarrow> string list" where
  "update_sources tag asset mirrors = (githubDLBase @ tag @ ''/'' @ asset) # map (\<lambda>m. mirror_url_of m asset) mirrors"

definition download_with_fallback ::
  "http \<Rightarrow> peer \<Rightarrow> (string \<times> string) list \<Rightarrow> fs_ops \<Rightarrow> bool \<Rightarrow> string \<Rightarrow> string \<Rightarrow> string \<Rightarrow> string list \<Rightarrow> fs \<Rightarrow>
     update_error option \<times> fs"
where
  "download_with_fallback get peer peers ops windows tag asset exe mirrors fs =
     (case try_sources get ops windows exe (update_sources tag asset mirrors) None fs of
        (Inl r, fs1) \<Rightarrow> (r, fs1)
      | (Inr lastErr, fs1) \<Rightarrow>
          (case download_in_band peer ops windows asset exe peers NoPeers fs1 of
             (None, fs2) \<Rightarrow> (None, fs2)
           | (Some e, fs2) \<Rightarrow>
               if e = BinaryUnchanged then (Some BinaryUnchanged, fs2)
               else (Some (case lastErr of None \<Rightarrow> e | Some l \<Rightarrow> l), fs2)))"

datatype update_outcome =
    DevBuild | CheckFailed | BadTag | UpToDate | NoExecutable | AlreadyIdentical
  | DownloadFailed update_error | Restarted string

definition check_and_update ::
  "string option \<Rightarrow> http \<Rightarrow> peer \<Rightarrow> (string \<times> string) list \<Rightarrow> fs_ops \<Rightarrow> bool \<Rightarrow> string option \<Rightarrow>
     string \<Rightarrow> string \<Rightarrow> string list \<Rightarrow> fs \<Rightarrow> update_outcome \<times> fs"
where
  "check_and_update github get peer peers ops windows exe current asset mirrors fs =
     (case parse_version current of
        None \<Rightarrow> (DevBuild, fs)
      | Some cur \<Rightarrow>
          (case resolve_latest_tag github get mirrors peer peers of
             None \<Rightarrow> (CheckFailed, fs)
           | Some (tag, src) \<Rightarrow>
               (case parse_version tag of
                  None \<Rightarrow> (BadTag, fs)
                | Some latest \<Rightarrow>
                    if latest \<le> cur then (UpToDate, fs)
                    else (case exe of
                        None \<Rightarrow> (NoExecutable, fs)
                      | Some e \<Rightarrow>
                          (case download_with_fallback get peer peers ops windows tag asset e mirrors fs of
                             (None, fs') \<Rightarrow> (Restarted tag, fs')
                           | (Some err, fs') \<Rightarrow>
                               (if err = BinaryUnchanged then AlreadyIdentical else DownloadFailed err, fs'))))))"

section \<open>What an update can do\<close>

text \<open>Every content a source may hand over.\<close>

definition offered :: "http \<Rightarrow> peer \<Rightarrow> (string \<times> string) list \<Rightarrow> string \<Rightarrow> string list \<Rightarrow> bytes set" where
  "offered get peer peers asset urls =
     {body. \<exists>u \<in> set urls. get u = HttpReply 200 body True} \<union>
     {d. \<exists>(ip, pub) \<in> set peers. fetch_in_band pub peer ip asset = Inr d}"

lemma download_and_replace_unix:
  assumes "download_and_replace get ops False url exe fs = (r, fs')"
  shows "case r of None \<Rightarrow> \<exists>body. get url = HttpReply 200 body True \<and> map_of fs' exe = Some body
    | Some e \<Rightarrow> map_of fs' exe = map_of fs exe"
  using assms by (auto simp: download_and_replace_def split: http_reply.splits if_splits option.splits
      dest!: apply_binary_unix)

lemma try_sources_unix:
  "try_sources get ops False exe us lastErr fs = (r, fs') \<Longrightarrow>
     (case r of Inl None \<Rightarrow> \<exists>u \<in> set us. \<exists>body. get u = HttpReply 200 body True \<and> map_of fs' exe = Some body
      | _ \<Rightarrow> map_of fs' exe = map_of fs exe)"
proof (induction us arbitrary: lastErr fs)
  case (Cons u us)
  obtain r1 fs1 where d: "download_and_replace get ops False u exe fs = (r1, fs1)" by fastforce
  show ?case
  proof (cases r1)
    case None
    then show ?thesis using Cons.prems d download_and_replace_unix [OF d] by auto
  next
    case (Some e)
    have keep: "map_of fs1 exe = map_of fs exe" using download_and_replace_unix [OF d] Some by simp
    show ?thesis
    proof (cases "e = BinaryUnchanged")
      case True
      then show ?thesis using Cons.prems d Some keep by auto
    next
      case False
      then have "try_sources get ops False exe us (Some e) fs1 = (r, fs')" using Cons.prems d Some by simp
      from Cons.IH [OF this] keep show ?thesis by (auto split: sum.splits option.splits)
    qed
  qed
qed auto

lemma download_in_band_unix:
  "download_in_band peer ops False asset exe ps lastErr fs = (r, fs') \<Longrightarrow>
     (case r of None \<Rightarrow> \<exists>(ip, pub) \<in> set ps. \<exists>d. fetch_in_band pub peer ip asset = Inr d \<and> map_of fs' exe = Some d
      | Some _ \<Rightarrow> map_of fs' exe = map_of fs exe)"
proof (induction ps arbitrary: lastErr fs)
  case (Cons q ps)
  obtain ip pub where q: "q = (ip, pub)" by fastforce
  show ?case
  proof (cases "fetch_in_band pub peer ip asset")
    case (Inl e)
    then have "download_in_band peer ops False asset exe ps (InBand e) fs = (r, fs')"
      using Cons.prems q by simp
    from Cons.IH [OF this] show ?thesis by (auto split: option.splits)
  next
    case (Inr d)
    obtain r1 fs1 where a: "apply_binary ops False (d, True) exe fs = (r1, fs1)" by fastforce
    from apply_binary_unix [OF a]
    have keep: "map_of fs1 exe = (if r1 = None then Some d else map_of fs exe)" by simp
    show ?thesis
    proof (cases "r1 = None \<or> r1 = Some BinaryUnchanged")
      case True
      then show ?thesis using Cons.prems q Inr a keep by auto
    next
      case False
      then obtain e where e: "r1 = Some e" "e \<noteq> BinaryUnchanged" by auto
      then have "download_in_band peer ops False asset exe ps e fs1 = (r, fs')"
        using Cons.prems q Inr a by simp
      from Cons.IH [OF this] keep e show ?thesis by (auto split: option.splits)
    qed
  qed
qed auto

lemma download_with_fallback_unix:
  assumes "download_with_fallback get peer peers ops False tag asset exe mirrors fs = (r, fs')"
  shows "case r of
      None \<Rightarrow> \<exists>d \<in> offered get peer peers asset (update_sources tag asset mirrors). map_of fs' exe = Some d
    | Some _ \<Rightarrow> map_of fs' exe = map_of fs exe"
proof -
  obtain r1 fs1 where t: "try_sources get ops False exe (update_sources tag asset mirrors) None fs = (r1, fs1)"
    by fastforce
  note ts = try_sources_unix [OF t]
  show ?thesis
  proof (cases r1)
    case (Inl a)
    then have "a = r" "fs1 = fs'" using assms t by (simp_all add: download_with_fallback_def)
    then show ?thesis using ts Inl by (cases r) (auto simp: offered_def)
  next
    case (Inr a)
    obtain r2 fs2 where d: "download_in_band peer ops False asset exe peers NoPeers fs1 = (r2, fs2)" by fastforce
    note ds = download_in_band_unix [OF d]
    have keep: "map_of fs1 exe = map_of fs exe" using ts Inr by simp
    show ?thesis
    proof (cases r2)
      case None
      then have "r = None" "fs' = fs2" using assms t Inr d by (simp_all add: download_with_fallback_def)
      then show ?thesis using ds None by (auto simp: offered_def)
    next
      case (Some e)
      then have "r \<noteq> None" "fs' = fs2" using assms t Inr d
        by (auto simp: download_with_fallback_def split: if_splits)
      then show ?thesis using ds Some keep by auto
    qed
  qed
qed

lemma check_and_update_unix:
  assumes "check_and_update github get peer peers ops False (Some exe) current asset mirrors fs = (out, fs')"
  shows "case out of
      Restarted tag \<Rightarrow> (\<exists>c n. parse_version current = Some c \<and> parse_version tag = Some n \<and> c < n) \<and>
        (\<exists>src. resolve_latest_tag github get mirrors peer peers = Some (tag, src)) \<and>
        (\<exists>d \<in> offered get peer peers asset (update_sources tag asset mirrors). map_of fs' exe = Some d)
    | _ \<Rightarrow> map_of fs' exe = map_of fs exe"
proof (cases "parse_version current")
  case None
  then show ?thesis using assms by (auto simp: check_and_update_def)
next
  case cur: (Some c)
  show ?thesis
  proof (cases "resolve_latest_tag github get mirrors peer peers")
    case None
    then show ?thesis using assms cur by (auto simp: check_and_update_def)
  next
    case (Some ts)
    then obtain tag src where tag: "resolve_latest_tag github get mirrors peer peers = Some (tag, src)"
      by (cases ts) simp
    show ?thesis
    proof (cases "parse_version tag")
      case None
      then show ?thesis using assms cur tag by (auto simp: check_and_update_def)
    next
      case latest: (Some n)
      obtain r fs1 where d: "download_with_fallback get peer peers ops False tag asset exe mirrors fs = (r, fs1)"
        by fastforce
      show ?thesis
        using assms cur tag latest d download_with_fallback_unix [OF d]
        by (cases r) (auto simp: check_and_update_def split: if_splits)
    qed
  qed
qed

section \<open>The mirror of a server\<close>

definition AssetServer :: string where "AssetServer = ''supervpn-server''"

definition client_assets :: "string list" where
  "client_assets =
     [AssetServer, ''supervpn-client-windows-amd64.exe'', ''supervpn-client-darwin-arm64'',
      ''supervpn-client-darwin-amd64'', ''supervpn-client-linux-amd64'', ''supervpn-client-linux-arm64'',
      ''supervpn-client-gui-darwin-arm64'', ''supervpn-client-gui-darwin-amd64'',
      ''supervpn-client-gui-windows-amd64.exe'', ''supervpn-client-gui-windows-386.exe'',
      ''supervpn-seema-windows-amd64.exe'', ''supervpn-bmgarage-windows-amd64.exe'']"

text \<open>What the server asks of the file system: its own executable, the resolution of links, and files.\<close>

record files =
  fl_exe :: "string option"
  fl_resolve :: "string \<Rightarrow> string option"
  fl_stat :: "string \<Rightarrow> bool"
  fl_open :: "string \<Rightarrow> (bytes \<times> bool) option"

definition update_dir :: "files \<Rightarrow> server_config \<Rightarrow> string" where
  "update_dir fl cfg =
     (if sc_update_dir cfg \<noteq> '''' then sc_update_dir cfg
      else case fl_exe fl of
          Some e \<Rightarrow> path_join [path_dir e, ''dist'']
        | None \<Rightarrow> ''dist'')"

text \<open>The running executable when it can be found, for the server's own asset.\<close>

definition own_binary :: "files \<Rightarrow> string option" where
  "own_binary fl =
     (case fl_exe fl of
        None \<Rightarrow> None
      | Some exe \<Rightarrow> let e = (case fl_resolve fl exe of Some r \<Rightarrow> r | None \<Rightarrow> exe) in
          if fl_stat fl e then Some e else None)"

definition asset_path :: "files \<Rightarrow> server_config \<Rightarrow> string \<Rightarrow> string" where
  "asset_path fl cfg name =
     (let path = path_join [update_dir fl cfg, name] in
      if name = AssetServer then (case own_binary fl of Some e \<Rightarrow> e | None \<Rightarrow> path) else path)"

definition update_data :: "byte \<Rightarrow> bytes \<Rightarrow> bytes" where
  "update_data status data =
     mk_packet \<lparr>hdr_type = FrameUpdateData, hdr_hub = 0, hdr_session = 0, hdr_seq = 0\<rparr> (status # data)"

text \<open>The reads of a file into a buffer of \<open>n\<close> bytes.\<close>

function chunks :: "nat \<Rightarrow> bytes \<Rightarrow> bytes list" where
  "chunks n d = (if d = [] \<or> n = 0 then [] else take n d # chunks n (drop n d))"
  by pat_completeness auto
termination by (relation "measure (\<lambda>(n, d). length d)") auto

declare chunks.simps [simp del]

text \<open>Packets handed to \<open>sendReply\<close>: all of them, or up to the first one it fails on.\<close>

fun send_chunks :: "(bytes \<Rightarrow> bool) \<Rightarrow> bytes list \<Rightarrow> bool \<times> bytes list" where
  "send_chunks ok [] = (True, [])"
| "send_chunks ok (c # cs) =
     (if ok (update_data UpdateChunk c)
      then (case send_chunks ok cs of (res, out) \<Rightarrow> (res, update_data UpdateChunk c # out))
      else (False, [update_data UpdateChunk c]))"

definition handle_update_get :: "string \<Rightarrow> files \<Rightarrow> server_config \<Rightarrow> (bytes \<Rightarrow> bool) \<Rightarrow> bytes \<Rightarrow> bytes list" where
  "handle_update_get version fl cfg ok payload =
     (let name = bytes_str payload in
      if name = ''version'' then [update_data UpdateChunk (str_bytes version), update_data UpdateEOF []]
      else if name \<notin> set client_assets then [update_data UpdateErr (str_bytes ''unknown asset'')]
      else case fl_open fl (asset_path fl cfg name) of
          None \<Rightarrow> [update_data UpdateErr (str_bytes ''asset not available'')]
        | Some (content, complete) \<Rightarrow>
            (case send_chunks ok (chunks 16384 content) of
               (res, out) \<Rightarrow> out @ (if res \<and> complete then [update_data UpdateEOF []] else [])))"

lemma concat_chunks: "0 < n \<Longrightarrow> concat (chunks n d) = d"
proof (induction n d rule: chunks.induct)
  case (1 n d)
  then show ?case by (subst chunks.simps) auto
qed

lemma chunks_length: "c \<in> set (chunks n d) \<Longrightarrow> length c \<le> n"
proof (induction n d rule: chunks.induct)
  case (1 n d)
  then show ?case by (subst (asm) chunks.simps) (auto split: if_splits)
qed

lemma process_update_data [simp]:
  "process_update_frame (update_data s d) out =
     (if s = UpdateChunk then
        (if maxInBandAsset < length out + length d then (Inl AssetTooLarge, out) else (Inr False, out @ d))
      else if s = UpdateEOF then (Inr True, out)
      else if s = UpdateErr then (Inl (PeerRefused d), out)
      else (Inr False, out))"
  by (simp add: process_update_frame_def update_data_def)

lemma send_chunks_all: "(\<And>p. ok p) \<Longrightarrow> send_chunks ok cs = (True, map (update_data UpdateChunk) cs)"
  by (induction cs) simp_all

lemma fetch_loop_chunks:
  "length out + length (concat cs) \<le> maxInBandAsset \<Longrightarrow>
     fetch_loop (map (update_data UpdateChunk) cs @ rest) out = fetch_loop rest (out @ concat cs)"
  by (induction cs arbitrary: out) auto

text \<open>
  What a server streams, the in-band client reassembles: the asset if its file can be read in full
  and is at most 64 MB, and the version string.
\<close>

lemma fetch_served_asset:
  assumes "name \<in> set client_assets" "fl_open fl (asset_path fl cfg name) = Some (content, True)"
    and "length content \<le> maxInBandAsset"
  shows "fetch_loop (handle_update_get version fl cfg (\<lambda>_. True) (str_bytes name)) [] = Inr content"
proof -
  have "name \<noteq> ''version''" using assms(1) by (auto simp: client_assets_def AssetServer_def)
  then have "handle_update_get version fl cfg (\<lambda>_. True) (str_bytes name) =
      map (update_data UpdateChunk) (chunks 16384 content) @ [update_data UpdateEOF []]"
    using assms by (simp add: handle_update_get_def send_chunks_all)
  then show ?thesis using fetch_loop_chunks [of "[]" "chunks 16384 content"] assms(3)
    by (simp add: concat_chunks UpdateEOF_def UpdateChunk_def)
qed

lemma fetch_served_version:
  assumes "length version \<le> maxInBandAsset"
  shows "fetch_loop (handle_update_get version fl cfg ok (str_bytes ''version'')) [] = Inr (str_bytes version)"
  using assms by (simp add: handle_update_get_def UpdateEOF_def UpdateChunk_def)

text \<open>Every reply fits a stream frame, and a name that is not an asset never reaches the file system.\<close>

lemma send_chunks_subset: "set (snd (send_chunks ok cs)) \<subseteq> update_data UpdateChunk ` set cs"
  by (induction cs) (auto split: prod.splits)

lemma length_update_data [simp]: "length (update_data s d) = 16 + length d"
  by (simp add: update_data_def mk_packet_def)

lemma handle_update_get_fits:
  assumes "length version \<le> 16384" "p \<in> set (handle_update_get version fl cfg ok payload)"
  shows "length p \<le> 16400"
proof -
  let ?name = "bytes_str payload"
  consider "?name = ''version''" | "?name \<noteq> ''version''" "?name \<notin> set client_assets"
    | "?name \<noteq> ''version''" "?name \<in> set client_assets" "fl_open fl (asset_path fl cfg ?name) = None"
    | content c where "?name \<noteq> ''version''" "?name \<in> set client_assets"
        "fl_open fl (asset_path fl cfg ?name) = Some (content, c)"
    by (cases "fl_open fl (asset_path fl cfg ?name)") auto
  then show ?thesis
  proof cases
    case 4
    let ?out = "snd (send_chunks ok (chunks 16384 content))"
    have "p \<in> set ?out \<or> p = update_data UpdateEOF []"
      using assms(2) 4 by (auto simp: handle_update_get_def case_prod_beta split: if_splits)
    then show ?thesis using send_chunks_subset [of ok "chunks 16384 content"] chunks_length by fastforce
  qed (use assms in \<open>auto simp: handle_update_get_def\<close>)
qed

text \<open>Every path the mirror opens is a name of the list under the update directory, or the server's own binary.\<close>

definition http_asset_path :: "files \<Rightarrow> server_config \<Rightarrow> string \<Rightarrow> string option" where
  "http_asset_path fl cfg url =
     (let name = trim_prefix url ''/update/'' in
      if name = '''' \<or> name \<notin> set client_assets then None else Some (asset_path fl cfg name))"

text \<open>\<open>mirrorURL\<close>.\<close>

definition mirror_url :: "server_config \<Rightarrow> string" where
  "mirror_url cfg =
     (let listen = (if sc_update_listen cfg = '''' then sc_status_listen cfg else sc_update_listen cfg) in
      if listen = '''' then ''''
      else case split_host_port listen of
          Inl _ \<Rightarrow> ''http://'' @ listen @ ''/update''
        | Inr (host, port) \<Rightarrow>
            let h = (if host \<in> {'''', ''0.0.0.0'', ''::''} then
                       (case split_host_port (sc_listen cfg) of
                          Inr (udp, _) \<Rightarrow> if udp \<notin> {'''', ''0.0.0.0'', ''::''} then udp else ''<your_server_ip>''
                        | Inl _ \<Rightarrow> ''<your_server_ip>'')
                     else if host \<in> {''127.0.0.1'', ''::1''} then ''<your_server_ip>''
                     else host)
            in if port = ''80'' then ''http://'' @ h @ ''/update''
               else ''http://'' @ h @ '':'' @ port @ ''/update'')"

text \<open>\<open>checkUpdateAssets\<close>: the sizes found, and the file system with the version stamp.\<close>

fun check_assets ::
  "string \<Rightarrow> http \<Rightarrow> fs_ops \<Rightarrow> bool \<Rightarrow> string \<Rightarrow> bool \<Rightarrow> string list \<Rightarrow> fs \<Rightarrow> (string, nat) amap \<times> fs"
where
  "check_assets version get ops windows dir stale [] fs = ([], fs)"
| "check_assets version get ops windows dir stale (name # names) fs =
     (let path = path_join [dir, name] in
      case (if stale then None else map_of fs path) of
        Some d \<Rightarrow>
          (case check_assets version get ops windows dir stale names fs of
             (m, fs') \<Rightarrow> ((name, length d) # m, fs'))
      | None \<Rightarrow>
          if version = ''dev'' then check_assets version get ops windows dir stale names fs
          else (case download_and_replace get ops windows (githubDLBase @ version @ ''/'' @ name) path fs of
              (Some _, fs1) \<Rightarrow> check_assets version get ops windows dir stale names fs1
            | (None, fs1) \<Rightarrow>
                (case check_assets version get ops windows dir stale names fs1 of
                   (m, fs') \<Rightarrow> ((name, case map_of fs1 path of Some d \<Rightarrow> length d | None \<Rightarrow> 0) # m, fs'))))"

definition check_update_assets ::
  "string \<Rightarrow> http \<Rightarrow> fs_ops \<Rightarrow> bool \<Rightarrow> files \<Rightarrow> server_config \<Rightarrow> fs \<Rightarrow> (string, nat) amap \<times> fs"
where
  "check_update_assets version get ops windows fl cfg fs =
     (let dir = update_dir fl cfg; stamp = path_join [dir, ''.mirror-version''];
          cached = (case fs_read ops stamp fs of None \<Rightarrow> '''' | Some d \<Rightarrow> bytes_str d);
          stale = (trim_space cached \<noteq> version)
      in case check_assets version get ops windows dir stale client_assets fs of
          (m, fs1) \<Rightarrow>
            (m, if version \<noteq> ''dev'' \<and> op_create ops stamp \<and> op_write ops stamp
                then mput stamp (str_bytes version) fs1 else fs1))"

lemma http_asset_path_allowed:
  "http_asset_path fl cfg url = Some p \<Longrightarrow>
     \<exists>name \<in> set client_assets. p = path_join [update_dir fl cfg, name] \<or>
       (name = AssetServer \<and> own_binary fl = Some p)"
  by (auto simp: http_asset_path_def asset_path_def Let_def split: if_splits option.splits)

text \<open>Once the stamp matches, the files that are there are never fetched again.\<close>

lemma check_assets_fresh:
  assumes "\<And>name. name \<in> set names \<Longrightarrow> map_of fs (path_join [dir, name]) \<noteq> None"
  shows "check_assets version get ops windows dir False names fs =
    (map (\<lambda>n. (n, length (the (map_of fs (path_join [dir, n]))))) names, fs)"
  using assms
proof (induction names)
  case (Cons a names)
  obtain d where "map_of fs (path_join [dir, a]) = Some d" using Cons.prems [of a] by auto
  then show ?case using Cons.IH Cons.prems by (simp add: Let_def)
qed simp

text \<open>When every download fails, nothing is fetched and nothing is reported.\<close>

lemma check_assets_unreachable:
  "check_assets version (\<lambda>_. HttpFail) ops windows dir True names fs = ([], fs)"
  by (induction names) (auto simp: download_and_replace_def Let_def)

text \<open>
  The version stamp is written even then, so the next start takes the files of the previous version
  for current ones.
\<close>

lemma stale_mirror_accepted:
  assumes v: "version \<noteq> ''dev''" "trim_space version = version"
    and dir: "dir = update_dir fl cfg" and stamp: "stamp = path_join [dir, ''.mirror-version'']"
    and ops: "op_create ops stamp" "op_write ops stamp" "op_read ops stamp"
    and old: "map_of fs stamp = None"
    and files: "\<And>n. n \<in> set client_assets \<Longrightarrow> path_join [dir, n] \<noteq> stamp \<and> map_of fs (path_join [dir, n]) \<noteq> None"
    and run1: "check_update_assets version (\<lambda>_. HttpFail) ops windows fl cfg fs = (m1, fs1)"
    and run2: "check_update_assets version get ops windows fl cfg fs1 = (m2, fs2)"
  shows "m1 = [] \<or> version = ''''"
    and "m2 = map (\<lambda>n. (n, length (the (map_of fs (path_join [dir, n]))))) client_assets"
proof -
  have s0: "trim_space '''' = ''''" by (simp add: trim_space_def trim_def trim_left_def trim_right_def)
  have f0: "fs_read ops stamp fs = None" using old by (simp add: fs_read_def)
  show "m1 = [] \<or> version = ''''"
    using run1 check_assets_unreachable f0 s0
    by (auto simp: check_update_assets_def Let_def simp flip: dir stamp)
  have fresh: "check_assets version g ops windows dir False client_assets fs =
      (map (\<lambda>n. (n, length (the (map_of fs (path_join [dir, n]))))) client_assets, fs)" for g
    using files by (intro check_assets_fresh) auto
  have "fs1 = mput stamp (str_bytes version) fs"
    using run1 check_assets_unreachable [of version ops windows dir client_assets fs] f0 s0 v ops fresh
    by (cases "version = ''''") (auto simp: check_update_assets_def Let_def simp flip: dir stamp)
  then have f1: "fs_read ops stamp fs1 = Some (str_bytes version)"
      "\<And>n. n \<in> set client_assets \<Longrightarrow> map_of fs1 (path_join [dir, n]) = map_of fs (path_join [dir, n])"
    using ops files by (auto simp: fs_read_def)
  have "check_assets version get ops windows dir False client_assets fs1 =
      (map (\<lambda>n. (n, length (the (map_of fs1 (path_join [dir, n]))))) client_assets, fs1)"
    using files f1 by (intro check_assets_fresh) auto
  also have "map (\<lambda>n. (n, length (the (map_of fs1 (path_join [dir, n]))))) client_assets =
      map (\<lambda>n. (n, length (the (map_of fs (path_join [dir, n]))))) client_assets"
    using f1 by (intro map_cong) auto
  finally show "m2 = map (\<lambda>n. (n, length (the (map_of fs (path_join [dir, n]))))) client_assets"
    using run2 f1 v by (auto simp: check_update_assets_def Let_def simp flip: dir stamp)
qed

text \<open>A refreshed asset that is byte-identical to the cached one is present and not reported.\<close>

lemma identical_asset_missing:
  assumes "version \<noteq> ''dev''" "path = path_join [dir, name]" "map_of fs path = Some d"
    and "get (githubDLBase @ version @ ''/'' @ name) = HttpReply 200 d True"
    and "\<And>p. op_create ops p \<and> op_write ops p \<and> op_close ops p \<and> op_read ops p \<and> op_remove ops p"
  shows "fst (check_assets version get ops windows dir True [name] fs) = [] \<and>
    map_of (snd (check_assets version get ops windows dir True [name] fs)) path = Some d"
  using assms
  by (simp add: download_and_replace_def apply_binary_def files_bytes_equal_def fs_read_def fs_remove_def Let_def)

end
