(* ===== verification/Session.thy ===== *)
theory Session
  imports Crypto Fragment FecPipe Hub Auth Update
begin

text \<open>
  The server's \<open>Session\<close> (\<open>cmd/supervpn-server/main.go\<close>) and the paths a frame takes out of it: the
  FEC pipe, the fragments, and the sealing of every packet for both of the session's endpoints. A
  reply closure is modelled by the endpoint it writes to.
\<close>

section \<open>State and environment\<close>

type_synonym endpoint = string

datatype effect =
    SendTo endpoint bytes
  | CloseConn endpoint

record session =
  ss_id :: session_id
  ss_hub :: "16 word"
  ss_login :: string
  ss_addr :: string
  ss_mode :: string
  ss_connected :: time
  ss_raw :: endpoint
  ss_raw2 :: "endpoint option"
  ss_addr2 :: string
  ss_close :: "endpoint option"
  ss_close2 :: "endpoint option"
  ss_cipher :: cipher
  ss_window :: replay_window
  ss_pipe :: pipe
  ss_frag :: bool
  ss_frag_id :: "32 word"
  ss_reasm :: reassembler
  ss_last_seen :: time
  ss_rx :: "64 word"
  ss_tx :: "64 word"
  ss_hub_calls :: "64 word"
  ss_live :: bool

text \<open>
  What the code calls outside \<open>src/\<close>, and whether a write to an endpoint succeeds. \<open>ss_live\<close> is whether
  the session's context has not been cancelled, so that its background goroutines still run.
\<close>

record env =
  en_rs :: rs_code
  en_seal :: aead_seal
  en_open :: aead_open
  en_sha256 :: "bytes \<Rightarrow> bytes"
  en_hkdf :: "bytes \<Rightarrow> bytes \<Rightarrow> bytes"
  en_bcrypt :: "string \<Rightarrow> string \<Rightarrow> bool"
  en_send_ok :: "endpoint \<Rightarrow> bool"
  en_format_time :: "time \<Rightarrow> string"
  en_parse_ip :: "string \<Rightarrow> bool"
  en_version :: string
  en_files :: files
  en_disk_ok :: bool

section \<open>Sending\<close>

definition send_both :: "session \<Rightarrow> bytes \<Rightarrow> effect list" where
  "send_both s pkt = SendTo (ss_raw s) pkt # (case ss_raw2 s of None \<Rightarrow> [] | Some e \<Rightarrow> [SendTo e pkt])"

text \<open>Seal a payload, frame it, send it on both paths.\<close>

definition send_sealed :: "env \<Rightarrow> frame_type \<Rightarrow> 64 word \<Rightarrow> bytes \<Rightarrow> session \<Rightarrow> effect list \<times> session" where
  "send_sealed env ty seq plain s =
     (case seal_packet (en_seal env) (ss_cipher s) plain of (c, enc) \<Rightarrow>
        (send_both s (mk_packet \<lparr>hdr_type = ty, hdr_hub = ss_hub s, hdr_session = ss_id s, hdr_seq = seq\<rparr> enc),
         s\<lparr>ss_cipher := c\<rparr>))"

definition send_fec_data :: "env \<Rightarrow> 32 word \<Rightarrow> 16 word \<Rightarrow> bytes \<Rightarrow> session \<Rightarrow> effect list \<times> session" where
  "send_fec_data env bid idx frame s =
     (case send_sealed env FrameData (pack_data_seq bid idx) frame s of (out, s') \<Rightarrow>
        (out, s'\<lparr>ss_tx := ss_tx s' + 1\<rparr>))"

definition send_fec_repair :: "env \<Rightarrow> byte \<Rightarrow> byte \<Rightarrow> 32 word \<Rightarrow> byte \<Rightarrow> bytes \<Rightarrow> session \<Rightarrow> effect list \<times> session" where
  "send_fec_repair env k r bid idx d s = send_sealed env FrameRepair (pack_repair_seq bid idx k r) d s"

text \<open>The callbacks the pipe is built with.\<close>

definition emit_wire :: "env \<Rightarrow> wire \<Rightarrow> session \<Rightarrow> effect list \<times> session" where
  "emit_wire env w s = (case w of
      WireData bid idx d \<Rightarrow> send_fec_data env bid idx d s
    | WireRepair bid idx d \<Rightarrow>
        send_fec_repair env (of_nat (e_k (p_enc (ss_pipe s)))) (of_nat (e_r (p_enc (ss_pipe s)))) bid idx d s)"

fun emit_wires :: "env \<Rightarrow> wire list \<Rightarrow> session \<Rightarrow> effect list \<times> session" where
  "emit_wires env [] s = ([], s)"
| "emit_wires env (w # ws) s =
     (case emit_wire env w s of (out, s1) \<Rightarrow> case emit_wires env ws s1 of (rest, s2) \<Rightarrow> (out @ rest, s2))"

fun send_pieces :: "env \<Rightarrow> 32 word \<Rightarrow> nat \<Rightarrow> nat \<Rightarrow> bytes list \<Rightarrow> session \<Rightarrow> effect list \<times> session" where
  "send_pieces env fid i n [] s = ([], s)"
| "send_pieces env fid i n (pc # pcs) s =
     (case send_sealed env FrameDataFrag (pack_frag_seq fid (of_nat i) (of_nat n)) pc s of (out, s1) \<Rightarrow>
        case send_pieces env fid (Suc i) n pcs (s1\<lparr>ss_tx := ss_tx s1 + 1\<rparr>) of (rest, s2) \<Rightarrow> (out @ rest, s2))"

definition send_frag :: "env \<Rightarrow> bytes \<Rightarrow> session \<Rightarrow> effect list \<times> session" where
  "send_frag env frame s =
     (let fid = ss_frag_id s + 1; pieces = split_frame frame (int MaxFramePlaintext)
      in send_pieces env fid 0 (length pieces) pieces (s\<lparr>ss_frag_id := fid\<rparr>))"

text \<open>The \<open>Send\<close> the hub calls.\<close>

definition session_send :: "env \<Rightarrow> time \<Rightarrow> bytes \<Rightarrow> session \<Rightarrow> effect list \<times> session" where
  "session_send env now frame s0 =
     (let s = s0\<lparr>ss_hub_calls := ss_hub_calls s0 + 1\<rparr> in
      if ss_frag s \<and> needs_split frame (int MaxFramePlaintext) then send_frag env frame s
      else case pipe_send (en_rs env) (\<lambda>_. en_send_ok env (ss_raw s)) now frame (ss_pipe s) of
          (_, ws, p) \<Rightarrow> emit_wires env ws (s\<lparr>ss_pipe := p\<rparr>))"

text \<open>The background repair sender of one session.\<close>

definition session_repairs :: "env \<Rightarrow> time \<Rightarrow> session \<Rightarrow> effect list \<times> session" where
  "session_repairs env now s =
     (case repair_sender_step now (ss_pipe s) of (ws, p) \<Rightarrow> emit_wires env ws (s\<lparr>ss_pipe := p\<rparr>))"

section \<open>What sending keeps\<close>

text \<open>The identity of a session: everything a send may not touch.\<close>

definition same_session :: "session \<Rightarrow> session \<Rightarrow> bool" where
  "same_session s t \<longleftrightarrow> ss_id t = ss_id s \<and> ss_hub t = ss_hub s \<and> ss_login t = ss_login s \<and>
     ss_addr t = ss_addr s \<and> ss_raw t = ss_raw s \<and> ss_raw2 t = ss_raw2 s \<and> ss_window t = ss_window s \<and>
     ss_reasm t = ss_reasm s \<and> ss_close t = ss_close s \<and> ss_close2 t = ss_close2 s \<and>
     ss_last_seen t = ss_last_seen s \<and> ss_live t = ss_live s \<and> c_key (ss_cipher t) = c_key (ss_cipher s) \<and>
     c_salt (ss_cipher t) = c_salt (ss_cipher s) \<and> p_dec (ss_pipe t) = p_dec (ss_pipe s)"

text \<open>The endpoints a session writes to.\<close>

definition session_endpoints :: "session \<Rightarrow> endpoint set" where
  "session_endpoints s = insert (ss_raw s) (set_option (ss_raw2 s))"

definition effects_to :: "endpoint set \<Rightarrow> effect list \<Rightarrow> bool" where
  "effects_to es out \<longleftrightarrow> (\<forall>e \<in> set out. \<exists>p. \<exists>q \<in> es. e = SendTo q p)"

lemma effects_to_simps [simp]:
  "effects_to es []" "effects_to es (a @ b) \<longleftrightarrow> effects_to es a \<and> effects_to es b"
  by (auto simp: effects_to_def)

lemma effects_to_mono: "effects_to es out \<Longrightarrow> es \<subseteq> fs \<Longrightarrow> effects_to fs out"
  by (fastforce simp: effects_to_def)

lemma send_both_effects: "effects_to (session_endpoints s) (send_both s p)"
  by (auto simp: effects_to_def send_both_def session_endpoints_def split: option.splits)

lemma same_session_refl [simp]: "same_session s s"
  by (simp add: same_session_def)

lemma same_session_trans: "same_session s t \<Longrightarrow> same_session t u \<Longrightarrow> same_session s u"
  by (simp add: same_session_def)

lemma same_session_endpoints: "same_session s t \<Longrightarrow> session_endpoints t = session_endpoints s"
  by (simp add: same_session_def session_endpoints_def)

lemma send_sealed_spec:
  assumes "send_sealed env ty seq plain s = (out, t)"
  shows "same_session s t \<and> effects_to (session_endpoints s) out"
  using assms send_both_effects [of s]
  by (auto simp: send_sealed_def case_prod_beta same_session_def)

lemma emit_wire_spec:
  assumes "emit_wire env w s = (out, t)"
  shows "same_session s t \<and> effects_to (session_endpoints s) out"
proof (cases w)
  case (WireData bid idx d)
  obtain o1 s1 where 1: "send_sealed env FrameData (pack_data_seq bid idx) d s = (o1, s1)" by fastforce
  then have "out = o1" "t = s1\<lparr>ss_tx := ss_tx s1 + 1\<rparr>"
    using assms WireData by (simp_all add: emit_wire_def send_fec_data_def)
  then show ?thesis using send_sealed_spec [OF 1] by (simp add: same_session_def)
next
  case (WireRepair bid idx d)
  then show ?thesis using assms by (auto simp: emit_wire_def send_fec_repair_def dest!: send_sealed_spec)
qed

lemma emit_wires_spec:
  "emit_wires env ws s = (out, t) \<Longrightarrow> same_session s t \<and> effects_to (session_endpoints s) out"
proof (induction ws arbitrary: s out t)
  case (Cons w ws)
  obtain o1 s1 where 1: "emit_wire env w s = (o1, s1)" by fastforce
  obtain o2 s2 where 2: "emit_wires env ws s1 = (o2, s2)" by fastforce
  have "out = o1 @ o2" "t = s2" using Cons.prems 1 2 by simp_all
  then show ?case using emit_wire_spec [OF 1] Cons.IH [OF 2] same_session_trans same_session_endpoints
    by auto
qed simp

lemma send_pieces_spec:
  "send_pieces env fid i n pcs s = (out, t) \<Longrightarrow> same_session s t \<and> effects_to (session_endpoints s) out"
proof (induction pcs arbitrary: i s out t)
  case (Cons pc pcs)
  obtain o1 s1 where 1: "send_sealed env FrameDataFrag (pack_frag_seq fid (of_nat i) (of_nat n)) pc s = (o1, s1)"
    by fastforce
  let ?s1 = "s1\<lparr>ss_tx := ss_tx s1 + 1\<rparr>"
  obtain o2 s2 where 2: "send_pieces env fid (Suc i) n pcs ?s1 = (o2, s2)" by fastforce
  have "out = o1 @ o2" "t = s2" using Cons.prems 1 2 by simp_all
  moreover have "same_session s ?s1" using send_sealed_spec [OF 1] by (simp add: same_session_def)
  ultimately show ?case using send_sealed_spec [OF 1] Cons.IH [OF 2] same_session_trans same_session_endpoints
    by auto
qed simp

lemma pipe_number_dec: "p_dec (snd (pipe_number rs frame p)) = p_dec p"
  by simp

lemma pipe_send_dec:
  assumes "pipe_send rs ok now frame p = (res, ws, q)"
  shows "p_dec q = p_dec p"
proof -
  obtain repairs p1 where n: "pipe_number rs frame p = (repairs, p1)" by fastforce
  have d: "p_dec p1 = p_dec p" using n by (auto simp: pipe_number_def case_prod_beta)
  show ?thesis
  proof (cases repairs)
    case None
    then show ?thesis using assms n d by (auto simp: pipe_send_def Let_def split: if_splits)
  next
    case (Some reps)
    obtain res' out where u: "until_error ok (repair_wires (e_block (p_enc p)) reps) = (res', out)" by fastforce
    show ?thesis using assms n d Some u
      by (cases "p_queue p1") (auto simp: pipe_send_def Let_def split: if_splits)
  qed
qed

lemma repair_sender_dec: "repair_sender_step now p = (ws, q) \<Longrightarrow> p_dec q = p_dec p"
  by (auto simp: repair_sender_step_def split: option.splits list.splits if_splits)

lemma session_send_spec:
  assumes "session_send env now frame s = (out, t)"
  shows "same_session s t \<and> effects_to (session_endpoints s) out"
proof (cases "ss_frag s \<and> needs_split frame (int MaxFramePlaintext)")
  case True
  let ?s = "s\<lparr>ss_hub_calls := ss_hub_calls s + 1, ss_frag_id := ss_frag_id s + 1\<rparr>"
  have "same_session ?s t \<and> effects_to (session_endpoints ?s) out"
    using assms True send_pieces_spec by (fastforce simp: session_send_def send_frag_def Let_def)
  then show ?thesis by (simp add: same_session_def session_endpoints_def)
next
  case False
  obtain res ws q where p: "pipe_send (en_rs env) (\<lambda>_. en_send_ok env (ss_raw s)) now frame (ss_pipe s) = (res, ws, q)"
    using prod_cases3 by blast
  let ?s = "s\<lparr>ss_hub_calls := ss_hub_calls s + 1, ss_pipe := q\<rparr>"
  have "emit_wires env ws ?s = (out, t)" using assms False p by (simp add: session_send_def Let_def)
  from emit_wires_spec [OF this] show ?thesis using pipe_send_dec [OF p]
    by (simp add: same_session_def session_endpoints_def)
qed

lemma session_repairs_spec:
  assumes "session_repairs env now s = (out, t)"
  shows "same_session s t \<and> effects_to (session_endpoints s) out"
proof -
  obtain ws q where p: "repair_sender_step now (ss_pipe s) = (ws, q)" by fastforce
  then have "emit_wires env ws (s\<lparr>ss_pipe := q\<rparr>) = (out, t)" using assms by (simp add: session_repairs_def)
  from emit_wires_spec [OF this] show ?thesis using repair_sender_dec [OF p]
    by (simp add: same_session_def session_endpoints_def)
qed

end
