(* ===== verification/Framing.thy ===== *)
theory Framing
  imports Prelude "HOL-Library.Sublist"
begin

text \<open>
  \<open>internal/transport/tcp.go\<close> and the \<open>prefixConn\<close> of \<open>reality_server.go\<close>: length-prefixed frames
  over a byte stream, as TCP, TLS and Reality all use. A connection is the list of bytes it will
  still deliver before end of file.
\<close>

section \<open>Frames on a stream\<close>

definition tcpMaxFrame :: nat where "tcpMaxFrame = 65535"

text \<open>\<open>Send\<close>: \<open>None\<close> is the frame-too-large error; else the bytes of the single \<open>Write\<close>.\<close>

definition tcp_send :: "bytes \<Rightarrow> bytes option" where
  "tcp_send d = (if tcpMaxFrame < length d then None else Some (put16 (of_nat (length d)) @ d))"

text \<open>\<open>io.ReadFull\<close> of \<open>n\<close> bytes.\<close>

definition read_full :: "nat \<Rightarrow> bytes \<Rightarrow> (bytes \<times> bytes) option" where
  "read_full n s = (if length s < n then None else Some (take n s, drop n s))"

definition tcp_recv :: "bytes \<Rightarrow> (bytes \<times> bytes) option" where
  "tcp_recv s =
     (case read_full 2 s of
        None \<Rightarrow> None
      | Some (hdr, s1) \<Rightarrow>
          if get16 hdr = 0 then Some ([], s1) else read_full (unat (get16 hdr)) s1)"

text \<open>The receive loop of a session: frames until the first error.\<close>

lemma tcp_recv_shorter: "tcp_recv s = Some (d, s') \<Longrightarrow> length s' < length s"
  by (auto simp: tcp_recv_def read_full_def split: if_splits)

function recv_frames :: "bytes \<Rightarrow> bytes list" where
  "recv_frames s = (case tcp_recv s of None \<Rightarrow> [] | Some (d, s') \<Rightarrow> d # recv_frames s')"
  by pat_completeness auto

termination recv_frames
  by (relation "measure length") (auto simp: tcp_recv_shorter)

declare recv_frames.simps [simp del]

definition frame_ok :: "bytes \<Rightarrow> bool" where
  "frame_ok d \<longleftrightarrow> length d \<le> tcpMaxFrame"

definition encode_frame :: "bytes \<Rightarrow> bytes" where
  "encode_frame d = put16 (of_nat (length d)) @ d"

lemma tcp_send_ok: "tcp_send d = (if frame_ok d then Some (encode_frame d) else None)"
  by (auto simp: tcp_send_def frame_ok_def encode_frame_def)

lemma length_encode_frame [simp]: "length (encode_frame d) = 2 + length d"
  by (simp add: encode_frame_def)

lemma tcp_recv_send:
  assumes "frame_ok d"
  shows "tcp_recv (encode_frame d @ s) = Some (d, s)"
proof -
  have n: "unat (of_nat (length d) :: 16 word) = length d"
    using assms by (simp add: frame_ok_def tcpMaxFrame_def unat_of_nat_u16)
  then have z: "(of_nat (length d) :: 16 word) = 0 \<longleftrightarrow> d = []" by (metis length_0_conv unat_eq_zero)
  show ?thesis using n z by (auto simp: tcp_recv_def read_full_def encode_frame_def)
qed

interpretation frame: codec encode_frame "\<lambda>s. case tcp_recv s of Some (d, []) \<Rightarrow> Some d | _ \<Rightarrow> None" frame_ok
  by unfold_locales (use tcp_recv_send [of _ "[]"] in simp)

text \<open>A truncated frame is an error, never a wrong frame.\<close>

lemma tcp_recv_truncated:
  assumes "frame_ok d" and "n < length (encode_frame d)"
  shows "tcp_recv (take n (encode_frame d)) = None"
proof (cases "n < 2")
  case True
  then show ?thesis by (simp add: tcp_recv_def read_full_def)
next
  case False
  then obtain m where m: "n = 2 + m" by (metis le_Suc_ex not_less)
  then have md: "m < length d" using assms(2) by simp
  have u: "unat (of_nat (length d) :: 16 word) = length d"
    using assms(1) by (simp add: frame_ok_def tcpMaxFrame_def unat_of_nat_u16)
  then have z: "(of_nat (length d) :: 16 word) \<noteq> 0" using md by (metis length_0_conv less_nat_zero_code list.size(3) unat_0)
  have "take n (encode_frame d) = put16 (of_nat (length d)) @ take m d"
    using m by (simp add: encode_frame_def)
  then show ?thesis using md u z by (simp add: tcp_recv_def read_full_def)
qed

text \<open>
  Whatever part of a stream of frames arrives before the connection dies, the receiver gets a prefix
  of the frames, each one whole.
\<close>

lemma recv_frames_take:
  assumes "list_all frame_ok ds"
  shows "prefix (recv_frames (take n (concat (map encode_frame ds)))) ds"
  using assms
proof (induction ds arbitrary: n)
  case Nil
  then show ?case by (simp add: recv_frames.simps tcp_recv_def read_full_def)
next
  case (Cons d ds)
  show ?case
  proof (cases "n < length (encode_frame d)")
    case True
    then have "take n (concat (map encode_frame (d # ds))) = take n (encode_frame d)" by simp
    moreover have "tcp_recv (take n (encode_frame d)) = None"
      using Cons.prems True by (intro tcp_recv_truncated) simp_all
    ultimately have "recv_frames (take n (concat (map encode_frame (d # ds)))) = []"
      by (metis option.simps(4) recv_frames.simps)
    then show ?thesis by simp
  next
    case False
    then have "take n (concat (map encode_frame (d # ds))) =
        encode_frame d @ take (n - length (encode_frame d)) (concat (map encode_frame ds))"
      by simp
    then show ?thesis using Cons tcp_recv_send [of d] by (subst recv_frames.simps) simp
  qed
qed

lemma recv_frames_count: "2 * length (recv_frames s) \<le> length s"
proof (induction s rule: recv_frames.induct)
  case (1 s)
  show ?case
  proof (cases "tcp_recv s")
    case (Some ds)
    obtain d s' where d: "tcp_recv s = Some (d, s')" using Some by (cases ds) simp
    then have "length s' + 2 \<le> length s"
      by (auto simp: tcp_recv_def read_full_def split: if_splits option.splits)
    then show ?thesis using "1.IH" [OF d refl] by (subst recv_frames.simps) (simp add: d)
  qed (subst recv_frames.simps, simp)
qed

lemma recv_frames_all:
  "list_all frame_ok ds \<Longrightarrow> recv_frames (concat (map encode_frame ds)) = ds"
proof (induction ds)
  case Nil
  then show ?case by (simp add: recv_frames.simps tcp_recv_def read_full_def)
next
  case (Cons d ds)
  then show ?case by (subst recv_frames.simps) (simp add: tcp_recv_send)
qed

section \<open>Replaying a consumed prefix\<close>

record prefix_conn =
  pc_prefix :: bytes
  pc_rest :: bytes

text \<open>One \<open>Read\<close> into a buffer of \<open>n\<close> bytes; the connection below fills as much as it has.\<close>

definition prefix_read :: "nat \<Rightarrow> prefix_conn \<Rightarrow> bytes \<times> prefix_conn" where
  "prefix_read n c =
     (if pc_prefix c \<noteq> [] then (take n (pc_prefix c), c\<lparr>pc_prefix := drop n (pc_prefix c)\<rparr>)
      else (take n (pc_rest c), c\<lparr>pc_rest := drop n (pc_rest c)\<rparr>))"

fun prefix_reads :: "nat list \<Rightarrow> prefix_conn \<Rightarrow> bytes \<times> prefix_conn" where
  "prefix_reads [] c = ([], c)"
| "prefix_reads (n # ns) c =
     (case prefix_read n c of (a, c1) \<Rightarrow> case prefix_reads ns c1 of (b, c2) \<Rightarrow> (a @ b, c2))"

text \<open>Whatever buffer sizes are used, the reader sees the original stream.\<close>

lemma prefix_reads_stream:
  "fst (prefix_reads ns c) @ pc_prefix (snd (prefix_reads ns c)) @ pc_rest (snd (prefix_reads ns c)) =
   pc_prefix c @ pc_rest c"
proof (induction ns arbitrary: c)
  case (Cons n ns)
  have "fst (prefix_read n c) @ pc_prefix (snd (prefix_read n c)) @ pc_rest (snd (prefix_read n c)) =
      pc_prefix c @ pc_rest c"
    by (simp add: prefix_read_def)
  with Cons [of "snd (prefix_read n c)"] show ?case by (simp add: case_prod_beta)
qed simp

end
