(* ===== verification/Server.thy ===== *)
theory Server
  imports Session Framing
begin

text \<open>
  \<open>cmd/supervpn-server/main.go\<close>: the server's state and its packet handlers. A \<open>*Session\<close> is a
  reference into \<open>sv_objs\<close>, because the session table, the hub's client (through its \<open>Send\<close>
  closure) and the background goroutines may hold different objects under one session id.
\<close>

section \<open>State\<close>

record server =
  sv_cfg :: server_config
  sv_hubs :: manager
  sv_objs :: "session list"
  sv_sessions :: "(session_id, nat) amap"
  sv_clients :: "(16 word \<times> session_id, nat) amap"
  sv_kicked :: "(string, time) amap"
  sv_banned_ips :: "string list"
  sv_ip_logins :: "(string, string list) amap"
  sv_banned_logins :: "(string, 16 word list) amap"
  sv_ip_file :: "string list option"
  sv_login_file :: "(string \<times> 16 word list) list option"

text \<open>Where a packet comes from: the reply path, the remote address, the mode, and the connection to close.\<close>

record origin =
  og_send :: endpoint
  og_addr :: string
  og_mode :: string
  og_close :: "endpoint option"

definition kick_block_duration :: time where "kick_block_duration = 5 * minute"
definition session_timeout :: time where "session_timeout = 15 * second"

definition get_obj :: "server \<Rightarrow> nat \<Rightarrow> session" where "get_obj sv r = sv_objs sv ! r"

definition put_obj :: "nat \<Rightarrow> session \<Rightarrow> server \<Rightarrow> server" where
  "put_obj r s sv = sv\<lparr>sv_objs := (sv_objs sv)[r := s]\<rparr>"

definition find_session :: "server \<Rightarrow> session_id \<Rightarrow> nat option" where
  "find_session sv n = map_of (sv_sessions sv) n"

text \<open>\<open>main\<close>: a hub for every configured hub, nothing else.\<close>

definition new_server :: "server_config \<Rightarrow> server" where
  "new_server cfg = \<lparr>sv_cfg = cfg,
     sv_hubs = foldl (\<lambda>m h. manager_add (new_hub (hcfg_id h) (hcfg_name h)) m) [] (sc_hubs cfg),
     sv_objs = [], sv_sessions = [], sv_clients = [], sv_kicked = [], sv_banned_ips = [],
     sv_ip_logins = [], sv_banned_logins = [], sv_ip_file = None, sv_login_file = None\<rparr>"

section \<open>Delivery through a hub\<close>

text \<open>\<open>c.Send(frame)\<close> for every target: each runs the closure its hub client was joined with.\<close>

fun deliver :: "env \<Rightarrow> time \<Rightarrow> 16 word \<Rightarrow> bytes \<Rightarrow> session_id list \<Rightarrow> server \<Rightarrow> effect list \<times> server" where
  "deliver env now hub frame [] sv = ([], sv)"
| "deliver env now hub frame (t # ts) sv =
     (case map_of (sv_clients sv) (hub, t) of
        None \<Rightarrow> deliver env now hub frame ts sv
      | Some r \<Rightarrow>
          (case session_send env now frame (get_obj sv r) of (out, s) \<Rightarrow>
             case deliver env now hub frame ts (put_obj r s sv) of (rest, sv') \<Rightarrow> (out @ rest, sv')))"

definition forward :: "env \<Rightarrow> time \<Rightarrow> 16 word \<Rightarrow> session_id \<Rightarrow> bytes \<Rightarrow> server \<Rightarrow> effect list \<times> server" where
  "forward env now hub n frame sv =
     (case manager_get hub (sv_hubs sv) of
        None \<Rightarrow> ([], sv)
      | Some h \<Rightarrow>
          (case hub_forward now n frame h of (ts, h') \<Rightarrow>
             deliver env now hub frame ts (sv\<lparr>sv_hubs := mput hub h' (sv_hubs sv)\<rparr>)))"

definition count_rx :: "nat \<Rightarrow> server \<Rightarrow> server" where
  "count_rx r sv = put_obj r ((get_obj sv r)\<lparr>ss_rx := ss_rx (get_obj sv r) + 1\<rparr>) sv"

fun forward_all ::
  "env \<Rightarrow> time \<Rightarrow> nat \<Rightarrow> 16 word \<Rightarrow> session_id \<Rightarrow> bytes list \<Rightarrow> server \<Rightarrow> effect list \<times> server"
where
  "forward_all env now r hub n [] sv = ([], sv)"
| "forward_all env now r hub n (f # fs) sv =
     (if length f < 14 then forward_all env now r hub n fs sv
      else case forward env now hub n f (count_rx r sv) of (out, sv1) \<Rightarrow>
        case forward_all env now r hub n fs sv1 of (rest, sv2) \<Rightarrow> (out @ rest, sv2))"

text \<open>The hub is looked up once; without it the recovered frames are dropped.\<close>

definition forward_recovered ::
  "env \<Rightarrow> time \<Rightarrow> nat \<Rightarrow> session_id \<Rightarrow> bytes list \<Rightarrow> server \<Rightarrow> effect list \<times> server"
where
  "forward_recovered env now r n fs sv =
     (let hub = ss_hub (get_obj sv r) in
      case manager_get hub (sv_hubs sv) of
        None \<Rightarrow> ([], sv)
      | Some h \<Rightarrow> forward_all env now r hub n fs sv)"

section \<open>Data, repairs and fragments\<close>

definition register_secondary :: "bool \<Rightarrow> origin \<Rightarrow> session \<Rightarrow> session" where
  "register_secondary sec og s =
     (if sec \<and> ss_raw2 s = None then s\<lparr>ss_raw2 := Some (og_send og), ss_addr2 := og_addr og\<rparr> else s)"

definition handle_data :: "env \<Rightarrow> time \<Rightarrow> origin \<Rightarrow> bool \<Rightarrow> header \<Rightarrow> bytes \<Rightarrow> server \<Rightarrow> effect list \<times> server" where
  "handle_data env now og sec h payload sv =
     (case find_session sv (hdr_session h) of
        None \<Rightarrow> ([], sv)
      | Some r \<Rightarrow>
          let s0 = (get_obj sv r)\<lparr>ss_last_seen := now\<rparr> in
          case open_packet (en_open env) (ss_cipher s0) payload (ss_window s0) of
            (Inl _, w) \<Rightarrow> ([], put_obj r (s0\<lparr>ss_window := w\<rparr>) sv)
          | (Inr frame, w) \<Rightarrow>
              let s1 = register_secondary sec og (s0\<lparr>ss_window := w\<rparr>) in
              case unpack_data_seq (hdr_seq h) of (bid, idx) \<Rightarrow>
              case pipe_recv_data (en_rs env) now bid idx frame (ss_pipe s1) of
                (Inl _, p) \<Rightarrow> ([], put_obj r (s1\<lparr>ss_pipe := p\<rparr>) sv)
              | (Inr fs, p) \<Rightarrow> forward_recovered env now r (hdr_session h) fs (put_obj r (s1\<lparr>ss_pipe := p\<rparr>) sv))"

definition handle_frag :: "env \<Rightarrow> time \<Rightarrow> origin \<Rightarrow> bool \<Rightarrow> header \<Rightarrow> bytes \<Rightarrow> server \<Rightarrow> effect list \<times> server" where
  "handle_frag env now og sec h payload sv =
     (case find_session sv (hdr_session h) of
        None \<Rightarrow> ([], sv)
      | Some r \<Rightarrow>
          let s0 = (get_obj sv r)\<lparr>ss_last_seen := now\<rparr> in
          case open_packet (en_open env) (ss_cipher s0) payload (ss_window s0) of
            (Inl _, w) \<Rightarrow> ([], put_obj r (s0\<lparr>ss_window := w\<rparr>) sv)
          | (Inr piece, w) \<Rightarrow>
              let s1 = register_secondary sec og (s0\<lparr>ss_window := w\<rparr>) in
              case unpack_frag_seq (hdr_seq h) of (fid, idx, cnt) \<Rightarrow>
              case reasm_add now fid idx cnt piece (ss_reasm s1) of (whole, ra) \<Rightarrow>
              let sv1 = put_obj r (s1\<lparr>ss_reasm := ra\<rparr>) sv in
              case whole of
                None \<Rightarrow> ([], sv1)
              | Some f \<Rightarrow> forward_recovered env now r (hdr_session h) [f] sv1)"

text \<open>A repair for a block that is already done is dropped before it is decrypted.\<close>

definition handle_repair :: "env \<Rightarrow> time \<Rightarrow> origin \<Rightarrow> bool \<Rightarrow> header \<Rightarrow> bytes \<Rightarrow> server \<Rightarrow> effect list \<times> server" where
  "handle_repair env now og sec h payload sv =
     (case find_session sv (hdr_session h) of
        None \<Rightarrow> ([], sv)
      | Some r \<Rightarrow>
          let s0 = get_obj sv r in
          case unpack_repair_seq (hdr_seq h) of (bid, idx, _, _) \<Rightarrow>
          if repair_block_done bid (ss_pipe s0) then ([], sv)
          else case open_packet (en_open env) (ss_cipher s0) payload (ss_window s0) of
            (Inl _, w) \<Rightarrow> ([], put_obj r (s0\<lparr>ss_window := w\<rparr>) sv)
          | (Inr frame, w) \<Rightarrow>
              let s1 = register_secondary sec og (s0\<lparr>ss_window := w\<rparr>) in
              case pipe_recv_repair (en_rs env) now bid idx frame (ss_pipe s1) of
                (Inl _, p) \<Rightarrow> ([], put_obj r (s1\<lparr>ss_pipe := p\<rparr>) sv)
              | (Inr fs, p) \<Rightarrow> forward_recovered env now r (hdr_session h) fs (put_obj r (s1\<lparr>ss_pipe := p\<rparr>) sv))"

section \<open>Ping, join and hub discovery\<close>

definition simple_header :: "frame_type \<Rightarrow> session_id \<Rightarrow> header" where
  "simple_header ty n = \<lparr>hdr_type = ty, hdr_hub = 0, hdr_session = n, hdr_seq = 0\<rparr>"

definition auth_error_packet :: "session_id \<Rightarrow> string \<Rightarrow> bytes" where
  "auth_error_packet n msg = mk_packet (simple_header FrameAuth n) (AuthMsgError # marshal_auth_error msg)"

definition handle_ping :: "time \<Rightarrow> origin \<Rightarrow> header \<Rightarrow> server \<Rightarrow> effect list \<times> server" where
  "handle_ping now og h sv =
     (case find_session sv (hdr_session h) of
        None \<Rightarrow> ([SendTo (og_send og) (auth_error_packet (hdr_session h) ''session expired'')], sv)
      | Some r \<Rightarrow> ([SendTo (og_send og) (mk_packet (simple_header FramePong (hdr_session h)) [])],
                  put_obj r ((get_obj sv r)\<lparr>ss_last_seen := now\<rparr>) sv))"

definition handle_list_hubs :: "origin \<Rightarrow> server \<Rightarrow> effect list" where
  "handle_list_hubs og sv =
     [SendTo (og_send og) (mk_packet (simple_header FrameListHubs 0)
        (marshal_hub_list (map (\<lambda>h. \<lparr>hi_id = hcfg_id h, hi_name = hcfg_name h\<rparr>) (sc_hubs (sv_cfg sv)))))]"

definition handle_join :: "origin \<Rightarrow> header \<Rightarrow> server \<Rightarrow> server" where
  "handle_join og h sv =
     (if hdr_session h = 0 then sv
      else case find_session sv (hdr_session h) of
          None \<Rightarrow> sv
        | Some r \<Rightarrow> let s = get_obj sv r in
            if ss_raw2 s = None
            then put_obj r (s\<lparr>ss_raw2 := Some (og_send og), ss_addr2 := og_addr og, ss_close2 := og_close og\<rparr>) sv
            else sv)"

section \<open>Authentication\<close>

definition stored_hash :: "hub_config list \<Rightarrow> 16 word \<Rightarrow> string \<Rightarrow> string" where
  "stored_hash hubs hub login =
     foldl (\<lambda>a h. if hcfg_id h = hub
            then foldl (\<lambda>b u. if uc_login u = login then uc_hash u else b) a (hcfg_users h) else a) '''' hubs"

definition ip_banned :: "server \<Rightarrow> string \<Rightarrow> bool" where
  "ip_banned sv addr = (case split_host_port addr of Inl _ \<Rightarrow> False | Inr (ip, _) \<Rightarrow> ip \<in> set (sv_banned_ips sv))"

definition login_banned :: "server \<Rightarrow> string \<Rightarrow> 16 word \<Rightarrow> bool" where
  "login_banned sv login hub =
     (case map_of (sv_banned_logins sv) login of None \<Rightarrow> False | Some hubs \<Rightarrow> hub \<in> set hubs)"

definition kick_blocked :: "server \<Rightarrow> time \<Rightarrow> string \<Rightarrow> time option" where
  "kick_blocked sv now login =
     (case map_of (sv_kicked sv) login of None \<Rightarrow> None | Some t \<Rightarrow> if now < t then Some t else None)"

datatype auth_result = AuthSilent | AuthReject string | AuthGrant auth_hello

text \<open>The checks of \<open>handleAuth\<close> in their order.\<close>

definition auth_decide :: "env \<Rightarrow> time \<Rightarrow> string \<Rightarrow> bytes \<Rightarrow> server \<Rightarrow> auth_result" where
  "auth_decide env now addr payload sv =
     (if ip_banned sv addr then AuthReject ''banned''
      else case payload of
        [] \<Rightarrow> AuthSilent
      | b # body \<Rightarrow>
          if b \<noteq> AuthMsgHello then AuthSilent
          else case parse_auth_hello body of
            Inl _ \<Rightarrow> AuthReject ''malformed auth request''
          | Inr hello \<Rightarrow>
              if manager_get (ah_hub hello) (sv_hubs sv) = None then AuthReject ''hub not found''
              else let stored = stored_hash (sc_hubs (sv_cfg sv)) (ah_hub hello) (ah_login hello) in
                if stored = '''' then AuthReject ''invalid credentials''
                else if \<not> check_password (en_bcrypt env) (hex_encode (ah_pwhash hello)) stored
                  then AuthReject ''invalid credentials''
                else case kick_blocked sv now (ah_login hello) of
                    Some t \<Rightarrow> AuthReject (''kicked: reconnect after '' @ en_format_time env t)
                  | None \<Rightarrow> if login_banned sv (ah_login hello) (ah_hub hello) then AuthReject ''banned''
                            else AuthGrant hello)"

definition new_session_id :: "32 word \<Rightarrow> session_id" where
  "new_session_id rnd = (if rnd = 0 then 1 else rnd)"

definition session_key :: "env \<Rightarrow> auth_hello \<Rightarrow> crypto_error + bytes" where
  "session_key env hello = derive_key (en_sha256 env) (en_hkdf env) (hex_encode (ah_pwhash hello))
     (''hub'' @ itoa (uint (ah_hub hello))) ''server'' (ah_login hello)"

definition frag_enabled :: "origin \<Rightarrow> auth_hello \<Rightarrow> bool" where
  "frag_enabled og hello \<longleftrightarrow> og_mode og = ''udp'' \<and> ah_flags hello AND FlagFragment \<noteq> 0"

definition build_session ::
  "env \<Rightarrow> session_id \<Rightarrow> bytes \<Rightarrow> time \<Rightarrow> origin \<Rightarrow> auth_hello \<Rightarrow> fec_config \<Rightarrow> session option"
where
  "build_session env n salt now og hello fec =
     (case session_key env hello of
        Inl _ \<Rightarrow> None
      | Inr key \<Rightarrow>
          (case new_cipher salt key n of
             Inl _ \<Rightarrow> None
           | Inr c \<Rightarrow>
               (case new_pipe (en_rs env) (fc_k fec) (fc_r fec) (repair_delay_duration fec) True of
                  Inl _ \<Rightarrow> None
                | Inr p \<Rightarrow> Some
                    \<lparr>ss_id = n, ss_hub = ah_hub hello, ss_login = ah_login hello, ss_addr = og_addr og,
                     ss_mode = og_mode og, ss_connected = now, ss_raw = og_send og, ss_raw2 = None,
                     ss_addr2 = '''', ss_close = og_close og, ss_close2 = None, ss_cipher = c,
                     ss_window = replay_init, ss_pipe = p, ss_frag = frag_enabled og hello, ss_frag_id = 0,
                     ss_reasm = [], ss_last_seen = now, ss_rx = 0, ss_tx = 0, ss_hub_calls = 0,
                     ss_live = True\<rparr>)))"

text \<open>Registering: the session table, then the hub's client.\<close>

definition register_session :: "session \<Rightarrow> server \<Rightarrow> server" where
  "register_session s sv =
     (let r = length (sv_objs sv); n = ss_id s; hub = ss_hub s;
          sv1 = sv\<lparr>sv_objs := sv_objs sv @ [s], sv_sessions := mput n r (sv_sessions sv)\<rparr>
      in case manager_get hub (sv_hubs sv) of
          None \<Rightarrow> sv1
        | Some h \<Rightarrow> sv1\<lparr>sv_hubs := mput hub (hub_join \<lparr>hc_session = n, hc_login = ss_login s\<rparr> h) (sv_hubs sv),
            sv_clients := mput (hub, n) r (sv_clients sv)\<rparr>)"

definition auth_ok_packet :: "session \<Rightarrow> fec_config \<Rightarrow> bytes" where
  "auth_ok_packet s fec = mk_packet (simple_header FrameAuth 0)
     (AuthMsgOK # marshal_auth_ok \<lparr>ao_session = ss_id s, ao_k = of_int (fc_k fec), ao_r = of_int (fc_r fec),
        ao_delay = of_int (fc_delay fec), ao_flags = (if ss_frag s then FlagFragment else 0)\<rparr>)"

definition handle_auth ::
  "env \<Rightarrow> 32 word \<Rightarrow> bytes \<Rightarrow> time \<Rightarrow> origin \<Rightarrow> bytes \<Rightarrow> server \<Rightarrow> session_id \<times> effect list \<times> server"
where
  "handle_auth env rnd salt now og payload sv =
     (let reject = (\<lambda>msg. (0, [SendTo (og_send og) (auth_error_packet 0 msg)], sv)) in
      case auth_decide env now (og_addr og) payload sv of
        AuthSilent \<Rightarrow> (0, [], sv)
      | AuthReject msg \<Rightarrow> reject msg
      | AuthGrant hello \<Rightarrow>
          let fec = fec_defaults (sc_fec (sv_cfg sv)) in
          case build_session env (new_session_id rnd) salt now og hello fec of
            None \<Rightarrow> reject ''internal error''
          | Some s \<Rightarrow> (ss_id s, [SendTo (og_send og) (auth_ok_packet s fec)], register_session s sv))"

section \<open>Dispatch\<close>

definition handle_packet ::
  "env \<Rightarrow> 32 word \<Rightarrow> bytes \<Rightarrow> time \<Rightarrow> origin \<Rightarrow> bool \<Rightarrow> bytes \<Rightarrow> server \<Rightarrow> session_id \<times> effect list \<times> server"
where
  "handle_packet env rnd salt now og sec pkt sv =
     (case split_packet pkt of
        None \<Rightarrow> (0, [], sv)
      | Some (h, payload) \<Rightarrow>
          if hdr_type h = FrameAuth then
            (if sec then (0, [], sv) else handle_auth env rnd salt now og payload sv)
          else if hdr_type h = FrameData then (0, handle_data env now og sec h payload sv)
          else if hdr_type h = FrameDataFrag then (0, handle_frag env now og sec h payload sv)
          else if hdr_type h = FrameRepair then (0, handle_repair env now og sec h payload sv)
          else if hdr_type h = FrameJoin then (0, [], if sec then handle_join og h sv else sv)
          else if hdr_type h = FrameListHubs then (0, handle_list_hubs og sv, sv)
          else if hdr_type h = FramePing then (0, handle_ping now og h sv)
          else if hdr_type h = FrameUpdateGet then
            (0, if og_mode og \<noteq> ''udp'' \<and> og_mode og \<noteq> ''udp2''
                then map (SendTo (og_send og))
                  (handle_update_get (en_version env) (en_files env) (sv_cfg sv) (\<lambda>_. en_send_ok env (og_send og)) payload)
                else [], sv)
          else (0, [], sv))"

section \<open>The end of a session\<close>

definition close_of :: "endpoint option \<Rightarrow> effect list" where
  "close_of c = (case c of None \<Rightarrow> [] | Some e \<Rightarrow> [CloseConn e])"

definition leave_hub :: "16 word \<Rightarrow> session_id \<Rightarrow> server \<Rightarrow> server" where
  "leave_hub hub n sv =
     (case manager_get hub (sv_hubs sv) of
        None \<Rightarrow> sv
      | Some h \<Rightarrow> sv\<lparr>sv_hubs := mput hub (hub_leave n h) (sv_hubs sv),
                      sv_clients := mdel (hub, n) (sv_clients sv)\<rparr>)"

text \<open>Removal cancels the session's goroutines and closes the secondary connection.\<close>

definition remove_session :: "session_id \<Rightarrow> server \<Rightarrow> effect list \<times> server" where
  "remove_session n sv =
     (case find_session sv n of
        None \<Rightarrow> ([], sv)
      | Some r \<Rightarrow> let s = get_obj sv r in
          (close_of (ss_close2 s),
           leave_hub (ss_hub s) n
             (put_obj r (s\<lparr>ss_live := False\<rparr>) (sv\<lparr>sv_sessions := mdel n (sv_sessions sv)\<rparr>))))"

definition is_stale :: "time \<Rightarrow> session \<Rightarrow> bool" where
  "is_stale now s \<longleftrightarrow> ss_last_seen s < now - session_timeout"

fun cleanup_loop :: "time \<Rightarrow> (session_id \<times> nat) list \<Rightarrow> server \<Rightarrow> effect list \<times> server" where
  "cleanup_loop now [] sv = ([], sv)"
| "cleanup_loop now ((n, r) # es) sv =
     (if is_stale now (get_obj sv r)
      then (case remove_session n sv of (out, sv1) \<Rightarrow>
              case cleanup_loop now es sv1 of (rest, sv2) \<Rightarrow> (out @ rest, sv2))
      else cleanup_loop now es sv)"

definition cleanup_sessions :: "time \<Rightarrow> server \<Rightarrow> effect list \<times> server" where
  "cleanup_sessions now sv =
     (case cleanup_loop now (sv_sessions sv) sv of
        (out, sv1) \<Rightarrow> (out, sv1\<lparr>sv_kicked := mdrop (\<lambda>_ t. t < now) (sv_kicked sv1)\<rparr>))"

section \<open>Background goroutines of a session object\<close>

text \<open>\<open>StartFlush\<close> ticks and \<open>StartRepairSender\<close> steps run while the object is not cancelled.\<close>

definition flush_max_age :: time where "flush_max_age = 200 * millisecond"

definition flush_session :: "env \<Rightarrow> time \<Rightarrow> nat \<Rightarrow> server \<Rightarrow> effect list \<times> server" where
  "flush_session env now r sv =
     (let s = get_obj sv r in
      if r < length (sv_objs sv) \<and> ss_live s then
        (case pipe_flush now flush_max_age (ss_pipe s) of (fs, p) \<Rightarrow>
           forward_all env now r (ss_hub s) (ss_id s) fs (put_obj r (s\<lparr>ss_pipe := p\<rparr>) sv))
      else ([], sv))"

definition repair_session :: "env \<Rightarrow> time \<Rightarrow> nat \<Rightarrow> server \<Rightarrow> effect list \<times> server" where
  "repair_session env now r sv =
     (let s = get_obj sv r in
      if r < length (sv_objs sv) \<and> ss_live s then
        (case session_repairs env now s of (out, s') \<Rightarrow> (out, put_obj r s' sv))
      else ([], sv))"

section \<open>Stream connections\<close>

text \<open>\<open>serveStream\<close>: the frames of one TLS or Reality connection until its receive error.\<close>

type_synonym arrival = "32 word \<times> bytes \<times> time \<times> bytes"

fun serve_stream :: "env \<Rightarrow> origin \<Rightarrow> session_id \<Rightarrow> arrival list \<Rightarrow> server \<Rightarrow> effect list \<times> server" where
  "serve_stream env og n [] sv = (if n \<noteq> 0 then remove_session n sv else ([], sv))"
| "serve_stream env og n ((rnd, salt, now, pkt) # as) sv =
     (case handle_packet env rnd salt now og False pkt sv of (sid, out, sv1) \<Rightarrow>
        case serve_stream env og (if sid \<noteq> 0 then sid else n) as sv1 of (rest, sv2) \<Rightarrow> (out @ rest, sv2))"

text \<open>\<open>handleTCPConn2\<close>: the secondary connection joins a session first.\<close>

definition lose_secondary :: "session_id \<Rightarrow> server \<Rightarrow> server" where
  "lose_secondary n sv =
     (case find_session sv n of
        None \<Rightarrow> sv
      | Some r \<Rightarrow> put_obj r ((get_obj sv r)\<lparr>ss_raw2 := None, ss_addr2 := '''', ss_close2 := None\<rparr>) sv)"

definition secondary_packet ::
  "env \<Rightarrow> time \<Rightarrow> origin \<Rightarrow> session_id \<Rightarrow> bytes \<Rightarrow> server \<Rightarrow> session_id \<times> effect list \<times> server"
where
  "secondary_packet env now og n pkt sv =
     (case split_packet pkt of
        None \<Rightarrow> (n, [], sv)
      | Some (h, payload) \<Rightarrow>
          if n = 0 then
            (if hdr_type h = FrameJoin \<and> hdr_session h \<noteq> 0 then (hdr_session h, [], handle_join og h sv)
             else (n, [], sv))
          else if hdr_type h = FrameData then (n, handle_data env now og False h payload sv)
          else if hdr_type h = FrameRepair then (n, handle_repair env now og False h payload sv)
          else if hdr_type h = FramePing then (n, handle_ping now og h sv)
          else (n, [], sv))"

fun serve_secondary :: "env \<Rightarrow> origin \<Rightarrow> session_id \<Rightarrow> (time \<times> bytes) list \<Rightarrow> server \<Rightarrow> effect list \<times> server" where
  "serve_secondary env og n [] sv = ([], if n \<noteq> 0 then lose_secondary n sv else sv)"
| "serve_secondary env og n ((now, pkt) # as) sv =
     (case secondary_packet env now og n pkt sv of (n', out, sv1) \<Rightarrow>
        case serve_secondary env og n' as sv1 of (rest, sv2) \<Rightarrow> (out @ rest, sv2))"

section \<open>Kicks and bans\<close>

datatype api_reply =
    ApiNotFound
  | ApiError nat string
  | ApiKicked session_id string string
  | ApiIPBanned string
  | ApiIPUnbanned string bool
  | ApiLoginBanned string "16 word"
  | ApiLoginUnbanned string "16 word" bool
  | ApiBannedIPs "string list"
  | ApiBannedLogins "16 word" "string list"

definition path_parts :: "string \<Rightarrow> string list" where
  "path_parts path = split_at (CHR ''/'') (trim {CHR ''/''} path)"

definition save_banned_ips :: "env \<Rightarrow> server \<Rightarrow> server" where
  "save_banned_ips env sv = (if en_disk_ok env then sv\<lparr>sv_ip_file := Some (sort (sv_banned_ips sv))\<rparr> else sv)"

definition load_banned_ips :: "server \<Rightarrow> server" where
  "load_banned_ips sv =
     (case sv_ip_file sv of None \<Rightarrow> sv
      | Some ips \<Rightarrow> sv\<lparr>sv_banned_ips := foldl (\<lambda>b ip. List.insert ip b) (sv_banned_ips sv) ips\<rparr>)"

definition save_banned_logins :: "env \<Rightarrow> server \<Rightarrow> server" where
  "save_banned_logins env sv =
     (if en_disk_ok env
      then sv\<lparr>sv_login_file := Some (map (\<lambda>(l, hs). (l, sort_key unat hs)) (sv_banned_logins sv))\<rparr> else sv)"

definition load_banned_logins :: "server \<Rightarrow> server" where
  "load_banned_logins sv =
     (case sv_login_file sv of None \<Rightarrow> sv
      | Some f \<Rightarrow> sv\<lparr>sv_banned_logins := foldl (\<lambda>m (l, hs). mput l (remdups hs) m) (sv_banned_logins sv) f\<rparr>)"

definition note_login :: "string \<Rightarrow> string \<Rightarrow> server \<Rightarrow> server" where
  "note_login ip login sv =
     sv\<lparr>sv_ip_logins := mput ip (List.insert login
        (case map_of (sv_ip_logins sv) ip of None \<Rightarrow> [] | Some ls \<Rightarrow> ls)) (sv_ip_logins sv)\<rparr>"

definition addr_host :: "string \<Rightarrow> string" where
  "addr_host addr = (case split_host_port addr of Inl _ \<Rightarrow> '''' | Inr (h, _) \<Rightarrow> h)"

text \<open>A kicked session is closed and leaves its hub; its context is not cancelled.\<close>

definition close_kicked :: "session \<Rightarrow> session_id \<Rightarrow> server \<Rightarrow> effect list \<times> server" where
  "close_kicked s n sv = (close_of (ss_close s) @ close_of (ss_close2 s), leave_hub (ss_hub s) n sv)"

definition forget_session :: "time \<Rightarrow> session_id \<Rightarrow> session \<Rightarrow> server \<Rightarrow> server" where
  "forget_session now n s sv = sv\<lparr>sv_sessions := mdel n (sv_sessions sv),
     sv_kicked := mput (ss_login s) (now + kick_block_duration) (sv_kicked sv)\<rparr>"

definition api_kick :: "env \<Rightarrow> time \<Rightarrow> session_id \<Rightarrow> server \<Rightarrow> api_reply \<times> effect list \<times> server" where
  "api_kick env now n sv =
     (case find_session sv n of
        None \<Rightarrow> (ApiError 404 ''session not found'', [], sv)
      | Some r \<Rightarrow>
          let s = get_obj sv r; ip = addr_host (ss_addr s); sv1 = forget_session now n s sv;
              sv2 = (if ip \<noteq> ''''
                     then save_banned_ips env
                       (note_login ip (ss_login s) (sv1\<lparr>sv_banned_ips := List.insert ip (sv_banned_ips sv1)\<rparr>))
                     else sv1)
          in (ApiKicked n (ss_login s) ip, close_kicked s n sv2))"

fun kick_loop :: "time \<Rightarrow> (session \<Rightarrow> bool) \<Rightarrow> (session \<Rightarrow> server \<Rightarrow> server) \<Rightarrow> (session_id \<times> nat) list \<Rightarrow>
    server \<Rightarrow> session list \<times> server" where
  "kick_loop now P note [] sv = ([], sv)"
| "kick_loop now P note ((n, r) # es) sv =
     (let s = get_obj sv r in
      if P s then (case kick_loop now P note es (note s (forget_session now n s sv)) of (ks, sv') \<Rightarrow> (s # ks, sv'))
      else kick_loop now P note es sv)"

fun close_all :: "session list \<Rightarrow> server \<Rightarrow> effect list \<times> server" where
  "close_all [] sv = ([], sv)"
| "close_all (s # ss) sv =
     (case close_kicked s (ss_id s) sv of (out, sv1) \<Rightarrow>
        case close_all ss sv1 of (rest, sv2) \<Rightarrow> (out @ rest, sv2))"

definition kick_by_ip :: "time \<Rightarrow> string \<Rightarrow> server \<Rightarrow> effect list \<times> server" where
  "kick_by_ip now ip sv =
     (case kick_loop now (\<lambda>s. case split_host_port (ss_addr s) of Inl _ \<Rightarrow> False | Inr (h, _) \<Rightarrow> h = ip)
        (\<lambda>s. note_login ip (ss_login s)) (sv_sessions sv) sv of
      (ks, sv') \<Rightarrow> close_all ks sv')"

definition kick_by_login :: "time \<Rightarrow> string \<Rightarrow> 16 word \<Rightarrow> server \<Rightarrow> effect list \<times> server" where
  "kick_by_login now login hub sv =
     (case kick_loop now (\<lambda>s. ss_login s = login \<and> ss_hub s = hub) (\<lambda>_ sv. sv) (sv_sessions sv) sv of
      (ks, sv') \<Rightarrow> close_all ks sv')"

definition ip_ban :: "env \<Rightarrow> time \<Rightarrow> string \<Rightarrow> server \<Rightarrow> effect list \<times> server" where
  "ip_ban env now ip sv =
     kick_by_ip now ip (save_banned_ips env (sv\<lparr>sv_banned_ips := List.insert ip (sv_banned_ips sv)\<rparr>))"

definition ip_unban :: "env \<Rightarrow> string \<Rightarrow> server \<Rightarrow> bool \<times> server" where
  "ip_unban env ip sv =
     (let was = ip \<in> set (sv_banned_ips sv);
          logins = (case map_of (sv_ip_logins sv) ip of None \<Rightarrow> [] | Some ls \<Rightarrow> ls);
          sv1 = sv\<lparr>sv_banned_ips := removeAll ip (sv_banned_ips sv),
                   sv_kicked := mdrop (\<lambda>l _. l \<in> set logins) (sv_kicked sv),
                   sv_ip_logins := mdel ip (sv_ip_logins sv)\<rparr>
      in (was, if was then save_banned_ips env sv1 else sv1))"

definition handle_ip_ban :: "env \<Rightarrow> time \<Rightarrow> string \<Rightarrow> string \<Rightarrow> server \<Rightarrow> api_reply \<times> effect list \<times> server" where
  "handle_ip_ban env now method path sv =
     (case path_parts path of
        [a, b, ip, action] \<Rightarrow>
          if a \<noteq> ''api'' \<or> b \<noteq> ''ips'' then (ApiNotFound, [], sv)
          else if method \<noteq> ''POST'' then (ApiError 405 ''POST required'', [], sv)
          else if \<not> en_parse_ip env ip then (ApiError 400 ''invalid IP address'', [], sv)
          else if action = ''ban'' then (ApiIPBanned ip, ip_ban env now ip sv)
          else if action = ''unban'' then
            (case ip_unban env ip sv of (was, sv') \<Rightarrow> (ApiIPUnbanned ip was, [], sv'))
          else (ApiNotFound, [], sv)
      | _ \<Rightarrow> (ApiNotFound, [], sv))"

definition login_ban :: "env \<Rightarrow> time \<Rightarrow> string \<Rightarrow> 16 word \<Rightarrow> server \<Rightarrow> effect list \<times> server" where
  "login_ban env now login hub sv =
     kick_by_login now login hub (save_banned_logins env (sv\<lparr>sv_banned_logins := mput login
        (List.insert hub (case map_of (sv_banned_logins sv) login of None \<Rightarrow> [] | Some hs \<Rightarrow> hs))
        (sv_banned_logins sv)\<rparr>))"

definition login_unban :: "env \<Rightarrow> string \<Rightarrow> 16 word \<Rightarrow> server \<Rightarrow> bool \<times> server" where
  "login_unban env login hub sv =
     (let was = login_banned sv login hub;
          rest = (case map_of (sv_banned_logins sv) login of None \<Rightarrow> [] | Some hs \<Rightarrow> removeAll hub hs);
          sv1 = sv\<lparr>sv_banned_logins := (if rest = [] then mdel login (sv_banned_logins sv)
                                       else mput login rest (sv_banned_logins sv))\<rparr>
      in (was, if was then save_banned_logins env sv1 else sv1))"

definition handle_login_ban :: "env \<Rightarrow> time \<Rightarrow> string \<Rightarrow> string \<Rightarrow> server \<Rightarrow> api_reply \<times> effect list \<times> server" where
  "handle_login_ban env now method path sv =
     (case path_parts path of
        a # b # hs # action # rest \<Rightarrow>
          if a \<noteq> ''api'' \<or> b \<noteq> ''hubs'' then (ApiNotFound, [], sv)
          else case parse_uint 16 hs of
            None \<Rightarrow> (ApiError 400 ''invalid hub_id'', [], sv)
          | Some n \<Rightarrow> let hub = of_nat n in
              if method = ''GET'' \<and> action = ''loginbans'' \<and> rest = [] then
                (ApiBannedLogins hub (sort (map fst (filter (\<lambda>(l, hs). hub \<in> set hs) (sv_banned_logins sv)))), [], sv)
              else if method \<noteq> ''POST'' then (ApiError 405 ''POST required'', [], sv)
              else (case rest of
                  [login] \<Rightarrow>
                    if action = ''loginbans'' then (ApiLoginBanned login hub, login_ban env now login hub sv)
                    else if action = ''loginunbans'' then
                      (case login_unban env login hub sv of (was, sv') \<Rightarrow> (ApiLoginUnbanned login hub was, [], sv'))
                    else (ApiNotFound, [], sv)
                | _ \<Rightarrow> (ApiError 400 ''login required in path'', [], sv))
      | _ \<Rightarrow> (ApiNotFound, [], sv))"

definition handle_api :: "env \<Rightarrow> time \<Rightarrow> string \<Rightarrow> string \<Rightarrow> server \<Rightarrow> api_reply \<times> effect list \<times> server" where
  "handle_api env now method path sv =
     (let parts = path_parts path in
      if 4 \<le> length parts \<and> parts ! 0 = ''api'' \<and> parts ! 1 = ''hubs'' \<and>
         (parts ! 3 = ''loginbans'' \<or> parts ! 3 = ''loginunbans'')
      then handle_login_ban env now method path sv
      else if length parts = 4 \<and> parts ! 0 = ''api'' \<and> parts ! 1 = ''hubs'' \<and> parts ! 3 = ''kick''
      then (ApiError 400 ''use POST /api/hubs/{id}/kick/{session_id}'', [], sv)
      else if length parts \<noteq> 5 \<or> parts ! 0 \<noteq> ''api'' \<or> parts ! 1 \<noteq> ''hubs'' \<or> parts ! 3 \<noteq> ''kick''
      then (ApiNotFound, [], sv)
      else if method \<noteq> ''POST'' then (ApiError 405 ''POST required'', [], sv)
      else case parse_uint 32 (parts ! 4) of
          None \<Rightarrow> (ApiError 400 ''invalid session_id'', [], sv)
        | Some n \<Rightarrow> api_kick env now (of_nat n) sv)"

definition handle_bans :: "string \<Rightarrow> server \<Rightarrow> api_reply" where
  "handle_bans method sv =
     (if method \<noteq> ''GET'' then ApiError 405 ''GET required'' else ApiBannedIPs (sort (sv_banned_ips sv)))"

section \<open>The server's invariant\<close>

text \<open>
  Every id of the session table names an object with that id; every hub client's closure belongs to
  an object of that hub with that id; every hub stores exactly the clients that have a closure.
\<close>

definition server_ok :: "server \<Rightarrow> bool" where
  "server_ok sv \<longleftrightarrow>
     amap_ok (sv_sessions sv) \<and> amap_ok (sv_clients sv) \<and> amap_ok (sv_hubs sv) \<and> amap_ok (sv_kicked sv) \<and>
     (\<forall>n r. map_of (sv_sessions sv) n = Some r \<longrightarrow> r < length (sv_objs sv) \<and> ss_id (sv_objs sv ! r) = n) \<and>
     (\<forall>b n r. map_of (sv_clients sv) (b, n) = Some r \<longrightarrow>
        r < length (sv_objs sv) \<and> ss_id (sv_objs sv ! r) = n \<and> ss_hub (sv_objs sv ! r) = b) \<and>
     (\<forall>b h. map_of (sv_hubs sv) b = Some h \<longrightarrow> hub_ok h \<and> h_id h = b) \<and>
     (\<forall>b n. map_of (sv_clients sv) (b, n) \<noteq> None \<longleftrightarrow>
        (\<exists>h. map_of (sv_hubs sv) b = Some h \<and> n \<in> abs_clients h))"

text \<open>What a step that only touches session objects keeps.\<close>

definition same_identity :: "session \<Rightarrow> session \<Rightarrow> bool" where
  "same_identity s t \<longleftrightarrow> ss_id t = ss_id s \<and> ss_hub t = ss_hub s \<and> ss_login t = ss_login s \<and> ss_addr t = ss_addr s"

lemma same_session_identity: "same_session s t \<Longrightarrow> same_identity s t"
  by (simp add: same_session_def same_identity_def)

lemma put_obj_fields [simp]:
  "sv_hubs (put_obj r s sv) = sv_hubs sv" "sv_sessions (put_obj r s sv) = sv_sessions sv"
  "sv_clients (put_obj r s sv) = sv_clients sv" "sv_cfg (put_obj r s sv) = sv_cfg sv"
  "sv_kicked (put_obj r s sv) = sv_kicked sv" "sv_banned_ips (put_obj r s sv) = sv_banned_ips sv"
  "sv_banned_logins (put_obj r s sv) = sv_banned_logins sv" "length (sv_objs (put_obj r s sv)) = length (sv_objs sv)"
  by (simp_all add: put_obj_def)

lemma get_put_obj: "get_obj (put_obj r s sv) q = (if q = r \<and> r < length (sv_objs sv) then s else get_obj sv q)"
  by (cases "r < length (sv_objs sv)") (auto simp: get_obj_def put_obj_def nth_list_update list_update_beyond)

lemma server_ok_put_obj:
  assumes "server_ok sv" "same_identity (get_obj sv r) s"
  shows "server_ok (put_obj r s sv)"
proof -
  have k: "ss_id (sv_objs (put_obj r s sv) ! q) = ss_id (sv_objs sv ! q)"
      "ss_hub (sv_objs (put_obj r s sv) ! q) = ss_hub (sv_objs sv ! q)" for q
    using assms(2) get_put_obj [of r s sv q] by (auto simp: same_identity_def get_obj_def split: if_splits)
  show ?thesis using assms(1) unfolding server_ok_def put_obj_fields k by blast
qed

lemma server_ok_hub:
  assumes "server_ok sv" "map_of (sv_hubs sv) b = Some h" "hub_ok h'" "h_id h' = b" "abs_clients h' = abs_clients h"
  shows "server_ok (sv\<lparr>sv_hubs := mput b h' (sv_hubs sv)\<rparr>)"
  using assms unfolding server_ok_def by (auto split: if_splits)

lemma server_okD:
  assumes "server_ok sv"
  shows "find_session sv n = Some r \<Longrightarrow> r < length (sv_objs sv) \<and> ss_id (get_obj sv r) = n"
    and "map_of (sv_clients sv) (b, n) = Some r \<Longrightarrow>
      r < length (sv_objs sv) \<and> ss_id (get_obj sv r) = n \<and> ss_hub (get_obj sv r) = b"
    and "manager_get b (sv_hubs sv) = Some h \<Longrightarrow> hub_ok h \<and> h_id h = b"
  using assms by (auto simp: server_ok_def find_session_def get_obj_def manager_get_def)

text \<open>Two states that differ in session objects only, and there not in what \<open>same_session\<close> lists.\<close>

definition same_table :: "server \<Rightarrow> server \<Rightarrow> bool" where
  "same_table sv sv' \<longleftrightarrow> sv_sessions sv' = sv_sessions sv \<and> sv_clients sv' = sv_clients sv \<and>
     sv_cfg sv' = sv_cfg sv \<and> sv_kicked sv' = sv_kicked sv \<and> sv_banned_ips sv' = sv_banned_ips sv \<and>
     sv_banned_logins sv' = sv_banned_logins sv \<and> length (sv_objs sv') = length (sv_objs sv) \<and>
     (\<forall>r. same_session (get_obj sv r) (get_obj sv' r))"

lemma same_table_refl [simp]: "same_table sv sv"
  by (simp add: same_table_def)

lemma same_table_trans: "same_table a b \<Longrightarrow> same_table b c \<Longrightarrow> same_table a c"
  unfolding same_table_def using same_session_trans by fastforce

lemma same_table_put: "same_session (get_obj sv r) s \<Longrightarrow> same_table sv (put_obj r s sv)"
  by (simp add: same_table_def get_put_obj)

text \<open>The endpoints a frame from session \<open>n\<close> can reach through hub \<open>b\<close>.\<close>

definition peer_endpoints :: "server \<Rightarrow> 16 word \<Rightarrow> session_id \<Rightarrow> endpoint set" where
  "peer_endpoints sv b n =
     {e. \<exists>t r. t \<noteq> n \<and> map_of (sv_clients sv) (b, t) = Some r \<and> e \<in> session_endpoints (get_obj sv r)}"

lemma peer_endpoints_same: "same_table sv sv' \<Longrightarrow> peer_endpoints sv' b n = peer_endpoints sv b n"
  unfolding peer_endpoints_def same_table_def using same_session_endpoints by fastforce

lemma deliver_spec:
  "deliver env now b f ts sv = (out, sv') \<Longrightarrow> server_ok sv \<Longrightarrow> n \<notin> set ts \<Longrightarrow>
     server_ok sv' \<and> same_table sv sv' \<and> sv_hubs sv' = sv_hubs sv \<and> effects_to (peer_endpoints sv b n) out"
proof (induction ts arbitrary: sv out sv')
  case (Cons t ts)
  show ?case
  proof (cases "map_of (sv_clients sv) (b, t)")
    case None
    then show ?thesis using Cons by simp
  next
    case (Some r)
    obtain o1 s where s: "session_send env now f (get_obj sv r) = (o1, s)" by fastforce
    obtain o2 sv2 where d: "deliver env now b f ts (put_obj r s sv) = (o2, sv2)" by fastforce
    have out: "out = o1 @ o2" "sv' = sv2" using Cons.prems Some s d by simp_all
    note sp = session_send_spec [OF s]
    have t: "same_table sv (put_obj r s sv)" using sp by (intro same_table_put) simp
    have ok: "server_ok (put_obj r s sv)"
      using Cons.prems sp same_session_identity by (intro server_ok_put_obj) auto
    from Cons.IH [OF d ok] Cons.prems
    have ih: "server_ok sv2 \<and> same_table (put_obj r s sv) sv2 \<and> sv_hubs sv2 = sv_hubs (put_obj r s sv) \<and>
        effects_to (peer_endpoints (put_obj r s sv) b n) o2" by simp
    have "session_endpoints (get_obj sv r) \<subseteq> peer_endpoints sv b n"
      using Some Cons.prems(3) by (auto simp: peer_endpoints_def)
    then show ?thesis
      using ih t sp out same_table_trans peer_endpoints_same [OF t] effects_to_mono by auto
  qed
qed simp

lemma hub_targets_other:
  assumes "hub_ok h" "hub_forward now n f h = (ts, h')"
  shows "n \<notin> set ts" "hub_ok h'" "h_id h' = h_id h" "abs_clients h' = abs_clients h"
proof -
  show ok: "hub_ok h'" using hub_step_ok [OF assms(1), of "HubFrame now n f"] assms(2) by (simp add: hub_step_def)
  show "h_id h' = h_id h" "abs_clients h' = abs_clients h"
    using assms(2) by (auto simp: hub_forward_def Let_def abs_clients_def split: if_splits)
  show "n \<notin> set ts"
    using assms by (auto simp: hub_forward_def Let_def hub_targets_def flood_targets_def
        split: if_splits option.splits)
qed

lemma forward_spec:
  assumes "forward env now b n f sv = (out, sv')" "server_ok sv"
  shows "server_ok sv' \<and> same_table sv sv' \<and> effects_to (peer_endpoints sv b n) out"
proof (cases "manager_get b (sv_hubs sv)")
  case None
  then show ?thesis using assms by (simp add: forward_def)
next
  case (Some h)
  obtain ts h' where f: "hub_forward now n f h = (ts, h')" by fastforce
  let ?sv = "sv\<lparr>sv_hubs := mput b h' (sv_hubs sv)\<rparr>"
  have d: "deliver env now b f ts ?sv = (out, sv')" using assms Some f by (simp add: forward_def)
  have h: "hub_ok h" "h_id h = b" using server_okD(3) [OF assms(2) Some] by simp_all
  note t = hub_targets_other [OF h(1) f]
  have ok: "server_ok ?sv" using assms(2) Some t h by (intro server_ok_hub) (simp_all add: manager_get_def)
  have st: "same_table sv ?sv" by (simp add: same_table_def get_obj_def)
  show ?thesis using deliver_spec [OF d ok t(1)] st same_table_trans peer_endpoints_same [OF st] by auto
qed

lemma forward_all_spec:
  "forward_all env now r b n fs sv = (out, sv') \<Longrightarrow> server_ok sv \<Longrightarrow>
     server_ok sv' \<and> same_table sv sv' \<and> effects_to (peer_endpoints sv b n) out"
proof (induction fs arbitrary: sv out sv')
  case (Cons f fs)
  show ?case
  proof (cases "length f < 14")
    case True
    then show ?thesis using Cons by simp
  next
    case False
    let ?sv = "count_rx r sv"
    have t: "same_table sv ?sv" unfolding count_rx_def by (rule same_table_put) (simp add: same_session_def)
    have ok: "server_ok ?sv" unfolding count_rx_def
      using Cons.prems(2) by (rule server_ok_put_obj) (simp add: same_identity_def)
    obtain o1 sv1 where f: "forward env now b n f ?sv = (o1, sv1)" by fastforce
    obtain o2 sv2 where a: "forward_all env now r b n fs sv1 = (o2, sv2)" by fastforce
    have out: "out = o1 @ o2" "sv' = sv2" using Cons.prems False f a by simp_all
    note fs = forward_spec [OF f ok]
    then have t1: "same_table sv sv1" using t same_table_trans by blast
    have ih: "server_ok sv2 \<and> same_table sv1 sv2 \<and> effects_to (peer_endpoints sv1 b n) o2"
      using Cons.IH [OF a] fs by blast
    have "same_table sv sv2" using ih t1 same_table_trans by blast
    moreover have "effects_to (peer_endpoints sv b n) o1" "effects_to (peer_endpoints sv b n) o2"
      using fs ih peer_endpoints_same [OF t] peer_endpoints_same [OF t1] by simp_all
    ultimately show ?thesis using out ih by simp
  qed
qed simp

lemma forward_recovered_spec:
  "forward_recovered env now r n fs sv = (out, sv') \<Longrightarrow> server_ok sv \<Longrightarrow>
     server_ok sv' \<and> same_table sv sv' \<and> effects_to (peer_endpoints sv (ss_hub (get_obj sv r)) n) out"
  by (auto simp: forward_recovered_def Let_def split: option.splits dest!: forward_all_spec)

text \<open>An update of a session's own object cannot change what the other clients of a hub receive on.\<close>

lemma peer_endpoints_put:
  assumes "server_ok sv" "r < length (sv_objs sv)" "ss_id (get_obj sv r) = n"
  shows "peer_endpoints (put_obj r s sv) b n = peer_endpoints sv b n"
proof -
  have "q \<noteq> r" if "map_of (sv_clients sv) (b, t) = Some q" "t \<noteq> n" for t q
    using server_okD(2) [OF assms(1) that(1)] that(2) assms(3) by auto
  then show ?thesis by (auto simp: peer_endpoints_def get_put_obj)
qed

text \<open>The common end of the three data handlers: the session object is replaced, recovered frames go to the hub.\<close>

lemma put_forward_spec:
  assumes ok: "server_ok sv" and r: "find_session sv n = Some r" and s: "same_identity (get_obj sv r) s"
    and f: "forward_recovered env now r n fs (put_obj r s sv) = (out, sv')"
  shows "server_ok sv' \<and> effects_to (peer_endpoints sv (ss_hub (get_obj sv r)) n) out"
proof -
  note d = server_okD(1) [OF ok r]
  have hub: "ss_hub (get_obj (put_obj r s sv) r) = ss_hub (get_obj sv r)"
    using s d by (simp add: get_put_obj same_identity_def)
  from forward_recovered_spec [OF f server_ok_put_obj [OF ok s]] show ?thesis
    using peer_endpoints_put [OF ok] d hub by simp
qed

lemma register_secondary_identity [simp]:
  "same_identity s (register_secondary sec og t) \<longleftrightarrow> same_identity s t"
  "ss_pipe (register_secondary sec og t) = ss_pipe t" "ss_reasm (register_secondary sec og t) = ss_reasm t"
  by (simp_all add: register_secondary_def same_identity_def)

lemma same_identity_updates [simp]:
  "same_identity s (t\<lparr>ss_pipe := p\<rparr>) \<longleftrightarrow> same_identity s t"
  "same_identity s (t\<lparr>ss_reasm := ra\<rparr>) \<longleftrightarrow> same_identity s t"
  "same_identity s (t\<lparr>ss_window := w\<rparr>) \<longleftrightarrow> same_identity s t"
  "same_identity s (t\<lparr>ss_last_seen := now\<rparr>) \<longleftrightarrow> same_identity s t"
  "same_identity s (t\<lparr>ss_live := l\<rparr>) \<longleftrightarrow> same_identity s t"
  "same_identity s (t\<lparr>ss_raw2 := e\<rparr>) \<longleftrightarrow> same_identity s t"
  "same_identity s (t\<lparr>ss_addr2 := a\<rparr>) \<longleftrightarrow> same_identity s t"
  "same_identity s (t\<lparr>ss_close2 := c\<rparr>) \<longleftrightarrow> same_identity s t"
  "same_identity s s"
  by (simp_all add: same_identity_def)

text \<open>What a data packet may cause: nothing, or frames to the other members of the session's hub.\<close>

definition data_outcome :: "server \<Rightarrow> session_id \<Rightarrow> effect list \<times> server \<Rightarrow> bool" where
  "data_outcome sv n res \<longleftrightarrow> server_ok (snd res) \<and>
     (case find_session sv n of
        None \<Rightarrow> res = ([], sv)
      | Some r \<Rightarrow> effects_to (peer_endpoints sv (ss_hub (get_obj sv r)) n) (fst res))"

lemma data_outcome_put:
  "server_ok sv \<Longrightarrow> find_session sv n = Some r \<Longrightarrow> same_identity (get_obj sv r) s \<Longrightarrow>
     data_outcome sv n ([], put_obj r s sv)"
  by (simp add: data_outcome_def server_ok_put_obj)

lemma data_outcome_forward:
  assumes "server_ok sv" "find_session sv n = Some r" "same_identity (get_obj sv r) s"
  shows "data_outcome sv n (forward_recovered env now r n fs (put_obj r s sv))"
  using put_forward_spec [OF assms, of env now fs]
  by (cases "forward_recovered env now r n fs (put_obj r s sv)") (simp add: data_outcome_def assms(2))

lemma handle_data_outcome:
  "server_ok sv \<Longrightarrow> data_outcome sv (hdr_session h) (handle_data env now og sec h payload sv)"
  unfolding handle_data_def Let_def
  by (auto split: option.split prod.split sum.split intro!: data_outcome_put data_outcome_forward)
    (simp add: data_outcome_def)

lemma handle_frag_outcome:
  "server_ok sv \<Longrightarrow> data_outcome sv (hdr_session h) (handle_frag env now og sec h payload sv)"
  unfolding handle_frag_def Let_def
  by (auto split: option.split prod.split sum.split intro!: data_outcome_put data_outcome_forward)
    (simp add: data_outcome_def)

lemma handle_repair_outcome:
  "server_ok sv \<Longrightarrow> data_outcome sv (hdr_session h) (handle_repair env now og sec h payload sv)"
  unfolding handle_repair_def Let_def
  by (auto split: option.split prod.split sum.split intro!: data_outcome_put data_outcome_forward)
    (simp_all add: data_outcome_def)

section \<open>Sessions come and go\<close>

lemma server_ok_register:
  assumes "server_ok sv"
  shows "server_ok (register_session s sv)"
proof -
  have nth: "(sv_objs sv @ [s]) ! q = sv_objs sv ! q" if "q < length (sv_objs sv)" for q
    using that by (simp add: nth_append)
  show ?thesis
  proof (cases "manager_get (ss_hub s) (sv_hubs sv)")
    case None
    then show ?thesis using assms unfolding server_ok_def register_session_def Let_def
      by (auto simp: nth less_Suc_eq)
  next
    case (Some h)
    have h: "hub_ok h" "h_id h = ss_hub s" using server_okD(3) [OF assms Some] by simp_all
    let ?h = "hub_join \<lparr>hc_session = ss_id s, hc_login = ss_login s\<rparr> h"
    have hj: "hub_ok ?h" using hub_step_ok [OF h(1), of "HubJoin \<lparr>hc_session = ss_id s, hc_login = ss_login s\<rparr>"]
      by (simp add: hub_step_def)
    have hi: "h_id ?h = ss_hub s" "abs_clients ?h = insert (ss_id s) (abs_clients h)"
      using h by (auto simp: hub_join_def abs_clients_def)
    show ?thesis using assms Some hj hi unfolding server_ok_def register_session_def Let_def
      by (auto simp: nth less_Suc_eq manager_get_def)
  qed
qed

lemma server_ok_leave:
  assumes "server_ok sv"
  shows "server_ok (leave_hub b n sv)"
proof (cases "manager_get b (sv_hubs sv)")
  case None
  then show ?thesis using assms by (simp add: leave_hub_def)
next
  case (Some h)
  have h: "hub_ok h" "h_id h = b" using server_okD(3) [OF assms Some] by simp_all
  have hl: "hub_ok (hub_leave n h)" using hub_step_ok [OF h(1), of "HubLeave n"] by (simp add: hub_step_def)
  have hi: "h_id (hub_leave n h) = b" "abs_clients (hub_leave n h) = abs_clients h - {n}"
    using h by (auto simp: hub_leave_def abs_clients_def split: if_splits)
  show ?thesis using assms Some hl hi unfolding server_ok_def leave_hub_def
    by (auto simp: manager_get_def split: if_splits)
qed

lemma server_ok_drop_session:
  "server_ok sv \<Longrightarrow> server_ok (sv\<lparr>sv_sessions := mdel n (sv_sessions sv)\<rparr>)"
  unfolding server_ok_def by (auto split: if_splits)

lemma server_ok_other_fields [simp]:
  "server_ok (sv\<lparr>sv_banned_ips := a\<rparr>) = server_ok sv" "server_ok (sv\<lparr>sv_ip_logins := b\<rparr>) = server_ok sv"
  "server_ok (sv\<lparr>sv_banned_logins := c\<rparr>) = server_ok sv" "server_ok (sv\<lparr>sv_ip_file := d\<rparr>) = server_ok sv"
  "server_ok (sv\<lparr>sv_login_file := e\<rparr>) = server_ok sv"
  by (simp_all add: server_ok_def)

lemma server_ok_kicked: "server_ok sv \<Longrightarrow> amap_ok k \<Longrightarrow> server_ok (sv\<lparr>sv_kicked := k\<rparr>)"
  by (simp add: server_ok_def)

lemma server_ok_kicked_ok: "server_ok sv \<Longrightarrow> amap_ok (sv_kicked sv)"
  by (simp add: server_ok_def)

lemma remove_session_ok: "server_ok sv \<Longrightarrow> server_ok (snd (remove_session n sv))"
  unfolding remove_session_def Let_def
  by (auto split: option.split intro!: server_ok_leave server_ok_put_obj server_ok_drop_session
      simp: get_obj_def)

lemma cleanup_loop_ok: "server_ok sv \<Longrightarrow> server_ok (snd (cleanup_loop now es sv))"
proof (induction es arbitrary: sv)
  case (Cons e es)
  obtain n r where e: "e = (n, r)" by fastforce
  show ?case using Cons.IH remove_session_ok [OF Cons.prems, of n] Cons.prems
    by (simp add: e case_prod_beta)
qed simp

lemma cleanup_sessions_ok: "server_ok sv \<Longrightarrow> server_ok (snd (cleanup_sessions now sv))"
  using cleanup_loop_ok [of sv now "sv_sessions sv"]
  by (auto simp: cleanup_sessions_def case_prod_beta intro!: server_ok_kicked dest: server_ok_kicked_ok)

lemma forget_session_ok: "server_ok sv \<Longrightarrow> server_ok (forget_session now n s sv)"
  unfolding forget_session_def
  using server_ok_kicked [OF server_ok_drop_session, of sv "mput (ss_login s) (now + kick_block_duration) (sv_kicked sv)" n]
  by (simp add: server_ok_kicked_ok)

lemma save_ok [simp]:
  "server_ok (save_banned_ips env sv) = server_ok sv" "server_ok (save_banned_logins env sv) = server_ok sv"
  "server_ok (note_login ip login sv) = server_ok sv"
  by (simp_all add: save_banned_ips_def save_banned_logins_def note_login_def)

lemma close_all_ok: "server_ok sv \<Longrightarrow> server_ok (snd (close_all ss sv))"
  by (induction ss arbitrary: sv) (simp_all add: close_kicked_def case_prod_beta server_ok_leave)

lemma kick_loop_ok:
  assumes nt: "\<And>s sv. server_ok sv \<Longrightarrow> server_ok (note s sv)"
  shows "server_ok sv \<Longrightarrow> server_ok (snd (kick_loop now P note es sv))"
proof (induction es arbitrary: sv)
  case (Cons e es)
  then show ?case using nt forget_session_ok by (cases e) (simp add: case_prod_beta Let_def)
qed simp

lemma ip_ban_ok: "server_ok sv \<Longrightarrow> server_ok (snd (ip_ban env now ip sv))"
  unfolding ip_ban_def kick_by_ip_def case_prod_beta by (intro close_all_ok kick_loop_ok) simp_all

lemma login_ban_ok: "server_ok sv \<Longrightarrow> server_ok (snd (login_ban env now login b sv))"
  unfolding login_ban_def kick_by_login_def case_prod_beta by (intro close_all_ok kick_loop_ok) simp_all

lemma ip_unban_ok: "server_ok sv \<Longrightarrow> server_ok (snd (ip_unban env ip sv))"
proof -
  assume ok: "server_ok sv"
  have k: "amap_ok (mdrop P (sv_kicked sv))" for P using server_ok_kicked_ok [OF ok] by simp
  have "server_ok (sv\<lparr>sv_banned_ips := a, sv_kicked := mdrop P (sv_kicked sv), sv_ip_logins := c\<rparr>)" for a P c
    using ok k [of P] by (simp add: server_ok_def)
  then show ?thesis by (simp only: ip_unban_def Let_def snd_conv save_ok split: if_split) simp
qed

lemma login_unban_ok: "server_ok sv \<Longrightarrow> server_ok (snd (login_unban env login b sv))"
  by (simp add: login_unban_def Let_def)

lemma api_kick_ok: "server_ok sv \<Longrightarrow> server_ok (snd (snd (api_kick env now n sv)))"
  unfolding api_kick_def Let_def close_kicked_def
  by (auto split: option.split intro!: server_ok_leave forget_session_ok)

lemma handle_ip_ban_ok: "server_ok sv \<Longrightarrow> server_ok (snd (snd (handle_ip_ban env now m p sv)))"
  unfolding handle_ip_ban_def
  by (auto split: list.split simp: case_prod_beta ip_ban_ok ip_unban_ok)

lemma handle_login_ban_ok: "server_ok sv \<Longrightarrow> server_ok (snd (snd (handle_login_ban env now m p sv)))"
  unfolding handle_login_ban_def Let_def
  by (auto split: list.split option.split simp: case_prod_beta login_ban_ok login_unban_ok)

lemma handle_api_ok: "server_ok sv \<Longrightarrow> server_ok (snd (snd (handle_api env now m p sv)))"
  unfolding handle_api_def Let_def
  by (auto split: option.split simp: handle_login_ban_ok api_kick_ok)

lemma handle_join_ok: "server_ok sv \<Longrightarrow> server_ok (handle_join og h sv)"
  unfolding handle_join_def Let_def by (auto split: option.split intro!: server_ok_put_obj)

lemma lose_secondary_ok: "server_ok sv \<Longrightarrow> server_ok (lose_secondary n sv)"
  unfolding lose_secondary_def by (auto split: option.split intro!: server_ok_put_obj)

lemma handle_ping_ok: "server_ok sv \<Longrightarrow> server_ok (snd (handle_ping now og h sv))"
  unfolding handle_ping_def by (auto split: option.split intro!: server_ok_put_obj)

lemma handle_auth_ok: "server_ok sv \<Longrightarrow> server_ok (snd (snd (handle_auth env rnd salt now og payload sv)))"
  unfolding handle_auth_def Let_def
  by (auto split: option.split auth_result.split intro!: server_ok_register)

lemma handle_data_ok:
  "server_ok sv \<Longrightarrow> server_ok (snd (handle_data env now og sec h payload sv))"
  "server_ok sv \<Longrightarrow> server_ok (snd (handle_frag env now og sec h payload sv))"
  "server_ok sv \<Longrightarrow> server_ok (snd (handle_repair env now og sec h payload sv))"
  using handle_data_outcome [of sv h env now og sec payload] handle_frag_outcome [of sv h env now og sec payload]
    handle_repair_outcome [of sv h env now og sec payload] by (simp_all add: data_outcome_def)

lemma handle_packet_ok:
  "server_ok sv \<Longrightarrow> server_ok (snd (snd (handle_packet env rnd salt now og sec pkt sv)))"
  unfolding handle_packet_def
  by (auto split: option.split simp: handle_auth_ok handle_data_ok handle_join_ok handle_ping_ok)

lemma secondary_packet_ok:
  "server_ok sv \<Longrightarrow> server_ok (snd (snd (secondary_packet env now og n pkt sv)))"
  unfolding secondary_packet_def
  by (auto split: option.split simp: handle_data_ok handle_join_ok handle_ping_ok)

lemma repair_session_ok: "server_ok sv \<Longrightarrow> server_ok (snd (repair_session env now r sv))"
proof -
  assume ok: "server_ok sv"
  obtain out s where s: "session_repairs env now (get_obj sv r) = (out, s)" by fastforce
  show ?thesis using server_ok_put_obj [OF ok same_session_identity] session_repairs_spec [OF s] s ok
    by (simp add: repair_session_def Let_def)
qed

lemma flush_session_spec:
  assumes ok: "server_ok sv" and f: "flush_session env now r sv = (out, sv')"
  shows "server_ok sv'"
proof (cases "r < length (sv_objs sv) \<and> ss_live (get_obj sv r)")
  case True
  obtain fs p where p: "pipe_flush now flush_max_age (ss_pipe (get_obj sv r)) = (fs, p)" by fastforce
  have "server_ok (put_obj r ((get_obj sv r)\<lparr>ss_pipe := p\<rparr>) sv)" using ok by (intro server_ok_put_obj) simp_all
  then show ?thesis using f True p forward_all_spec by (fastforce simp: flush_session_def Let_def)
next
  case False
  then have "sv' = sv" using f unfolding flush_session_def Let_def by (simp only: if_False prod.inject)
  then show ?thesis using ok by simp
qed

section \<open>The server as a machine\<close>

text \<open>
  Everything that can happen to a running server, one handler at a time: the session and hub locks
  make each handler's access to the tables atomic.
\<close>

datatype server_event =
    Packet "32 word" bytes time origin bool bytes
  | SecondaryPacket time origin session_id bytes
  | StreamLost session_id
  | SecondaryLost session_id
  | Cleanup time
  | FlushTick time nat
  | RepairTick time nat
  | ApiCall time string string
  | IPCall time string string

definition server_event_step :: "env \<Rightarrow> server \<Rightarrow> server_event \<Rightarrow> effect list \<times> server" where
  "server_event_step env sv ev = (case ev of
      Packet rnd salt now og sec pkt \<Rightarrow> snd (handle_packet env rnd salt now og sec pkt sv)
    | SecondaryPacket now og n pkt \<Rightarrow> snd (secondary_packet env now og n pkt sv)
    | StreamLost n \<Rightarrow> remove_session n sv
    | SecondaryLost n \<Rightarrow> ([], lose_secondary n sv)
    | Cleanup now \<Rightarrow> cleanup_sessions now sv
    | FlushTick now r \<Rightarrow> flush_session env now r sv
    | RepairTick now r \<Rightarrow> repair_session env now r sv
    | ApiCall now m p \<Rightarrow> snd (handle_api env now m p sv)
    | IPCall now m p \<Rightarrow> snd (handle_ip_ban env now m p sv))"

definition server_step :: "env \<Rightarrow> server \<Rightarrow> server_event \<Rightarrow> server" where
  "server_step env sv ev = snd (server_event_step env sv ev)"

lemma server_step_ok: "server_ok sv \<Longrightarrow> server_ok (server_step env sv ev)"
  using flush_session_spec [of sv env]
  by (cases ev) (auto simp: server_step_def server_event_step_def handle_packet_ok secondary_packet_ok
      remove_session_ok lose_secondary_ok cleanup_sessions_ok repair_session_ok handle_api_ok
      handle_ip_ban_ok prod_eq_iff)

lemma new_server_ok: "server_ok (new_server cfg)"
proof -
  have inv: "amap_ok m \<and> (\<forall>b h. map_of m b = Some h \<longrightarrow> hub_ok h \<and> h_id h = b \<and> abs_clients h = {}) \<Longrightarrow>
      amap_ok (foldl (\<lambda>m h. manager_add (new_hub (hcfg_id h) (hcfg_name h)) m) m hs) \<and>
      (\<forall>b h. map_of (foldl (\<lambda>m h. manager_add (new_hub (hcfg_id h) (hcfg_name h)) m) m hs) b = Some h \<longrightarrow>
        hub_ok h \<and> h_id h = b \<and> abs_clients h = {})" for hs m
  proof (induction hs arbitrary: m)
    case (Cons c hs)
    show ?case using Cons.prems
      by (simp, intro Cons.IH) (auto simp: manager_add_def new_hub_def hub_ok_def abs_clients_def)
  qed simp
  show ?thesis using inv [of "[]" "sc_hubs cfg"] by (auto simp: server_ok_def new_server_def)
qed

interpretation server: machine "new_server cfg" "server_step env" server_ok for cfg env
  by unfold_locales (simp_all add: new_server_ok server_step_ok)

section \<open>What the handlers guarantee\<close>

text \<open>
  Every effect of a packet is a reply to its sender, or a frame on an endpoint of another member of
  the hub of the session the packet names.
\<close>

lemma effects_reply: "effects_to {og_send og} [SendTo (og_send og) p]"
  by (simp add: effects_to_def)

lemma handler_replies:
  "effects_to {og_send og} (fst (snd (handle_auth env rnd salt now og payload sv)))"
  "effects_to {og_send og} (fst (handle_ping now og h sv))"
  "effects_to {og_send og} (handle_list_hubs og sv)"
  "effects_to {e} (map (SendTo e) ps)"
  by (auto simp: handle_auth_def handle_ping_def handle_list_hubs_def Let_def effects_to_def
      split: option.split auth_result.split)

lemma handle_packet_isolated:
  assumes ok: "server_ok sv" and h: "handle_packet env rnd salt now og sec pkt sv = (sid, out, sv')"
  shows "effects_to {og_send og} out \<or>
    (\<exists>hd payload r. split_packet pkt = Some (hd, payload) \<and> find_session sv (hdr_session hd) = Some r \<and>
       effects_to (peer_endpoints sv (ss_hub (get_obj sv r)) (hdr_session hd)) out)"
proof (cases "split_packet pkt")
  case None
  then show ?thesis using h by (auto simp: handle_packet_def)
next
  case (Some hp)
  obtain hd payload where hp: "split_packet pkt = Some (hd, payload)" using Some by (cases hp) simp
  show ?thesis
  proof (cases "hdr_type hd = FrameData \<or> hdr_type hd = FrameDataFrag \<or> hdr_type hd = FrameRepair")
    case True
    have d: "data_outcome sv (hdr_session hd) (out, sv')"
      using h hp True handle_data_outcome [OF ok, of hd env now og sec payload]
        handle_frag_outcome [OF ok, of hd env now og sec payload]
        handle_repair_outcome [OF ok, of hd env now og sec payload]
      by (auto simp: handle_packet_def FrameData_def FrameDataFrag_def FrameRepair_def FrameAuth_def)
    show ?thesis
    proof (cases "find_session sv (hdr_session hd)")
      case None
      then show ?thesis using d by (simp add: data_outcome_def)
    next
      case (Some r)
      then show ?thesis using d hp by (auto simp: data_outcome_def)
    qed
  next
    case False
    then have n: "hdr_type hd \<noteq> FrameData" "hdr_type hd \<noteq> FrameDataFrag" "hdr_type hd \<noteq> FrameRepair"
      by simp_all
    have "effects_to {og_send og} (fst (snd (handle_packet env rnd salt now og sec pkt sv)))"
      unfolding handle_packet_def hp by (simp add: n handler_replies)
    then have "effects_to {og_send og} out" by (simp add: h)
    then show ?thesis ..
  qed
qed

text \<open>The decision of \<open>handleAuth\<close>: every check holds when a session is granted.\<close>

lemma auth_grant_iff:
  "auth_decide env now addr payload sv = AuthGrant hello \<longleftrightarrow>
     \<not> ip_banned sv addr \<and> payload \<noteq> [] \<and> hd payload = AuthMsgHello \<and>
     parse_auth_hello (tl payload) = Inr hello \<and> manager_get (ah_hub hello) (sv_hubs sv) \<noteq> None \<and>
     stored_hash (sc_hubs (sv_cfg sv)) (ah_hub hello) (ah_login hello) \<noteq> '''' \<and>
     en_bcrypt env (stored_hash (sc_hubs (sv_cfg sv)) (ah_hub hello) (ah_login hello))
       (hex_encode (ah_pwhash hello)) \<and>
     kick_blocked sv now (ah_login hello) = None \<and> \<not> login_banned sv (ah_login hello) (ah_hub hello)"
  by (auto simp: auth_decide_def check_password_def Let_def
      split: list.split sum.split option.split if_splits)

text \<open>\<open>stored_hash\<close> is the hash of some configured user of that hub with that login.\<close>

lemma stored_hash_user:
  assumes "stored_hash hubs b login \<noteq> ''''"
  shows "\<exists>h \<in> set hubs. \<exists>u \<in> set (hcfg_users h).
    hcfg_id h = b \<and> uc_login u = login \<and> uc_hash u = stored_hash hubs b login"
proof -
  let ?user = "\<lambda>b u. if uc_login u = login then uc_hash u else b"
  have inner: "foldl ?user a us = a \<or> (\<exists>u \<in> set us. uc_login u = login \<and> uc_hash u = foldl ?user a us)" for a us
  proof (induction us arbitrary: a)
    case (Cons u us)
    show ?case using Cons.IH [of "?user a u"] by auto
  qed simp
  let ?hub = "\<lambda>a h. if hcfg_id h = b then foldl ?user a (hcfg_users h) else a"
  have "foldl ?hub a hs = a \<or> (\<exists>h \<in> set hs. \<exists>u \<in> set (hcfg_users h).
      hcfg_id h = b \<and> uc_login u = login \<and> uc_hash u = foldl ?hub a hs)" for a hs
  proof (induction hs arbitrary: a)
    case (Cons h hs)
    show ?case using Cons.IH [of "?hub a h"] inner [of a "hcfg_users h"] by auto
  qed simp
  then show ?thesis using assms unfolding stored_hash_def by blast
qed

text \<open>A granted session is registered under its id with the key both sides derive.\<close>

lemma build_session_id: "build_session env n salt now og hello fec = Some s \<Longrightarrow> ss_id s = n"
  by (auto simp: build_session_def split: sum.splits)

lemma handle_auth_refused:
  assumes "handle_auth env rnd salt now og payload sv = (0, out, sv')"
  shows "sv' = sv \<and> effects_to {og_send og} out"
proof -
  have "new_session_id rnd \<noteq> 0" by (simp add: new_session_id_def)
  then show ?thesis using assms
    by (auto simp: handle_auth_def Let_def effects_reply dest: build_session_id
        split: auth_result.splits option.splits)
qed

lemma handle_auth_session:
  assumes "handle_auth env rnd salt now og payload sv = (sid, out, sv')" "sid \<noteq> 0"
  obtains hello s where "auth_decide env now (og_addr og) payload sv = AuthGrant hello"
    and "build_session env (new_session_id rnd) salt now og hello (fec_defaults (sc_fec (sv_cfg sv))) = Some s"
    and "sid = new_session_id rnd" and "sv' = register_session s sv"
    and "out = [SendTo (og_send og) (auth_ok_packet s (fec_defaults (sc_fec (sv_cfg sv))))]"
proof -
  from assms obtain hello where g: "auth_decide env now (og_addr og) payload sv = AuthGrant hello"
    by (auto simp: handle_auth_def Let_def split: auth_result.splits)
  from assms g obtain s where s: "build_session env (new_session_id rnd) salt now og hello
      (fec_defaults (sc_fec (sv_cfg sv))) = Some s"
    by (auto simp: handle_auth_def Let_def split: option.splits)
  have "ss_id s = new_session_id rnd"
    using s by (auto simp: build_session_def split: sum.splits)
  with assms g s show thesis by (intro that) (auto simp: handle_auth_def Let_def)
qed

text \<open>Without a session, no data packet has any effect.\<close>

lemma no_session_no_effect:
  assumes "find_session sv (hdr_session h) = None"
  shows "handle_data env now og sec h payload sv = ([], sv)"
    and "handle_frag env now og sec h payload sv = ([], sv)"
    and "handle_repair env now og sec h payload sv = ([], sv)"
  by (simp_all add: handle_data_def handle_frag_def handle_repair_def assms)

lemma leave_hub_fields [simp]:
  "sv_sessions (leave_hub b n sv) = sv_sessions sv" "sv_objs (leave_hub b n sv) = sv_objs sv"
  "sv_kicked (leave_hub b n sv) = sv_kicked sv" "sv_banned_ips (leave_hub b n sv) = sv_banned_ips sv"
  "sv_banned_logins (leave_hub b n sv) = sv_banned_logins sv" "sv_cfg (leave_hub b n sv) = sv_cfg sv"
  "sv_ip_file (leave_hub b n sv) = sv_ip_file sv" "sv_login_file (leave_hub b n sv) = sv_login_file sv"
  by (simp_all add: leave_hub_def split: option.split)

lemma leave_hub_gone: "server_ok sv \<Longrightarrow> map_of (sv_clients (leave_hub b n sv)) (b, n) = None"
proof (cases "map_of (sv_hubs sv) b")
  case None
  assume "server_ok sv"
  then have "\<not> (\<exists>h. map_of (sv_hubs sv) b = Some h \<and> n \<in> abs_clients h) \<longrightarrow> map_of (sv_clients sv) (b, n) = None"
    unfolding server_ok_def by blast
  then show ?thesis using None by (simp add: leave_hub_def manager_get_def)
qed (simp add: leave_hub_def manager_get_def)

lemma find_leave_hub [simp]: "find_session (leave_hub b n sv) m = find_session sv m"
  by (simp add: find_session_def)

lemma find_put_obj [simp]: "find_session (put_obj r s sv) m = find_session sv m"
  by (simp add: find_session_def)

lemma remove_session_effect:
  assumes ok: "server_ok sv" and r: "find_session sv n = Some r"
  shows "find_session (snd (remove_session n sv)) n = None"
    and "map_of (sv_clients (snd (remove_session n sv))) (ss_hub (get_obj sv r), n) = None"
    and "\<not> ss_live (get_obj (snd (remove_session n sv)) r)"
proof -
  let ?s = "(get_obj sv r)\<lparr>ss_live := False\<rparr>"
  let ?sv = "put_obj r ?s (sv\<lparr>sv_sessions := mdel n (sv_sessions sv)\<rparr>)"
  have rm: "snd (remove_session n sv) = leave_hub (ss_hub (get_obj sv r)) n ?sv"
    using r by (simp add: remove_session_def Let_def)
  show "find_session (snd (remove_session n sv)) n = None"
    unfolding rm by (simp add: find_session_def put_obj_def)
  have "server_ok ?sv" using server_ok_put_obj [OF server_ok_drop_session [OF ok], where r = r and s = ?s]
    by (simp add: get_obj_def)
  then show "map_of (sv_clients (snd (remove_session n sv))) (ss_hub (get_obj sv r), n) = None"
    unfolding rm by (rule leave_hub_gone)
  show "\<not> ss_live (get_obj (snd (remove_session n sv)) r)"
    unfolding rm using server_okD(1) [OF ok r]
    by (simp add: get_obj_def put_obj_def)
qed

text \<open>What one removal, and so a whole cleanup pass, does to the session table.\<close>

lemma remove_session_table:
  "find_session (snd (remove_session n sv)) m = (if m = n then None else find_session sv m)"
  "ss_last_seen (get_obj (snd (remove_session n sv)) q) = ss_last_seen (get_obj sv q)"
proof -
  show "find_session (snd (remove_session n sv)) m = (if m = n then None else find_session sv m)"
    by (auto simp: remove_session_def find_session_def Let_def split: option.split)
  have "get_obj (leave_hub b n t) q = get_obj t q" "get_obj (t\<lparr>sv_sessions := ss\<rparr>) q = get_obj t q" for b t ss
    by (simp_all add: get_obj_def)
  then show "ss_last_seen (get_obj (snd (remove_session n sv)) q) = ss_last_seen (get_obj sv q)"
    by (auto simp: remove_session_def Let_def get_put_obj split: option.split)
qed

lemma cleanup_loop_table:
  "find_session (snd (cleanup_loop now es sv)) m =
     (if \<exists>r. (m, r) \<in> set es \<and> is_stale now (get_obj sv r) then None else find_session sv m)"
proof (induction now es sv rule: cleanup_loop.induct)
  case (2 now n r es sv)
  have stale: "is_stale now (get_obj (snd (remove_session n sv)) q) = is_stale now (get_obj sv q)" for q
    by (simp add: is_stale_def remove_session_table)
  show ?case
  proof (cases "is_stale now (get_obj sv r)")
    case True
    obtain out sv1 where rm: "remove_session n sv = (out, sv1)" by fastforce
    show ?thesis using "2.IH"(1) [OF True rm [symmetric]] stale True remove_session_table(1) [of n sv m]
      by (auto simp: rm case_prod_beta)
  next
    case False
    then show ?thesis using "2.IH"(2) by auto
  qed
qed simp

lemma cleanup_sessions_table:
  assumes "server_ok sv"
  shows "find_session (snd (cleanup_sessions now sv)) m =
    (case find_session sv m of None \<Rightarrow> None | Some r \<Rightarrow> if is_stale now (get_obj sv r) then None else Some r)"
proof -
  have "find_session (snd (cleanup_sessions now sv)) m = find_session (snd (cleanup_loop now (sv_sessions sv) sv)) m"
    by (simp add: cleanup_sessions_def find_session_def case_prod_beta)
  moreover have "amap_ok (sv_sessions sv)" using assms by (simp add: server_ok_def)
  ultimately show ?thesis unfolding cleanup_loop_table
    by (auto simp: amap_in_set find_session_def split: option.split)
qed

text \<open>A session that is not live has no background effect; a kicked one is still live.\<close>

lemma dead_session_silent:
  "\<not> ss_live (get_obj sv r) \<Longrightarrow> flush_session env now r sv = ([], sv) \<and> repair_session env now r sv = ([], sv)"
  by (simp add: flush_session_def repair_session_def Let_def)

lemma forget_session_fields [simp]:
  "sv_objs (forget_session now n s sv) = sv_objs sv" "sv_hubs (forget_session now n s sv) = sv_hubs sv"
  "sv_clients (forget_session now n s sv) = sv_clients sv"
  "sv_banned_ips (forget_session now n s sv) = sv_banned_ips sv"
  "sv_banned_logins (forget_session now n s sv) = sv_banned_logins sv"
  "sv_sessions (forget_session now n s sv) = mdel n (sv_sessions sv)"
  "sv_kicked (forget_session now n s sv) = mput (ss_login s) (now + kick_block_duration) (sv_kicked sv)"
  by (simp_all add: forget_session_def)

lemma note_save_fields [simp]:
  "sv_objs (note_login ip l sv) = sv_objs sv" "sv_sessions (note_login ip l sv) = sv_sessions sv"
  "sv_kicked (note_login ip l sv) = sv_kicked sv" "sv_banned_ips (note_login ip l sv) = sv_banned_ips sv"
  "sv_banned_logins (note_login ip l sv) = sv_banned_logins sv" "sv_hubs (note_login ip l sv) = sv_hubs sv"
  "sv_clients (note_login ip l sv) = sv_clients sv" "sv_ip_file (note_login ip l sv) = sv_ip_file sv"
  "sv_objs (save_banned_ips env sv) = sv_objs sv" "sv_sessions (save_banned_ips env sv) = sv_sessions sv"
  "sv_kicked (save_banned_ips env sv) = sv_kicked sv" "sv_banned_ips (save_banned_ips env sv) = sv_banned_ips sv"
  "sv_hubs (save_banned_ips env sv) = sv_hubs sv" "sv_clients (save_banned_ips env sv) = sv_clients sv"
  "sv_objs (save_banned_logins env sv) = sv_objs sv" "sv_sessions (save_banned_logins env sv) = sv_sessions sv"
  "sv_kicked (save_banned_logins env sv) = sv_kicked sv"
  "sv_banned_logins (save_banned_logins env sv) = sv_banned_logins sv"
  "sv_hubs (save_banned_logins env sv) = sv_hubs sv" "sv_clients (save_banned_logins env sv) = sv_clients sv"
  by (simp_all add: note_login_def save_banned_ips_def save_banned_logins_def)

lemma api_kick_effect:
  fixes env :: env and now :: time
  assumes r: "find_session sv n = Some r"
  defines "sv' \<equiv> snd (snd (api_kick env now n sv))"
  shows "find_session sv' n = None"
    and "get_obj sv' r = get_obj sv r"
    and "kick_blocked sv' now (ss_login (get_obj sv r)) = Some (now + kick_block_duration)"
    and "addr_host (ss_addr (get_obj sv r)) \<noteq> '''' \<Longrightarrow> ip_banned sv' (ss_addr (get_obj sv r))"
  using r by (auto simp: sv'_def api_kick_def Let_def close_kicked_def find_session_def get_obj_def
      kick_blocked_def kick_block_duration_def time_units ip_banned_def addr_host_def split: sum.splits)

section \<open>Bans\<close>

lemma kick_loop_sessions:
  assumes nt: "\<And>s sv. sv_sessions (g s sv) = sv_sessions sv \<and> sv_objs (g s sv) = sv_objs sv"
  shows "sv_objs (snd (kick_loop now P g es sv)) = sv_objs sv \<and>
    map_of (sv_sessions (snd (kick_loop now P g es sv))) m =
      (if \<exists>r. (m, r) \<in> set es \<and> P (get_obj sv r) then None else map_of (sv_sessions sv) m)"
proof (induction es arbitrary: sv)
  case (Cons e es)
  obtain n r where e: "e = (n, r)" by fastforce
  show ?case
  proof (cases "P (get_obj sv r)")
    case True
    let ?sv = "g (get_obj sv r) (forget_session now n (get_obj sv r) sv)"
    have o: "sv_objs ?sv = sv_objs sv" "sv_sessions ?sv = mdel n (sv_sessions sv)" using nt by simp_all
    then have go: "get_obj ?sv q = get_obj sv q" for q by (simp add: get_obj_def)
    show ?thesis using Cons.IH [of ?sv] True o by (auto simp: e case_prod_beta go Let_def)
  next
    case False
    then show ?thesis using Cons.IH [of sv] by (auto simp: e)
  qed
qed simp

lemma kick_loop_left:
  assumes "\<And>s sv. sv_sessions (g s sv) = sv_sessions sv \<and> sv_objs (g s sv) = sv_objs sv"
    and "map_of (sv_sessions (snd (kick_loop now P g (sv_sessions sv) sv))) n = Some r"
  shows "map_of (sv_sessions sv) n = Some r \<and> \<not> P (get_obj sv r)"
proof -
  have "map_of (sv_sessions (snd (kick_loop now P g (sv_sessions sv) sv))) n =
      (if \<exists>r. (n, r) \<in> set (sv_sessions sv) \<and> P (get_obj sv r) then None else map_of (sv_sessions sv) n)"
    using kick_loop_sessions [of g, OF assms(1)] by blast
  then have "map_of (sv_sessions sv) n = Some r \<and> \<not> (\<exists>r. (n, r) \<in> set (sv_sessions sv) \<and> P (get_obj sv r))"
    using assms(2) by (metis (no_types, lifting) option.distinct(1))
  then show ?thesis using map_of_SomeD [of "sv_sessions sv" n r] by blast
qed

lemma kick_loop_bans:
  assumes "\<And>s sv. sv_banned_ips (g s sv) = sv_banned_ips sv \<and> sv_banned_logins (g s sv) = sv_banned_logins sv"
  shows "sv_banned_ips (snd (kick_loop now P g es sv)) = sv_banned_ips sv \<and>
    sv_banned_logins (snd (kick_loop now P g es sv)) = sv_banned_logins sv"
  using assms by (induction es arbitrary: sv) (auto simp: case_prod_beta Let_def split: prod.split)

lemma close_all_fields:
  "sv_sessions (snd (close_all ss sv)) = sv_sessions sv \<and> sv_objs (snd (close_all ss sv)) = sv_objs sv \<and>
   sv_banned_ips (snd (close_all ss sv)) = sv_banned_ips sv \<and>
   sv_banned_logins (snd (close_all ss sv)) = sv_banned_logins sv"
  by (induction ss arbitrary: sv) (simp_all add: close_kicked_def case_prod_beta)

text \<open>After an IP ban the address is banned and no session from it is left; likewise for a login on a hub.\<close>

lemma ip_ban_effect:
  fixes env :: env and now :: time and ip :: string
  assumes ok: "server_ok sv"
  defines "sv' \<equiv> snd (ip_ban env now ip sv)"
  shows "ip \<in> set (sv_banned_ips sv')"
    and "find_session sv' n = Some r \<Longrightarrow> find_session sv n = Some r \<and> get_obj sv' r = get_obj sv r \<and>
      \<not> (\<exists>p. split_host_port (ss_addr (get_obj sv' r)) = Inr (ip, p))"
proof -
  let ?P = "\<lambda>s. case split_host_port (ss_addr s) of Inl _ \<Rightarrow> False | Inr (h, _) \<Rightarrow> h = ip"
  let ?n = "\<lambda>s. note_login ip (ss_login s)"
  let ?sv = "save_banned_ips env (sv\<lparr>sv_banned_ips := List.insert ip (sv_banned_ips sv)\<rparr>)"
  have sv: "sv' = snd (close_all (fst (kick_loop now ?P ?n (sv_sessions sv) ?sv))
      (snd (kick_loop now ?P ?n (sv_sessions sv) ?sv)))"
    by (simp add: sv'_def ip_ban_def kick_by_ip_def case_prod_beta)
  note k = kick_loop_sessions [where g = ?n and P = ?P and es = "sv_sessions sv" and sv = ?sv and now = now]
  note b = kick_loop_bans [where g = ?n and P = ?P and es = "sv_sessions sv" and sv = ?sv and now = now]
  show "ip \<in> set (sv_banned_ips sv')" using b by (simp add: sv close_all_fields)
  assume f: "find_session sv' n = Some r"
  have o: "sv_objs sv' = sv_objs sv" using k by (simp add: sv close_all_fields)
  have "map_of (sv_sessions ?sv) n = Some r \<and> \<not> ?P (get_obj ?sv r)"
    using f by (intro kick_loop_left [where g = ?n and now = now])
      (simp_all add: sv close_all_fields find_session_def)
  then show "find_session sv n = Some r \<and> get_obj sv' r = get_obj sv r \<and>
      \<not> (\<exists>p. split_host_port (ss_addr (get_obj sv' r)) = Inr (ip, p))"
    using o by (auto simp: find_session_def get_obj_def)
qed

lemma login_ban_effect:
  fixes env :: env and now :: time and login :: string and b :: "16 word"
  assumes ok: "server_ok sv"
  defines "sv' \<equiv> snd (login_ban env now login b sv)"
  shows "login_banned sv' login b"
    and "find_session sv' n = Some r \<Longrightarrow> find_session sv n = Some r \<and> get_obj sv' r = get_obj sv r \<and>
      \<not> (ss_login (get_obj sv' r) = login \<and> ss_hub (get_obj sv' r) = b)"
proof -
  let ?P = "\<lambda>s. ss_login s = login \<and> ss_hub s = b"
  let ?n = "\<lambda>_ sv. sv"
  let ?sv = "save_banned_logins env (sv\<lparr>sv_banned_logins := mput login
        (List.insert b (case map_of (sv_banned_logins sv) login of None \<Rightarrow> [] | Some hs \<Rightarrow> hs))
        (sv_banned_logins sv)\<rparr>)"
  have sv: "sv' = snd (close_all (fst (kick_loop now ?P ?n (sv_sessions sv) ?sv))
      (snd (kick_loop now ?P ?n (sv_sessions sv) ?sv)))"
    by (simp add: sv'_def login_ban_def kick_by_login_def case_prod_beta)
  note k = kick_loop_sessions [where g = ?n and P = ?P and es = "sv_sessions sv" and sv = ?sv and now = now]
  note bb = kick_loop_bans [where g = ?n and P = ?P and es = "sv_sessions sv" and sv = ?sv and now = now]
  show "login_banned sv' login b" using bb by (simp add: sv close_all_fields login_banned_def)
  assume f: "find_session sv' n = Some r"
  have o: "sv_objs sv' = sv_objs sv" using k by (simp add: sv close_all_fields)
  have "map_of (sv_sessions ?sv) n = Some r \<and> \<not> ?P (get_obj ?sv r)"
    using f by (intro kick_loop_left [where g = ?n and now = now])
      (simp_all add: sv close_all_fields find_session_def)
  then show "find_session sv n = Some r \<and> get_obj sv' r = get_obj sv r \<and>
      \<not> (ss_login (get_obj sv' r) = login \<and> ss_hub (get_obj sv' r) = b)"
    using o by (auto simp: find_session_def get_obj_def)
qed

text \<open>An unban of the address restores what the ban and the kicks it caused had blocked.\<close>

lemma ip_unban_effect:
  fixes env :: env
  defines "sv' \<equiv> \<lambda>ip sv. snd (ip_unban env ip sv)"
  shows "ip \<notin> set (sv_banned_ips (sv' ip sv))"
    and "amap_ok (sv_kicked sv) \<Longrightarrow> map_of (sv_ip_logins sv) ip = Some ls \<Longrightarrow> l \<in> set ls \<Longrightarrow>
      kick_blocked (sv' ip sv) now l = None"
  by (auto simp: sv'_def ip_unban_def Let_def kick_blocked_def map_of_mdrop split: option.split)

text \<open>What is saved is what is loaded at the next start.\<close>

lemma fold_insert_set: "set (foldl (\<lambda>b x. List.insert x b) xs ys) = set xs \<union> set ys"
  by (induction ys arbitrary: xs) auto

lemma banned_ips_roundtrip:
  assumes "en_disk_ok env"
  shows "set (sv_banned_ips (load_banned_ips (new_server cfg\<lparr>sv_ip_file := sv_ip_file (save_banned_ips env sv)\<rparr>))) =
    set (sv_banned_ips sv)"
  using assms by (simp add: load_banned_ips_def save_banned_ips_def new_server_def fold_insert_set)

lemma map_of_foldl_mput:
  "distinct (map fst f) \<Longrightarrow> map_of (foldl (\<lambda>m (l, hs). mput l (g hs) m) m f) k =
     (case map_of f k of None \<Rightarrow> map_of m k | Some hs \<Rightarrow> Some (g hs))"
proof (induction f arbitrary: m)
  case (Cons e f)
  obtain l hs where e: "e = (l, hs)" by fastforce
  have "map_of f l = None" using Cons.prems e by (auto simp: map_of_eq_None_iff)
  then show ?case using Cons by (auto simp: e split: option.split)
qed simp

lemma banned_logins_roundtrip:
  assumes "en_disk_ok env" "amap_ok (sv_banned_logins sv)"
  shows "login_banned (load_banned_logins (new_server cfg\<lparr>sv_login_file := sv_login_file (save_banned_logins env sv)\<rparr>)) login b =
    login_banned sv login b"
proof -
  let ?f = "map (\<lambda>(l, hs). (l, sort_key unat hs)) (sv_banned_logins sv)"
  have d: "distinct (map fst ?f)" using assms(2) by (simp add: amap_ok_def comp_def case_prod_beta)
  have m: "map_of ?f login = map_option (sort_key unat) (map_of (sv_banned_logins sv) login)"
    by (induction "sv_banned_logins sv") (auto simp: map_of_map)
  show ?thesis using assms(1) map_of_foldl_mput [OF d, of remdups "[]" login] m
    by (auto simp: load_banned_logins_def save_banned_logins_def new_server_def login_banned_def
        split: option.split)
qed

end
