(* ===== verification/ClientHello.thy ===== *)
theory ClientHello
  imports Prelude
begin

text \<open>
  \<open>internal/transport/reality_hello.go\<close>: the bounds-checked reader and the parser of the first TLS
  record. A reader is the list of the bytes it has not consumed. The lemmas show that the parser
  recovers the fields of any well-formed ClientHello (RFC 8446 layout) whatever extensions surround
  them, and that what it returns is always a part of the input.
\<close>

section \<open>The reader\<close>

definition rd_take :: "nat \<Rightarrow> bytes \<Rightarrow> (bytes \<times> bytes) option" where
  "rd_take n r = (if length r < n then None else Some (take n r, drop n r))"

definition rd_u8 :: "bytes \<Rightarrow> (byte \<times> bytes) option" where
  "rd_u8 r = (case rd_take 1 r of None \<Rightarrow> None | Some (v, r') \<Rightarrow> Some (v ! 0, r'))"

definition rd_u16 :: "bytes \<Rightarrow> (16 word \<times> bytes) option" where
  "rd_u16 r = (case rd_take 2 r of None \<Rightarrow> None | Some (v, r') \<Rightarrow> Some (get16 v, r'))"

definition rd_u8vec :: "bytes \<Rightarrow> (bytes \<times> bytes) option" where
  "rd_u8vec r = (case rd_u8 r of None \<Rightarrow> None | Some (n, r') \<Rightarrow> rd_take (unat n) r')"

definition rd_u16vec :: "bytes \<Rightarrow> (bytes \<times> bytes) option" where
  "rd_u16vec r = (case rd_u16 r of None \<Rightarrow> None | Some (n, r') \<Rightarrow> rd_take (unat n) r')"

lemma rd_take_length: "rd_take n r = Some (v, r') \<Longrightarrow> length r = n + length r' \<and> length v = n"
  by (auto simp: rd_take_def split: if_splits)

lemma rd_u16_length: "rd_u16 r = Some (v, r') \<Longrightarrow> length r = 2 + length r'"
  by (auto simp: rd_u16_def dest!: rd_take_length split: option.splits)

lemma rd_u8_length: "rd_u8 r = Some (v, r') \<Longrightarrow> length r = 1 + length r'"
  by (auto simp: rd_u8_def dest!: rd_take_length split: option.splits)

lemma rd_u16vec_length: "rd_u16vec r = Some (v, r') \<Longrightarrow> length r' < length r"
  by (auto simp: rd_u16vec_def dest!: rd_take_length rd_u16_length split: option.splits)

section \<open>The parser\<close>

definition tlsGroupX25519 :: "16 word" where "tlsGroupX25519 = 0x001d"

record client_hello =
  ch_random :: bytes
  ch_session_id :: bytes
  ch_x25519 :: "bytes option"
  ch_server_name :: string

definition empty_hello :: client_hello where
  "empty_hello = \<lparr>ch_random = [], ch_session_id = [], ch_x25519 = None, ch_server_name = ''''\<rparr>"

text \<open>The loop over \<open>server_name_list\<close>: the first host name, or nothing.\<close>

function sni_loop :: "bytes \<Rightarrow> string" where
  "sni_loop lr =
     (if length lr < 3 then ''''
      else case rd_u8 lr of
          None \<Rightarrow> ''''
        | Some (ty, r1) \<Rightarrow>
            (case rd_u16vec r1 of
               None \<Rightarrow> ''''
             | Some (name, r2) \<Rightarrow> if ty = 0 then bytes_str name else sni_loop r2))"
  by pat_completeness auto

termination sni_loop
  by (relation "measure length") (auto dest!: rd_u8_length rd_u16vec_length)

definition parse_sni :: "bytes \<Rightarrow> string" where
  "parse_sni d = (case rd_u16vec d of None \<Rightarrow> '''' | Some (list, _) \<Rightarrow> sni_loop list)"

text \<open>The loop over the key shares: the first 32-byte X25519 key, \<open>None\<close> for Go's \<open>nil\<close>.\<close>

function key_share_loop :: "bytes \<Rightarrow> bytes option" where
  "key_share_loop sr =
     (if length sr < 4 then None
      else case rd_u16 sr of
          None \<Rightarrow> None
        | Some (grp, r1) \<Rightarrow>
            (case rd_u16vec r1 of
               None \<Rightarrow> None
             | Some (key, r2) \<Rightarrow>
                 if grp = tlsGroupX25519 \<and> length key = 32 then Some key else key_share_loop r2))"
  by pat_completeness auto

termination key_share_loop
  by (relation "measure length") (auto dest!: rd_u16_length rd_u16vec_length)

definition parse_key_share :: "bytes \<Rightarrow> bytes option" where
  "parse_key_share d = (case rd_u16vec d of None \<Rightarrow> None | Some (shares, _) \<Rightarrow> key_share_loop shares)"

text \<open>The \<open>switch\<close> on one extension.\<close>

definition apply_extension :: "16 word \<Rightarrow> bytes \<Rightarrow> client_hello \<Rightarrow> client_hello" where
  "apply_extension ety edata ch =
     (if ety = 0x0000 then ch\<lparr>ch_server_name := parse_sni edata\<rparr>
      else if ety = 0x0033 then ch\<lparr>ch_x25519 := parse_key_share edata\<rparr>
      else ch)"

lemma apply_extension_simps:
  "apply_extension 0 d ch = ch\<lparr>ch_server_name := parse_sni d\<rparr>"
  "apply_extension 0x33 d ch = ch\<lparr>ch_x25519 := parse_key_share d\<rparr>"
  by (simp_all add: apply_extension_def)

function parse_extensions :: "bytes \<Rightarrow> client_hello \<Rightarrow> client_hello" where
  "parse_extensions er ch =
     (if length er < 4 then ch
      else case rd_u16 er of
          None \<Rightarrow> ch
        | Some (ety, r1) \<Rightarrow>
            (case rd_u16vec r1 of
               None \<Rightarrow> ch
             | Some (edata, r2) \<Rightarrow> parse_extensions r2 (apply_extension ety edata ch)))"
  by pat_completeness auto

termination parse_extensions
  by (relation "measure (\<lambda>(er, ch). length er)") (auto dest!: rd_u16_length rd_u16vec_length)

declare sni_loop.simps [simp del] key_share_loop.simps [simp del] parse_extensions.simps [simp del]

definition parse_hello_body :: "bytes \<Rightarrow> client_hello option" where
  "parse_hello_body hs =
     (case rd_take 2 hs of None \<Rightarrow> None | Some (_, r1) \<Rightarrow>
      (case rd_take 32 r1 of None \<Rightarrow> None | Some (random, r2) \<Rightarrow>
       (case rd_u8vec r2 of None \<Rightarrow> None | Some (sid, r3) \<Rightarrow>
        (case rd_u16vec r3 of None \<Rightarrow> None | Some (_, r4) \<Rightarrow>
         (case rd_u8vec r4 of None \<Rightarrow> None | Some (_, r5) \<Rightarrow>
          (case rd_u16vec r5 of None \<Rightarrow> None | Some (ext, _) \<Rightarrow>
             Some (parse_extensions ext
               \<lparr>ch_random = random, ch_session_id = sid, ch_x25519 = None, ch_server_name = ''''\<rparr>)))))))"

definition u24 :: "byte \<Rightarrow> byte \<Rightarrow> byte \<Rightarrow> nat" where
  "u24 a b c = unat a * 65536 + unat b * 256 + unat c"

definition parse_client_hello_record :: "bytes \<Rightarrow> client_hello option" where
  "parse_client_hello_record rec =
     (if length rec < 5 \<or> rec ! 0 \<noteq> 0x16 then None
      else
        let rec_len = unat (get16 (slice 3 5 rec)); body0 = drop 5 rec in
        if length body0 < rec_len then None
        else
          let body = take rec_len body0 in
          if length body < 4 \<or> body ! 0 \<noteq> 0x01 then None
          else
            let hs_len = u24 (body ! 1) (body ! 2) (body ! 3); hs = drop 4 body in
            if length hs < hs_len then None else parse_hello_body (take hs_len hs))"

section \<open>The RFC 8446 layout\<close>

definition vec8 :: "bytes \<Rightarrow> bytes" where "vec8 d = of_nat (length d) # d"
definition vec16 :: "bytes \<Rightarrow> bytes" where "vec16 d = put16 (of_nat (length d)) @ d"

definition extension :: "16 word \<Rightarrow> bytes \<Rightarrow> bytes" where
  "extension ty d = put16 ty @ vec16 d"

definition sni_extension :: "string \<Rightarrow> 16 word \<times> bytes" where
  "sni_extension host = (0x0000, vec16 (0 # vec16 (str_bytes host)))"

text \<open>Key shares of other groups (for instance GREASE and post-quantum ones) may come first.\<close>

definition key_share_extension :: "(16 word \<times> bytes) list \<Rightarrow> bytes \<Rightarrow> 16 word \<times> bytes" where
  "key_share_extension others pub =
     (0x0033, vec16 (concat (map (\<lambda>(g, k). extension g k) others) @ extension tlsGroupX25519 pub))"

definition hello_body :: "bytes \<Rightarrow> bytes \<Rightarrow> bytes \<Rightarrow> bytes \<Rightarrow> bytes \<Rightarrow> (16 word \<times> bytes) list \<Rightarrow> bytes" where
  "hello_body version random sid suites compression exts =
     version @ random @ vec8 sid @ vec16 suites @ vec8 compression @
     vec16 (concat (map (\<lambda>(ty, d). extension ty d) exts))"

definition hello_record :: "bytes \<Rightarrow> bytes" where
  "hello_record hs = [0x16, 3, 1] @ put16 (of_nat (4 + length hs)) @
     [0x01, 0, of_nat (length hs div 256), of_nat (length hs mod 256)] @ hs"

lemma rd_take_append: "length v = n \<Longrightarrow> rd_take n (v @ r) = Some (v, r)"
  by (simp add: rd_take_def)

lemma rd_u8_Cons [simp]: "rd_u8 (b # r) = Some (b, r)"
  by (simp add: rd_u8_def rd_take_def)

lemma rd_u16_put16 [simp]: "rd_u16 (put16 w @ r) = Some (w, r)"
  by (simp add: rd_u16_def rd_take_append)

lemma rd_u8vec_vec8 [simp]: "length d < 256 \<Longrightarrow> rd_u8vec (vec8 d @ r) = Some (d, r)"
  by (simp add: rd_u8vec_def vec8_def rd_take_append)

lemma rd_u16vec_vec16: "length d < 65536 \<Longrightarrow> rd_u16vec (vec16 d @ r) = Some (d, r)"
  by (simp add: rd_u16vec_def vec16_def rd_take_append unat_of_nat_u16)

lemma rd_u16vec_vec16_end: "length d < 65536 \<Longrightarrow> rd_u16vec (vec16 d) = Some (d, [])"
  using rd_u16vec_vec16 [of d "[]"] by simp

lemma length_vec [simp, wire_simps]:
  "length (vec8 d) = 1 + length d" "length (vec16 d) = 2 + length d" "length (extension ty d) = 4 + length d"
  by (simp_all add: vec8_def vec16_def extension_def)

lemma parse_sni_extension:
  assumes "length host < 65000"
  shows "parse_sni (snd (sni_extension host)) = host"
  using assms rd_u16vec_vec16_end [of "str_bytes host"]
  by (simp add: parse_sni_def sni_extension_def rd_u16vec_vec16_end sni_loop.simps)

lemma key_share_loop_skip:
  assumes "list_all (\<lambda>(g, k). g \<noteq> tlsGroupX25519 \<and> length k < 65536) others" and "length pub = 32"
  shows "key_share_loop (concat (map (\<lambda>(g, k). extension g k) others) @ extension tlsGroupX25519 pub) = Some pub"
  using assms(1)
proof (induction others)
  case Nil
  show ?case using assms(2)
    by (subst key_share_loop.simps) (simp add: extension_def rd_u16vec_vec16_end)
next
  case (Cons o1 others)
  obtain g k where o1: "o1 = (g, k)" by fastforce
  let ?rest = "concat (map (\<lambda>(g, k). extension g k) others) @ extension tlsGroupX25519 pub"
  have "key_share_loop (extension g k @ ?rest) = key_share_loop ?rest"
    using Cons.prems o1 by (subst key_share_loop.simps) (simp add: extension_def rd_u16vec_vec16)
  then show ?case using Cons o1 by simp
qed

lemma parse_key_share_extension:
  assumes "list_all (\<lambda>(g, k). g \<noteq> tlsGroupX25519 \<and> length k < 65536) others" and "length pub = 32"
    and "length (snd (key_share_extension others pub)) < 65536"
  shows "parse_key_share (snd (key_share_extension others pub)) = Some pub"
proof -
  let ?l = "concat (map (\<lambda>(g, k). extension g k) others) @ extension tlsGroupX25519 pub"
  have "rd_u16vec (vec16 ?l) = Some (?l, [])" using assms(3)
    by (intro rd_u16vec_vec16_end) (simp add: key_share_extension_def)
  then show ?thesis using key_share_loop_skip [OF assms(1,2)]
    by (simp add: parse_key_share_def key_share_extension_def)
qed

lemma parse_extensions_list:
  assumes "list_all (\<lambda>(ty, d). length d < 65536) exts"
  shows "parse_extensions (concat (map (\<lambda>(ty, d). extension ty d) exts)) ch =
         foldl (\<lambda>ch (ty, d). apply_extension ty d ch) ch exts"
  using assms
proof (induction exts arbitrary: ch)
  case Nil
  then show ?case by (subst parse_extensions.simps) simp
next
  case (Cons e exts)
  obtain ty d where e: "e = (ty, d)" by fastforce
  let ?rest = "concat (map (\<lambda>(ty, d). extension ty d) exts)"
  have "parse_extensions (extension ty d @ ?rest) ch = parse_extensions ?rest (apply_extension ty d ch)"
    using Cons.prems e by (subst parse_extensions.simps) (simp add: extension_def rd_u16vec_vec16)
  then show ?case using Cons e by simp
qed

lemma length_extension_le:
  "(ty, d) \<in> set exts \<Longrightarrow> length d \<le> length (concat (map (\<lambda>(ty, d). extension ty d) exts))"
  by (induction exts) auto

lemma parse_hello_body_spec:
  assumes "length version = 2" and "length random = 32" and "length sid < 256" and "length suites < 65536"
    and "length compression < 256" and "length (concat (map (\<lambda>(ty, d). extension ty d) exts)) < 65536"
  shows "parse_hello_body (hello_body version random sid suites compression exts) =
    Some (foldl (\<lambda>ch (ty, d). apply_extension ty d ch)
      \<lparr>ch_random = random, ch_session_id = sid, ch_x25519 = None, ch_server_name = ''''\<rparr> exts)"
proof -
  have "list_all (\<lambda>(ty, d). length d < 65536) exts"
    using length_extension_le [of _ _ exts] assms(6) by (fastforce simp: list_all_iff)
  then show ?thesis using assms
    by (simp add: parse_hello_body_def hello_body_def rd_take_append rd_u16vec_vec16 rd_u16vec_vec16_end
        parse_extensions_list)
qed

lemma u24_small: "n < 65536 \<Longrightarrow> u24 0 (of_nat (n div 256)) (of_nat (n mod 256)) = n"
  by (simp add: u24_def unat_of_nat)

lemma parse_hello_record:
  assumes "length hs < 65532"
  shows "parse_client_hello_record (hello_record hs @ rest) = parse_hello_body hs"
proof -
  have n: "unat (of_nat (4 + length hs) :: 16 word) = 4 + length hs"
    using assms by (simp add: unat_of_nat_u16 del: of_nat_add)
  have s: "slice 3 5 (hello_record hs @ rest) = put16 (of_nat (4 + length hs))"
    by (simp add: hello_record_def del: of_nat_add)
  let ?h = "[0x01, 0, of_nat (length hs div 256), of_nat (length hs mod 256)] @ hs"
  have d: "drop 5 (hello_record hs @ rest) = ?h @ rest"
    by (simp add: hello_record_def del: of_nat_add)
  have "\<not> length (hello_record hs @ rest) < 5" "(hello_record hs @ rest) ! 0 = 0x16"
    by (simp_all add: hello_record_def)
  moreover have "take (4 + length hs) (?h @ rest) = ?h"
  proof -
    have "4 + length hs = length ?h" by simp
    then show ?thesis by (simp only: take_append) (simp del: append_Cons append_Nil)
  qed
  ultimately show ?thesis
    unfolding parse_client_hello_record_def Let_def s d get_put n
    using u24_small [of "length hs"] assms by simp
qed

text \<open>
  A hello with one SNI and one key share extension, anything else around them: the parser returns
  exactly the random, the session ID, the key and the host.
\<close>

lemma foldl_other_extensions:
  "list_all (\<lambda>(ty, d). ty \<noteq> 0x0000 \<and> ty \<noteq> 0x0033) exts \<Longrightarrow>
     foldl (\<lambda>ch (ty, d). apply_extension ty d ch) ch exts = ch"
  by (induction exts) (auto simp: apply_extension_def)

lemma parse_client_hello_fields:
  assumes "length version = 2" and "length random = 32" and "length sid < 256" and "length suites < 65536"
    and "length compression < 256"
    and "list_all (\<lambda>(ty, d). ty \<noteq> 0x0000 \<and> ty \<noteq> 0x0033) (e1 @ e2 @ e3)"
    and "list_all (\<lambda>(g, k). g \<noteq> tlsGroupX25519 \<and> length k < 65536) others" and "length pub = 32"
    and "exts = e1 @ sni_extension host # e2 @ key_share_extension others pub # e3"
    and "length host < 65000"
    and "length (hello_body version random sid suites compression exts) < 65532"
  shows "parse_client_hello_record (hello_record (hello_body version random sid suites compression exts) @ rest) =
    Some \<lparr>ch_random = random, ch_session_id = sid, ch_x25519 = Some pub, ch_server_name = host\<rparr>"
proof -
  have len: "length (concat (map (\<lambda>(ty, d). extension ty d) exts)) < 65536"
    using assms(11) by (simp add: hello_body_def)
  have "(fst (key_share_extension others pub), snd (key_share_extension others pub)) \<in> set exts"
    using assms(9) by simp
  then have "length (snd (key_share_extension others pub)) < 65536"
    using length_extension_le [of _ "snd (key_share_extension others pub)" exts] len by fastforce
  note key = parse_key_share_extension [OF assms(7,8) this]
  note parsed = parse_hello_body_spec [OF assms(1-5) len]
  show ?thesis
    unfolding parse_hello_record [OF assms(11)] parsed unfolding assms(9)
    using assms(6) key parse_sni_extension [OF assms(10)]
    by (simp add: foldl_other_extensions sni_extension_def key_share_extension_def apply_extension_simps)
qed

section \<open>Safety on arbitrary input\<close>

text \<open>A key the parser reports is 32 bytes long, and a hello it accepts has a 32-byte random.\<close>

lemma key_share_loop_32: "key_share_loop sr = Some k \<Longrightarrow> length k = 32"
proof (induction sr rule: key_share_loop.induct)
  case (1 sr)
  note f = "1.prems" [unfolded key_share_loop.simps [of sr]]
  then show ?case using "1.IH" by (auto split: if_splits option.splits)
qed

lemma parse_extensions_fields:
  "(\<forall>k. ch_x25519 ch = Some k \<longrightarrow> length k = 32) \<Longrightarrow>
     ch_random (parse_extensions er ch) = ch_random ch \<and>
     ch_session_id (parse_extensions er ch) = ch_session_id ch \<and>
     (\<forall>k. ch_x25519 (parse_extensions er ch) = Some k \<longrightarrow> length k = 32)"
proof (induction er ch rule: parse_extensions.induct)
  case (1 er ch)
  have step: "\<forall>k. ch_x25519 (apply_extension ty d ch) = Some k \<longrightarrow> length k = 32"
    "ch_random (apply_extension ty d ch) = ch_random ch"
    "ch_session_id (apply_extension ty d ch) = ch_session_id ch" for ty d
    using "1.prems" by (auto simp: apply_extension_def parse_key_share_def dest: key_share_loop_32 split: option.splits)
  show ?case
    unfolding parse_extensions.simps [of er ch]
    using 1 step by (auto split: option.split)
qed

lemma parse_client_hello_safe:
  assumes "parse_client_hello_record rec = Some ch"
  shows "length (ch_random ch) = 32 \<and> length (ch_session_id ch) < 256 \<and>
         (\<forall>k. ch_x25519 ch = Some k \<longrightarrow> length k = 32)"
proof -
  from assms obtain hs where "parse_hello_body hs = Some ch"
    by (auto simp: parse_client_hello_record_def Let_def split: if_splits)
  then obtain random sid ext b r r' where "rd_take 32 b = Some (random, r)" "rd_u8vec r = Some (sid, r')"
      "ch = parse_extensions ext \<lparr>ch_random = random, ch_session_id = sid, ch_x25519 = None, ch_server_name = ''''\<rparr>"
    by (auto simp: parse_hello_body_def split: option.splits)
  moreover from this(1) have "length random = 32" using rd_take_length by blast
  moreover from calculation(2) have "length sid < 256"
    by (auto simp: rd_u8vec_def dest!: rd_take_length split: option.splits)
  ultimately show ?thesis
    using parse_extensions_fields [of "\<lparr>ch_random = random, ch_session_id = sid, ch_x25519 = None, ch_server_name = ''''\<rparr>" ext]
    by simp
qed

end
