(* ===== verification/Reality.thy ===== *)
theory Reality
  imports Crypto ClientHello Framing GoNet
begin

text \<open>
  Reality authentication of \<open>internal/transport\<close>: the session-ID blob of \<open>reality_auth.go\<close>, the
  server's decision and its replay cache in \<open>reality_server.go\<close>, and the client's side of
  \<open>reality_client.go\<close>. X25519, SHA-256, AES-GCM, base64 key decoding and the TLS stacks are
  parameters.
\<close>

section \<open>The authentication blob\<close>

definition realityShortIDLen :: nat where "realityShortIDLen = 8"
definition realitySessionIDLen :: nat where "realitySessionIDLen = 32"
definition realityTimeWindowDefault :: int where "realityTimeWindowDefault = 90"

text \<open>What the code calls: hash, AEAD, curve, and the public-key check.\<close>

record reality_prims =
  pr_sha256 :: "bytes \<Rightarrow> bytes"
  pr_seal :: aead_seal
  pr_open :: aead_open
  pr_ecdh :: "bytes \<Rightarrow> bytes \<Rightarrow> bytes option"
  pr_pub_ok :: "bytes \<Rightarrow> bool"

definition parse_short_id :: "string \<Rightarrow> bytes" where
  "parse_short_id s = take realityShortIDLen (str_bytes s) @ replicate (realityShortIDLen - length s) 0"

definition reality_key :: "reality_prims \<Rightarrow> bytes \<Rightarrow> bytes" where
  "reality_key pr shared = take 16 (pr_sha256 pr (str_bytes ''supervpn-reality-v1'' @ shared))"

definition seal_reality_auth :: "reality_prims \<Rightarrow> bytes \<Rightarrow> bytes \<Rightarrow> bytes \<Rightarrow> 64 word \<Rightarrow> bytes option" where
  "seal_reality_auth pr shared nonce short_id t =
     (let out = pr_seal pr (reality_key pr shared) (take 12 nonce) (short_id @ put64 t) []
      in if length out \<noteq> realitySessionIDLen then None else Some out)"

definition open_reality_auth :: "reality_prims \<Rightarrow> bytes \<Rightarrow> bytes \<Rightarrow> bytes \<Rightarrow> (bytes \<times> 64 word) option" where
  "open_reality_auth pr shared nonce session_id =
     (if length session_id \<noteq> realitySessionIDLen \<or> length nonce < 12 then None
      else case pr_open pr (reality_key pr shared) (take 12 nonce) session_id [] of
          None \<Rightarrow> None
        | Some plain \<Rightarrow>
            if length plain \<noteq> realityShortIDLen + 8 then None
            else Some (slice 0 8 plain, get64 (drop 8 plain)))"

definition short_id_allowed :: "bytes \<Rightarrow> bytes list \<Rightarrow> bool" where
  "short_id_allowed i allowed = list_ex (\<lambda>a. a = i) allowed"

section \<open>The replay cache\<close>

record replay_cache =
  rc_seen :: "(bytes, int) amap"
  rc_ttl :: int

definition new_replay_cache :: "int \<Rightarrow> replay_cache" where
  "new_replay_cache ttl = \<lparr>rc_seen = [], rc_ttl = ttl\<rparr>"

definition cache_fresh :: "bytes \<Rightarrow> int \<Rightarrow> replay_cache \<Rightarrow> bool \<times> replay_cache" where
  "cache_fresh key now c =
     (let seen = mdrop (\<lambda>_ t. rc_ttl c < now - t) (rc_seen c)
      in case map_of seen key of
           Some t \<Rightarrow> if now - t \<le> rc_ttl c then (False, c\<lparr>rc_seen := seen\<rparr>)
                    else (True, c\<lparr>rc_seen := mput key now seen\<rparr>)
         | None \<Rightarrow> (True, c\<lparr>rc_seen := mput key now seen\<rparr>))"

definition cache_ok :: "replay_cache \<Rightarrow> bool" where
  "cache_ok c \<longleftrightarrow> amap_ok (rc_seen c)"

section \<open>The server's decision\<close>

record reality_params =
  rp_privs :: "bytes list"
  rp_dest :: string
  rp_names :: "string list"
  rp_short_ids :: "bytes list"
  rp_window :: "64 word"
  rp_replay :: replay_cache

text \<open>
  The skew test, in 64-bit arithmetic: the embedded time is the peer's, so the subtraction and the
  multiplication by a second both wrap as Go's do.
\<close>

definition time_ok :: "64 word \<Rightarrow> int \<Rightarrow> 64 word \<Rightarrow> bool" where
  "time_ok window now t =
     (let d = word_of_int now - t; skew = (if sint d < 0 then - d else d)
      in \<not> sint window < sint (skew * 1000000000))"

definition sni_allowed :: "string \<Rightarrow> string list \<Rightarrow> bool" where
  "sni_allowed sni allowed = list_ex (\<lambda>a. sni = a) allowed"

fun try_privs :: "reality_prims \<Rightarrow> reality_params \<Rightarrow> int \<Rightarrow> client_hello \<Rightarrow> bytes \<Rightarrow> bytes list \<Rightarrow> bool \<times> replay_cache" where
  "try_privs pr p now ch pub [] = (False, rp_replay p)"
| "try_privs pr p now ch pub (priv # privs) =
     (case pr_ecdh pr priv pub of
        None \<Rightarrow> try_privs pr p now ch pub privs
      | Some shared \<Rightarrow>
          (case open_reality_auth pr shared (ch_random ch) (ch_session_id ch) of
             None \<Rightarrow> try_privs pr p now ch pub privs
           | Some (short_id, t) \<Rightarrow>
               if \<not> short_id_allowed short_id (rp_short_ids p) then (False, rp_replay p)
               else if \<not> time_ok (rp_window p) now t then (False, rp_replay p)
               else cache_fresh (ch_session_id ch) now (rp_replay p)))"

definition authenticate :: "reality_prims \<Rightarrow> reality_params \<Rightarrow> int \<Rightarrow> client_hello \<Rightarrow> bool \<times> replay_cache" where
  "authenticate pr p now ch =
     (if rp_names p \<noteq> [] \<and> \<not> sni_allowed (ch_server_name ch) (rp_names p) then (False, rp_replay p)
      else case ch_x25519 ch of
          None \<Rightarrow> (False, rp_replay p)
        | Some pub \<Rightarrow> if \<not> pr_pub_ok pr pub then (False, rp_replay p)
                       else try_privs pr p now ch pub (rp_privs p))"

text \<open>\<open>readFirstTLSRecord\<close>: \<open>None\<close> is a read error, else the record (empty for Go's \<open>nil\<close>), the
  consumed bytes and what is still unread.\<close>

definition read_first_tls_record :: "bytes \<Rightarrow> (bytes \<times> bytes \<times> bytes) option" where
  "read_first_tls_record s =
     (case read_full 5 s of
        None \<Rightarrow> None
      | Some (hdr, s1) \<Rightarrow>
          if hdr ! 0 \<noteq> 0x16 then Some ([], hdr, s1)
          else let n = unat (get16 (slice 3 5 hdr)) in
            if n = 0 \<or> 16384 < n then Some ([], hdr, s1)
            else case read_full n s1 of
                None \<Rightarrow> None
              | Some (body, s2) \<Rightarrow> Some (hdr @ body, hdr @ body, s2))"

text \<open>The outcome of \<open>AcceptReality\<close>: closed on a read error, spliced to \<open>dest\<close> with the bytes to
  replay, or handed to the TLS server behind a \<open>prefixConn\<close>.\<close>

datatype accept_result =
    AcceptClosed
  | AcceptFallback string bytes bytes
  | AcceptAuthorized prefix_conn

definition accept_reality :: "reality_prims \<Rightarrow> reality_params \<Rightarrow> int \<Rightarrow> bytes \<Rightarrow> accept_result \<times> reality_params" where
  "accept_reality pr p now s =
     (case read_first_tls_record s of
        None \<Rightarrow> (AcceptClosed, p)
      | Some (record, consumed, rest) \<Rightarrow>
          (case parse_client_hello_record record of
             None \<Rightarrow> (AcceptFallback (rp_dest p) consumed rest, p)
           | Some ch \<Rightarrow>
               if ch_x25519 ch = None then (AcceptFallback (rp_dest p) consumed rest, p)
               else case authenticate pr p now ch of (ok, cache) \<Rightarrow>
                 (if ok then AcceptAuthorized \<lparr>pc_prefix = consumed, pc_rest = rest\<rparr>
                  else AcceptFallback (rp_dest p) consumed rest,
                  p\<lparr>rp_replay := cache\<rparr>)))"

section \<open>Building the parameters\<close>

datatype reality_error =
  NoPrivateKey | BadPrivateKey string | DestRequired | DestNotHostPort addr_error | TlsConfigFailed

fun decode_privs :: "(string \<Rightarrow> bytes option) \<Rightarrow> string list \<Rightarrow> reality_error + bytes list" where
  "decode_privs dec [] = Inr []"
| "decode_privs dec (s # ss) =
     (case dec s of
        None \<Rightarrow> Inl (BadPrivateKey s)
      | Some k \<Rightarrow> (case decode_privs dec ss of Inl e \<Rightarrow> Inl e | Inr ks \<Rightarrow> Inr (k # ks)))"

definition build_reality_server_params ::
  "(string \<Rightarrow> bytes option) \<Rightarrow> bool \<Rightarrow> string list \<Rightarrow> string \<Rightarrow> string list \<Rightarrow> string list \<Rightarrow> int \<Rightarrow>
     reality_error + reality_params" where
  "build_reality_server_params dec tls_ok keys dest names short_ids window_sec =
     (if keys = [] then Inl NoPrivateKey
      else case decode_privs dec keys of
          Inl e \<Rightarrow> Inl e
        | Inr privs \<Rightarrow>
            if dest = '''' then Inl DestRequired
            else case split_host_port dest of
                Inl e \<Rightarrow> Inl (DestNotHostPort e)
              | Inr _ \<Rightarrow>
                  if \<not> tls_ok then Inl TlsConfigFailed
                  else let w = (if window_sec \<le> 0 then realityTimeWindowDefault else window_sec);
                           ids = map parse_short_id short_ids in
                    Inr \<lparr>rp_privs = privs, rp_dest = dest, rp_names = names,
                         rp_short_ids = (if ids = [] then [replicate realityShortIDLen 0] else ids),
                         rp_window = word_of_int w * 1000000000,
                         rp_replay = new_replay_cache (2 * w)\<rparr>)"

section \<open>The client\<close>

datatype dial_error = BadPublicKey | NoX25519Share | EcdhFailed | ShortRandom | SealFailed

text \<open>The session ID \<open>DialReality\<close> puts into the ClientHello uTLS has built.\<close>

definition dial_session_id ::
  "reality_prims \<Rightarrow> (string \<Rightarrow> bytes option) \<Rightarrow> string \<Rightarrow> string \<Rightarrow> bytes option \<Rightarrow> bytes \<Rightarrow> 64 word \<Rightarrow>
     dial_error + bytes" where
  "dial_session_id pr dec public_key short_id ecdhe random now =
     (case dec public_key of
        None \<Rightarrow> Inl BadPublicKey
      | Some server_pub \<Rightarrow>
          (case ecdhe of
             None \<Rightarrow> Inl NoX25519Share
           | Some eph \<Rightarrow>
               (case pr_ecdh pr eph server_pub of
                  None \<Rightarrow> Inl EcdhFailed
                | Some shared \<Rightarrow>
                    if length random < 12 then Inl ShortRandom
                    else case seal_reality_auth pr shared random (parse_short_id short_id) now of
                        None \<Rightarrow> Inl SealFailed
                      | Some sid \<Rightarrow> Inr sid)))"

text \<open>\<open>RandomPoolPublicKey\<close>; the index is what \<open>crypto/rand\<close> drew, \<open>None\<close> its error.\<close>

definition random_pool_public_key :: "string list \<Rightarrow> nat option \<Rightarrow> string" where
  "random_pool_public_key pool idx =
     (if pool = [] then '''' else case idx of None \<Rightarrow> pool ! 0 | Some i \<Rightarrow> pool ! i)"

definition reality_pool_contains :: "string list \<Rightarrow> string \<Rightarrow> bool" where
  "reality_pool_contains pool pub = list_ex (\<lambda>p. p = pub) pool"

section \<open>The blob round trip\<close>

lemma length_parse_short_id [simp]: "length (parse_short_id s) = 8"
  by (simp add: parse_short_id_def realityShortIDLen_def min_def)

lemma open_seal_reality:
  assumes law: "aead_law (pr_seal pr) (pr_open pr)" and "12 \<le> length nonce" and "length short_id = 8"
  shows "\<exists>sid. seal_reality_auth pr shared nonce short_id t = Some sid \<and> length sid = 32 \<and>
               open_reality_auth pr shared nonce sid = Some (short_id, t)"
proof -
  let ?out = "pr_seal pr (reality_key pr shared) (take 12 nonce) (short_id @ put64 t) []"
  have "length ?out = 32" "pr_open pr (reality_key pr shared) (take 12 nonce) ?out [] = Some (short_id @ put64 t)"
    using law assms(3) by (simp_all add: aead_law_def)
  then show ?thesis using assms
    by (simp add: seal_reality_auth_def open_reality_auth_def realitySessionIDLen_def realityShortIDLen_def
        slice_append_over Let_def)
qed

section \<open>The time window\<close>

definition sane_time :: "int \<Rightarrow> bool" where
  "sane_time t \<longleftrightarrow> 0 \<le> t \<and> t < 4294967296"

lemma sint_of_small: "- (2 ^ 63) \<le> (i :: int) \<Longrightarrow> i < 2 ^ 63 \<Longrightarrow> sint (word_of_int i :: 64 word) = i"
  by (simp add: signed_take_bit_int_eq_self sint_sbintrunc')

text \<open>For clocks within 136 years of the epoch the wrapped test is the intended one.\<close>

lemma time_ok_sane:
  assumes "sane_time now" and "sane_time t" and "0 < sec" and "sec < 4294967296"
  shows "time_ok (word_of_int sec * 1000000000) now (word_of_int t) \<longleftrightarrow> \<bar>now - t\<bar> \<le> sec"
proof -
  have d: "word_of_int now - word_of_int t = (word_of_int (now - t) :: 64 word)" by simp
  have sd: "sint (word_of_int (now - t) :: 64 word) = now - t"
    using assms(1,2) by (intro sint_of_small) (auto simp: sane_time_def)
  have skew: "(if sint (word_of_int (now - t) :: 64 word) < 0 then - word_of_int (now - t) else word_of_int (now - t)) =
      (word_of_int \<bar>now - t\<bar> :: 64 word)"
    unfolding sd by (simp add: abs_if del: word_of_int_minus)
  have prod: "word_of_int \<bar>now - t\<bar> * 1000000000 = (word_of_int (\<bar>now - t\<bar> * 1000000000) :: 64 word)"
    "word_of_int sec * 1000000000 = (word_of_int (sec * 1000000000) :: 64 word)"
    by simp_all
  have "0 \<le> \<bar>now - t\<bar>" "\<bar>now - t\<bar> < 4294967296" using assms(1,2) by (auto simp: sane_time_def)
  moreover have "sint (word_of_int (x * 1000000000) :: 64 word) = x * 1000000000"
    if "0 \<le> x" "x < 4294967296" for x
    using that by (intro sint_of_small) simp_all
  ultimately have "sint (word_of_int (\<bar>now - t\<bar> * 1000000000) :: 64 word) = \<bar>now - t\<bar> * 1000000000"
    by blast
  moreover have "sint (word_of_int (sec * 1000000000) :: 64 word) = sec * 1000000000"
    using assms(3,4) by (intro sint_of_small) auto
  ultimately show ?thesis
    unfolding time_ok_def Let_def d skew prod by auto
qed

text \<open>
  Ten thousand million seconds off, the product wraps to a negative duration and the test passes.
\<close>

lemma time_ok_overflow:
  "time_ok (word_of_int 90 * 1000000000) 1700000000 (word_of_int (1700000000 - 10000000000)) \<and>
   time_ok (word_of_int 90 * 1000000000) 1700001000 (word_of_int (1700000000 - 10000000000))"
  by (simp add: time_ok_def)

section \<open>Replays\<close>

lemma cache_fresh_spec:
  assumes "cache_ok c"
  shows "fst (cache_fresh key now c) \<longleftrightarrow>
      (case map_of (rc_seen c) key of None \<Rightarrow> True | Some t \<Rightarrow> rc_ttl c < now - t)"
    and "cache_ok (snd (cache_fresh key now c))" and "rc_ttl (snd (cache_fresh key now c)) = rc_ttl c"
    and "fst (cache_fresh key now c) \<Longrightarrow> map_of (rc_seen (snd (cache_fresh key now c))) key = Some now"
    and "map_of (rc_seen c) k = Some t \<Longrightarrow> now - t \<le> rc_ttl c \<Longrightarrow>
      map_of (rc_seen (snd (cache_fresh key now c))) k = Some t"
proof -
  have ok: "amap_ok (rc_seen c)" using assms by (simp add: cache_ok_def)
  note m = map_of_mdrop [OF ok, of "\<lambda>_ t. rc_ttl c < now - t"]
  show "fst (cache_fresh key now c) \<longleftrightarrow>
      (case map_of (rc_seen c) key of None \<Rightarrow> True | Some t \<Rightarrow> rc_ttl c < now - t)"
    by (cases "map_of (rc_seen c) key") (auto simp: cache_fresh_def Let_def m)
  show "cache_ok (snd (cache_fresh key now c))" "rc_ttl (snd (cache_fresh key now c)) = rc_ttl c"
    using ok by (auto simp: cache_fresh_def Let_def cache_ok_def split: option.split)
  show "fst (cache_fresh key now c) \<Longrightarrow> map_of (rc_seen (snd (cache_fresh key now c))) key = Some now"
    by (auto simp: cache_fresh_def Let_def split: option.splits if_splits)
  assume "map_of (rc_seen c) k = Some t" "now - t \<le> rc_ttl c"
  then have k: "map_of (mdrop (\<lambda>_ t. rc_ttl c < now - t) (rc_seen c)) k = Some t" by (simp add: m)
  show "map_of (rc_seen (snd (cache_fresh key now c))) k = Some t"
  proof (cases "key = k")
    case True
    then show ?thesis using k \<open>now - t \<le> rc_ttl c\<close> by (simp add: cache_fresh_def Let_def)
  next
    case False
    then show ?thesis using k by (auto simp: cache_fresh_def Let_def split: option.split)
  qed
qed

text \<open>What one authentication does to the cache: nothing, or one \<open>fresh\<close> call after the time test.\<close>

definition hello_time :: "reality_prims \<Rightarrow> reality_params \<Rightarrow> client_hello \<Rightarrow> 64 word option" where
  "hello_time pr p ch =
     (case ch_x25519 ch of None \<Rightarrow> None
      | Some pub \<Rightarrow>
          (case List.map_filter (\<lambda>priv. case pr_ecdh pr priv pub of None \<Rightarrow> None
                  | Some sh \<Rightarrow> open_reality_auth pr sh (ch_random ch) (ch_session_id ch)) (rp_privs p) of
             [] \<Rightarrow> None | (i, t) # _ \<Rightarrow> Some t))"

lemma try_privs_cases:
  "try_privs pr p now ch pub privs = (ok, cache) \<Longrightarrow>
     ok = False \<and> cache = rp_replay p \<or>
     (\<exists>i t rest. List.map_filter (\<lambda>priv. case pr_ecdh pr priv pub of None \<Rightarrow> None
                  | Some sh \<Rightarrow> open_reality_auth pr sh (ch_random ch) (ch_session_id ch)) privs = (i, t) # rest \<and>
        time_ok (rp_window p) now t \<and> (ok, cache) = cache_fresh (ch_session_id ch) now (rp_replay p))"
  by (induction privs) (auto simp: map_filter_simps split: option.splits if_splits)

lemma authenticate_cases:
  assumes "authenticate pr p now ch = (ok, cache)"
  obtains (refused) "\<not> ok" and "cache = rp_replay p"
  | (checked) t where "hello_time pr p ch = Some t" and "time_ok (rp_window p) now t"
      and "(ok, cache) = cache_fresh (ch_session_id ch) now (rp_replay p)"
proof (cases "\<not> ok \<and> cache = rp_replay p")
  case False
  then obtain pub where pub: "ch_x25519 ch = Some pub"
      and tr: "try_privs pr p now ch pub (rp_privs p) = (ok, cache)"
    using assms by (auto simp: authenticate_def split: if_splits option.splits)
  from try_privs_cases [OF tr] False obtain i t rest where
    "List.map_filter (\<lambda>priv. case pr_ecdh pr priv pub of None \<Rightarrow> None
        | Some sh \<Rightarrow> open_reality_auth pr sh (ch_random ch) (ch_session_id ch)) (rp_privs p) = (i, t) # rest"
    "time_ok (rp_window p) now t" "(ok, cache) = cache_fresh (ch_session_id ch) now (rp_replay p)"
    by blast
  then show ?thesis using checked pub by (simp add: hello_time_def)
qed (use refused in simp)

text \<open>A run of the listener: each attempt with its time, the verdicts in order.\<close>

fun auth_run :: "reality_prims \<Rightarrow> reality_params \<Rightarrow> (int \<times> client_hello) list \<Rightarrow> bool list" where
  "auth_run pr p [] = []"
| "auth_run pr p ((now, ch) # as) =
     (case authenticate pr p now ch of (ok, cache) \<Rightarrow> ok # auth_run pr (p\<lparr>rp_replay := cache\<rparr>) as)"

definition window_params :: "int \<Rightarrow> reality_params \<Rightarrow> bool" where
  "window_params sec p \<longleftrightarrow> 0 < sec \<and> sec < 4294967296 \<and> rp_window p = word_of_int sec * 1000000000 \<and>
     cache_ok (rp_replay p) \<and> rc_ttl (rp_replay p) = 2 * sec"

lemma hello_time_replay [simp]: "hello_time pr (p\<lparr>rp_replay := c\<rparr>) ch = hello_time pr p ch"
  by (cases "ch_x25519 ch") (simp_all add: hello_time_def)

lemma window_params_step:
  assumes "window_params sec p" and "authenticate pr p now ch = (ok, cache)"
  shows "window_params sec (p\<lparr>rp_replay := cache\<rparr>)"
  using assms(2)
proof (cases rule: authenticate_cases)
  case refused
  then show ?thesis using assms(1) by simp
next
  case (checked t)
  then have "cache = snd (cache_fresh (ch_session_id ch) now (rp_replay p))" by (metis snd_conv)
  then show ?thesis using assms(1) cache_fresh_spec(2,3) [of "rp_replay p"] by (simp add: window_params_def)
qed

text \<open>
  While the acceptance at \<open>n1\<close> is in the cache, or the blob is out of its window for good, the hello
  is refused, and stays in one of these two situations.
\<close>

definition burnt :: "int \<Rightarrow> int \<Rightarrow> bytes \<Rightarrow> int \<Rightarrow> reality_params \<Rightarrow> bool" where
  "burnt sec n1 sid now p \<longleftrightarrow> map_of (rc_seen (rp_replay p)) sid = Some n1 \<or> n1 + 2 * sec < now"

lemma burnt_step:
  assumes w: "window_params sec p" and b: "burnt sec n1 sid now p"
    and a: "authenticate pr p now ch = (ok, cache)"
  shows "burnt sec n1 sid now (p\<lparr>rp_replay := cache\<rparr>)"
proof (cases "n1 + 2 * sec < now")
  case False
  then have seen: "map_of (rc_seen (rp_replay p)) sid = Some n1" using b by (simp add: burnt_def)
  from a show ?thesis
  proof (cases rule: authenticate_cases)
    case (checked t)
    then have c: "cache = snd (cache_fresh (ch_session_id ch) now (rp_replay p))" by (metis snd_conv)
    have "map_of (rc_seen cache) sid = Some n1" unfolding c
      using False seen w by (intro cache_fresh_spec(5)) (simp_all add: window_params_def)
    then show ?thesis by (simp add: burnt_def)
  qed (use seen in \<open>simp add: burnt_def\<close>)
qed (simp add: burnt_def)

lemma burnt_mono: "burnt sec n1 sid now p \<Longrightarrow> now \<le> now' \<Longrightarrow> burnt sec n1 sid now' p"
  by (auto simp: burnt_def)

lemma burnt_refuses:
  assumes w: "window_params sec p" and b: "burnt sec n1 (ch_session_id ch) now p"
    and t: "hello_time pr p ch = Some (word_of_int t)" "sane_time t" "sane_time now" "n1 \<ge> t - sec"
  shows "\<not> fst (authenticate pr p now ch)"
proof
  assume ok: "fst (authenticate pr p now ch)"
  obtain okv cache where a: "authenticate pr p now ch = (okv, cache)" by fastforce
  then have okv using ok by simp
  from a show False
  proof (cases rule: authenticate_cases)
    case (checked t')
    then have "time_ok (word_of_int sec * 1000000000) now (word_of_int t)"
      using t(1) w by (simp add: window_params_def)
    then have "\<bar>now - t\<bar> \<le> sec" using time_ok_sane [OF t(3,2)] w by (simp add: window_params_def)
    then have "map_of (rc_seen (rp_replay p)) (ch_session_id ch) = Some n1" "now - n1 \<le> 2 * sec"
      using b t(4) by (auto simp: burnt_def)
    moreover have "fst (cache_fresh (ch_session_id ch) now (rp_replay p))"
      using checked(3) \<open>okv\<close> by (metis fst_conv)
    ultimately show False using w cache_fresh_spec(1) [of "rp_replay p" "ch_session_id ch" now]
      by (simp add: window_params_def)
  qed (use \<open>okv\<close> in simp)
qed

lemma auth_run_burnt:
  assumes "window_params sec p" and "burnt sec n1 (ch_session_id ch) n0 p"
    and "hello_time pr p ch = Some (word_of_int t)" "sane_time t" "n1 \<ge> t - sec"
    and "sorted (n0 # map fst as)" and "\<forall>a \<in> set as. sane_time (fst a)"
    and "j < length as" and "snd (as ! j) = ch"
  shows "\<not> auth_run pr p as ! j"
  using assms
proof (induction as arbitrary: p n0 j)
  case (Cons a as)
  obtain now c where a: "a = (now, c)" by fastforce
  obtain ok cache where au: "authenticate pr p now c = (ok, cache)" by fastforce
  have le: "n0 \<le> now" using Cons.prems(6) a by simp
  note b = burnt_mono [OF Cons.prems(2) le]
  show ?case
  proof (cases j)
    case 0
    then have "c = ch" using Cons.prems(9) a by simp
    then have "\<not> ok" using burnt_refuses [OF Cons.prems(1) b Cons.prems(3,4) _ Cons.prems(5)] Cons.prems(7) a au
      by simp
    then show ?thesis using 0 a au by simp
  next
    case (Suc i)
    have "\<not> auth_run pr (p\<lparr>rp_replay := cache\<rparr>) as ! i"
      using Cons.prems a Suc by (intro Cons.IH [OF window_params_step [OF Cons.prems(1) au]
          burnt_step [OF Cons.prems(1) b au]]) (auto intro: order_trans)
    then show ?thesis using Suc a au by simp
  qed
qed simp

text \<open>No ClientHello is accepted twice, whatever comes in between.\<close>

lemma auth_run_once:
  assumes "window_params sec p"
    and "hello_time pr p ch = Some (word_of_int t)" "sane_time t"
    and "sorted (map fst as)" and "\<forall>a \<in> set as. sane_time (fst a)"
    and "i < j" and "j < length as" and "snd (as ! i) = ch" and "snd (as ! j) = ch"
    and "auth_run pr p as ! i"
  shows "\<not> auth_run pr p as ! j"
  using assms
proof (induction as arbitrary: p i j)
  case (Cons a as)
  obtain now c where a: "a = (now, c)" by fastforce
  obtain ok cache where au: "authenticate pr p now c = (ok, cache)" by fastforce
  obtain j' where j: "j = Suc j'" using Cons.prems(6) by (cases j) auto
  note w = window_params_step [OF Cons.prems(1) au]
  show ?case
  proof (cases i)
    case (Suc i')
    then have "\<not> auth_run pr (p\<lparr>rp_replay := cache\<rparr>) as ! j'"
      using Cons.prems a au j by (intro Cons.IH [OF w, of i']) auto
    then show ?thesis using a au j by simp
  next
    case 0
    then have c: "c = ch" and "ok" using Cons.prems a au by simp_all
    from au have "burnt sec now (ch_session_id ch) now (p\<lparr>rp_replay := cache\<rparr>) \<and> t - sec \<le> now"
    proof (cases rule: authenticate_cases)
      case (checked t')
      then have "cache = snd (cache_fresh (ch_session_id ch) now (rp_replay p))"
        "fst (cache_fresh (ch_session_id ch) now (rp_replay p))"
        using c \<open>ok\<close> by (metis snd_conv, metis fst_conv)
      then have "burnt sec now (ch_session_id ch) now (p\<lparr>rp_replay := cache\<rparr>)"
        using cache_fresh_spec(4) [of "rp_replay p" "ch_session_id ch" now] Cons.prems(1)
        by (simp add: burnt_def window_params_def)
      moreover have "time_ok (word_of_int sec * 1000000000) now (word_of_int t)"
        using checked(1,2) c Cons.prems(1,2) by (simp add: window_params_def)
      then have "\<bar>now - t\<bar> \<le> sec"
        using time_ok_sane [of now t sec] Cons.prems(1,3,5) a by (simp add: window_params_def)
      ultimately show ?thesis by auto
    qed (use \<open>ok\<close> in simp)
    then have "\<not> auth_run pr (p\<lparr>rp_replay := cache\<rparr>) as ! j'"
      using Cons.prems a j by (intro auth_run_burnt [OF w, where t = t]) auto
    then show ?thesis using a au j by simp
  qed
qed simp

section \<open>Transparency of the listener\<close>

lemma read_full_append: "read_full n s = Some (a, b) \<Longrightarrow> a @ b = s"
  by (auto simp: read_full_def split: if_splits)

lemma read_first_tls_record_stream:
  assumes "read_first_tls_record s = Some (recd, consumed, rest)"
  shows "consumed @ rest = s"
proof -
  obtain hdr s1 where hdr: "read_full 5 s = Some (hdr, s1)"
    using assms by (auto simp: read_first_tls_record_def split: option.splits)
  note s = read_full_append [OF hdr]
  consider "consumed = hdr" "rest = s1"
    | n body s2 where "read_full n s1 = Some (body, s2)" "consumed = hdr @ body" "rest = s2"
    using assms hdr by (auto simp: read_first_tls_record_def Let_def split: if_splits option.splits)
  then show ?thesis
  proof cases
    case 2
    then show ?thesis using s read_full_append [OF 2(1)] by (metis append.assoc)
  qed (use s in simp)
qed

lemma accept_reality_fallback:
  assumes "accept_reality pr p now s = (AcceptFallback dest consumed rest, p')"
  shows "dest = rp_dest p \<and> consumed @ rest = s"
  using assms read_first_tls_record_stream [of s]
  by (auto simp: accept_reality_def split: option.splits prod.splits if_splits)

lemma accept_reality_authorized:
  assumes "accept_reality pr p now s = (AcceptAuthorized pc, p')"
  shows "pc_prefix pc @ pc_rest pc = s"
  using assms read_first_tls_record_stream [of s]
  by (auto simp: accept_reality_def split: option.splits prod.splits if_splits)

section \<open>Who is authorized\<close>

text \<open>Only a peer whose blob opens under one of the server's keys gets past the decision.\<close>

lemma try_privs_sound:
  "fst (try_privs pr p now ch pub privs) \<Longrightarrow>
     \<exists>priv \<in> set privs. \<exists>sh i t. pr_ecdh pr priv pub = Some sh \<and>
       open_reality_auth pr sh (ch_random ch) (ch_session_id ch) = Some (i, t) \<and>
       i \<in> set (rp_short_ids p) \<and> time_ok (rp_window p) now t"
proof (induction privs)
  case (Cons priv privs)
  show ?case
  proof (cases "pr_ecdh pr priv pub")
    case None
    then show ?thesis using Cons by auto
  next
    case (Some sh)
    then show ?thesis using Cons
      by (cases "open_reality_auth pr sh (ch_random ch) (ch_session_id ch)")
        (auto simp: short_id_allowed_def list_ex_iff split: if_splits)
  qed
qed simp

lemma accept_reality_sound:
  assumes "accept_reality pr p now s = (AcceptAuthorized pc, p')"
  shows "\<exists>ch pub priv sh i t. parse_client_hello_record (pc_prefix pc) = Some ch \<and> ch_x25519 ch = Some pub \<and>
    priv \<in> set (rp_privs p) \<and> pr_ecdh pr priv pub = Some sh \<and>
    open_reality_auth pr sh (ch_random ch) (ch_session_id ch) = Some (i, t) \<and>
    i \<in> set (rp_short_ids p) \<and> time_ok (rp_window p) now t \<and>
    (rp_names p = [] \<or> ch_server_name ch \<in> set (rp_names p))"
proof -
  obtain recd consumed rest ch where r: "read_first_tls_record s = Some (recd, consumed, rest)"
      "parse_client_hello_record recd = Some ch" "ch_x25519 ch \<noteq> None"
      "fst (authenticate pr p now ch)" "pc = \<lparr>pc_prefix = consumed, pc_rest = rest\<rparr>"
    using assms by (auto simp: accept_reality_def split: option.splits prod.splits if_splits)
  have "recd = consumed"
    using r(1,2) by (auto simp: read_first_tls_record_def parse_client_hello_record_def Let_def
        split: option.splits if_splits)
  moreover obtain pub where pub: "ch_x25519 ch = Some pub" using r(3) by blast
  moreover have "fst (try_privs pr p now ch pub (rp_privs p))"
      "rp_names p = [] \<or> ch_server_name ch \<in> set (rp_names p)"
    using r(4) pub by (auto simp: authenticate_def sni_allowed_def list_ex_iff split: if_splits)
  ultimately show ?thesis using try_privs_sound [of pr p now ch pub "rp_privs p"] r(2,5) by fastforce
qed

text \<open>
  The genuine client: its hello carries the blob sealed under the shared secret, the server holds the
  matching private key, and the keys before it in the pool do not open the blob.
\<close>

lemma try_privs_skip:
  assumes "\<forall>k \<in> set ks. \<forall>sh. pr_ecdh pr k pub = Some sh \<longrightarrow>
     open_reality_auth pr sh (ch_random ch) (ch_session_id ch) = None"
  shows "try_privs pr p now ch pub (ks @ privs) = try_privs pr p now ch pub privs"
  using assms by (induction ks) (auto split: option.split)

lemma authenticate_client:
  assumes law: "aead_law (pr_seal pr) (pr_open pr)"
    and dial: "dial_session_id pr dec public_key sid_str (Some eph) random (word_of_int t) = Inr sid"
    and pub: "dec public_key = Some server_pub"
    and dh: "pr_ecdh pr eph server_pub = pr_ecdh pr priv eph_pub"
    and ch: "ch = \<lparr>ch_random = random, ch_session_id = sid, ch_x25519 = Some eph_pub, ch_server_name = host\<rparr>"
    and pool: "rp_privs p = ks @ priv # ks'" and ok: "pr_pub_ok pr eph_pub"
    and skip: "\<forall>k \<in> set ks. \<forall>sh. pr_ecdh pr k eph_pub = Some sh \<longrightarrow>
                 open_reality_auth pr sh random sid = None"
    and sni: "rp_names p = [] \<or> host \<in> set (rp_names p)"
    and short: "parse_short_id sid_str \<in> set (rp_short_ids p)"
    and w: "window_params sec p" and time: "sane_time now" "sane_time t" "\<bar>now - t\<bar> \<le> sec"
    and unseen: "map_of (rc_seen (rp_replay p)) sid = None"
  shows "fst (authenticate pr p now ch)"
proof -
  obtain shared where sh: "pr_ecdh pr eph server_pub = Some shared" "12 \<le> length random"
      "seal_reality_auth pr shared random (parse_short_id sid_str) (word_of_int t) = Some sid"
    using dial pub by (auto simp: dial_session_id_def split: option.splits if_splits)
  have "open_reality_auth pr shared random sid = Some (parse_short_id sid_str, word_of_int t)"
    using open_seal_reality [OF law sh(2), of "parse_short_id sid_str" shared "word_of_int t"] sh(3) by simp
  moreover have "pr_ecdh pr priv eph_pub = Some shared" using dh sh(1) by simp
  moreover have "time_ok (rp_window p) now (word_of_int t)"
    using time_ok_sane [OF time(1,2)] w time(3) by (simp add: window_params_def)
  moreover have "fst (cache_fresh sid now (rp_replay p))"
    using cache_fresh_spec(1) [of "rp_replay p" sid now] w unseen by (simp add: window_params_def)
  ultimately have "fst (try_privs pr p now ch eph_pub (priv # ks'))"
    using short ch by (simp add: short_id_allowed_def list_ex_iff)
  then show ?thesis using skip pool ch ok sni try_privs_skip [of ks pr eph_pub ch p now "priv # ks'"]
    by (auto simp: authenticate_def sni_allowed_def list_ex_iff)
qed

section \<open>The parameters\<close>

lemma build_window_params:
  assumes "build_reality_server_params dec tls_ok keys dest names ids sec = Inr p" and "sec < 4294967296"
  shows "window_params (if sec \<le> 0 then 90 else sec) p" and "rp_short_ids p \<noteq> []"
    and "length (rp_privs p) = length keys"
proof -
  have len: "decode_privs dec ks = Inr ps \<Longrightarrow> length ps = length ks" for ks ps
    by (induction ks arbitrary: ps) (auto split: option.splits sum.splits)
  from assms(1) obtain privs where p: "decode_privs dec keys = Inr privs" "rp_privs p = privs"
      "rp_short_ids p = (if ids = [] then [replicate realityShortIDLen 0] else map parse_short_id ids)"
      "rp_window p = word_of_int (if sec \<le> 0 then 90 else sec) * 1000000000"
      "rp_replay p = new_replay_cache (2 * (if sec \<le> 0 then 90 else sec))"
    by (auto simp: build_reality_server_params_def Let_def realityTimeWindowDefault_def
        split: if_splits sum.splits)
  show "window_params (if sec \<le> 0 then 90 else sec) p"
    using p(4,5) assms(2) by (auto simp: window_params_def new_replay_cache_def cache_ok_def)
  show "rp_short_ids p \<noteq> []" using p(3) by (auto split: if_splits)
  show "length (rp_privs p) = length keys" using len [OF p(1)] p(2) by simp
qed

end
