(* ===== verification/ClientConn.thy ===== *)
theory ClientConn
  imports Session
begin

text \<open>
  The connecting half of \<open>internal/vpnclient/client.go\<close>: the client object with its statistics and
  log, its life cycle (\<open>Start\<close>, \<open>Stop\<close> and the goroutine of \<open>run\<close>) as a step relation, the handshake
  of \<open>authenticate\<close>, and the order in which \<open>connectWithFallback\<close> tries the transports;
  \<open>fetch_hubs\<close> is \<open>hubdiscovery.go\<close>. Dialling is a parameter.
\<close>

section \<open>The client object\<close>

datatype conn_state = StateDisconnected | StateConnecting | StateConnected

record fec_stats =
  fs_data :: "64 word"
  fs_repair :: "64 word"
  fs_recovered :: "64 word"
  fs_lost :: "64 word"
  fs_tx :: "64 word"
  fs_rx :: "64 word"

record session_stats =
  st_state :: conn_state
  st_transport :: string
  st_adapter_mode :: string
  st_server :: string
  st_hub :: "16 word"
  st_login :: string
  st_session :: session_id
  st_connected :: time
  st_secondary :: string
  st_rx :: "64 word"
  st_tx :: "64 word"
  st_fec_data :: "64 word"
  st_fec_repair :: "64 word"
  st_fec_recovered :: "64 word"
  st_fec_lost :: "64 word"
  st_last_error :: string
  st_start :: time

record client =
  cl_cfg :: client_config
  cl_stats :: session_stats
  cl_adapter_mode :: string
  cl_fec :: "fec_stats option"
  cl_logs :: "string list"
  cl_log_version :: "64 word"

definition maxLogLines :: nat where "maxLogLines = 500"
definition pingInterval :: time where "pingInterval = 5 * second"
definition keepaliveTimeout :: time where "keepaliveTimeout = 10 * second"

definition no_stats :: fec_stats where
  "no_stats = \<lparr>fs_data = 0, fs_repair = 0, fs_recovered = 0, fs_lost = 0, fs_tx = 0, fs_rx = 0\<rparr>"

definition new_client :: "client_config \<Rightarrow> string \<Rightarrow> time \<Rightarrow> client" where
  "new_client cfg adapter_mode now =
     \<lparr>cl_cfg = cfg,
      cl_stats = \<lparr>st_state = StateDisconnected, st_transport = '''', st_adapter_mode = '''', st_server = '''',
        st_hub = 0, st_login = '''', st_session = 0, st_connected = 0, st_secondary = '''', st_rx = 0, st_tx = 0,
        st_fec_data = 0, st_fec_repair = 0, st_fec_recovered = 0, st_fec_lost = 0, st_last_error = '''',
        st_start = now\<rparr>,
      cl_adapter_mode = adapter_mode, cl_fec = None, cl_logs = [], cl_log_version = 0\<rparr>"

text \<open>\<open>Stats\<close>: a copy, with the counters of the running session filled in.\<close>

definition client_stats :: "client \<Rightarrow> session_stats" where
  "client_stats c =
     (let s = (cl_stats c)\<lparr>st_adapter_mode := cl_adapter_mode c\<rparr>
      in case cl_fec c of
          None \<Rightarrow> s
        | Some f \<Rightarrow> s\<lparr>st_tx := fs_tx f, st_rx := fs_rx f, st_fec_data := fs_data f,
            st_fec_repair := fs_repair f, st_fec_recovered := fs_recovered f, st_fec_lost := fs_lost f\<rparr>)"

text \<open>\<open>Logf\<close>, after formatting.\<close>

definition logf :: "string \<Rightarrow> client \<Rightarrow> client" where
  "logf msg c =
     (let ls = cl_logs c @ [msg]
      in c\<lparr>cl_logs := (if maxLogLines < length ls then drop (length ls - maxLogLines) ls else ls),
           cl_log_version := cl_log_version c + 1\<rparr>)"

definition set_state :: "conn_state \<Rightarrow> client \<Rightarrow> client" where
  "set_state s c = c\<lparr>cl_stats := (cl_stats c)\<lparr>st_state := s\<rparr>\<rparr>"

lemma logf_run:
  "cl_logs (foldl (\<lambda>c m. logf m c) c ms) =
     drop (length (cl_logs c) + length ms - maxLogLines) (cl_logs c @ ms) \<and>
   cl_log_version (foldl (\<lambda>c m. logf m c) c ms) = cl_log_version c + of_nat (length ms)"
  if "length (cl_logs c) \<le> maxLogLines"
  using that
proof (induction ms arbitrary: c)
  case (Cons m ms)
  let ?c = "logf m c"
  have len: "length (cl_logs ?c) \<le> maxLogLines"
    and logs: "cl_logs ?c = drop (length (cl_logs c) + 1 - maxLogLines) (cl_logs c @ [m])"
    using Cons.prems by (auto simp: logf_def Let_def)
  have "cl_logs (foldl (\<lambda>c m. logf m c) ?c ms) = drop (length (cl_logs ?c) + length ms - maxLogLines) (cl_logs ?c @ ms)"
    using Cons.IH [OF len] by simp
  also have "\<dots> = drop (length (cl_logs c) + length (m # ms) - maxLogLines) (cl_logs c @ m # ms)"
  proof -
    let ?k = "length (cl_logs c) + 1 - maxLogLines"
    have k: "?k \<le> length (cl_logs c @ [m])" "length (cl_logs ?c) = length (cl_logs c) + 1 - ?k"
      unfolding logs by simp_all
    have "?k - length (cl_logs c @ [m]) = 0" using k(1) by (rule diff_is_0_eq [THEN iffD2])
    then have "cl_logs ?c @ ms = drop ?k ((cl_logs c @ [m]) @ ms)"
      unfolding logs drop_append [of _ "cl_logs c @ [m]" ms] by (simp only: drop_0)
    then have "cl_logs ?c @ ms = drop ?k (cl_logs c @ m # ms)" by simp
    moreover have "length (cl_logs ?c) + length ms - maxLogLines + ?k = length (cl_logs c) + length (m # ms) - maxLogLines"
      using Cons.prems k(2) by (cases "?k = 0") simp_all
    ultimately show ?thesis by (metis drop_drop)
  qed
  finally show ?case using Cons.IH [OF len] by (simp add: logf_def Let_def)
qed simp

section \<open>The reconnect loop\<close>

text \<open>
  What one \<open>runSession\<close> call came to: the transport could not be connected, or the session was up
  (with the values it published) and then ended.
\<close>

record up_info =
  up_transport :: string
  up_session :: session_id
  up_secondary :: string
  up_at :: time
  up_stats :: fec_stats

datatype session_outcome = NeverUp string | WasUp up_info string

definition publish_up :: "up_info \<Rightarrow> client \<Rightarrow> client" where
  "publish_up u c = c\<lparr>cl_stats := (cl_stats c)\<lparr>st_state := StateConnected, st_transport := up_transport u,
     st_server := cc_server (cl_cfg c), st_hub := cc_hub_id (cl_cfg c), st_login := cc_login (cl_cfg c),
     st_session := up_session u, st_connected := up_at u, st_secondary := up_secondary u\<rparr>,
     cl_fec := Some (up_stats u)\<rparr>"

definition session_effect :: "session_outcome \<Rightarrow> client \<Rightarrow> client" where
  "session_effect o' c = (case o' of NeverUp _ \<Rightarrow> c | WasUp u _ \<Rightarrow> publish_up u c)"

definition outcome_error :: "session_outcome \<Rightarrow> string" where
  "outcome_error o' = (case o' of NeverUp e \<Rightarrow> ''connect: '' @ e | WasUp _ e \<Rightarrow> e)"

definition reconnect_line :: "string \<Rightarrow> string" where
  "reconnect_line e = ''session ended: '' @ e @ '' '' @ [CHR 0xE2, CHR 0x80, CHR 0x94] @ '' reconnecting in 2s''"

definition session_failed :: "string \<Rightarrow> client \<Rightarrow> client" where
  "session_failed e c =
     (let c1 = logf (reconnect_line e) c
      in c1\<lparr>cl_stats := (cl_stats c1)\<lparr>st_state := StateDisconnected, st_last_error := e\<rparr>, cl_fec := None\<rparr>)"

text \<open>
  The iterations of \<open>run\<close> until the context is cancelled: before the next iteration, or (\<open>last\<close>)
  while a session ran. The deferred function sets the state in either case.
\<close>

fun run_loop :: "session_outcome list \<Rightarrow> session_outcome option \<Rightarrow> client \<Rightarrow> client" where
  "run_loop [] None c = set_state StateDisconnected c"
| "run_loop [] (Some l) c = set_state StateDisconnected (session_effect l (set_state StateConnecting c))"
| "run_loop (x # xs) l c =
     run_loop xs l (session_failed (outcome_error x) (session_effect x (set_state StateConnecting c)))"

lemma run_loop_disconnected: "st_state (cl_stats (run_loop xs l c)) = StateDisconnected"
  by (induction xs l c rule: run_loop.induct) (simp_all add: set_state_def)

text \<open>After a session that ended by itself no counters are shown: \<open>sessionFS\<close> is dropped.\<close>

lemma session_failed_stats:
  "client_stats (session_failed e c) = (cl_stats c)\<lparr>st_adapter_mode := cl_adapter_mode c,
     st_state := StateDisconnected, st_last_error := e\<rparr>"
  by (simp add: client_stats_def session_failed_def logf_def Let_def)

section \<open>Start and Stop\<close>

text \<open>
  The life cycle: \<open>running\<close>, which run the stored cancel function belongs to, and for every \<open>run\<close>
  goroutine started so far whether it is still alive and whether its context was cancelled.
\<close>

record run_state =
  rn_alive :: bool
  rn_cancelled :: bool

record life =
  lf_running :: bool
  lf_cancel :: "nat option"
  lf_runs :: "run_state list"

definition life_init :: life where
  "life_init = \<lparr>lf_running = False, lf_cancel = None, lf_runs = []\<rparr>"

definition life_start :: "life \<Rightarrow> life" where
  "life_start s =
     (if lf_running s then s
      else \<lparr>lf_running = True, lf_cancel = Some (length (lf_runs s)),
             lf_runs = lf_runs s @ [\<lparr>rn_alive = True, rn_cancelled = False\<rparr>]\<rparr>)"

definition life_stop :: "life \<Rightarrow> life" where
  "life_stop s = s\<lparr>lf_running := False,
     lf_runs := (case lf_cancel s of None \<Rightarrow> lf_runs s
       | Some i \<Rightarrow> (lf_runs s)[i := (lf_runs s ! i)\<lparr>rn_cancelled := True\<rparr>])\<rparr>"

text \<open>The deferred function of \<open>run\<close>: whichever goroutine ends clears \<open>running\<close>.\<close>

definition life_exit :: "nat \<Rightarrow> life \<Rightarrow> life" where
  "life_exit i s = s\<lparr>lf_running := False, lf_runs := (lf_runs s)[i := (lf_runs s ! i)\<lparr>rn_alive := False\<rparr>]\<rparr>"

inductive life_step :: "life \<Rightarrow> life \<Rightarrow> bool" where
  start: "life_step s (life_start s)"
| stop: "life_step s (life_stop s)"
| exit: "i < length (lf_runs s) \<Longrightarrow> rn_alive (lf_runs s ! i) \<Longrightarrow> rn_cancelled (lf_runs s ! i) \<Longrightarrow>
    life_step s (life_exit i s)"

inductive_cases life_stepE: "life_step s s'"

inductive life_reach :: "life \<Rightarrow> bool" where
  init: "life_reach life_init"
| step: "life_reach s \<Longrightarrow> life_step s s' \<Longrightarrow> life_reach s'"

text \<open>A run that is working and that the stored cancel function does not reach.\<close>

definition orphan :: "nat \<Rightarrow> life \<Rightarrow> bool" where
  "orphan i s \<longleftrightarrow> i < length (lf_runs s) \<and> rn_alive (lf_runs s ! i) \<and> \<not> rn_cancelled (lf_runs s ! i) \<and>
     lf_cancel s \<noteq> Some i"

definition life_ok :: "life \<Rightarrow> bool" where
  "life_ok s \<longleftrightarrow> lf_cancel s = (if lf_runs s = [] then None else Some (length (lf_runs s) - 1)) \<and>
     (\<forall>i < length (lf_runs s). \<not> rn_alive (lf_runs s ! i) \<longrightarrow> rn_cancelled (lf_runs s ! i))"

lemma life_ok_reach: "life_reach s \<Longrightarrow> life_ok s"
proof (induction rule: life_reach.induct)
  case init
  then show ?case by (simp add: life_ok_def life_init_def)
next
  case (step s s')
  from step(2) show ?case
  proof cases
    case start
    then show ?thesis using step.IH
      by (auto simp: life_ok_def life_start_def nth_append less_Suc_eq split: if_splits)
  next
    case stop
    then show ?thesis using step.IH
      by (auto simp: life_ok_def life_stop_def nth_list_update split: option.splits if_splits)
  next
    case (exit i)
    then show ?thesis using step.IH
      by (auto simp: life_ok_def life_exit_def nth_list_update split: if_splits)
  qed
qed

text \<open>Once orphaned, a run stays so whatever the user does.\<close>

lemma orphan_forever:
  assumes "life_ok s" and "orphan i s" and "life_step s s'"
  shows "orphan i s'"
  using assms(3)
proof cases
  case start
  then show ?thesis using assms(2) by (auto simp: orphan_def life_start_def nth_append)
next
  case stop
  then show ?thesis using assms(2) by (auto simp: orphan_def life_stop_def nth_list_update split: option.splits)
next
  case (exit j)
  then show ?thesis using assms(2) by (auto simp: orphan_def life_exit_def nth_list_update)
qed

text \<open>Stop and Start again before the first goroutine has seen its cancellation, then Start once more.\<close>

definition restart_race :: life where
  "restart_race = life_start (life_exit 0 (life_start (life_stop (life_start life_init))))"

lemma restart_race_reached: "life_reach restart_race"
  unfolding restart_race_def
  by (rule life_reach.step [OF life_reach.step [OF life_reach.step [OF life_reach.step [OF life_reach.step
        [OF life_reach.init life_step.start] life_step.stop] life_step.start] life_step.exit] life_step.start])
    (simp_all add: life_init_def life_start_def life_stop_def)

lemma restart_race_orphan: "orphan 1 restart_race" and restart_race_live: "rn_alive (lf_runs restart_race ! 2)"
  by (simp_all add: restart_race_def orphan_def life_init_def life_start_def life_stop_def life_exit_def)

lemma orphaned_for_good: "rtranclp life_step restart_race s \<Longrightarrow> life_reach s \<and> orphan 1 s"
proof (induction rule: rtranclp_induct)
  case base
  then show ?case using restart_race_reached restart_race_orphan by blast
next
  case (step s s')
  then show ?case using life_reach.step orphan_forever life_ok_reach by blast
qed

text \<open>If every Start waits until the goroutine before it has ended, no run is ever orphaned.\<close>

inductive calm_reach :: "life \<Rightarrow> bool" where
  init: "calm_reach life_init"
| start: "calm_reach s \<Longrightarrow> list_all (\<lambda>r. \<not> rn_alive r) (lf_runs s) \<Longrightarrow> calm_reach (life_start s)"
| stop: "calm_reach s \<Longrightarrow> calm_reach (life_stop s)"
| exit: "calm_reach s \<Longrightarrow> i < length (lf_runs s) \<Longrightarrow> rn_alive (lf_runs s ! i) \<Longrightarrow> rn_cancelled (lf_runs s ! i) \<Longrightarrow>
    calm_reach (life_exit i s)"

lemma calm_life_reach: "calm_reach s \<Longrightarrow> life_reach s"
  by (induction rule: calm_reach.induct) (auto intro: life_reach.intros life_step.intros)

lemma calm_one_alive: "calm_reach s \<Longrightarrow> i < length (lf_runs s) \<Longrightarrow> rn_alive (lf_runs s ! i) \<Longrightarrow> lf_cancel s = Some i"
proof (induction arbitrary: i rule: calm_reach.induct)
  case (start s)
  then show ?case
    by (auto simp: life_start_def list_all_length nth_append split: if_splits)
next
  case (stop s)
  show ?case
  proof (cases "lf_cancel s")
    case None
    then show ?thesis using stop.prems stop.IH [of i] by (simp add: life_stop_def)
  next
    case (Some j)
    then show ?thesis using stop.prems stop.IH [of i] by (cases "i = j") (simp_all add: life_stop_def)
  qed
next
  case (exit s j)
  have "i \<noteq> j" using exit.prems by (auto simp: life_exit_def)
  then show ?case using exit.prems exit.IH [of i] by (simp add: life_exit_def)
qed (simp add: life_init_def)

lemma calm_no_orphan: "calm_reach s \<Longrightarrow> \<not> orphan i s"
  using calm_one_alive by (auto simp: orphan_def)

section \<open>The handshake\<close>

record auth_info =
  ar_session :: session_id
  ar_cipher :: cipher
  ar_k :: byte
  ar_r :: byte
  ar_delay :: "16 word"
  ar_flags :: byte

datatype auth_failure =
    HelloNotSent
  | NoAuthResponse
  | BadAuthOK proto_error
  | KeyNotDerived crypto_error
  | CipherNotBuilt crypto_error
  | AuthRejected string

definition auth_request :: "env \<Rightarrow> client_config \<Rightarrow> bytes" where
  "auth_request env cfg =
     mk_packet \<lparr>hdr_type = FrameAuth, hdr_hub = cc_hub_id cfg, hdr_session = 0, hdr_seq = 0\<rparr>
       (AuthMsgHello # marshal_auth_hello \<lparr>ah_hub = cc_hub_id cfg, ah_login = cc_login cfg,
          ah_pwhash = en_sha256 env (str_bytes (cc_password cfg)), ah_flags = FlagFragment\<rparr>)"

definition client_key :: "env \<Rightarrow> client_config \<Rightarrow> crypto_error + bytes" where
  "client_key env cfg = derive_key (en_sha256 env) (en_hkdf env) (wire_hash_hex (en_sha256 env) (cc_password cfg))
     (''hub'' @ itoa (uint (cc_hub_id cfg))) (cc_login cfg) ''server''"

definition accept_auth_ok :: "env \<Rightarrow> bytes \<Rightarrow> client_config \<Rightarrow> bytes \<Rightarrow> auth_failure + auth_info" where
  "accept_auth_ok env salt cfg body =
     (case parse_auth_ok body of
        Inl e \<Rightarrow> Inl (BadAuthOK e)
      | Inr ok \<Rightarrow>
          (case client_key env cfg of
             Inl e \<Rightarrow> Inl (KeyNotDerived e)
           | Inr key \<Rightarrow>
               (case new_cipher salt key (ao_session ok) of
                  Inl e \<Rightarrow> Inl (CipherNotBuilt e)
                | Inr c \<Rightarrow> Inr \<lparr>ar_session = ao_session ok, ar_cipher = c, ar_k = ao_k ok, ar_r = ao_r ok,
                    ar_delay = ao_delay ok, ar_flags = ao_flags ok\<rparr>)))"

text \<open>The message of a rejection; a message that does not parse is the empty string.\<close>

definition rejection :: "bytes \<Rightarrow> string" where
  "rejection body = (case parse_auth_error body of Inl _ \<Rightarrow> '''' | Inr m \<Rightarrow> m)"

text \<open>The receive loop of \<open>authenticate\<close>, over the packets that arrive before its deadline.\<close>

fun auth_loop :: "env \<Rightarrow> bytes \<Rightarrow> client_config \<Rightarrow> bytes list \<Rightarrow> auth_failure + auth_info" where
  "auth_loop env salt cfg [] = Inl NoAuthResponse"
| "auth_loop env salt cfg (f # fs) =
     (case split_packet f of
        None \<Rightarrow> auth_loop env salt cfg fs
      | Some (h, resp) \<Rightarrow>
          if hdr_type h \<noteq> FrameAuth then auth_loop env salt cfg fs
          else (case resp of
              [] \<Rightarrow> auth_loop env salt cfg fs
            | b # body \<Rightarrow>
                if b = AuthMsgOK then accept_auth_ok env salt cfg body
                else if b = AuthMsgError then Inl (AuthRejected (rejection body))
                else auth_loop env salt cfg fs))"

text \<open>A dialled transport: its mode, whether a send succeeds, and what will arrive on it.\<close>

record conn =
  cn_mode :: string
  cn_send_ok :: bool
  cn_frames :: "bytes list"

definition authenticate_on :: "env \<Rightarrow> bytes \<Rightarrow> client_config \<Rightarrow> conn \<Rightarrow> auth_failure + auth_info" where
  "authenticate_on env salt cfg cn =
     (if cn_send_ok cn then auth_loop env salt cfg (cn_frames cn) else Inl HelloNotSent)"

section \<open>Choosing a transport\<close>

definition resolve_tcp_addr :: "client_config \<Rightarrow> string" where
  "resolve_tcp_addr cfg =
     (if cc_server_tcp cfg \<noteq> '''' then cc_server_tcp cfg
      else if cc_server cfg = '''' then ''''
      else case split_host_port (cc_server cfg) of
          Inl _ \<Rightarrow> ''''
        | Inr (host, _) \<Rightarrow> join_host_port host ''8443'')"

record reality_dial =
  rd_addr :: string
  rd_sni :: string
  rd_public_key :: string
  rd_short_id :: string
  rd_fingerprint :: string

datatype attempt = TryUdp string nat | TryReality reality_dial | TryTls string string

text \<open>
  What dialling gives: per UDP attempt, per Reality and TLS address. \<open>dl_pool_key\<close> is the public key
  drawn from the embedded pool, \<open>dl_cancelled\<close> whether the context is done at the n-th attempt.
\<close>

record dialer =
  dl_udp :: "nat \<Rightarrow> conn option"
  dl_reality :: "reality_dial \<Rightarrow> conn option"
  dl_tls :: "string \<Rightarrow> string \<Rightarrow> conn option"
  dl_pool_key :: string
  dl_cancelled :: "nat \<Rightarrow> bool"

datatype connect_error =
    NoServerTcp | ConnectCancelled | UdpUnreachable | NoTlsFallback | NoRealityKey
  | DialError | AuthError auth_failure

type_synonym connected = "conn \<times> auth_info"

definition try_conn :: "env \<Rightarrow> bytes \<Rightarrow> client_config \<Rightarrow> conn option \<Rightarrow> connect_error + connected" where
  "try_conn env salt cfg cn =
     (case cn of
        None \<Rightarrow> Inl DialError
      | Some c \<Rightarrow> (case authenticate_on env salt cfg c of Inl e \<Rightarrow> Inl (AuthError e) | Inr a \<Rightarrow> Inr (c, a)))"

definition tls_sni :: "client_config \<Rightarrow> string" where
  "tls_sni cfg = (if cc_tls_sni cfg = '''' then DefaultTLSSNI else cc_tls_sni cfg)"

definition connect_tls ::
  "env \<Rightarrow> bytes \<Rightarrow> client_config \<Rightarrow> dialer \<Rightarrow> string \<Rightarrow> attempt list \<times> (connect_error + connected)"
where
  "connect_tls env salt cfg dl addr =
     ([TryTls addr (tls_sni cfg)], try_conn env salt cfg (dl_tls dl addr (tls_sni cfg)))"

definition reality_params_of :: "client_config \<Rightarrow> string \<Rightarrow> reality_dial" where
  "reality_params_of cfg key =
     (let rc = cc_reality cfg in
      \<lparr>rd_addr = (if rcl_addr rc = '''' then join_host_port (server_host (cc_server cfg)) ''443'' else rcl_addr rc),
       rd_sni = (if rcl_sni rc = '''' then DefaultRealitySNI else rcl_sni rc),
       rd_public_key = key, rd_short_id = rcl_short_id rc,
       rd_fingerprint = (if rcl_fingerprint rc = '''' then ''chrome'' else rcl_fingerprint rc)\<rparr>)"

definition connect_reality ::
  "env \<Rightarrow> bytes \<Rightarrow> client_config \<Rightarrow> dialer \<Rightarrow> attempt list \<times> (connect_error + connected)"
where
  "connect_reality env salt cfg dl =
     (let key = (if rcl_public_key (cc_reality cfg) = '''' then dl_pool_key dl else rcl_public_key (cc_reality cfg))
      in if key = '''' then ([], Inl NoRealityKey)
         else let rd = reality_params_of cfg key
              in ([TryReality rd], try_conn env salt cfg (dl_reality dl rd)))"

text \<open>The UDP attempts: connected, cancelled, or (\<open>None\<close>) all of them failed.\<close>

fun udp_attempts ::
  "env \<Rightarrow> bytes \<Rightarrow> client_config \<Rightarrow> dialer \<Rightarrow> nat \<Rightarrow> nat \<Rightarrow> attempt list \<times> (connect_error + connected) option"
where
  "udp_attempts env salt cfg dl n 0 = ([], None)"
| "udp_attempts env salt cfg dl n (Suc left) =
     (if dl_cancelled dl n then ([], Some (Inl ConnectCancelled))
      else case try_conn env salt cfg (dl_udp dl n) of
          Inr c \<Rightarrow> ([TryUdp (cc_server cfg) n], Some (Inr c))
        | Inl _ \<Rightarrow> (case udp_attempts env salt cfg dl (Suc n) left of
              (as, r) \<Rightarrow> (TryUdp (cc_server cfg) n # as, r)))"

definition connect_with_fallback ::
  "env \<Rightarrow> bytes \<Rightarrow> client_config \<Rightarrow> dialer \<Rightarrow> attempt list \<times> (connect_error + connected)"
where
  "connect_with_fallback env salt cfg dl =
     (let mode = (if cc_transport cfg = '''' then ''auto'' else cc_transport cfg); tcp = resolve_tcp_addr cfg
      in if mode = ''reality'' then connect_reality env salt cfg dl
         else if mode = ''tcp'' then
           (if tcp = '''' then ([], Inl NoServerTcp) else connect_tls env salt cfg dl tcp)
         else case udp_attempts env salt cfg dl 1 (nat (ud_attempts (udp_defaults (cc_udp cfg)))) of
             (as, Some r) \<Rightarrow> (as, r)
           | (as, None) \<Rightarrow>
               if mode = ''udp'' then (as, Inl UdpUnreachable)
               else (case connect_reality env salt cfg dl of
                   (bs, Inr c) \<Rightarrow> (as @ bs, Inr c)
                 | (bs, Inl _) \<Rightarrow>
                     if tcp = '''' then (as @ bs, Inl NoTlsFallback)
                     else (case connect_tls env salt cfg dl tcp of (cs, r) \<Rightarrow> (as @ bs @ cs, r))))"

section \<open>Hub discovery\<close>

definition hubs_request :: bytes where
  "hubs_request = mk_packet \<lparr>hdr_type = FrameListHubs, hdr_hub = 0, hdr_session = 0, hdr_seq = 0\<rparr> []"

fun hubs_loop :: "bytes list \<Rightarrow> (proto_error + hub_info list) option" where
  "hubs_loop [] = None"
| "hubs_loop (f # fs) =
     (case split_packet f of
        None \<Rightarrow> hubs_loop fs
      | Some (h, body) \<Rightarrow> if hdr_type h \<noteq> FrameListHubs then hubs_loop fs else Some (parse_hub_list body))"

text \<open>\<open>FetchHubs\<close>: \<open>None\<close> is a dial, send or receive error.\<close>

definition fetch_hubs :: "conn option \<Rightarrow> (proto_error + hub_info list) option" where
  "fetch_hubs cn = (case cn of None \<Rightarrow> None | Some c \<Rightarrow> if cn_send_ok c then hubs_loop (cn_frames c) else None)"

section \<open>What the choice guarantees\<close>

lemma udp_attempts_spec:
  "udp_attempts env salt cfg dl n left = (as, r) \<Longrightarrow>
     as = map (TryUdp (cc_server cfg)) [n..<n + length as] \<and> length as \<le> left \<and> (r = None \<longrightarrow> length as = left)"
proof (induction left arbitrary: n as r)
  case (Suc left)
  show ?case
  proof (cases "dl_cancelled dl n")
    case True
    then show ?thesis using Suc.prems by auto
  next
    case False
    show ?thesis
    proof (cases "try_conn env salt cfg (dl_udp dl n)")
      case (Inr c)
      then show ?thesis using Suc.prems False by auto
    next
      case (Inl e)
      obtain bs q where b: "udp_attempts env salt cfg dl (Suc n) left = (bs, q)" by fastforce
      have "as = TryUdp (cc_server cfg) n # bs" "r = q" using Suc.prems False Inl b by auto
      moreover have "[n..<n + Suc (length bs)] = n # [Suc n..<Suc n + length bs]" by (auto simp: upt_rec [of n] Suc_le_eq)
      ultimately show ?thesis using Suc.IH [OF b] by simp
    qed
  qed
qed simp

text \<open>Which transports a mode may try.\<close>

fun is_udp :: "attempt \<Rightarrow> bool" where
  "is_udp (TryUdp _ _) = True" | "is_udp _ = False"

lemma connect_tls_attempts: "fst (connect_tls env salt cfg dl addr) = [TryTls addr (tls_sni cfg)]"
  by (simp add: connect_tls_def)

lemma connect_reality_attempts:
  "fst (connect_reality env salt cfg dl) = [] \<or> (\<exists>rd. fst (connect_reality env salt cfg dl) = [TryReality rd] \<and> rd_sni rd \<noteq> '''')"
  by (auto simp: connect_reality_def reality_params_of_def DefaultRealitySNI_def Let_def)

lemma tls_sni_not_empty: "tls_sni cfg \<noteq> ''''"
  by (simp add: tls_sni_def DefaultTLSSNI_def)

text \<open>An IPv6 server address gives a Reality address that no dialler understands.\<close>

lemma reality_addr_ipv6:
  "rcl_addr (cc_reality cfg) = '''' \<Longrightarrow> cc_server cfg = ''[::1]:5555'' \<Longrightarrow>
     rd_addr (reality_params_of cfg key) = ''[[::1]]:443'' \<and> isl (split_host_port (rd_addr (reality_params_of cfg key)))"
proof -
  assume c: "rcl_addr (cc_reality cfg) = ''''" "cc_server cfg = ''[::1]:5555''"
  have "join_host_port (server_host ''[::1]:5555'') ''443'' = ''[[::1]]:443''" by code_simp
  moreover have "isl (split_host_port ''[[::1]]:443'')" by code_simp
  ultimately show ?thesis using c by (simp add: reality_params_of_def Let_def)
qed

text \<open>The successful attempt is the last one, and it is the one whose connection is returned.\<close>

lemma try_conn_Inr: "try_conn env salt cfg cn = Inr (c, a) \<longleftrightarrow> cn = Some c \<and> authenticate_on env salt cfg c = Inr a"
  by (auto simp: try_conn_def split: option.split sum.split)

definition dialled :: "dialer \<Rightarrow> attempt \<Rightarrow> conn option" where
  "dialled dl a = (case a of TryUdp _ n \<Rightarrow> dl_udp dl n | TryReality rd \<Rightarrow> dl_reality dl rd | TryTls x s \<Rightarrow> dl_tls dl x s)"

lemma udp_attempts_winner:
  "udp_attempts env salt cfg dl n left = (as, Some (Inr (c, a))) \<Longrightarrow>
     as \<noteq> [] \<and> dialled dl (last as) = Some c \<and> authenticate_on env salt cfg c = Inr a"
proof (induction left arbitrary: n as)
  case (Suc left)
  show ?case
  proof (cases "try_conn env salt cfg (dl_udp dl n)")
    case (Inr r)
    then show ?thesis using Suc.prems
      by (auto simp: dialled_def try_conn_Inr split: if_splits)
  next
    case (Inl e)
    obtain bs q where b: "udp_attempts env salt cfg dl (Suc n) left = (bs, q)" by fastforce
    have "as = TryUdp (cc_server cfg) n # bs" "q = Some (Inr (c, a))"
      using Suc.prems Inl b by (auto split: if_splits)
    then show ?thesis using Suc.IH [of "Suc n" bs] b by simp
  qed
qed simp

lemma connect_winner:
  assumes "connect_with_fallback env salt cfg dl = (as, Inr (c, a))"
  shows "as \<noteq> [] \<and> dialled dl (last as) = Some c \<and> authenticate_on env salt cfg c = Inr a"
proof -
  have tls: "snd (connect_tls env salt cfg dl addr) = Inr (c, a) \<Longrightarrow>
      dialled dl (TryTls addr (tls_sni cfg)) = Some c \<and> authenticate_on env salt cfg c = Inr a" for addr
    by (simp add: connect_tls_def try_conn_Inr dialled_def)
  have rty: "connect_reality env salt cfg dl = (bs, Inr (c, a)) \<Longrightarrow>
      bs \<noteq> [] \<and> dialled dl (last bs) = Some c \<and> authenticate_on env salt cfg c = Inr a" for bs
    by (auto simp: connect_reality_def try_conn_Inr dialled_def Let_def split: if_splits)
  obtain us r where u: "udp_attempts env salt cfg dl 1 (nat (ud_attempts (udp_defaults (cc_udp cfg)))) = (us, r)"
    by fastforce
  obtain bs q where b: "connect_reality env salt cfg dl = (bs, q)" by fastforce
  show ?thesis
  proof (cases "r = None \<and> cc_transport cfg \<noteq> ''reality'' \<and> cc_transport cfg \<noteq> ''tcp''")
    case True
    then show ?thesis using assms u b rty tls
      by (cases q) (auto simp: connect_with_fallback_def connect_tls_def Let_def split: if_splits)
  next
    case False
    then show ?thesis using assms u rty tls udp_attempts_winner [OF u [THEN trans]]
      by (auto simp: connect_with_fallback_def connect_tls_def Let_def split: if_splits option.splits)
  qed
qed

text \<open>Every attempt of the run is one the configured mode allows, in the documented order.\<close>

definition allowed_attempts :: "client_config \<Rightarrow> attempt list \<Rightarrow> bool" where
  "allowed_attempts cfg as \<longleftrightarrow>
     (\<exists>n rs ts. as = map (TryUdp (cc_server cfg)) [1..<Suc n] @ rs @ ts \<and>
        n \<le> nat (ud_attempts (udp_defaults (cc_udp cfg))) \<and>
        (rs = [] \<or> (\<exists>rd. rs = [TryReality rd] \<and> rd_sni rd \<noteq> '''')) \<and>
        (ts = [] \<or> ts = [TryTls (resolve_tcp_addr cfg) (tls_sni cfg)]) \<and>
        (if cc_transport cfg = ''reality'' then n = 0 \<and> ts = []
         else if cc_transport cfg = ''tcp'' then n = 0 \<and> rs = []
         else if cc_transport cfg = ''udp'' then rs = [] \<and> ts = []
         else rs @ ts = [] \<or> n = nat (ud_attempts (udp_defaults (cc_udp cfg)))))"

lemma connect_allowed: "allowed_attempts cfg (fst (connect_with_fallback env salt cfg dl))"
proof -
  obtain bs q where b: "connect_reality env salt cfg dl = (bs, q)" by fastforce
  have rs: "bs = [] \<or> (\<exists>rd. bs = [TryReality rd] \<and> rd_sni rd \<noteq> '''')"
    using connect_reality_attempts [of env salt cfg dl] b by simp
  obtain us r where u: "udp_attempts env salt cfg dl 1 (nat (ud_attempts (udp_defaults (cc_udp cfg)))) = (us, r)"
    by fastforce
  let ?m = "nat (ud_attempts (udp_defaults (cc_udp cfg)))"
  have us: "us = map (TryUdp (cc_server cfg)) [1..<Suc (length us)]" "length us \<le> ?m" "r = None \<Longrightarrow> length us = ?m"
    using udp_attempts_spec [OF u] by simp_all
  define ts where "ts = (if resolve_tcp_addr cfg = '''' \<or> cc_transport cfg \<noteq> ''tcp'' \<and> (\<exists>c. q = Inr c) then []
      else [TryTls (resolve_tcp_addr cfg) (tls_sni cfg)])"
  have ts: "fst (connect_with_fallback env salt cfg dl) =
      (if cc_transport cfg = ''reality'' then bs
       else if cc_transport cfg = ''tcp'' then ts
       else us @ (if r = None \<and> cc_transport cfg \<noteq> ''udp'' then bs @ ts else []))"
      "ts = [] \<or> ts = [TryTls (resolve_tcp_addr cfg) (tls_sni cfg)]"
    unfolding connect_with_fallback_def u b connect_tls_def Let_def ts_def
    by (cases r; cases q; simp)+
  show ?thesis
  proof (cases "cc_transport cfg = ''reality'' \<or> cc_transport cfg = ''tcp''")
    case True
    then show ?thesis unfolding allowed_attempts_def using rs ts
      by (intro exI [of _ 0] exI [of _ "if cc_transport cfg = ''reality'' then bs else []"]
          exI [of _ "if cc_transport cfg = ''reality'' then [] else ts"]) auto
  next
    case False
    let ?more = "r = None \<and> cc_transport cfg \<noteq> ''udp''"
    show ?thesis unfolding allowed_attempts_def
      by (intro exI [of _ "length us"] exI [of _ "if ?more then bs else []"] exI [of _ "if ?more then ts else []"])
        (use False rs ts us in \<open>auto simp del: upt_Suc\<close>)
  qed
qed

end
