(* ===== verification/MssClamp.thy ===== *)
theory MssClamp
  imports Prelude
begin

text \<open>
  \<open>internal/bridge/mssclamp.go\<close>: lowering the MSS option of a TCP SYN inside an Ethernet frame and
  the incremental checksum update. The lemmas relate the update to the Internet checksum of the
  whole TCP segment.
\<close>

definition DefaultMSSClamp :: "16 word" where "DefaultMSSClamp = 1300"

section \<open>The incremental checksum\<close>

text \<open>\<open>for sum>>16 != 0 { sum = (sum & 0xffff) + (sum >> 16) }\<close>\<close>

function fold_sum :: "32 word \<Rightarrow> 32 word" where
  "fold_sum s = (if drop_bit 16 s \<noteq> 0 then fold_sum ((s AND 0xffff) + drop_bit 16 s) else s)"
  by pat_completeness auto

lemma unat_drop16: "unat (drop_bit 16 (s :: 32 word)) = unat s div 65536"
  unfolding unat_drop_bit_eq by (simp add: drop_bit_eq_div)

lemma unat_and16: "unat (s AND 0xffff :: 32 word) = unat s mod 65536"
proof -
  have "s AND 0xffff = take_bit 16 s" by (simp add: take_bit_eq_mask mask_eq_exp_minus_1)
  then have "unat (s AND 0xffff) = take_bit 16 (unat s)" by (simp only: unsigned_take_bit_eq)
  then show ?thesis by (simp add: take_bit_eq_mod)
qed

lemma unat_fold_step:
  "unat ((s AND 0xffff) + drop_bit 16 s :: 32 word) = unat s mod 65536 + unat s div 65536"
proof -
  have "unat s < 4294967296" using unsigned_less [of s] by simp
  then have "unat s div 65536 < 65536" by (simp add: less_mult_imp_div_less)
  moreover have "unat s mod 65536 < 65536" by simp
  ultimately have "unat s mod 65536 + unat s div 65536 < 4294967296" by linarith
  then show ?thesis by (simp add: unat_word_ariths(1) unat_and16 unat_drop16)
qed

lemma fold_step_less: "drop_bit 16 s \<noteq> 0 \<Longrightarrow> unat ((s AND 0xffff) + drop_bit 16 s :: 32 word) < unat s"
proof -
  assume "drop_bit 16 s \<noteq> 0"
  then have pos: "0 < unat s div 65536" by (metis gr0I unat_drop16 unat_eq_zero)
  have "unat s = 65536 * (unat s div 65536) + unat s mod 65536" by simp
  with pos show ?thesis unfolding unat_fold_step by linarith
qed

termination fold_sum
  by (relation "measure unat") (use fold_step_less in auto)

declare fold_sum.simps [simp del]

definition fix_checksum16 :: "16 word \<Rightarrow> 16 word \<Rightarrow> 16 word \<Rightarrow> 16 word" where
  "fix_checksum16 hc old new = NOT (ucast (fold_sum (ucast (NOT hc) + ucast (NOT old) + ucast new)))"

lemma fold_sum_spec: "unat (fold_sum s) < 65536 \<and> unat (fold_sum s) mod 65535 = unat s mod 65535"
proof (induction s rule: fold_sum.induct)
  case (1 s)
  show ?case
  proof (cases "drop_bit 16 s = 0")
    case True
    then have "unat s div 65536 = 0" by (metis unat_0 unat_drop16)
    with True show ?thesis by (subst (1 2) fold_sum.simps) (simp add: div_eq_0_iff)
  next
    case False
    have "unat s = 65535 * (unat s div 65536) + (unat s mod 65536 + unat s div 65536)" by simp
    then have "unat s mod 65535 = (unat s mod 65536 + unat s div 65536) mod 65535"
      by (metis mod_mult_self4)
    with 1 [OF False] False show ?thesis
      by (subst (1 2) fold_sum.simps) (simp add: unat_fold_step)
  qed
qed

lemma unat_not16: "unat (NOT w :: 16 word) = 65535 - unat w"
proof -
  have "NOT w = - 1 - w" by (simp add: not_eq_complement)
  moreover have "w \<le> - 1" by simp
  ultimately have "unat (NOT w) = unat (- 1 :: 16 word) - unat w" by (simp add: unat_sub)
  then show ?thesis by (simp add: unsigned_minus_1_eq_mask mask_eq_exp_minus_1)
qed

text \<open>RFC 1624: the new checksum plus the new field is the old checksum plus the old field.\<close>

lemma fix_checksum16_mod:
  "(unat (fix_checksum16 hc old new) + unat new) mod 65535 = (unat hc + unat old) mod 65535"
proof -
  let ?t = "ucast (NOT hc) + ucast (NOT old) + ucast new :: 32 word"
  have t: "unat ?t = (65535 - unat hc) + (65535 - unat old) + unat new"
    using unat_u16_le [of hc] unat_u16_le [of old] unat_u16_le [of new]
    by (simp add: unat_word_ariths(1) unat_ucast_u16_u32 unat_not16)
  let ?f = "fold_sum ?t"
  have f: "unat ?f \<le> 65535" using fold_sum_spec [of ?t] by linarith
  have uf: "unat (ucast ?f :: 16 word) = unat ?f"
    using f by (simp add: unsigned_ucast_eq take_bit_eq_mod)
  have sum: "unat (fix_checksum16 hc old new) + unat ?f = 65535"
    unfolding fix_checksum16_def unat_not16 uf using f by simp
  have "(unat ?f + (unat hc + unat old)) mod 65535 = unat new mod 65535"
  proof -
    have "(unat ?f + (unat hc + unat old)) mod 65535 = (unat ?t + (unat hc + unat old)) mod 65535"
      by (rule mod_add_cong) (simp_all only: fold_sum_spec)
    also have "unat ?t + (unat hc + unat old) = unat new + 65535 * 2"
      using t unat_u16_le [of hc] unat_u16_le [of old] by linarith
    finally show ?thesis by (simp only: mod_mult_self1 mult.commute)
  qed
  then have "(unat (fix_checksum16 hc old new) + unat new) mod 65535 =
      (unat (fix_checksum16 hc old new) + (unat ?f + (unat hc + unat old))) mod 65535"
    by (intro mod_add_cong) (simp_all only:)
  also have "unat (fix_checksum16 hc old new) + (unat ?f + (unat hc + unat old)) = 65535 + (unat hc + unat old)"
    by (simp only: sum flip: add.assoc)
  finally show ?thesis by (simp only: mod_add_self1)
qed

section \<open>The option scan\<close>

function find_mss :: "bytes \<Rightarrow> nat \<Rightarrow> nat option" where
  "find_mss opts i =
     (if i + 1 < length opts then
        if opts ! i = 0 then None
        else if opts ! i = 1 then find_mss opts (i + 1)
        else if unat (opts ! (i + 1)) < 2 \<or> length opts < i + unat (opts ! (i + 1)) then None
        else if opts ! i = 2 \<and> unat (opts ! (i + 1)) = 4 then Some i
        else find_mss opts (i + unat (opts ! (i + 1)))
      else None)"
  by pat_completeness auto

termination find_mss
  by (relation "measure (\<lambda>(opts, i). length opts - i)") auto

declare find_mss.simps [simp del]

text \<open>The IPv4 header length of a TCP SYN frame with a complete option area.\<close>

definition syn_ihl :: "bytes \<Rightarrow> nat option" where
  "syn_ihl frame =
     (if length frame < 14 \<or> get16 (slice 12 14 frame) \<noteq> 0x0800 then None
      else let ip = drop 14 frame in
        if length ip < 20 \<or> drop_bit 4 (ip ! 0) \<noteq> 4 then None
        else let ihl = unat (ip ! 0 AND 0x0f) * 4 in
          if ihl < 20 \<or> length ip < ihl \<or> ip ! 9 \<noteq> 6 then None
          else let tcp = drop ihl ip in
            if length tcp < 20 \<or> tcp ! 13 AND 0x02 = 0 then None
            else let off = unat (drop_bit 4 (tcp ! 12)) * 4 in
              if off < 20 \<or> length tcp < off then None else Some ihl)"

definition tcp_of :: "nat \<Rightarrow> bytes \<Rightarrow> bytes" where
  "tcp_of ihl frame = drop (14 + ihl) frame"

definition tcp_options :: "bytes \<Rightarrow> bytes" where
  "tcp_options tcp = slice 20 (unat (drop_bit 4 (tcp ! 12)) * 4) tcp"

definition patch :: "nat \<Rightarrow> bytes \<Rightarrow> bytes \<Rightarrow> bytes" where
  "patch i bs xs = take i xs @ bs @ drop (i + length bs) xs"

definition clamp_tcp_mss :: "16 word \<Rightarrow> bytes \<Rightarrow> bytes" where
  "clamp_tcp_mss max_mss frame =
     (if max_mss = 0 then frame
      else case syn_ihl frame of
        None \<Rightarrow> frame
      | Some ihl \<Rightarrow>
          (let opts = tcp_options (tcp_of ihl frame) in
           case find_mss opts 0 of
             None \<Rightarrow> frame
           | Some i \<Rightarrow>
               (let old = get16 (slice (i + 2) (i + 4) opts) in
                if old \<le> max_mss then frame
                else let mss_abs = 14 + ihl + 20 + i + 2; ck_abs = 14 + ihl + 16;
                         out = patch mss_abs (put16 max_mss) frame
                     in patch ck_abs (put16 (fix_checksum16 (get16 (slice ck_abs (ck_abs + 2) out)) old max_mss)) out)))"

section \<open>The Internet checksum of a segment\<close>

fun csum :: "bytes \<Rightarrow> nat" where
  "csum (a # b # xs) = 256 * unat a + unat b + csum xs"
| "csum [a] = 256 * unat a"
| "csum [] = 0"

text \<open>A segment verifies when its words and the pseudo header's sum to all ones.\<close>

definition checksum_valid :: "nat \<Rightarrow> bytes \<Rightarrow> bool" where
  "checksum_valid pseudo seg \<longleftrightarrow> 0 < pseudo + csum seg \<and> (pseudo + csum seg) mod 65535 = 0"

lemma csum_append: "even (length xs) \<Longrightarrow> csum (xs @ ys) = csum xs + csum ys"
  by (induction xs rule: csum.induct) simp_all

lemma csum_two: "length bs = 2 \<Longrightarrow> csum bs = unat (get16 bs)"
  by (cases bs rule: csum.cases) (auto simp: unat_get16)

lemma length_patch [simp]: "i + length bs \<le> length xs \<Longrightarrow> length (patch i bs xs) = length xs"
  by (simp add: patch_def)

lemma nth_patch_other:
  "i + length bs \<le> length xs \<Longrightarrow> j < i \<or> i + length bs \<le> j \<Longrightarrow> j < length xs \<Longrightarrow> patch i bs xs ! j = xs ! j"
  by (auto simp: patch_def nth_append)

lemma csum_patch:
  assumes "even i" and "i + 2 \<le> length xs"
  shows "csum (patch i (put16 v) xs) + unat (get16 (slice i (i + 2) xs)) = csum xs + unat v"
proof -
  have xs: "xs = take i xs @ slice i (i + 2) xs @ drop (i + 2) xs"
    by (metis append_take_drop_id add_diff_cancel_left' Prelude.slice_def drop_drop add.commute)
  have "csum xs = csum (take i xs) + (unat (get16 (slice i (i + 2) xs)) + csum (drop (i + 2) xs))"
    using assms by (subst xs) (simp add: csum_append csum_two)
  moreover have "csum (patch i (put16 v) xs) = csum (take i xs) + (unat v + csum (drop (i + 2) xs))"
    using assms by (simp add: patch_def csum_append csum_two)
  ultimately show ?thesis by simp
qed

section \<open>What clamping does\<close>

lemma syn_ihl_bounds:
  assumes "syn_ihl frame = Some ihl"
  shows "20 \<le> ihl" and "14 + ihl + 20 \<le> length frame" and "even ihl"
    and "20 \<le> unat (drop_bit 4 (tcp_of ihl frame ! 12)) * 4"
    and "unat (drop_bit 4 (tcp_of ihl frame ! 12)) * 4 \<le> length (tcp_of ihl frame)"
  using assms by (auto simp: syn_ihl_def Let_def tcp_of_def add.commute split: if_splits)

lemma find_mss_Some:
  "find_mss opts i = Some j \<Longrightarrow> i \<le> j \<and> j + 4 \<le> length opts \<and> opts ! j = 2 \<and> opts ! (j + 1) = 4"
proof (induction opts i rule: find_mss.induct)
  case (1 opts i)
  have "unat (opts ! (i + 1)) = 4 \<Longrightarrow> opts ! (i + 1) = 4" by (simp add: word_unat_eq_iff)
  with 1 show ?case
    by (subst (asm) (3) find_mss.simps) (auto split: if_splits)
qed

text \<open>The scan reads nothing after the option it finds.\<close>

lemma find_mss_prefix:
  assumes "find_mss opts i = Some j" and "length opts' = length opts"
    and "\<And>x. x < j + 2 \<Longrightarrow> opts' ! x = opts ! x"
  shows "find_mss opts' i = Some j"
  using assms
proof (induction opts i rule: find_mss.induct)
  case (1 opts i)
  have b: "i \<le> j" "j + 4 \<le> length opts" using find_mss_Some [OF "1.prems"(1)] by simp_all
  have eq: "opts' ! i = opts ! i" "opts' ! (i + 1) = opts ! (i + 1)" using "1.prems"(3) b by simp_all
  note ih = "1.IH"(1) [OF _ _ _ _ "1.prems"(2,3)] "1.IH"(2) [OF _ _ _ _ _ _ "1.prems"(2,3)]
  note f = "1.prems"(1) [unfolded find_mss.simps [of opts i]]
  have len: "i + 1 < length opts" using f by (simp split: if_splits)
  show ?case unfolding find_mss.simps [of opts' i] eq "1.prems"(2)
    using f len ih by (auto split: if_splits)
qed

lemma drop_patch: "n \<le> length xs \<Longrightarrow> drop n (patch (n + i) bs xs) = patch i bs (drop n xs)"
  by (simp add: patch_def drop_append min_def drop_take add.commute add.left_commute)

lemma take_patch: "n \<le> i \<Longrightarrow> i \<le> length xs \<Longrightarrow> take n (patch i bs xs) = take n xs"
  by (simp add: patch_def min_def)

lemma slice_patch_other:
  "j \<le> i \<Longrightarrow> i + length bs \<le> length xs \<Longrightarrow> slice k j (patch i bs xs) = slice k j xs"
  by (simp add: patch_def)

lemma slice_drop: "slice i j (drop n xs) = slice (n + i) (n + j) xs"
  by (simp add: Prelude.slice_def add.commute)

lemma slice_patch_after:
  "i + length bs \<le> k \<Longrightarrow> i + length bs \<le> length xs \<Longrightarrow> k \<le> j \<Longrightarrow> slice k j (patch i bs xs) = slice k j xs"
  by (simp add: patch_def slice_drop)

lemma slice_patch_same:
  "i + length bs \<le> length xs \<Longrightarrow> slice i (i + length bs) (patch i bs xs) = bs"
  by (simp add: patch_def)

text \<open>The MSS the frame announces.\<close>

definition mss_value :: "bytes \<Rightarrow> 16 word option" where
  "mss_value frame = (case syn_ihl frame of None \<Rightarrow> None
     | Some ihl \<Rightarrow> map_option (\<lambda>i. get16 (slice (22 + i) (24 + i) (tcp_of ihl frame)))
         (find_mss (tcp_options (tcp_of ihl frame)) 0))"

lemma mss_in_segment:
  assumes "syn_ihl frame = Some ihl" and "find_mss (tcp_options (tcp_of ihl frame)) 0 = Some i"
  shows "24 + i \<le> length (tcp_of ihl frame)"
    and "slice (i + 2) (i + 4) (tcp_options (tcp_of ihl frame)) = slice (22 + i) (24 + i) (tcp_of ihl frame)"
proof -
  note b = syn_ihl_bounds [OF assms(1)]
  have "i + 4 \<le> length (tcp_options (tcp_of ihl frame))" using find_mss_Some [OF assms(2)] by simp
  then have in_opts: "24 + i \<le> unat (drop_bit 4 (tcp_of ihl frame ! 12)) * 4"
    and "24 + i \<le> length (tcp_of ihl frame)"
    using b(4,5) by (simp_all add: tcp_options_def)
  then show "24 + i \<le> length (tcp_of ihl frame)"
    "slice (i + 2) (i + 4) (tcp_options (tcp_of ihl frame)) = slice (22 + i) (24 + i) (tcp_of ihl frame)"
    by (simp_all add: tcp_options_def Prelude.slice_def drop_take add.commute min_def)
qed

text \<open>The two outcomes: the frame itself, or the frame with two fields of its TCP segment replaced.\<close>

definition clamped_segment :: "nat \<Rightarrow> 16 word \<Rightarrow> bytes \<Rightarrow> bytes" where
  "clamped_segment i max_mss tcp =
     patch 16 (put16 (fix_checksum16 (get16 (slice 16 18 tcp)) (get16 (slice (22 + i) (24 + i) tcp)) max_mss))
       (patch (22 + i) (put16 max_mss) tcp)"

lemma clamp_cases:
  obtains (same) "clamp_tcp_mss m frame = frame" and "\<And>v. m \<noteq> 0 \<Longrightarrow> mss_value frame = Some v \<Longrightarrow> v \<le> m"
  | (clamped) ihl i where "syn_ihl frame = Some ihl" and "find_mss (tcp_options (tcp_of ihl frame)) 0 = Some i"
      and "m \<noteq> 0" and "m < get16 (slice (22 + i) (24 + i) (tcp_of ihl frame))"
      and "24 + i \<le> length (tcp_of ihl frame)"
      and "clamp_tcp_mss m frame = take (14 + ihl) frame @ clamped_segment i m (tcp_of ihl frame)"
proof (cases "\<exists>v. m \<noteq> 0 \<and> mss_value frame = Some v \<and> m < v")
  case True
  then obtain ihl i where h: "syn_ihl frame = Some ihl" "find_mss (tcp_options (tcp_of ihl frame)) 0 = Some i"
      and m: "m \<noteq> 0" and old: "m < get16 (slice (22 + i) (24 + i) (tcp_of ihl frame))"
    by (auto simp: mss_value_def split: option.splits)
  let ?tcp = "tcp_of ihl frame"
  note b = syn_ihl_bounds [OF h(1)] and l = mss_in_segment [OF h]
  have flen: "14 + ihl + (24 + i) \<le> length frame" using l(1) b(2) by (simp add: tcp_of_def)
  let ?out = "patch (14 + ihl + 20 + i + 2) (put16 m) frame"
  have "slice (14 + ihl + 16) (14 + ihl + 16 + 2) ?out = slice 16 18 ?tcp"
    using flen by (simp add: slice_patch_other tcp_of_def slice_drop add.commute add.left_commute)
  then have eq: "clamp_tcp_mss m frame = patch (14 + ihl + 16)
      (put16 (fix_checksum16 (get16 (slice 16 18 ?tcp)) (get16 (slice (22 + i) (24 + i) ?tcp)) m)) ?out"
    unfolding clamp_tcp_mss_def Let_def h option.case l(2) using m old [unfolded not_le [symmetric]] by simp
  have dout: "drop (14 + ihl) ?out = patch (22 + i) (put16 m) ?tcp"
    using flen drop_patch [of "14 + ihl" frame "22 + i"] by (simp add: tcp_of_def add.assoc)
  have "drop (14 + ihl) (clamp_tcp_mss m frame) = clamped_segment i m ?tcp"
    unfolding eq clamped_segment_def dout [symmetric] using flen by (intro drop_patch) simp
  moreover have "take (14 + ihl) (clamp_tcp_mss m frame) = take (14 + ihl) frame"
    unfolding eq using flen by (simp add: take_patch)
  ultimately have "clamp_tcp_mss m frame = take (14 + ihl) frame @ clamped_segment i m ?tcp"
    by (metis append_take_drop_id)
  then show ?thesis using clamped h m old l(1) by blast
next
  case False
  then have le: "v \<le> m" if "m \<noteq> 0" "mss_value frame = Some v" for v using that by (meson not_le)
  have "clamp_tcp_mss m frame = frame"
  proof (cases "mss_value frame")
    case None
    then show ?thesis by (auto simp: clamp_tcp_mss_def mss_value_def split: option.splits)
  next
    case (Some v)
    then obtain ihl i where h: "syn_ihl frame = Some ihl" "find_mss (tcp_options (tcp_of ihl frame)) 0 = Some i"
      by (auto simp: mss_value_def split: option.splits)
    then have v: "m \<noteq> 0 \<Longrightarrow> get16 (slice (22 + i) (24 + i) (tcp_of ihl frame)) \<le> m"
      using le [OF _ Some] Some by (simp add: mss_value_def)
    show ?thesis unfolding clamp_tcp_mss_def h option.case Let_def mss_in_segment(2) [OF h] using v by simp
  qed
  then show ?thesis using same le by blast
qed

lemma length_clamped_segment [simp]:
  "24 + i \<le> length tcp \<Longrightarrow> length (clamped_segment i m tcp) = length tcp"
  by (simp add: clamped_segment_def)

lemma length_clamp: "length (clamp_tcp_mss m frame) = length frame"
proof (cases frame m rule: clamp_cases)
  case (clamped ihl i)
  then show ?thesis using syn_ihl_bounds(2) [OF clamped(1)] by (simp add: tcp_of_def)
qed simp

lemma nat_mod_cancel: "(a + s) mod m = (b + s) mod m \<Longrightarrow> a mod m = b mod (m :: nat)"
proof (induction a b rule: linorder_wlog)
  case (le a b)
  then have "m dvd (b + s) - (a + s)" by (metis mod_eq_dvd_iff_nat add_le_cancel_right)
  then have "m dvd b - a" by simp
  then show ?case using le by (metis mod_eq_dvd_iff_nat)
qed simp

lemma clamped_segment_csum:
  assumes "even i" and "24 + i \<le> length tcp"
  shows "csum (clamped_segment i m tcp) mod 65535 = csum tcp mod 65535"
proof -
  let ?hc = "get16 (slice 16 18 tcp)" and ?old = "get16 (slice (22 + i) (24 + i) tcp)"
  let ?p = "patch (22 + i) (put16 m) tcp"
  have "csum ?p + unat ?old = csum tcp + unat m"
    using csum_patch [of "22 + i" tcp m] assms by simp
  moreover have "csum (clamped_segment i m tcp) + unat ?hc = csum ?p + unat (fix_checksum16 ?hc ?old m)"
    unfolding clamped_segment_def using csum_patch [of 16 ?p] assms by (simp add: slice_patch_other)
  ultimately have "csum (clamped_segment i m tcp) + (unat ?hc + unat ?old) =
      csum tcp + (unat (fix_checksum16 ?hc ?old m) + unat m)" by linarith
  then have "(csum (clamped_segment i m tcp) + (unat ?hc + unat ?old)) mod 65535 =
      (csum tcp + (unat (fix_checksum16 ?hc ?old m) + unat m)) mod 65535" by (simp only:)
  also have "(csum tcp + (unat (fix_checksum16 ?hc ?old m) + unat m)) mod 65535 =
      (csum tcp + (unat ?hc + unat ?old)) mod 65535"
    by (rule mod_add_cong [OF refl fix_checksum16_mod])
  finally show ?thesis by (rule nat_mod_cancel)
qed

lemma csum_pos: "x \<in> set xs \<Longrightarrow> x \<noteq> 0 \<Longrightarrow> 0 < csum xs"
  by (induction xs rule: csum.induct) (auto simp: unat_gt_0)

lemma syn_flag: "syn_ihl frame = Some ihl \<Longrightarrow> tcp_of ihl frame ! 13 \<noteq> 0"
  by (auto simp: syn_ihl_def Let_def tcp_of_def add.commute split: if_splits)

lemma nth_clamped_segment:
  "24 + i \<le> length tcp \<Longrightarrow> x < length tcp \<Longrightarrow> x < 16 \<or> 18 \<le> x \<and> x < 22 + i \<or> 24 + i \<le> x \<Longrightarrow>
     clamped_segment i m tcp ! x = tcp ! x"
  by (auto simp: clamped_segment_def nth_patch_other)

lemma tcp_of_clamped:
  assumes "syn_ihl frame = Some ihl"
  shows "tcp_of ihl (take (14 + ihl) frame @ seg) = seg"
  using syn_ihl_bounds(2) [OF assms] by (simp add: tcp_of_def)

text \<open>
  A segment that verified still verifies after clamping, when the MSS option starts at an even
  offset of the option area: the two replaced fields are then whole words of the checksum.
\<close>

lemma clamp_checksum:
  assumes "syn_ihl frame = Some ihl" and "find_mss (tcp_options (tcp_of ihl frame)) 0 = Some i" and "even i"
    and "checksum_valid pseudo (tcp_of ihl frame)"
  shows "checksum_valid pseudo (tcp_of ihl (clamp_tcp_mss m frame))"
proof (cases frame m rule: clamp_cases)
  case same
  then show ?thesis using assms(4) by simp
next
  case (clamped ihl' i')
  then have [simp]: "ihl' = ihl" "i' = i" using assms(1,2) by simp_all
  let ?tcp = "tcp_of ihl frame" and ?seg = "clamped_segment i m (tcp_of ihl frame)"
  have l: "24 + i \<le> length ?tcp" using clamped(5) by simp
  have t: "tcp_of ihl (clamp_tcp_mss m frame) = ?seg"
    using clamped(6) tcp_of_clamped [OF assms(1)] by simp
  have "?seg ! 13 \<noteq> 0" using nth_clamped_segment [OF l, of 13] syn_flag [OF assms(1)] l by simp
  then have "0 < csum ?seg" using l by (intro csum_pos [of "?seg ! 13"]) simp_all
  moreover have "(pseudo + csum ?seg) mod 65535 = (pseudo + csum ?tcp) mod 65535"
    by (rule mod_add_cong [OF refl clamped_segment_csum [OF assms(3) l]])
  ultimately show ?thesis using assms(4) unfolding t checksum_valid_def by simp
qed

section \<open>The announced MSS\<close>

lemma syn_ihl_cong:
  assumes "syn_ihl f = Some ihl" and "length g = length f" and "take (30 + ihl) g = take (30 + ihl) f"
  shows "syn_ihl g = Some ihl"
proof -
  have n: "g ! x = f ! x" if "x < 30 + ihl" for x
    using assms(3) that by (metis nth_take)
  have "slice 12 14 g = slice 12 14 (take (30 + ihl) g)" by simp
  also have "\<dots> = slice 12 14 f" unfolding assms(3) by simp
  finally have s: "slice 12 14 g = slice 12 14 f" .
  show ?thesis using assms(1) n [of 14] n [of 23] n [of "14 + ihl + 12"] n [of "14 + ihl + 13"]
    by (simp add: syn_ihl_def Let_def assms(2) s add.commute add.left_commute split: if_splits)
qed

text \<open>Clamping announces the smaller of the old MSS and the ceiling, and changes no other frame.\<close>

lemma mss_value_clamp:
  assumes "m \<noteq> 0"
  shows "mss_value (clamp_tcp_mss m frame) = map_option (min m) (mss_value frame)"
proof (cases frame m rule: clamp_cases)
  case same
  then show ?thesis using assms by (cases "mss_value frame") (auto simp: min_absorb2)
next
  case (clamped ihl i)
  let ?tcp = "tcp_of ihl frame" and ?seg = "clamped_segment i m (tcp_of ihl frame)"
  let ?g = "clamp_tcp_mss m frame"
  note l = clamped(5) and b = syn_ihl_bounds [OF clamped(1)]
  have t: "tcp_of ihl ?g = ?seg" using clamped(6) tcp_of_clamped [OF clamped(1)] by simp
  have "take 16 ?seg = take 16 ?tcp" using l by (simp add: clamped_segment_def take_patch)
  then have "take (30 + ihl) ?g = take (14 + ihl) frame @ take 16 (drop (14 + ihl) frame)"
    unfolding clamped(6) using b(2) by (simp add: tcp_of_def)
  also have "\<dots> = take (30 + ihl) frame" using take_add [of "14 + ihl" 16 frame] by (simp add: add.commute)
  finally have hdr: "syn_ihl ?g = Some ihl" by (rule syn_ihl_cong [OF clamped(1) length_clamp])
  have "?seg ! 12 = ?tcp ! 12" using l by (intro nth_clamped_segment) simp_all
  then have off: "tcp_options ?seg = slice 20 (unat (drop_bit 4 (?tcp ! 12)) * 4) ?seg"
    by (simp add: tcp_options_def)
  have "find_mss (tcp_options ?seg) 0 = Some i"
  proof (rule find_mss_prefix [OF clamped(2)])
    show "length (tcp_options ?seg) = length (tcp_options ?tcp)" using l by (simp add: off) (simp add: tcp_options_def)
    fix x assume x: "x < i + 2"
    have "i + 4 \<le> length (tcp_options ?tcp)" using find_mss_Some [OF clamped(2)] by simp
    then have "20 + x < unat (drop_bit 4 (?tcp ! 12)) * 4" using x by (auto simp: tcp_options_def)
    then show "tcp_options ?seg ! x = tcp_options ?tcp ! x"
      using x l nth_clamped_segment [OF l, of "20 + x" m] by (simp add: off nth_slice) (simp add: tcp_options_def nth_slice)
  qed
  moreover have "get16 (slice (22 + i) (24 + i) ?seg) = m"
    using l slice_patch_same [of "22 + i" "put16 m" ?tcp] by (simp add: clamped_segment_def slice_patch_after)
  ultimately show ?thesis using clamped hdr t by (simp add: mss_value_def min_absorb1)
qed

lemma clamp_idem: "clamp_tcp_mss m (clamp_tcp_mss m frame) = clamp_tcp_mss m frame"
proof (cases "clamp_tcp_mss m frame" m rule: clamp_cases)
  case (clamped ihl i)
  then have v: "mss_value (clamp_tcp_mss m frame) =
      Some (get16 (slice (22 + i) (24 + i) (tcp_of ihl (clamp_tcp_mss m frame))))"
    by (simp add: mss_value_def)
  have "w \<le> m" if "mss_value (clamp_tcp_mss m frame) = Some w" for w
    using that mss_value_clamp [OF clamped(3), of frame] by (auto simp: min_def split: if_splits)
  from this [OF v] clamped(4) show ?thesis by simp
qed

section \<open>An option at an odd offset\<close>

text \<open>
  A NOP before the MSS option puts the MSS across two checksum words; the update adds the change as
  if it were word aligned, and the segment no longer verifies.
\<close>

definition odd_syn :: bytes where
  "odd_syn = replicate 12 0 @ [0x08, 0x00] @
     [0x45, 0, 0, 48, 0, 0, 0, 0, 64, 6, 0, 0, 10, 0, 0, 1, 10, 0, 0, 2] @
     [0, 1, 0, 2, 0, 0, 0, 0, 0, 0, 0, 0, 0x70, 2, 0, 0, 0xd5, 0xf1, 0, 0] @
     [1, 2, 4, 5, 0xb4, 1, 1, 0]"

lemma odd_syn_clamped:
  "tcp_of 20 (clamp_tcp_mss 1300 odd_syn) =
     [0, 1, 0, 2, 0, 0, 0, 0, 0, 0, 0, 0, 0x70, 2, 0, 0, 0xd6, 0x91, 0, 0, 1, 2, 4, 5, 0x14, 1, 1, 0]"
  by code_simp

lemma odd_syn_broken:
  "checksum_valid 0 (tcp_of 20 odd_syn) \<and> \<not> checksum_valid 0 (tcp_of 20 (clamp_tcp_mss 1300 odd_syn))"
proof -
  have "tcp_of 20 odd_syn =
     [0, 1, 0, 2, 0, 0, 0, 0, 0, 0, 0, 0, 0x70, 2, 0, 0, 0xd5, 0xf1, 0, 0, 1, 2, 4, 5, 0xb4, 1, 1, 0]"
    by code_simp
  then show ?thesis unfolding odd_syn_clamped by (simp add: checksum_valid_def)
qed

end
