(* ===== verification/Bridge.thy ===== *)
theory Bridge
  imports MssClamp GoNet
begin

text \<open>
  \<open>internal/bridge/bridge.go\<close> with the Windows adapter facts of \<open>link_windows.go\<close>: which interfaces
  are bridge candidates, and the two pump loops between the local capture and the server. The
  operating system's interface list and adapter table are inputs.
\<close>

section \<open>Interfaces\<close>

record adapter =
  ad_friendly :: string
  ad_description :: string
  ad_oper_status :: nat

record os_iface =
  if_name :: string
  if_up :: bool
  if_hwaddr :: bytes
  if_addrs :: "bytes list option"

record bridge_iface =
  bi_name :: string
  bi_hwaddr :: bytes
  bi_addr :: bytes

definition find_adapter :: "string \<Rightarrow> adapter list \<Rightarrow> adapter option" where
  "find_adapter name ads = find (\<lambda>a. ad_friendly a = name) ads"

text \<open>Operational states 2, 6 and 7 cannot carry traffic; anything unknown counts as usable.\<close>

definition iface_has_link :: "adapter list \<Rightarrow> string \<Rightarrow> bool" where
  "iface_has_link ads name = (case find_adapter name ads of None \<Rightarrow> True
     | Some a \<Rightarrow> ad_oper_status a \<notin> {2, 6, 7})"

definition adapter_description :: "adapter list \<Rightarrow> string \<Rightarrow> string" where
  "adapter_description ads name = (case find_adapter name ads of None \<Rightarrow> '''' | Some a \<Rightarrow> ad_description a)"

definition excluded_name :: "string \<Rightarrow> bool" where
  "excluded_name s = (contains (to_lower s) ''radmin'' \<or> contains (to_lower s) ''famatech'')"

definition is_excluded_from_bridge :: "adapter list \<Rightarrow> string \<Rightarrow> bool" where
  "is_excluded_from_bridge ads name = (excluded_name name \<or> excluded_name (adapter_description ads name))"

text \<open>\<open>net.IP.To4\<close> and the containment in 169.254.0.0/16.\<close>

definition to4 :: "bytes \<Rightarrow> bytes option" where
  "to4 ip = (if length ip = 4 then Some ip
     else if length ip = 16 \<and> take 12 ip = replicate 10 0 @ [0xff, 0xff] then Some (drop 12 ip)
     else None)"

definition is_link_local :: "bytes \<Rightarrow> bool" where
  "is_link_local ip = (case to4 ip of None \<Rightarrow> False | Some q \<Rightarrow> take 2 q = [169, 254])"

definition link_local_iface :: "adapter list \<Rightarrow> os_iface \<Rightarrow> bridge_iface option" where
  "link_local_iface ads i =
     (if \<not> if_up i \<or> is_excluded_from_bridge ads (if_name i) \<or> \<not> iface_has_link ads (if_name i) then None
      else case if_addrs i of
          None \<Rightarrow> None
        | Some addrs \<Rightarrow> map_option (\<lambda>ip. \<lparr>bi_name = if_name i, bi_hwaddr = if_hwaddr i, bi_addr = ip\<rparr>)
            (find is_link_local addrs))"

definition detect_link_local :: "adapter list \<Rightarrow> os_iface list option \<Rightarrow> bridge_iface list option" where
  "detect_link_local ads ifaces = map_option (List.map_filter (link_local_iface ads)) ifaces"

section \<open>The pump loops\<close>

datatype bridge_error = ReadFailed | SendFailed | DownCancelled | DownEof

text \<open>
  \<open>RunUpstream\<close> over the results of \<open>ReadFrame\<close> (\<open>None\<close> an error): the frames sent and the error it
  stops with, if the input holds one.
\<close>

fun run_upstream :: "16 word \<Rightarrow> (bytes \<Rightarrow> bool) \<Rightarrow> bytes option list \<Rightarrow> bytes list \<times> bridge_error option" where
  "run_upstream clamp send_ok [] = ([], None)"
| "run_upstream clamp send_ok (None # rs) = ([], Some ReadFailed)"
| "run_upstream clamp send_ok (Some f # rs) =
     (let g = clamp_tcp_mss clamp f in
      if send_ok g then (case run_upstream clamp send_ok rs of (sent, e) \<Rightarrow> (g # sent, e))
      else ([g], Some SendFailed))"

datatype down_event = DownFrame time bytes | DownClosed | DownCancel

record down_state =
  dn_dropped :: "64 word"
  dn_last_log :: "time option"

text \<open>\<open>RunDownstream\<close>: a failing inject drops the frame, counts it, and the loop goes on.\<close>

fun run_downstream ::
  "16 word \<Rightarrow> (bytes \<Rightarrow> bool) \<Rightarrow> down_event list \<Rightarrow> down_state \<Rightarrow> bytes list \<times> down_state \<times> bridge_error option"
where
  "run_downstream clamp write_ok [] st = ([], st, None)"
| "run_downstream clamp write_ok (DownCancel # es) st = ([], st, Some DownCancelled)"
| "run_downstream clamp write_ok (DownClosed # es) st = ([], st, Some DownEof)"
| "run_downstream clamp write_ok (DownFrame now f # es) st =
     (let g = clamp_tcp_mss clamp f;
          log_now = (case dn_last_log st of None \<Rightarrow> True | Some t \<Rightarrow> 5 * second < now - t);
          st' = (if write_ok g then st
                 else st\<lparr>dn_dropped := dn_dropped st + 1,
                        dn_last_log := (if log_now then Some now else dn_last_log st)\<rparr>)
      in case run_downstream clamp write_ok es st' of (written, st'', e) \<Rightarrow>
           ((if write_ok g then g # written else written), st'', e))"

section \<open>Properties\<close>

text \<open>Renaming the adapter does not defeat the exclusion.\<close>

lemma excluded_by_description:
  "find_adapter name ads = Some a \<Longrightarrow> excluded_name (ad_description a) \<Longrightarrow> link_local_iface ads i = None \<or> if_name i \<noteq> name"
  by (auto simp: link_local_iface_def is_excluded_from_bridge_def adapter_description_def)

lemma link_local_iface_Some:
  assumes "link_local_iface ads i = Some b"
  shows "if_up i" and "\<not> excluded_name (if_name i)" and "bi_name b = if_name i" and "is_link_local (bi_addr b)"
proof -
  show "if_up i" "\<not> excluded_name (if_name i)"
    using assms by (auto simp: link_local_iface_def is_excluded_from_bridge_def split: if_splits)
  from assms obtain addrs ip where "find is_link_local addrs = Some ip"
      "b = \<lparr>bi_name = if_name i, bi_hwaddr = if_hwaddr i, bi_addr = ip\<rparr>"
    by (auto simp: link_local_iface_def split: if_splits option.splits)
  then show "bi_name b = if_name i" "is_link_local (bi_addr b)" by (auto simp: find_Some_iff)
qed

lemma detect_link_local_sound:
  assumes "detect_link_local ads (Some ifaces) = Some out" and "b \<in> set out"
  shows "is_link_local (bi_addr b) \<and> \<not> excluded_name (bi_name b) \<and>
         (\<exists>i \<in> set ifaces. if_up i \<and> if_name i = bi_name b)"
proof -
  obtain i where "i \<in> set ifaces" "link_local_iface ads i = Some b"
    using assms by (auto simp: detect_link_local_def map_filter_def)
  then show ?thesis using link_local_iface_Some [of ads i b] by metis
qed

text \<open>Every frame is written once, in order, or counted as dropped; the loop never stops for one.\<close>

lemma run_downstream_counts:
  assumes "run_downstream clamp write_ok (map (\<lambda>f. DownFrame now f) fs) st = (written, st', e)"
  shows "e = None \<and> written = filter write_ok (map (clamp_tcp_mss clamp) fs) \<and>
         dn_dropped st' = dn_dropped st + of_nat (length (filter (\<lambda>f. \<not> write_ok (clamp_tcp_mss clamp f)) fs))"
  using assms
proof (induction fs arbitrary: st written st' e)
  case (Cons f fs)
  show ?case
  proof (cases "write_ok (clamp_tcp_mss clamp f)")
    case True
    with Cons show ?thesis by (fastforce simp: Let_def split: prod.splits)
  next
    case False
    with Cons.prems show ?thesis by (auto simp: Let_def split: prod.splits dest!: Cons.IH)
  qed
qed simp

lemma run_upstream_prefix:
  "run_upstream clamp (\<lambda>_. True) (map Some fs) = (map (clamp_tcp_mss clamp) fs, None)"
  by (induction fs) (simp_all add: Let_def)

end
