(* ===== verification/ClientSession.thy ===== *)
theory ClientSession
  imports ClientConn MssClamp Bridge
begin

text \<open>
  The data path of \<open>internal/vpnclient/client.go\<close>: the session \<open>runSession\<close> builds from an AuthOK, the
  frames it sends (FEC data and repairs, fragments, pings), the receive loops of its two transports,
  the stale flush and the keepalive.
\<close>

section \<open>Building a session\<close>

datatype link = Primary | Secondary

record client_session =
  k_id :: session_id
  k_hub :: "16 word"
  k_mode :: string
  k_secondary :: bool
  k_cipher :: cipher
  k_pipe :: pipe
  k_fec :: fec_config
  k_frag :: bool
  k_frag_id :: "32 word"
  k_reasm :: reassembler
  k_stats :: fec_stats
  k_last_pong :: time
  k_clamp :: "16 word"

text \<open>The server's parameters win over the configured ones.\<close>

definition adopt_fec :: "auth_info \<Rightarrow> fec_config \<Rightarrow> fec_config" where
  "adopt_fec ar f0 =
     (let f1 = (if 0 < ar_k ar then f0\<lparr>fc_k := uint (ar_k ar), fc_r := uint (ar_r ar)\<rparr> else f0)
      in if 0 < ar_delay ar then f1\<lparr>fc_delay := uint (ar_delay ar)\<rparr> else f1)"

definition client_frag_enabled :: "string \<Rightarrow> auth_info \<Rightarrow> bool" where
  "client_frag_enabled mode ar \<longleftrightarrow> mode = ''udp'' \<and> ar_flags ar AND FlagFragment \<noteq> 0"

definition client_clamp :: "client_config \<Rightarrow> 16 word" where
  "client_clamp cfg = (let mc = br_mss_clamp (bridge_defaults (cc_bridge cfg)) in if 0 < mc then word_of_int mc else 0)"

text \<open>The secondary address of a mode; empty when none is dialled.\<close>

definition secondary_target :: "string \<Rightarrow> client_config \<Rightarrow> string" where
  "secondary_target mode cfg =
     (if mode = ''udp'' then derive_secondary_addr (cc_server cfg)
      else if mode = ''tls'' then derive_secondary_addr (resolve_tcp_addr cfg)
      else '''')"

text \<open>In the automatic modes a TLS session is given up after five minutes, to try UDP again.\<close>

definition session_deadline :: "string \<Rightarrow> client_config \<Rightarrow> time option" where
  "session_deadline mode cfg =
     (if mode = ''tls'' \<and> cc_transport cfg \<noteq> ''tcp'' \<and> cc_server cfg \<noteq> '''' then Some (5 * minute) else None)"

definition join_packet :: "session_id \<Rightarrow> bytes" where
  "join_packet n = mk_packet \<lparr>hdr_type = FrameJoin, hdr_hub = 0, hdr_session = n, hdr_seq = 0\<rparr> []"

definition open_session ::
  "env \<Rightarrow> time \<Rightarrow> client_config \<Rightarrow> string \<Rightarrow> auth_info \<Rightarrow> bool \<Rightarrow> fec_error + client_session"
where
  "open_session env now cfg mode ar secondary =
     (let fec = adopt_fec ar (fec_defaults (cc_fec cfg)) in
      case new_pipe (en_rs env) (fc_k fec) (fc_r fec) (repair_delay_duration fec) True of
        Inl e \<Rightarrow> Inl e
      | Inr p \<Rightarrow> Inr \<lparr>k_id = ar_session ar, k_hub = cc_hub_id cfg, k_mode = mode, k_secondary = secondary,
          k_cipher = ar_cipher ar, k_pipe = p, k_fec = fec, k_frag = client_frag_enabled mode ar, k_frag_id = 0,
          k_reasm = [], k_stats = no_stats, k_last_pong = now, k_clamp = client_clamp cfg\<rparr>)"

section \<open>Sending\<close>

type_synonym link_out = "(link \<times> bytes) list"

definition send_on_both :: "client_session \<Rightarrow> bytes \<Rightarrow> link_out" where
  "send_on_both s pkt = (Primary, pkt) # (if k_secondary s then [(Secondary, pkt)] else [])"

definition client_sealed :: "env \<Rightarrow> frame_type \<Rightarrow> 64 word \<Rightarrow> bytes \<Rightarrow> client_session \<Rightarrow> link_out \<times> client_session" where
  "client_sealed env ty seq plain s =
     (case seal_packet (en_seal env) (k_cipher s) plain of (c, enc) \<Rightarrow>
        (send_on_both s (mk_packet \<lparr>hdr_type = ty, hdr_hub = k_hub s, hdr_session = k_id s, hdr_seq = seq\<rparr> enc),
         s\<lparr>k_cipher := c\<rparr>))"

definition count_tx :: "nat \<Rightarrow> client_session \<Rightarrow> client_session" where
  "count_tx n s = s\<lparr>k_stats := (k_stats s)\<lparr>fs_tx := fs_tx (k_stats s) + of_nat n\<rparr>\<rparr>"

text \<open>The two callbacks of the pipe.\<close>

definition client_wire :: "env \<Rightarrow> wire \<Rightarrow> client_session \<Rightarrow> link_out \<times> client_session" where
  "client_wire env w s = (case w of
      WireData bid idx d \<Rightarrow> client_sealed env FrameData (pack_data_seq bid idx) d (count_tx (length d) s)
    | WireRepair bid idx d \<Rightarrow>
        client_sealed env FrameRepair (pack_repair_seq bid idx (word_of_int (fc_k (k_fec s))) (word_of_int (fc_r (k_fec s))))
          d (count_tx (length d) s))"

fun client_wires :: "env \<Rightarrow> wire list \<Rightarrow> client_session \<Rightarrow> link_out \<times> client_session" where
  "client_wires env [] s = ([], s)"
| "client_wires env (w # ws) s =
     (case client_wire env w s of (out, s1) \<Rightarrow> case client_wires env ws s1 of (rest, s2) \<Rightarrow> (out @ rest, s2))"

fun client_pieces :: "env \<Rightarrow> 32 word \<Rightarrow> nat \<Rightarrow> nat \<Rightarrow> bytes list \<Rightarrow> client_session \<Rightarrow> link_out \<times> client_session" where
  "client_pieces env fid i n [] s = ([], s)"
| "client_pieces env fid i n (pc # pcs) s =
     (case client_sealed env FrameDataFrag (pack_frag_seq fid (of_nat i) (of_nat n)) pc s of (out, s1) \<Rightarrow>
        case client_pieces env fid (Suc i) n pcs s1 of (rest, s2) \<Rightarrow> (out @ rest, s2))"

definition client_send :: "env \<Rightarrow> time \<Rightarrow> bytes \<Rightarrow> client_session \<Rightarrow> link_out \<times> client_session" where
  "client_send env now frame s =
     (if k_frag s \<and> needs_split frame (int MaxFramePlaintext) then
        let fid = k_frag_id s + 1; pieces = split_frame frame (int MaxFramePlaintext)
        in (case client_pieces env fid 0 (length pieces) pieces (s\<lparr>k_frag_id := fid\<rparr>) of
              (out, s1) \<Rightarrow> (out, count_tx (length frame) s1))
      else (case pipe_send (en_rs env) (\<lambda>_. True) now frame (k_pipe s) of
              (_, ws, p) \<Rightarrow> client_wires env ws (s\<lparr>k_pipe := p\<rparr>)))"

text \<open>The upstream pump of the bridge: clamp, then send.\<close>

definition client_upstream :: "env \<Rightarrow> time \<Rightarrow> bytes \<Rightarrow> client_session \<Rightarrow> link_out \<times> client_session" where
  "client_upstream env now frame s = client_send env now (clamp_tcp_mss (k_clamp s) frame) s"

definition client_repairs :: "env \<Rightarrow> time \<Rightarrow> client_session \<Rightarrow> link_out \<times> client_session" where
  "client_repairs env now s =
     (case repair_sender_step now (k_pipe s) of (ws, p) \<Rightarrow> client_wires env ws (s\<lparr>k_pipe := p\<rparr>))"

definition ping_packet :: "client_session \<Rightarrow> bytes" where
  "ping_packet s = mk_packet \<lparr>hdr_type = FramePing, hdr_hub = k_hub s, hdr_session = k_id s, hdr_seq = 0\<rparr> []"

text \<open>One tick of the keepalive: the ping, and whether the session has timed out.\<close>

definition keepalive_tick :: "time \<Rightarrow> client_session \<Rightarrow> link_out \<times> bool" where
  "keepalive_tick now s = ([(Primary, ping_packet s)], keepaliveTimeout < now - k_last_pong s)"

section \<open>Receiving\<close>

text \<open>What a receive loop keeps for itself: its own replay window and whether it has warned.\<close>

record recv_loop =
  rl_window :: replay_window
  rl_warned :: bool

definition new_recv_loop :: recv_loop where
  "new_recv_loop = \<lparr>rl_window = replay_init, rl_warned = False\<rparr>"

datatype recv_result = Delivered "bytes list" | SessionRejected string

definition min_frame :: nat where "min_frame = 14"

definition to_adapter :: "bytes list \<Rightarrow> bytes list" where
  "to_adapter fs = filter (\<lambda>f. min_frame \<le> length f) fs"

definition count_rx_bytes :: "nat \<Rightarrow> fec_stats \<Rightarrow> fec_stats" where
  "count_rx_bytes n f = f\<lparr>fs_rx := fs_rx f + of_nat n\<rparr>"

definition client_data :: "env \<Rightarrow> time \<Rightarrow> header \<Rightarrow> bytes \<Rightarrow> recv_loop \<times> client_session \<Rightarrow>
    recv_result \<times> recv_loop \<times> client_session" where
  "client_data env now h payload st = (case st of (rl, s) \<Rightarrow>
     case open_packet (en_open env) (k_cipher s) payload (rl_window rl) of (r, w) \<Rightarrow>
       let rl' = rl\<lparr>rl_window := w\<rparr> in
       (case r of
          Inl _ \<Rightarrow> (Delivered [], rl', s)
        | Inr frame \<Rightarrow>
            let st1 = count_rx_bytes (length frame) ((k_stats s)\<lparr>fs_data := fs_data (k_stats s) + 1\<rparr>) in
            (case unpack_data_seq (hdr_seq h) of (bid, idx) \<Rightarrow>
             case pipe_recv_data (en_rs env) now bid idx frame (k_pipe s) of
               (Inl _, p) \<Rightarrow> (Delivered [], rl', s\<lparr>k_pipe := p, k_stats := st1\<lparr>fs_lost := fs_lost st1 + 1\<rparr>\<rparr>)
             | (Inr fs, p) \<Rightarrow> (Delivered (to_adapter fs), rl', s\<lparr>k_pipe := p, k_stats := st1\<rparr>))))"

definition client_fragment :: "env \<Rightarrow> time \<Rightarrow> header \<Rightarrow> bytes \<Rightarrow> recv_loop \<times> client_session \<Rightarrow>
    recv_result \<times> recv_loop \<times> client_session" where
  "client_fragment env now h payload st = (case st of (rl, s) \<Rightarrow>
     case open_packet (en_open env) (k_cipher s) payload (rl_window rl) of (r, w) \<Rightarrow>
       let rl' = rl\<lparr>rl_window := w\<rparr> in
       (case r of
          Inl _ \<Rightarrow> (Delivered [], rl', s)
        | Inr piece \<Rightarrow>
            (case unpack_frag_seq (hdr_seq h) of (fid, idx, n) \<Rightarrow>
             case reasm_add now fid idx n piece (k_reasm s) of (whole, ra) \<Rightarrow>
               (Delivered (case whole of None \<Rightarrow> [] | Some f \<Rightarrow> to_adapter [f]), rl',
                s\<lparr>k_reasm := ra, k_stats := count_rx_bytes (length piece) (k_stats s)\<rparr>))))"

text \<open>The block is looked up before anything is decrypted.\<close>

definition client_repair :: "env \<Rightarrow> time \<Rightarrow> header \<Rightarrow> bytes \<Rightarrow> recv_loop \<times> client_session \<Rightarrow>
    recv_result \<times> recv_loop \<times> client_session" where
  "client_repair env now h payload st = (case st of (rl, s) \<Rightarrow>
     case unpack_repair_seq (hdr_seq h) of (bid, idx, bk, br) \<Rightarrow>
       if repair_block_done bid (k_pipe s) then (Delivered [], rl, s)
       else case open_packet (en_open env) (k_cipher s) payload (rl_window rl) of (r, w) \<Rightarrow>
         let rl' = rl\<lparr>rl_window := w\<rparr> in
         (case r of
            Inl _ \<Rightarrow> (Delivered [], rl', s)
          | Inr frame \<Rightarrow>
              let st1 = count_rx_bytes (length frame) ((k_stats s)\<lparr>fs_repair := fs_repair (k_stats s) + 1\<rparr>);
                  rl2 = rl'\<lparr>rl_warned := rl_warned rl \<or> uint bk \<noteq> fc_k (k_fec s) \<or> uint br \<noteq> fc_r (k_fec s)\<rparr> in
              (case pipe_recv_repair (en_rs env) now bid idx frame (k_pipe s) of
                 (Inl _, p) \<Rightarrow> (Delivered [], rl2, s\<lparr>k_pipe := p, k_stats := st1\<lparr>fs_lost := fs_lost st1 + 1\<rparr>\<rparr>)
               | (Inr fs, p) \<Rightarrow> (Delivered (to_adapter fs), rl2,
                   s\<lparr>k_pipe := p, k_stats := st1\<lparr>fs_recovered := fs_recovered st1 + of_nat (length fs)\<rparr>\<rparr>))))"

text \<open>One packet of \<open>recvLoop\<close>.\<close>

definition client_recv :: "env \<Rightarrow> time \<Rightarrow> bytes \<Rightarrow> recv_loop \<times> client_session \<Rightarrow>
    recv_result \<times> recv_loop \<times> client_session" where
  "client_recv env now pkt st = (case st of (rl, s) \<Rightarrow>
     case split_packet pkt of
       None \<Rightarrow> (Delivered [], rl, s)
     | Some (h, payload) \<Rightarrow>
         if hdr_session h \<noteq> k_id s \<and> hdr_type h \<noteq> FrameAuth then (Delivered [], rl, s)
         else if hdr_type h = FrameData then client_data env now h payload st
         else if hdr_type h = FrameDataFrag then client_fragment env now h payload st
         else if hdr_type h = FrameRepair then client_repair env now h payload st
         else if hdr_type h = FramePong then (Delivered [], rl, s\<lparr>k_last_pong := now\<rparr>)
         else if hdr_type h = FrameAuth then
           (case payload of
              [] \<Rightarrow> (Delivered [], rl, s)
            | b # body \<Rightarrow> if b = AuthMsgError then (SessionRejected (rejection body), rl, s) else (Delivered [], rl, s))
         else (Delivered [], rl, s))"

text \<open>The loop itself, until the transport fails or the server rejects the session.\<close>

fun client_recv_all :: "env \<Rightarrow> (time \<times> bytes) list \<Rightarrow> recv_loop \<times> client_session \<Rightarrow>
    bytes list \<times> string option \<times> recv_loop \<times> client_session" where
  "client_recv_all env [] st = ([], None, st)"
| "client_recv_all env ((now, pkt) # as) st =
     (case client_recv env now pkt st of
        (Delivered fs, st1) \<Rightarrow> (case client_recv_all env as st1 of (rest, e, st2) \<Rightarrow> (fs @ rest, e, st2))
      | (SessionRejected m, st1) \<Rightarrow> ([], Some m, st1))"

definition client_flush :: "time \<Rightarrow> client_session \<Rightarrow> bytes list \<times> client_session" where
  "client_flush now s = (case pipe_flush now (200 * millisecond) (k_pipe s) of
     (fs, p) \<Rightarrow> (to_adapter fs, s\<lparr>k_pipe := p\<rparr>))"

section \<open>The session as a machine\<close>

text \<open>The steps the goroutines of a session take, over the two receive loops and the shared state.\<close>

datatype client_event =
    FromPrimary time bytes
  | FromSecondary time bytes
  | FromAdapter time bytes
  | RepairDue time
  | FlushDue time

record client_run =
  cr_primary :: recv_loop
  cr_secondary :: recv_loop
  cr_session :: client_session

datatype client_output = ToLink link bytes | ToAdapter bytes

definition adapter_out :: "recv_result \<Rightarrow> client_output list" where
  "adapter_out r = (case r of Delivered fs \<Rightarrow> map ToAdapter fs | SessionRejected _ \<Rightarrow> [])"

definition link_outs :: "link_out \<Rightarrow> client_output list" where
  "link_outs out = map (\<lambda>(l, p). ToLink l p) out"

definition client_step :: "env \<Rightarrow> client_run \<Rightarrow> client_event \<Rightarrow> client_output list \<times> client_run" where
  "client_step env r ev = (case ev of
      FromPrimary now pkt \<Rightarrow>
        (case client_recv env now pkt (cr_primary r, cr_session r) of (res, rl, s) \<Rightarrow>
          (adapter_out res, r\<lparr>cr_primary := rl, cr_session := s\<rparr>))
    | FromSecondary now pkt \<Rightarrow>
        (case client_recv env now pkt (cr_secondary r, cr_session r) of (res, rl, s) \<Rightarrow>
          (adapter_out res, r\<lparr>cr_secondary := rl, cr_session := s\<rparr>))
    | FromAdapter now f \<Rightarrow>
        (case client_upstream env now f (cr_session r) of (out, s) \<Rightarrow> (link_outs out, r\<lparr>cr_session := s\<rparr>))
    | RepairDue now \<Rightarrow>
        (case client_repairs env now (cr_session r) of (out, s) \<Rightarrow> (link_outs out, r\<lparr>cr_session := s\<rparr>))
    | FlushDue now \<Rightarrow>
        (case client_flush now (cr_session r) of (fs, s) \<Rightarrow> (map ToAdapter fs, r\<lparr>cr_session := s\<rparr>)))"

definition new_run :: "client_session \<Rightarrow> client_run" where
  "new_run s = \<lparr>cr_primary = new_recv_loop, cr_secondary = new_recv_loop, cr_session = s\<rparr>"

definition session_sane :: "client_session \<Rightarrow> bool" where
  "session_sane s \<longleftrightarrow> cipher_ok (k_cipher s) \<and> decoder_ok (p_dec (k_pipe s)) \<and> reasm_ok (k_reasm s)"

definition client_run_ok :: "client_run \<Rightarrow> bool" where
  "client_run_ok r \<longleftrightarrow> session_sane (cr_session r) \<and>
     replay_ok (rl_window (cr_primary r)) \<and> replay_ok (rl_window (cr_secondary r))"

text \<open>What no step of the data path changes.\<close>

definition same_client :: "client_session \<Rightarrow> client_session \<Rightarrow> bool" where
  "same_client s t \<longleftrightarrow> k_id t = k_id s \<and> k_hub t = k_hub s \<and> k_mode t = k_mode s \<and>
     k_secondary t = k_secondary s \<and> k_fec t = k_fec s \<and> k_frag t = k_frag s \<and> k_clamp t = k_clamp s \<and>
     c_key (k_cipher t) = c_key (k_cipher s) \<and> c_salt (k_cipher t) = c_salt (k_cipher s)"

lemma same_client_refl [simp]: "same_client s s"
  by (simp add: same_client_def)

lemma same_client_trans: "same_client s t \<Longrightarrow> same_client t u \<Longrightarrow> same_client s u"
  by (simp add: same_client_def)

lemma count_tx_simps [simp]:
  "same_client s (count_tx n t) = same_client s t" "k_pipe (count_tx n t) = k_pipe t"
  "k_reasm (count_tx n t) = k_reasm t" "k_cipher (count_tx n t) = k_cipher t"
  by (simp_all add: count_tx_def same_client_def)

text \<open>Sending touches the cipher's counter and the statistics only.\<close>

definition sends_only :: "client_session \<Rightarrow> client_session \<Rightarrow> bool" where
  "sends_only s t \<longleftrightarrow> same_client s t \<and> k_pipe t = k_pipe s \<and> k_reasm t = k_reasm s"

lemma sends_only_refl [simp]: "sends_only s s"
  by (simp add: sends_only_def)

lemma sends_only_trans: "sends_only s t \<Longrightarrow> sends_only t u \<Longrightarrow> sends_only s u"
  by (auto simp: sends_only_def intro: same_client_trans)

lemma sends_only_count_tx [simp]: "sends_only s (count_tx n t) = sends_only s t"
  by (simp add: sends_only_def)

lemma client_sealed_spec: "client_sealed env ty seq plain s = (out, t) \<Longrightarrow> sends_only s t"
  by (auto simp: client_sealed_def sends_only_def same_client_def case_prod_beta)

lemma client_wire_spec: "client_wire env w s = (out, t) \<Longrightarrow> sends_only s t"
  by (cases w) (auto simp: client_wire_def dest!: client_sealed_spec intro: sends_only_trans [rotated])

lemma client_wires_spec: "client_wires env ws s = (out, t) \<Longrightarrow> sends_only s t"
proof (induction ws arbitrary: s out)
  case (Cons w ws)
  obtain o1 s1 where w: "client_wire env w s = (o1, s1)" by fastforce
  obtain o2 where "client_wires env ws s1 = (o2, t)" using Cons.prems w by (auto split: prod.splits)
  then show ?case using Cons.IH client_wire_spec [OF w] sends_only_trans by blast
qed simp

lemma client_pieces_spec: "client_pieces env fid i n pcs s = (out, t) \<Longrightarrow> sends_only s t"
proof (induction pcs arbitrary: i s out)
  case (Cons pc pcs)
  obtain o1 s1 where w: "client_sealed env FrameDataFrag (pack_frag_seq fid (of_nat i) (of_nat n)) pc s = (o1, s1)"
    by fastforce
  obtain o2 where "client_pieces env fid (Suc i) n pcs s1 = (o2, t)" using Cons.prems w by (auto split: prod.splits)
  then show ?case using Cons.IH client_sealed_spec [OF w] sends_only_trans by blast
qed simp

lemma session_sane_sends: "session_sane s \<Longrightarrow> sends_only s t \<Longrightarrow> session_sane t"
  by (simp add: session_sane_def sends_only_def same_client_def cipher_ok_def)

lemma session_sane_pipe: "session_sane s \<Longrightarrow> p_dec p = p_dec (k_pipe s) \<Longrightarrow> session_sane (s\<lparr>k_pipe := p\<rparr>)"
  by (simp add: session_sane_def)

lemma session_sane_more [simp]:
  "session_sane (s\<lparr>k_frag_id := i\<rparr>) = session_sane s" "session_sane (s\<lparr>k_last_pong := now\<rparr>) = session_sane s"
  "session_sane (s\<lparr>k_stats := st\<rparr>) = session_sane s"
  by (simp_all add: session_sane_def)

lemma client_send_sane:
  assumes "session_sane s" and "client_send env now f s = (out, t)"
  shows "session_sane t"
proof (cases "k_frag s \<and> needs_split f (int MaxFramePlaintext)")
  case True
  obtain o1 s1 where p: "client_pieces env (k_frag_id s + 1) 0 (length (split_frame f (int MaxFramePlaintext)))
      (split_frame f (int MaxFramePlaintext)) (s\<lparr>k_frag_id := k_frag_id s + 1\<rparr>) = (o1, s1)" by fastforce
  have "session_sane s1" using session_sane_sends [OF _ client_pieces_spec [OF p]] assms(1) by simp
  then show ?thesis using True p assms(2) by (auto simp: client_send_def Let_def session_sane_def)
next
  case False
  obtain ok ws p where p: "pipe_send (en_rs env) (\<lambda>_. True) now f (k_pipe s) = (ok, ws, p)"
    using prod_cases3 by blast
  have "session_sane (s\<lparr>k_pipe := p\<rparr>)" using pipe_send_dec [OF p] assms(1) by (rule session_sane_pipe [rotated])
  then show ?thesis using client_wires_spec [of env ws "s\<lparr>k_pipe := p\<rparr>" out t] session_sane_sends assms(2) False p
    by (auto simp: client_send_def)
qed

lemma client_repairs_sane:
  assumes "session_sane s" and "client_repairs env now s = (out, t)"
  shows "session_sane t"
proof -
  obtain ws p where p: "repair_sender_step now (k_pipe s) = (ws, p)" by fastforce
  have "session_sane (s\<lparr>k_pipe := p\<rparr>)" using repair_sender_dec [OF p] assms(1) by (rule session_sane_pipe [rotated])
  then show ?thesis using client_wires_spec [of env ws "s\<lparr>k_pipe := p\<rparr>" out t] session_sane_sends assms(2) p
    by (auto simp: client_repairs_def)
qed

lemma client_flush_sane: "session_sane s \<Longrightarrow> session_sane (snd (client_flush now s))"
  using flush_stale_ok [of "p_dec (k_pipe s)" now "200 * millisecond"]
  by (auto simp: client_flush_def pipe_flush_def session_sane_def case_prod_beta)

section \<open>Receiving keeps the invariant\<close>

definition recv_ok :: "recv_loop \<times> client_session \<Rightarrow> bool" where
  "recv_ok st \<longleftrightarrow> replay_ok (rl_window (fst st)) \<and> session_sane (snd st)"

lemma pipe_recv_dec_ok:
  "decoder_ok (p_dec p) \<Longrightarrow> decoder_ok (p_dec (snd (pipe_recv_data rs now bid idx d p)))"
  "decoder_ok (p_dec p) \<Longrightarrow> decoder_ok (p_dec (snd (pipe_recv_repair rs now bid ridx d p)))"
  using decoder_add_step [of "p_dec p" rs now bid]
  by (simp_all add: pipe_recv_data_def pipe_recv_repair_def add_data_def add_repair_def case_prod_beta)

lemma client_data_ok:
  assumes "recv_ok (rl, s)"
  shows "recv_ok (snd (client_data env now h payload (rl, s)))"
proof -
  obtain r w where o: "open_packet (en_open env) (k_cipher s) payload (rl_window rl) = (r, w)" by fastforce
  have w: "replay_ok w" using replay_ok_open [of "rl_window rl" "en_open env" "k_cipher s" payload] assms o
    by (simp add: recv_ok_def)
  obtain bid idx where u: "unpack_data_seq (hdr_seq h) = (bid, idx)" by fastforce
  have "decoder_ok (p_dec (k_pipe s))" using assms by (simp add: recv_ok_def session_sane_def)
  then have "decoder_ok (p_dec (snd (pipe_recv_data (en_rs env) now bid idx d (k_pipe s))))" for d
    by (rule pipe_recv_dec_ok)
  then show ?thesis using assms w
    by (cases r) (auto simp: client_data_def o u recv_ok_def session_sane_def Let_def case_prod_beta split: sum.split)
qed

lemma client_fragment_ok:
  assumes "recv_ok (rl, s)"
  shows "recv_ok (snd (client_fragment env now h payload (rl, s)))"
proof -
  obtain r w where o: "open_packet (en_open env) (k_cipher s) payload (rl_window rl) = (r, w)" by fastforce
  have w: "replay_ok w" using replay_ok_open [of "rl_window rl" "en_open env" "k_cipher s" payload] assms o
    by (simp add: recv_ok_def)
  have "reasm_ok (k_reasm s)" using assms by (simp add: recv_ok_def session_sane_def)
  then have "reasm_ok (snd (reasm_add now fid idx n d (k_reasm s)))" for fid idx n d
    by (rule reasm_add_ok)
  then show ?thesis using assms w
    by (cases r) (auto simp: client_fragment_def o recv_ok_def session_sane_def Let_def case_prod_beta)
qed

lemma client_repair_ok:
  assumes "recv_ok (rl, s)"
  shows "recv_ok (snd (client_repair env now h payload (rl, s)))"
proof -
  obtain r w where o: "open_packet (en_open env) (k_cipher s) payload (rl_window rl) = (r, w)" by fastforce
  have w: "replay_ok w" using replay_ok_open [of "rl_window rl" "en_open env" "k_cipher s" payload] assms o
    by (simp add: recv_ok_def)
  obtain bid idx bk br where u: "unpack_repair_seq (hdr_seq h) = (bid, idx, bk, br)" using prod_cases4 by blast
  have "decoder_ok (p_dec (k_pipe s))" using assms by (simp add: recv_ok_def session_sane_def)
  then have "decoder_ok (p_dec (snd (pipe_recv_repair (en_rs env) now bid idx d (k_pipe s))))" for d
    by (rule pipe_recv_dec_ok)
  then show ?thesis using assms w
    by (cases r) (auto simp: client_repair_def o u recv_ok_def session_sane_def Let_def case_prod_beta split: sum.split)
qed

lemma client_recv_ok: "recv_ok st \<Longrightarrow> recv_ok (snd (client_recv env now pkt st))"
proof -
  assume ok: "recv_ok st"
  obtain rl s where st: "st = (rl, s)" by fastforce
  show ?thesis
  proof (cases "split_packet pkt")
    case None
    then show ?thesis using ok by (simp add: client_recv_def st)
  next
    case (Some hp)
    obtain h payload where hp: "hp = (h, payload)" by fastforce
    have pong: "recv_ok (rl, s\<lparr>k_last_pong := now\<rparr>)" using ok by (simp add: recv_ok_def st)
    show ?thesis using ok client_data_ok client_fragment_ok client_repair_ok pong
      by (simp add: client_recv_def st Some hp split: list.split)
  qed
qed

lemma client_run_ok_step: "client_run_ok r \<Longrightarrow> client_run_ok (snd (client_step env r ev))"
proof (cases ev)
  case (FromPrimary now pkt)
  assume "client_run_ok r"
  then have "recv_ok (cr_primary r, cr_session r)" by (simp add: client_run_ok_def recv_ok_def)
  from client_recv_ok [OF this, of env now pkt] show ?thesis using \<open>client_run_ok r\<close> FromPrimary
    by (simp add: client_step_def client_run_ok_def recv_ok_def case_prod_beta)
next
  case (FromSecondary now pkt)
  assume "client_run_ok r"
  then have "recv_ok (cr_secondary r, cr_session r)" by (simp add: client_run_ok_def recv_ok_def)
  from client_recv_ok [OF this, of env now pkt] show ?thesis using \<open>client_run_ok r\<close> FromSecondary
    by (simp add: client_step_def client_run_ok_def recv_ok_def case_prod_beta)
next
  case (FromAdapter now f)
  assume "client_run_ok r"
  moreover obtain out t where c: "client_upstream env now f (cr_session r) = (out, t)" by fastforce
  ultimately have "session_sane t" using client_send_sane [of "cr_session r" env now]
    by (simp add: client_upstream_def client_run_ok_def)
  then show ?thesis using \<open>client_run_ok r\<close> by (simp add: FromAdapter client_step_def c client_run_ok_def)
next
  case (RepairDue now)
  assume "client_run_ok r"
  moreover obtain out t where c: "client_repairs env now (cr_session r) = (out, t)" by fastforce
  ultimately have "session_sane t" using client_repairs_sane [of "cr_session r" env now] by (simp add: client_run_ok_def)
  then show ?thesis using \<open>client_run_ok r\<close> by (simp add: RepairDue client_step_def c client_run_ok_def)
next
  case (FlushDue now)
  assume "client_run_ok r"
  then have "session_sane (snd (client_flush now (cr_session r)))" using client_flush_sane by (simp add: client_run_ok_def)
  then show ?thesis using \<open>client_run_ok r\<close> by (simp add: FlushDue client_step_def client_run_ok_def case_prod_beta)
qed

lemma new_pipe_dec_ok: "new_pipe rs k r delay hr = Inr p \<Longrightarrow> decoder_ok (p_dec p)"
  using new_decoder_ok by (auto simp: new_pipe_def new_encoder_def split: sum.splits if_splits)

lemma open_session_sane:
  assumes "open_session env now cfg mode ar sec = Inr s" and "cipher_ok (ar_cipher ar)"
  shows "session_sane s"
  using assms new_pipe_dec_ok by (auto simp: open_session_def session_sane_def Let_def split: sum.splits)

text \<open>The first state of a run, as \<open>runSession\<close> sets it up, or nothing when the pipe cannot be built.\<close>

definition client_runs :: "env \<Rightarrow> time \<Rightarrow> client_config \<Rightarrow> string \<Rightarrow> auth_info \<Rightarrow> bool \<Rightarrow> client_event list \<Rightarrow> client_run option" where
  "client_runs env now cfg mode ar sec evs =
     (case open_session env now cfg mode ar sec of
        Inl _ \<Rightarrow> None
      | Inr s \<Rightarrow> Some (foldl (\<lambda>r ev. snd (client_step env r ev)) (new_run s) evs))"

lemma client_runs_ok:
  assumes "client_runs env now cfg mode ar sec evs = Some r" and "cipher_ok (ar_cipher ar)"
  shows "client_run_ok r"
proof -
  obtain s where s: "open_session env now cfg mode ar sec = Inr s"
    and r: "r = foldl (\<lambda>r ev. snd (client_step env r ev)) (new_run s) evs"
    using assms(1) by (auto simp: client_runs_def split: sum.splits)
  have start: "client_run_ok (new_run s)"
    using open_session_sane [OF s assms(2)] by (simp add: client_run_ok_def new_run_def new_recv_loop_def)
  have keep: "client_run_ok (foldl (\<lambda>r ev. snd (client_step env r ev)) r0 evs)" if "client_run_ok r0" for r0
    using that by (induction evs arbitrary: r0) (simp_all add: client_run_ok_step)
  show ?thesis unfolding r using start by (rule keep)
qed

end
