(* ===== verification/FecOrder.thy ===== *)
theory FecOrder
  imports FecPipe
begin

text \<open>
  The pipe on a path that loses nothing: a sender at position \<open>i\<close> of a block emits the frame as the
  block's packet \<open>i\<close> (and the repairs after the last one), and a receiver that has the packets before
  it delivers the frame at once, whatever the times.
\<close>

section \<open>The receiver\<close>

definition in_order :: "32 word \<Rightarrow> nat \<Rightarrow> decoder \<Rightarrow> bool" where
  "in_order bid i d \<longleftrightarrow> decoder_ok d \<and> i < d_k d \<and> d_max_seen d \<le> bid \<and>
     (\<forall>c > bid. map_of (d_blocks d) c = None) \<and>
     (if i = 0 then map_of (d_blocks d) bid = None else map_of (d_blocks d) bid \<noteq> None) \<and>
     (let b = lookup_block bid d in b_delivered b = i \<and> \<not> b_done b \<and>
       (\<forall>j < d_k d + d_r d. b_present b ! j \<longleftrightarrow> j < i))"

lemma fresh_in_order: "0 < k \<Longrightarrow> in_order 0 0 (fresh_decoder k r)"
  by (auto simp: in_order_def fresh_decoder_def decoder_ok_def lookup_block_def Let_def)

lemma track_max_below:
  assumes "d_max_seen d \<le> bid"
  shows "d_max_seen (track_max now bid d) = bid"
    and "bid \<le> c \<Longrightarrow> map_of (d_blocks (track_max now bid d)) c = map_of (d_blocks d) c"
proof -
  show "d_max_seen (track_max now bid d) = bid"
    using assms expire_loop_frame [of now "bid - 8" "d\<lparr>d_max_seen := bid\<rparr>"]
    by (auto simp: track_max_def expire_def max_old_blocks_def)
  show "map_of (d_blocks (track_max now bid d)) c = map_of (d_blocks d) c" if "bid \<le> c"
  proof (cases "d_max_seen d < bid \<and> (8 :: 32 word) \<le> bid")
    case True
    then have "bid - 8 \<le> c" using word_minus_8_le [of bid] that by (blast intro: order.trans)
    then show ?thesis using True expire_loop_frame [of now "bid - 8" "d\<lparr>d_max_seen := bid\<rparr>" c]
      by (auto simp: track_max_def expire_def max_old_blocks_def)
  next
    case False
    then show ?thesis by (auto simp: track_max_def expire_def max_old_blocks_def not_le)
  qed
qed

text \<open>A block that has exactly its first \<open>i\<close> packets takes the next one.\<close>

lemma block_add_next:
  assumes ok: "block_ok k r b" and i: "i < k" and d: "b_delivered b = i" "\<not> b_done b"
    and p: "\<forall>j < k + r. b_present b ! j \<longleftrightarrow> j < i"
  shows "\<exists>b'. block_add rs k r now (int i) f False b = (Inr [f], b') \<and> b_delivered b' = Suc i \<and>
    b_done b' = (Suc i = k) \<and> (\<forall>j < k + r. b_present b' ! j \<longleftrightarrow> j < Suc i)"
proof -
  let ?c = "b\<lparr>b_data := (b_data b)[i := Some f], b_present := (b_present b)[i := True],
      b_count := Suc (b_count b), b_last := Some now\<rparr>"
  have len: "length (b_data b) = k" "length (b_present b) = k + r" using ok by (simp_all add: block_ok_def)
  have present: "b_present ?c ! j \<longleftrightarrow> j < Suc i" if "j < k + r" for j
    using p that i len by (auto simp: nth_list_update less_Suc_eq)
  have "\<not> b_present b ! (k + x)" if "x < r" for x using p that i by simp
  then have "repair_count k r ?c = 0" using i by (simp add: repair_count_def filter_empty_conv)
  then have t: "try_recover rs k r ?c = (case deliver_block k ?c of (out, b') \<Rightarrow> (Inr out, b'))"
    by (auto simp: try_recover_def)
  have "b_delivered ?c \<le> k" "\<not> b_done ?c" using d i by simp_all
  then obtain m where m: "i \<le> m" "m \<le> k" "\<And>j. i \<le> j \<Longrightarrow> j < m \<Longrightarrow> b_present ?c ! j" "m < k \<Longrightarrow> \<not> b_present ?c ! m"
    and out: "deliver_block k ?c = (map (\<lambda>x. opt_bytes (b_data ?c ! x)) [i..<m], ?c\<lparr>b_delivered := m, b_done := (m = k)\<rparr>)"
    using deliver_block_spec [of ?c k] d(1) by auto
  have "m = Suc i"
  proof (rule antisym)
    show "m \<le> Suc i" using m(1,2) m(3) [of "Suc i"] present [of "Suc i"] by (cases "m \<le> Suc i") auto
    show "Suc i \<le> m" using m(1,2,4) present [of i] i by (cases "m = i") auto
  qed
  then have "deliver_block k ?c = ([f], ?c\<lparr>b_delivered := Suc i, b_done := (Suc i = k)\<rparr>)"
    using out len i by (simp add: opt_bytes_def)
  moreover have "block_add rs k r now (int i) f False b = try_recover rs k r ?c"
    using d(2) i p by (simp add: block_add_def)
  ultimately show ?thesis using t present by (intro exI [of _ "?c\<lparr>b_delivered := Suc i, b_done := (Suc i = k)\<rparr>"]) simp
qed

lemma in_order_add:
  assumes io: "in_order bid i d"
  shows "\<exists>d'. add_data rs now bid (int i) f d = (Inr [f], d') \<and> d_k d' = d_k d \<and> d_r d' = d_r d \<and>
    (if Suc i < d_k d then in_order bid (Suc i) d'
     else block_done bid d' \<and> (unat bid < 4294967295 \<longrightarrow> in_order (bid + 1) 0 d'))"
proof -
  let ?d1 = "track_max now bid d"
  have ok: "decoder_ok d" and i: "i < d_k d" and mx: "d_max_seen d \<le> bid"
    and later: "\<forall>c > bid. map_of (d_blocks d) c = None"
    and blk: "b_delivered (lookup_block bid d) = i" "\<not> b_done (lookup_block bid d)"
      "\<forall>j < d_k d + d_r d. b_present (lookup_block bid d) ! j \<longleftrightarrow> j < i"
    using io by (simp_all add: in_order_def Let_def)
  note tm = track_max_below [OF mx, where now = now]
  have fr: "d_k ?d1 = d_k d" "d_r ?d1 = d_r d" using track_max_frame [of now bid d] by simp_all
  have l1: "lookup_block bid ?d1 = lookup_block bid d" by (rule lookup_block_cong) (simp_all add: tm fr)
  obtain b' where b': "block_add rs (d_k d) (d_r d) now (int i) f False (lookup_block bid d) = (Inr [f], b')"
    "b_delivered b' = Suc i" "b_done b' = (Suc i = d_k d)" "\<forall>j < d_k d + d_r d. b_present b' ! j \<longleftrightarrow> j < Suc i"
    using block_add_next [OF lookup_block_ok [OF ok] i blk] by blast
  obtain d2 where goc: "get_or_create bid ?d1 = (lookup_block bid d, d2)"
    using get_or_create_fst [OF track_max_decoder_ok [OF ok], of bid now bid] l1 by (cases "get_or_create bid ?d1") simp
  have f2: "d_k d2 = d_k d" "d_r d2 = d_r d" "d_max_seen d2 = bid"
    "c \<noteq> bid \<Longrightarrow> map_of (d_blocks d2) c = map_of (d_blocks ?d1) c" for c
    using get_or_create_frame [of bid ?d1] get_or_create_other [of c bid ?d1] goc fr tm by simp_all
  let ?d' = "d2\<lparr>d_blocks := mput bid b' (d_blocks d2)\<rparr>"
  have add: "add_data rs now bid (int i) f d = (Inr [f], ?d')"
    by (simp add: add_data_def decoder_add_def goc f2 b'(1))
  have ok': "decoder_ok ?d'"
    using decoder_add_step [OF ok, of rs now bid "int i" f False] add by (simp add: add_data_def)
  have blocks: "map_of (d_blocks ?d') c = (if c = bid then Some b' else None)" if "bid \<le> c" for c
    using that later by (auto simp: f2 tm)
  have seen: "d_max_seen ?d' = bid" by (simp add: f2)
  have look: "lookup_block bid ?d' = b'" by (simp add: lookup_block_def)
  show ?thesis
  proof (cases "Suc i < d_k d")
    case True
    have "in_order bid (Suc i) ?d'"
      using True b' ok' blocks seen look by (auto simp: in_order_def f2 Let_def)
    then show ?thesis using add True by (simp add: f2)
  next
    case False
    then have "Suc i = d_k d" using i by simp
    then have "block_done bid ?d'" using b'(3) by (simp add: block_done_def)
    moreover have "in_order (bid + 1) 0 ?d'" if "unat bid < 4294967295"
    proof -
      have "unat (bid + 1) = unat bid + 1" using that by (simp add: unat_word_ariths)
      then have lt: "bid < bid + 1" by (simp add: word_less_nat_alt)
      then have none: "map_of (d_blocks ?d') c = None" if "bid + 1 \<le> c" for c
        using blocks [of c] that by (simp add: order.strict_trans2 less_imp_le)
      have other: "map_of (d_blocks d2) c = None" if "bid + 1 \<le> c" for c
        using none [OF that] order.strict_trans2 [OF lt that] by (simp split: if_splits)
      have look': "lookup_block (bid + 1) ?d' = new_block (d_k d) (d_r d)"
        using none [of "bid + 1"] by (simp add: lookup_block_def f2)
      have "0 < d_k ?d'" using i by (simp add: f2)
      then show ?thesis using ok' other seen lt look'
        by (simp add: in_order_def Let_def less_imp_le f2(1-3))
    qed
    ultimately show ?thesis using add False by (simp add: f2)
  qed
qed

section \<open>The sender\<close>

definition sending_at :: "nat \<Rightarrow> nat \<Rightarrow> 32 word \<Rightarrow> nat \<Rightarrow> pipe \<Rightarrow> bool" where
  "sending_at k r bid i p \<longleftrightarrow> e_k (p_enc p) = k \<and> e_r (p_enc p) = r \<and> e_block (p_enc p) = bid \<and>
     length (e_buf (p_enc p)) = i \<and> p_idx p = of_nat i \<and> i < k \<and>
     (\<forall>f \<in> set (e_buf (p_enc p)). f \<noteq> [])"

text \<open>A code whose encoder never fails on a full block that is not all empty.\<close>

definition encodes :: "rs_code \<Rightarrow> nat \<Rightarrow> nat \<Rightarrow> bool" where
  "encodes rs k r \<longleftrightarrow> (\<forall>data. length data = k \<longrightarrow> (\<forall>f \<in> set data. f \<noteq> []) \<longrightarrow> block_repairs rs k r data \<noteq> None)"

lemma xor_encodes: "encodes rs k 1"
  by (simp add: encodes_def block_repairs_def)

lemma rs_encodes: "rs_law rs k r \<Longrightarrow> 0 < k \<Longrightarrow> 0 < r \<Longrightarrow> encodes rs k r"
  unfolding encodes_def
proof (intro allI impI)
  fix data :: "bytes list"
  assume law: "rs_law rs k r" and r: "0 < r" and k: "0 < k" and len: "length data = k" and ne: "\<forall>f \<in> set data. f \<noteq> []"
  obtain f where f: "f \<in> set data" using k len by (cases data) auto
  then have "0 < length f" using ne by simp
  also have "\<dots> \<le> max_len data" using f by (rule length_le_max_len)
  finally have pos: "0 < max_len data" .
  have "\<forall>d \<in> set (map (pad (max_len data)) data). length d = max_len data"
    using length_le_max_len by (auto simp: length_pad)
  then have "rs_encode_block rs k r data \<noteq> None"
    using law pos len unfolding rs_law_def rs_encode_block_def by (metis length_map option.distinct(1))
  then show "block_repairs rs k r data \<noteq> None" using r by (simp add: block_repairs_def)
qed

lemma new_pipe_sending:
  "new_pipe rs k r delay hr = Inr p \<Longrightarrow> sending_at (nat k) (nat r) 0 0 p \<and> in_order 0 0 (p_dec p)"
  using fresh_in_order [of "nat k" "nat r"]
  by (auto simp: new_pipe_def new_encoder_def new_decoder_def sending_at_def fresh_decoder_def split: if_splits)

definition all_repairs :: "32 word \<Rightarrow> wire list \<Rightarrow> bool" where
  "all_repairs bid ws \<longleftrightarrow> (\<forall>w \<in> set ws. \<exists>i d. w = WireRepair bid i d)"

lemma all_repairs_wires [simp]: "all_repairs bid (repair_wires bid reps)" "all_repairs bid []"
  by (auto simp: all_repairs_def repair_wires_def)

lemma until_error_repairs: "all_repairs bid ws \<Longrightarrow> all_repairs bid (snd (until_error ok ws))"
  by (induction ws) (auto simp: all_repairs_def case_prod_beta)

lemma length_until_error: "length (snd (until_error ok ws)) \<le> length ws"
  by (induction ws) (auto simp: case_prod_beta)

lemma pipe_send_next:
  assumes at: "sending_at k r bid i p" and enc: "encodes rs k r" and f: "f \<noteq> []"
    and send: "pipe_send rs ok now f p = (res, ws, q)"
  shows "\<exists>reps. ws = WireData bid (of_nat i) f # reps \<and> all_repairs bid reps \<and> (Suc i < k \<longrightarrow> reps = []) \<and>
    (if Suc i < k then sending_at k r bid (Suc i) q else sending_at k r (bid + 1) 0 q)"
proof -
  let ?buf = "e_buf (p_enc p) @ [f]"
  obtain reps p1 where n: "pipe_number rs f p = (reps, p1)" by fastforce
  have bid: "e_block (p_enc p) = bid" "p_idx p = of_nat i" using at by (simp_all add: sending_at_def)
  have k: "0 < k" using at by (simp add: sending_at_def)
  have ne: "\<forall>g \<in> set ?buf. g \<noteq> []" using at f by (simp add: sending_at_def)
  have "length ?buf = k \<Longrightarrow> block_repairs rs k r ?buf \<noteq> None" using enc ne by (simp add: encodes_def)
  then have p1: "if Suc i < k then reps = None \<and> sending_at k r bid (Suc i) p1
      else reps \<noteq> None \<and> sending_at k r (bid + 1) 0 p1"
    using n at ne k by (auto simp: pipe_number_def encoder_add_def sending_at_def Let_def add.commute split: if_splits)
  have upd: "sending_at k r b j (p1\<lparr>p_queue := qq\<rparr>) = sending_at k r b j p1" for b j qq
    by (simp add: sending_at_def)
  let ?w = "WireData bid (of_nat i) f"
  have "\<exists>rest. ws = ?w # rest \<and> all_repairs bid rest \<and> (reps = None \<longrightarrow> rest = []) \<and>
      (q = p1 \<or> (\<exists>qq. q = p1\<lparr>p_queue := qq\<rparr>))"
  proof (cases "ok ?w \<and> (\<exists>x. reps = Some x \<and> x \<noteq> [] \<and> p_has_repair p)")
    case False
    then have "ws = [?w]" "q = p1" using send
      by (auto simp: pipe_send_def n bid Let_def split: if_splits option.splits)
    then show ?thesis by simp
  next
    case True
    then obtain x where x: "reps = Some x" "x \<noteq> []" "p_has_repair p" "ok ?w" by blast
    show ?thesis
    proof (cases "0 < p_delay p")
      case True
      then show ?thesis using send x
        by (cases "p_queue p1") (auto simp: pipe_send_def n bid Let_def split: if_splits)
    next
      case False
      obtain res' out where u: "until_error ok (repair_wires bid x) = (res', out)" by fastforce
      then have "ws = ?w # out" "q = p1" using send x False by (auto simp: pipe_send_def n bid Let_def)
      moreover have "all_repairs bid out" using until_error_repairs [of bid "repair_wires bid x" ok] u by simp
      ultimately show ?thesis using x by simp
    qed
  qed
  then obtain rest where q: "ws = ?w # rest" "all_repairs bid rest" "reps = None \<longrightarrow> rest = []"
      "q = p1 \<or> (\<exists>qq. q = p1\<lparr>p_queue := qq\<rparr>)"
    by blast
  have "if Suc i < k then sending_at k r bid (Suc i) q else sending_at k r (bid + 1) 0 q"
    using q(4) p1 upd by (auto split: if_splits)
  moreover have "Suc i < k \<longrightarrow> rest = []" using p1 q(3) by auto
  ultimately show ?thesis using q(1,2) by blast
qed

end
