(* ===== verification/Tunnel.thy ===== *)
theory Tunnel
  imports ClientSession Server FecOrder
begin

text \<open>
  The client and the server together: what the handshake makes them agree on, and the path of a
  frame from the server's \<open>Session.Send\<close> through sealing, headers, FEC or fragments, and the client's
  receive loop to the client's adapter.
\<close>

section \<open>The handshake\<close>

definition no_auth_frame :: "bytes \<Rightarrow> bool" where
  "no_auth_frame f \<longleftrightarrow> (case split_packet f of None \<Rightarrow> True | Some (h, _) \<Rightarrow> hdr_type h \<noteq> FrameAuth)"

lemma auth_loop_skip: "list_all no_auth_frame junk \<Longrightarrow> auth_loop env salt cfg (junk @ fs) = auth_loop env salt cfg fs"
  by (induction junk) (auto simp: no_auth_frame_def split: option.splits prod.splits)

definition client_hello_of :: "env \<Rightarrow> client_config \<Rightarrow> auth_hello" where
  "client_hello_of env cfg = \<lparr>ah_hub = cc_hub_id cfg, ah_login = cc_login cfg,
     ah_pwhash = en_sha256 env (str_bytes (cc_password cfg)), ah_flags = FlagFragment\<rparr>"

definition request_payload :: "env \<Rightarrow> client_config \<Rightarrow> bytes" where
  "request_payload env cfg = AuthMsgHello # marshal_auth_hello (client_hello_of env cfg)"

lemma split_auth_request:
  "split_packet (auth_request env cfg) =
     Some (\<lparr>hdr_type = FrameAuth, hdr_hub = cc_hub_id cfg, hdr_session = 0, hdr_seq = 0\<rparr>, request_payload env cfg)"
  by (simp add: auth_request_def request_payload_def client_hello_of_def)

text \<open>A login and password as the client can send them.\<close>

definition sendable :: "env \<Rightarrow> client_config \<Rightarrow> bool" where
  "sendable env cfg \<longleftrightarrow> length (en_sha256 env (str_bytes (cc_password cfg))) = 32 \<and> length (cc_login cfg) < 256"

lemma granted_hello:
  assumes "sendable env cfg" and "auth_decide env now addr (request_payload env cfg) sv = AuthGrant hello"
  shows "hello = client_hello_of env cfg"
proof -
  have "wf_auth_hello (client_hello_of env cfg)" using assms(1) by (simp add: wf_auth_hello_def client_hello_of_def sendable_def)
  then show ?thesis using assms(2) parse_marshal_auth_hello
    unfolding auth_grant_iff request_payload_def by simp
qed

lemma keys_agree:
  assumes "sendable env cfg"
  shows "session_key env (client_hello_of env cfg) = client_key env cfg"
  using assms wire_hash_hex_eq [of "en_sha256 env" "cc_password cfg"] derive_key_commute [of "en_sha256 env" "en_hkdf env"]
  by (simp add: session_key_def client_key_def client_hello_of_def sendable_def wire_hash_def)

lemma byte_of_int: "0 \<le> i \<Longrightarrow> i < 256 \<Longrightarrow> uint (of_int i :: byte) = i"
  by (simp add: uint_word_of_int_eq take_bit_int_eq_self)

lemma new_pipe_bounds:
  assumes "new_pipe rs k r delay hr = Inr p"
  shows "1 \<le> k" "k \<le> 128" "0 \<le> r" "r \<le> 32" "e_k (p_enc p) = nat k" "e_r (p_enc p) = nat r"
    "d_k (p_dec p) = nat k" "d_r (p_dec p) = nat r"
  using assms by (auto simp: new_pipe_def new_encoder_def new_decoder_def MaxK_def MaxR_def split: if_splits)

lemma new_pipe_delay:
  assumes "new_pipe rs k r delay hr = Inr p"
  obtains q where "new_pipe rs k r delay' hr = Inr q"
  using assms by (auto simp: new_pipe_def split: sum.splits)

lemma build_sessionD:
  assumes "build_session env n salt now og hello fec = Some s"
  obtains key where "session_key env hello = Inr key" and "new_cipher salt key n = Inr (ss_cipher s)"
    and "new_pipe (en_rs env) (fc_k fec) (fc_r fec) (repair_delay_duration fec) True = Inr (ss_pipe s)"
    and "ss_id s = n" and "ss_hub s = ah_hub hello" and "ss_login s = ah_login hello"
    and "ss_raw s = og_send og" and "ss_raw2 s = None" and "ss_frag s = frag_enabled og hello"
    and "ss_frag_id s = 0" and "ss_window s = replay_init" and "ss_live s"
  using assms by (auto simp: build_session_def split: sum.splits)

lemma new_cipherD:
  assumes "new_cipher salt key n = Inr c"
  shows "c_key c = take 16 key" "c_counter c = 0" "c_peer c = n" "c_salt c = salt" "16 \<le> length key"
  using assms by (auto simp: new_cipher_def split: if_splits)

lemma new_cipher_Inr: "16 \<le> length key \<Longrightarrow> \<exists>c. new_cipher salt key n = Inr c"
  by (simp add: new_cipher_def)

lemma handshake:
  assumes ok: "sendable env cfg"
    and h: "handle_auth env rnd salt now og (request_payload env cfg) sv = (sid, out, sv')" "sid \<noteq> 0"
    and junk: "list_all no_auth_frame junk"
  obtains s pkt ar where "sv' = register_session s sv" and "ss_id s = sid" and "out = [SendTo (og_send og) pkt]"
    and "auth_loop env csalt cfg (junk @ pkt # rest) = Inr ar"
    and "ss_login s = cc_login cfg" and "ss_hub s = cc_hub_id cfg"
    and "ar_session ar = sid" and "c_key (ar_cipher ar) = c_key (ss_cipher s)" and "c_salt (ar_cipher ar) = csalt"
    and "uint (ar_k ar) = int (e_k (p_enc (ss_pipe s)))" and "uint (ar_r ar) = int (e_r (p_enc (ss_pipe s)))"
    and "build_session env sid salt now og (client_hello_of env cfg) (fec_defaults (sc_fec (sv_cfg sv))) = Some s"
    and "ar_flags ar = (if ss_frag s then FlagFragment else 0)"
proof -
  obtain hello s where g: "auth_decide env now (og_addr og) (request_payload env cfg) sv = AuthGrant hello"
    and b: "build_session env (new_session_id rnd) salt now og hello (fec_defaults (sc_fec (sv_cfg sv))) = Some s"
    and sid: "sid = new_session_id rnd" and sv': "sv' = register_session s sv"
    and out: "out = [SendTo (og_send og) (auth_ok_packet s (fec_defaults (sc_fec (sv_cfg sv))))]"
    using handle_auth_session [OF h] .
  let ?fec = "fec_defaults (sc_fec (sv_cfg sv))"
  have hello: "hello = client_hello_of env cfg" by (rule granted_hello [OF ok g])
  obtain key where key: "session_key env hello = Inr key" and c: "new_cipher salt key sid = Inr (ss_cipher s)"
    and p: "new_pipe (en_rs env) (fc_k ?fec) (fc_r ?fec) (repair_delay_duration ?fec) True = Inr (ss_pipe s)"
    and s: "ss_id s = sid" "ss_hub s = ah_hub hello" "ss_login s = ah_login hello"
    using build_sessionD [OF b] sid by metis
  have ck: "client_key env cfg = Inr key" using key keys_agree [OF ok] by (simp add: hello)
  obtain cc where cc: "new_cipher csalt key sid = Inr cc" using new_cipher_Inr new_cipherD(5) [OF c] by blast
  let ?pkt = "auth_ok_packet s ?fec"
  let ?ar = "\<lparr>ar_session = sid, ar_cipher = cc, ar_k = of_int (fc_k ?fec), ar_r = of_int (fc_r ?fec),
      ar_delay = of_int (fc_delay ?fec), ar_flags = (if ss_frag s then FlagFragment else 0)\<rparr>"
  have "auth_loop env csalt cfg (junk @ ?pkt # rest) = Inr ?ar"
    unfolding auth_loop_skip [OF junk] using ck cc s
    by (simp add: auth_ok_packet_def simple_header_def accept_auth_ok_def)
  moreover have "uint (ar_k ?ar) = int (e_k (p_enc (ss_pipe s)))" "uint (ar_r ?ar) = int (e_r (p_enc (ss_pipe s)))"
    using new_pipe_bounds [OF p] byte_of_int [of "fc_k ?fec"] byte_of_int [of "fc_r ?fec"] by simp_all
  ultimately show ?thesis
    using that [of s ?pkt ?ar] sv' s out new_cipherD [OF c] new_cipherD [OF cc] b sid
    by (simp add: hello client_hello_of_def)
qed

text \<open>The packet of an effect.\<close>

definition packet_of :: "effect \<Rightarrow> bytes" where
  "packet_of e = (case e of SendTo _ p \<Rightarrow> p | CloseConn _ \<Rightarrow> [])"

text \<open>The same over what the server has stored, and the other outcome: a refusal always reaches the client.\<close>

definition same_terms :: "client_config \<Rightarrow> session \<Rightarrow> auth_info \<Rightarrow> bool" where
  "same_terms cfg s ar \<longleftrightarrow> ss_login s = cc_login cfg \<and> ss_hub s = cc_hub_id cfg \<and> ar_session ar = ss_id s \<and>
     c_key (ar_cipher ar) = c_key (ss_cipher s) \<and> uint (ar_k ar) = int (e_k (p_enc (ss_pipe s))) \<and>
     uint (ar_r ar) = int (e_r (p_enc (ss_pipe s))) \<and> ar_flags ar = (if ss_frag s then FlagFragment else 0)"

lemma registered_session:
  "find_session (register_session s sv) (ss_id s) = Some (length (sv_objs sv))"
  "get_obj (register_session s sv) (length (sv_objs sv)) = s"
  by (auto simp: find_session_def get_obj_def register_session_def Let_def nth_append split: option.splits)

lemma handshake_terms:
  assumes "sendable env cfg"
    and "handle_auth env rnd salt now og (request_payload env cfg) sv = (sid, hello, sv')" "sid \<noteq> 0"
    and "list_all no_auth_frame junk"
  shows "\<exists>i ar. find_session sv' sid = Some i \<and>
    auth_loop env csalt cfg (junk @ map packet_of hello @ rest) = Inr ar \<and> same_terms cfg (get_obj sv' i) ar"
proof -
  obtain s pkt ar where r: "sv' = register_session s sv" "ss_id s = sid" "hello = [SendTo (og_send og) pkt]"
    "auth_loop env csalt cfg (junk @ pkt # rest) = Inr ar" "same_terms cfg s ar"
    by (rule handshake [OF assms, of csalt rest]) (simp add: same_terms_def)
  show ?thesis using r registered_session [of s sv]
    by (intro exI [of _ "length (sv_objs sv)"] exI [of _ ar]) (simp add: packet_of_def)
qed

lemma refusal_reported:
  assumes h: "handle_auth env rnd salt now og (request_payload env cfg) sv = (0, out, sv')"
    and junk: "list_all no_auth_frame junk"
  shows "sv' = sv \<and> (\<exists>msg. auth_loop env csalt cfg (junk @ map packet_of out @ rest) = Inl (AuthRejected (take 255 msg)) \<and>
    (auth_decide env now (og_addr og) (request_payload env cfg) sv = AuthReject msg \<or> msg = ''internal error''))"
proof -
  have loud: "auth_decide env now (og_addr og) (request_payload env cfg) sv \<noteq> AuthSilent"
    by (auto simp: auth_decide_def request_payload_def Let_def split: sum.splits option.splits)
  have reply: "auth_loop env csalt cfg (auth_error_packet 0 msg # rest) = Inl (AuthRejected (take 255 msg))" for msg
    by (simp add: auth_error_packet_def simple_header_def rejection_def parse_marshal_auth_error AuthMsgError_def AuthMsgOK_def)
  have "new_session_id rnd \<noteq> 0" by (simp add: new_session_id_def)
  then obtain msg where "out = [SendTo (og_send og) (auth_error_packet 0 msg)]" "sv' = sv"
    "auth_decide env now (og_addr og) (request_payload env cfg) sv = AuthReject msg \<or> msg = ''internal error''"
    using h loud by (auto simp: handle_auth_def Let_def dest: build_session_id split: auth_result.splits option.splits)
  then show ?thesis using reply auth_loop_skip [OF junk] by (auto simp: packet_of_def)
qed

text \<open>The session the client opens on that answer has the server's block parameters.\<close>

lemma client_opens:
  assumes p: "new_pipe (en_rs env) k r delay True = Inr q" and ar: "uint (ar_k ar) = k" "uint (ar_r ar) = r"
  obtains s where "open_session env now cfg mode ar sec = Inr s" and "k_id s = ar_session ar"
    and "k_cipher s = ar_cipher ar" and "k_reasm s = []" and "k_mode s = mode"
    and "in_order 0 0 (p_dec (k_pipe s))" and "d_k (p_dec (k_pipe s)) = nat k"
    and "sending_at (nat k) (nat r) 0 0 (k_pipe s)" and "fc_k (k_fec s) = k" and "fc_r (k_fec s) = r"
proof -
  let ?fec = "adopt_fec ar (fec_defaults (cc_fec cfg))"
  note b = new_pipe_bounds [OF p]
  have "ar_k ar \<noteq> 0" using ar b(1) by auto
  then have "0 < ar_k ar" by (simp add: word_gt_0)
  then have f: "fc_k ?fec = k" "fc_r ?fec = r" using ar by (simp_all add: adopt_fec_def Let_def)
  obtain q' where q': "new_pipe (en_rs env) k r (repair_delay_duration ?fec) True = Inr q'"
    using new_pipe_delay [OF p] by blast
  show ?thesis
    using that [of "\<lparr>k_id = ar_session ar, k_hub = cc_hub_id cfg, k_mode = mode, k_secondary = sec,
          k_cipher = ar_cipher ar, k_pipe = q', k_fec = ?fec, k_frag = client_frag_enabled mode ar, k_frag_id = 0,
          k_reasm = [], k_stats = no_stats, k_last_pong = now, k_clamp = client_clamp cfg\<rparr>"]
      q' f new_pipe_sending [OF q'] new_pipe_bounds [OF q']
    by (simp add: open_session_def Let_def)
qed

text \<open>An Auth error ends a session whatever session it names and whoever sent it.\<close>

lemma forged_rejection:
  "client_recv env now (auth_error_packet n msg) (rl, c) = (SessionRejected (take 255 msg), rl, c)"
  by (simp add: client_recv_def auth_error_packet_def simple_header_def rejection_def parse_marshal_auth_error
      AuthMsgError_def FrameAuth_def FrameData_def FrameDataFrag_def FrameRepair_def FramePong_def)

section \<open>From the server's Send to the client's adapter\<close>

text \<open>What the client's loop makes of a batch of packets.\<close>

lemma client_recv_append:
  assumes "client_recv_all env as st = (fs, None, st1)"
  shows "client_recv_all env (as @ bs) st =
    (case client_recv_all env bs st1 of (gs, e, st2) \<Rightarrow> (fs @ gs, e, st2))"
  using assms
proof (induction as arbitrary: st fs)
  case Nil
  then show ?case by (auto split: prod.split)
next
  case (Cons a as)
  obtain now pkt where a: "a = (now, pkt)" by fastforce
  obtain res st' where r: "client_recv env now pkt st = (res, st')" by (rule prod.exhaust)
  show ?case
  proof (cases res)
    case (Delivered hs)
    obtain fs' where fs': "client_recv_all env as st' = (fs', None, st1)" "fs = hs @ fs'"
      using Cons.prems by (auto simp: a r Delivered split: prod.splits)
    show ?thesis using Cons.IH [OF fs'(1)] fs'(2) by (simp add: a r Delivered split: prod.split)
  next
    case (SessionRejected m)
    then show ?thesis using Cons.prems by (simp add: a r)
  qed
qed

text \<open>
  The two ends agree on the session: id, key, and a window behind the sender's counter. The counter
  has room for \<open>n\<close> more packets.
\<close>

definition crypt_linked :: "nat \<Rightarrow> session \<Rightarrow> recv_loop \<times> client_session \<Rightarrow> bool" where
  "crypt_linked n s st \<longleftrightarrow> k_id (snd st) = ss_id s \<and> c_key (k_cipher (snd st)) = c_key (ss_cipher s) \<and>
     cipher_ok (ss_cipher s) \<and> ss_raw2 s = None \<and> rw_max (rl_window (fst st)) \<le> c_counter (ss_cipher s) \<and>
     unat (c_counter (ss_cipher s)) + n < 2 ^ 64"

lemma crypt_linked_less: "crypt_linked n s st \<Longrightarrow> m \<le> n \<Longrightarrow> crypt_linked m s st"
  by (simp add: crypt_linked_def)

lemma crypt_linked_cong:
  "crypt_linked n s (rl, k) \<Longrightarrow> k_id k' = k_id k \<Longrightarrow> k_cipher k' = k_cipher k \<Longrightarrow> rl_window rl' = rl_window rl \<Longrightarrow>
     ss_id s' = ss_id s \<Longrightarrow> ss_cipher s' = ss_cipher s \<Longrightarrow> ss_raw2 s' = ss_raw2 s \<Longrightarrow> crypt_linked n s' (rl', k')"
  by (simp add: crypt_linked_def)

text \<open>One sealed packet: what the receiver opens, and the link afterwards.\<close>

lemma sealed_packet:
  assumes law: "aead_law (en_seal env) (en_open env)" and l: "crypt_linked (Suc n) s (rl, k)"
    and send: "send_sealed env ty seq plain s = (out, s')"
  obtains enc w cc where "out = [SendTo (ss_raw s) (mk_packet \<lparr>hdr_type = ty, hdr_hub = ss_hub s, hdr_session = ss_id s, hdr_seq = seq\<rparr> enc)]"
    and "open_packet (en_open env) (k_cipher k) enc (rl_window rl) = (Inr plain, w)"
    and "s' = s\<lparr>ss_cipher := cc\<rparr>" and "crypt_linked n s' (rl\<lparr>rl_window := w\<rparr>, k)"
proof -
  obtain c enc where sp: "seal_packet (en_seal env) (ss_cipher s) plain = (c, enc)" by fastforce
  have u: "unat (c_counter (ss_cipher s) + 1) = unat (c_counter (ss_cipher s)) + 1"
    using l by (simp add: crypt_linked_def unat_word_ariths)
  then have lt: "rw_max (rl_window rl) < c_counter (ss_cipher s) + 1"
    using l by (simp add: crypt_linked_def word_less_nat_alt word_le_nat_alt)
  let ?w = "snd (replay_check (rl_window rl) (c_counter (ss_cipher s) + 1))"
  have o: "open_packet (en_open env) (k_cipher k) enc (rl_window rl) = (Inr plain, ?w)"
    using open_seal [OF law, of "ss_cipher s" "k_cipher k" "rl_window rl" plain] l sp check_next_fresh [OF lt]
    by (simp add: crypt_linked_def)
  have c: "c_key c = c_key (ss_cipher s)" "cipher_ok c" "c_counter c = c_counter (ss_cipher s) + 1"
    using seal_packet_cipher [of "en_seal env" "ss_cipher s" plain] cipher_ok_seal [of "en_seal env" "ss_cipher s" plain] l
    by (simp_all add: sp crypt_linked_def)
  have s': "s' = s\<lparr>ss_cipher := c\<rparr>" "out = [SendTo (ss_raw s)
      (mk_packet \<lparr>hdr_type = ty, hdr_hub = ss_hub s, hdr_session = ss_id s, hdr_seq = seq\<rparr> enc)]"
    using send l by (simp_all add: send_sealed_def sp send_both_def crypt_linked_def)
  have "crypt_linked n s' (rl\<lparr>rl_window := ?w\<rparr>, k)"
    using l c u check_next_fresh [OF lt] by (simp add: crypt_linked_def s')
  with o s' show ?thesis by (intro that [of enc ?w c]) simp_all
qed

text \<open>The FEC half of the link: both pipes at the same place of the same block.\<close>

definition fec_linked :: "nat \<Rightarrow> nat \<Rightarrow> 32 word \<Rightarrow> nat \<Rightarrow> session \<Rightarrow> client_session \<Rightarrow> bool" where
  "fec_linked k r bid i s c \<longleftrightarrow> sending_at k r bid i (ss_pipe s) \<and> in_order bid i (p_dec (k_pipe c)) \<and>
     d_k (p_dec (k_pipe c)) = k \<and> k \<le> 128"

lemma recv_data_wire:
  assumes law: "aead_law (en_seal env) (en_open env)" and l: "crypt_linked (Suc n) s (rl, c)"
    and io: "in_order bid i (p_dec (k_pipe c))" "d_k (p_dec (k_pipe c)) = k" "k \<le> 128"
    and send: "emit_wire env (WireData bid (of_nat i) f) s = (out, s')"
  obtains rl' c' where "\<exists>e p. out = [SendTo e p] \<and> client_recv env now p (rl, c) = (Delivered (to_adapter [f]), rl', c')"
    and "crypt_linked n s' (rl', c')" and "k_reasm c' = k_reasm c" and "d_k (p_dec (k_pipe c')) = k"
    and "if Suc i < k then in_order bid (Suc i) (p_dec (k_pipe c'))
         else block_done bid (p_dec (k_pipe c')) \<and> (unat bid < 4294967295 \<longrightarrow> in_order (bid + 1) 0 (p_dec (k_pipe c')))"
    and "ss_pipe s' = ss_pipe s" and "ss_frag s' = ss_frag s" and "ss_frag_id s' = ss_frag_id s"
proof -
  obtain s1 where ss: "send_sealed env FrameData (pack_data_seq bid (of_nat i)) f s = (out, s1)"
    and s': "s' = s1\<lparr>ss_tx := ss_tx s1 + 1\<rparr>"
    using send by (auto simp: emit_wire_def send_fec_data_def split: prod.splits)
  obtain enc w cc where out: "out = [SendTo (ss_raw s) (mk_packet \<lparr>hdr_type = FrameData, hdr_hub = ss_hub s,
        hdr_session = ss_id s, hdr_seq = pack_data_seq bid (of_nat i)\<rparr> enc)]"
    and o: "open_packet (en_open env) (k_cipher c) enc (rl_window rl) = (Inr f, w)"
    and s1: "s1 = s\<lparr>ss_cipher := cc\<rparr>" and l1: "crypt_linked n s1 (rl\<lparr>rl_window := w\<rparr>, c)"
    using sealed_packet [OF law l ss] .
  have i: "i < k" using io by (simp add: in_order_def)
  then have "unat (of_nat i :: 16 word) = i" using io(3) by (intro unat_of_nat_u16) simp
  then have idx: "uint (of_nat i :: 16 word) = int i" by (metis uint_nat)
  obtain d' where d: "add_data (en_rs env) now bid (int i) f (p_dec (k_pipe c)) = (Inr [f], d')" "d_k d' = k"
    and io': "if Suc i < k then in_order bid (Suc i) d'
       else block_done bid d' \<and> (unat bid < 4294967295 \<longrightarrow> in_order (bid + 1) 0 d')"
    using in_order_add [OF io(1), of "en_rs env" now f] io(2) by auto
  let ?c' = "c\<lparr>k_pipe := (k_pipe c)\<lparr>p_dec := d'\<rparr>,
      k_stats := count_rx_bytes (length f) ((k_stats c)\<lparr>fs_data := fs_data (k_stats c) + 1\<rparr>)\<rparr>"
  have "client_recv env now (mk_packet \<lparr>hdr_type = FrameData, hdr_hub = ss_hub s,
        hdr_session = ss_id s, hdr_seq = pack_data_seq bid (of_nat i)\<rparr> enc) (rl, c) =
      (Delivered (to_adapter [f]), rl\<lparr>rl_window := w\<rparr>, ?c')"
    using l d(1) by (simp add: client_recv_def client_data_def o crypt_linked_def pipe_recv_data_def idx Let_def)
  moreover have "crypt_linked n s' (rl\<lparr>rl_window := w\<rparr>, ?c')"
    using l1 by (rule crypt_linked_cong) (simp_all add: s')
  moreover have "ss_pipe s' = ss_pipe s" "ss_frag s' = ss_frag s" "ss_frag_id s' = ss_frag_id s"
    by (simp_all add: s' s1)
  ultimately show ?thesis using that [of "rl\<lparr>rl_window := w\<rparr>" ?c'] out d(2) io' by auto
qed

lemma recv_done_repair:
  assumes l: "crypt_linked (Suc n) s (rl, c)" and d: "block_done bid (p_dec (k_pipe c))"
    and send: "emit_wire env (WireRepair bid idx f) s = (out, s')"
  obtains e p cc where "out = [SendTo e p]" and "client_recv env now p (rl, c) = (Delivered [], rl, c)"
    and "crypt_linked n s' (rl, c)" and "s' = s\<lparr>ss_cipher := cc\<rparr>"
proof -
  obtain k r where ss: "send_sealed env FrameRepair (pack_repair_seq bid idx k r) f s = (out, s')"
    using send by (auto simp: emit_wire_def send_fec_repair_def)
  obtain cc enc where sp: "seal_packet (en_seal env) (ss_cipher s) f = (cc, enc)" by fastforce
  let ?p = "mk_packet \<lparr>hdr_type = FrameRepair, hdr_hub = ss_hub s, hdr_session = ss_id s,
      hdr_seq = pack_repair_seq bid idx k r\<rparr> enc"
  have out: "out = [SendTo (ss_raw s) ?p]" "s' = s\<lparr>ss_cipher := cc\<rparr>"
    using ss l by (simp_all add: send_sealed_def sp send_both_def crypt_linked_def)
  have u: "unat (c_counter (ss_cipher s) + 1) = unat (c_counter (ss_cipher s)) + 1"
    using l by (simp add: crypt_linked_def unat_word_ariths)
  then have lt: "c_counter (ss_cipher s) < c_counter (ss_cipher s) + 1" by (simp add: word_less_nat_alt)
  have cc: "c_key cc = c_key (ss_cipher s)" "cipher_ok cc" "c_counter cc = c_counter (ss_cipher s) + 1"
    using seal_packet_cipher [of "en_seal env" "ss_cipher s" f] cipher_ok_seal [of "en_seal env" "ss_cipher s" f] l
    by (simp_all add: sp crypt_linked_def)
  have "crypt_linked n s' (rl, c)"
    using l cc u lt by (auto simp: crypt_linked_def out)
  moreover have "client_recv env now ?p (rl, c) = (Delivered [], rl, c)"
    using l d by (simp add: client_recv_def client_repair_def crypt_linked_def repair_block_done_def
        FrameRepair_def FrameData_def FrameDataFrag_def FrameAuth_def)
  ultimately show ?thesis using out by (intro that)
qed

lemma recv_done_repairs:
  "crypt_linked (n + length out) s (rl, c) \<Longrightarrow> all_repairs bid ws \<Longrightarrow> block_done bid (p_dec (k_pipe c)) \<Longrightarrow>
     emit_wires env ws s = (out, s') \<Longrightarrow> map snd as = map packet_of out \<Longrightarrow>
     client_recv_all env as (rl, c) = ([], None, rl, c) \<and> crypt_linked n s' (rl, c) \<and>
     ss_pipe s' = ss_pipe s \<and> ss_frag s' = ss_frag s \<and> ss_frag_id s' = ss_frag_id s"
proof (induction ws arbitrary: s out as)
  case Nil
  then show ?case by simp
next
  case (Cons w ws)
  obtain idx d where w: "w = WireRepair bid idx d" and ws: "all_repairs bid ws"
    using Cons.prems(2) by (auto simp: all_repairs_def)
  obtain o1 s1 o2 where e: "emit_wire env w s = (o1, s1)" "emit_wires env ws s1 = (o2, s')" "out = o1 @ o2"
    using Cons.prems(4) by (auto split: prod.splits)
  have one: "length o1 = 1" using e(1) Cons.prems(1)
    by (auto simp: w emit_wire_def send_fec_repair_def send_sealed_def send_both_def crypt_linked_def split: prod.splits)
  then have l: "crypt_linked (Suc (n + length o2)) s (rl, c)" using Cons.prems(1) e(3) by simp
  obtain now pkt as' where as: "as = (now, pkt) # as'" "pkt = packet_of (hd o1)" "map snd as' = map packet_of o2"
    using Cons.prems(5) one e(3) by (cases as; cases o1) auto
  obtain ep p cc where r: "o1 = [SendTo ep p]" "client_recv env now p (rl, c) = (Delivered [], rl, c)"
    "crypt_linked (n + length o2) s1 (rl, c)" "s1 = s\<lparr>ss_cipher := cc\<rparr>"
    using recv_done_repair [OF l Cons.prems(3) e(1) [unfolded w]] .
  show ?case using Cons.IH [OF r(3) ws Cons.prems(3) e(2) as(3)] r as by (simp add: packet_of_def)
qed

text \<open>A frame on the FEC path.\<close>

lemma recv_frame_fec:
  assumes law: "aead_law (en_seal env) (en_open env)" and enc: "encodes (en_rs env) k r" and f: "f \<noteq> []"
    and path: "\<not> (ss_frag s \<and> needs_split f (int MaxFramePlaintext))"
    and fl: "fec_linked k r bid i s c" and l: "crypt_linked (n + length out) s (rl, c)"
    and bid: "unat bid < 4294967295"
    and send: "session_send env now f s = (out, s')" and as: "map snd as = map packet_of out"
  obtains rl' c' bid' i' where "client_recv_all env as (rl, c) = (to_adapter [f], None, rl', c')"
    and "crypt_linked n s' (rl', c')" and "fec_linked k r bid' i' s' c'" and "unat bid' \<le> unat bid + 1"
    and "k_reasm c' = k_reasm c" and "ss_frag s' = ss_frag s" and "ss_frag_id s' = ss_frag_id s"
proof -
  let ?s = "s\<lparr>ss_hub_calls := ss_hub_calls s + 1\<rparr>"
  obtain res ws q where p: "pipe_send (en_rs env) (\<lambda>_. en_send_ok env (ss_raw s)) now f (ss_pipe s) = (res, ws, q)"
    using prod_cases3 by blast
  have em: "emit_wires env ws (?s\<lparr>ss_pipe := q\<rparr>) = (out, s')"
    using send path p by (simp add: session_send_def Let_def)
  have at: "sending_at k r bid i (ss_pipe s)" and io: "in_order bid i (p_dec (k_pipe c))"
    and k: "d_k (p_dec (k_pipe c)) = k" "k \<le> 128" using fl by (simp_all add: fec_linked_def)
  obtain reps where ws: "ws = WireData bid (of_nat i) f # reps" "all_repairs bid reps" "Suc i < k \<longrightarrow> reps = []"
    and at': "if Suc i < k then sending_at k r bid (Suc i) q else sending_at k r (bid + 1) 0 q"
    using pipe_send_next [OF at enc f p] by blast
  obtain o1 s1 o2 where e: "emit_wire env (WireData bid (of_nat i) f) (?s\<lparr>ss_pipe := q\<rparr>) = (o1, s1)"
      "emit_wires env reps s1 = (o2, s')" "out = o1 @ o2"
    using em ws(1) by (auto split: prod.splits)
  have one: "length o1 = 1" using e(1) l
    by (auto simp: emit_wire_def send_fec_data_def send_sealed_def send_both_def crypt_linked_def split: prod.splits)
  have l1: "crypt_linked (Suc (n + length o2)) (?s\<lparr>ss_pipe := q\<rparr>) (rl, c)"
    using l one e(3) by (simp add: crypt_linked_def)
  obtain now1 pkt as' where as': "as = (now1, pkt) # as'" "pkt = packet_of (hd o1)" "map snd as' = map packet_of o2"
    using as one e(3) by (cases as; cases o1) auto
  obtain rl' c' where r: "\<exists>e p. o1 = [SendTo e p] \<and> client_recv env now1 p (rl, c) = (Delivered (to_adapter [f]), rl', c')"
    and l2: "crypt_linked (n + length o2) s1 (rl', c')" and ra: "k_reasm c' = k_reasm c" and k': "d_k (p_dec (k_pipe c')) = k"
    and io': "if Suc i < k then in_order bid (Suc i) (p_dec (k_pipe c'))
         else block_done bid (p_dec (k_pipe c')) \<and> (unat bid < 4294967295 \<longrightarrow> in_order (bid + 1) 0 (p_dec (k_pipe c')))"
    and s1: "ss_pipe s1 = ss_pipe (?s\<lparr>ss_pipe := q\<rparr>)" "ss_frag s1 = ss_frag (?s\<lparr>ss_pipe := q\<rparr>)"
      "ss_frag_id s1 = ss_frag_id (?s\<lparr>ss_pipe := q\<rparr>)"
    using recv_data_wire [OF law l1 io k e(1), of now1] .
  have first: "client_recv env now1 pkt (rl, c) = (Delivered (to_adapter [f]), rl', c')"
    using r as'(2) by (auto simp: packet_of_def)
  show ?thesis
  proof (cases "Suc i < k")
    case True
    then have "o2 = []" "s' = s1" "as' = []" using e(2) ws(3) as'(3) by auto
    then show ?thesis using that [of rl' c' bid "Suc i"] True first as' l2 ra k' k io' at' s1
      by (simp add: fec_linked_def)
  next
    case False
    have u: "unat (bid + 1) = unat bid + 1" using bid by (simp add: unat_word_ariths)
    have fin: "block_done bid (p_dec (k_pipe c'))" using False io' by simp
    have rest: "client_recv_all env as' (rl', c') = ([], None, rl', c')" "crypt_linked n s' (rl', c')"
      "ss_pipe s' = q" "ss_frag s' = ss_frag s" "ss_frag_id s' = ss_frag_id s"
      using recv_done_repairs [OF l2 ws(2) fin e(2) as'(3)] s1 by simp_all
    then show ?thesis using that [of rl' c' "bid + 1" 0] False first as' ra k' k io' at' bid u
      by (simp add: fec_linked_def)
  qed
qed

text \<open>The ids the reassembler knows: a step adds at most the one it is given.\<close>

lemma map_of_subset_keys: "set m \<subseteq> set m' \<Longrightarrow> map_of m x \<noteq> None \<Longrightarrow> map_of m' x \<noteq> None"
  unfolding map_of_eq_None_iff by blast

lemma store_piece_keys:
  "map_of (snd (store_piece frag i piece p r)) x \<noteq> None \<Longrightarrow> x = frag \<or> map_of r x \<noteq> None"
  by (auto simp: store_piece_def Let_def split: if_splits)

lemma reasm_add_keys:
  assumes "map_of (snd (reasm_add now frag idx n piece r)) x \<noteq> None"
  shows "x = frag \<or> map_of r x \<noteq> None"
proof (cases "x = frag \<or> n = 0 \<or> n \<le> idx \<or> n = 1")
  case True
  then show ?thesis using assms by (auto simp: reasm_add_def split: if_splits)
next
  case False
  have ev: "map_of (mput frag p (evict now r)) x \<noteq> None \<Longrightarrow> map_of r x \<noteq> None" for p
    using False map_of_subset_keys [OF evict_subset, of now r x] by simp
  show ?thesis
  proof (cases "map_of r frag")
    case None
    then have "snd (reasm_add now frag idx n piece r) =
        snd (store_piece frag (unat idx) piece (new_partial n now) (mput frag (new_partial n now) (evict now r)))"
      using False by (simp add: reasm_add_def Let_def)
    then show ?thesis using assms store_piece_keys ev False by metis
  next
    case (Some p)
    then have "snd (reasm_add now frag idx n piece r) = r \<or>
        snd (reasm_add now frag idx n piece r) =
          snd (store_piece frag (unat idx) piece (new_partial n now) (mput frag (new_partial n now) r)) \<or>
        snd (reasm_add now frag idx n piece r) = snd (store_piece frag (unat idx) piece p r)"
      using False by (simp add: reasm_add_def Let_def)
    moreover have "map_of (snd (store_piece frag (unat idx) piece q r')) x \<noteq> None \<Longrightarrow> map_of r' x \<noteq> None" for q r'
      using store_piece_keys False by blast
    ultimately show ?thesis using assms False by (metis map_of_mput)
  qed
qed

lemma deliver_pieces_keys:
  "map_of (snd (deliver_pieces frag ps ds r)) x \<noteq> None \<Longrightarrow> x = frag \<or> map_of r x \<noteq> None"
proof (induction ds arbitrary: r)
  case (Cons d ds)
  obtain now i where d: "d = (now, i)" by fastforce
  obtain out r' where a: "reasm_add now frag (of_nat i) (of_nat (length ps)) (ps ! i) r = (out, r')" by fastforce
  have "map_of (snd (deliver_pieces frag ps ds r')) x \<noteq> None"
    using Cons.prems by (simp add: d a case_prod_beta)
  then have "x = frag \<or> map_of r' x \<noteq> None" by (rule Cons.IH)
  then show ?case using reasm_add_keys [of now frag "of_nat i" "of_nat (length ps)" "ps ! i" r x] by (simp add: a) blast
qed simp

lemma send_pieces_length:
  "send_pieces env fid i n pcs s = (out, s') \<Longrightarrow> ss_raw2 s = None \<Longrightarrow> length out = length pcs"
proof (induction pcs arbitrary: i s out)
  case (Cons pc pcs)
  obtain c enc where sp: "seal_packet (en_seal env) (ss_cipher s) pc = (c, enc)" by fastforce
  then show ?case using Cons.prems Cons.IH
    by (auto simp: send_sealed_def send_both_def split: prod.splits)
qed simp

text \<open>What the fragments of one frame come to at the adapter.\<close>

definition whole_frames :: "bytes option list \<Rightarrow> bytes list" where
  "whole_frames outs = concat (map (\<lambda>x. case x of None \<Rightarrow> [] | Some f \<Rightarrow> to_adapter [f]) outs)"

lemma whole_frames_simps [simp]:
  "whole_frames [] = []" "whole_frames (None # xs) = whole_frames xs"
  "whole_frames (Some f # xs) = to_adapter [f] @ whole_frames xs"
  by (simp_all add: whole_frames_def)

lemma whole_frames_filter: "whole_frames (filter (\<lambda>x. x \<noteq> None) outs) = whole_frames outs"
proof (induction outs)
  case (Cons x outs)
  then show ?case by (cases x) simp_all
qed simp

lemma recv_pieces:
  assumes law: "aead_law (en_seal env) (en_open env)" and n: "length ps < 256"
  shows "i + length pcs = length ps \<Longrightarrow> pcs = drop i ps \<Longrightarrow> crypt_linked (m + length out) s (rl, c) \<Longrightarrow>
    send_pieces env fid i (length ps) pcs s = (out, s') \<Longrightarrow> map snd as = map packet_of out \<Longrightarrow>
    \<exists>rl' c'. client_recv_all env as (rl, c) =
        (whole_frames (fst (deliver_pieces fid ps (zip (map fst as) [i..<length ps]) (k_reasm c))), None, rl', c') \<and>
      k_reasm c' = snd (deliver_pieces fid ps (zip (map fst as) [i..<length ps]) (k_reasm c)) \<and>
      k_pipe c' = k_pipe c \<and> crypt_linked m s' (rl', c') \<and> ss_pipe s' = ss_pipe s \<and> ss_frag s' = ss_frag s \<and>
      ss_frag_id s' = ss_frag_id s"
proof (induction pcs arbitrary: i s out as rl c)
  case Nil
  then show ?case by simp
next
  case (Cons pc pcs)
  obtain o1 s1 o2 where e: "send_sealed env FrameDataFrag (pack_frag_seq fid (of_nat i) (of_nat (length ps))) pc s = (o1, s1)"
      "send_pieces env fid (Suc i) (length ps) pcs (s1\<lparr>ss_tx := ss_tx s1 + 1\<rparr>) = (o2, s')" "out = o1 @ o2"
    using Cons.prems(4) by (auto split: prod.splits)
  have one: "length o1 = 1" using e(1) Cons.prems(3)
    by (auto simp: send_sealed_def send_both_def crypt_linked_def split: prod.splits)
  have l: "crypt_linked (Suc (m + length o2)) s (rl, c)" using Cons.prems(3) one e(3) by simp
  obtain now pkt as' where as: "as = (now, pkt) # as'" "pkt = packet_of (hd o1)" "map snd as' = map packet_of o2"
    using Cons.prems(5) one e(3) by (cases as; cases o1) auto
  have i: "i < length ps" using Cons.prems(1) by simp
  then have pc: "pc = ps ! i" and pcs: "pcs = drop (Suc i) ps"
    using Cons.prems(2) Cons_nth_drop_Suc [OF i] by (simp_all flip: Cons.prems(2))
  obtain enc w cc where r: "o1 = [SendTo (ss_raw s) (mk_packet \<lparr>hdr_type = FrameDataFrag, hdr_hub = ss_hub s,
        hdr_session = ss_id s, hdr_seq = pack_frag_seq fid (of_nat i) (of_nat (length ps))\<rparr> enc)]"
    and o: "open_packet (en_open env) (k_cipher c) enc (rl_window rl) = (Inr pc, w)"
    and s1: "s1 = s\<lparr>ss_cipher := cc\<rparr>" and l1: "crypt_linked (m + length o2) s1 (rl\<lparr>rl_window := w\<rparr>, c)"
    using sealed_packet [OF law l e(1)] .
  obtain whole ra where add: "reasm_add now fid (of_nat i) (of_nat (length ps)) pc (k_reasm c) = (whole, ra)"
    by fastforce
  let ?c = "c\<lparr>k_reasm := ra, k_stats := count_rx_bytes (length pc) (k_stats c)\<rparr>"
  have first: "client_recv env now pkt (rl, c) =
      (Delivered (case whole of None \<Rightarrow> [] | Some f \<Rightarrow> to_adapter [f]), rl\<lparr>rl_window := w\<rparr>, ?c)"
    using l add by (simp add: as(2) r packet_of_def client_recv_def client_fragment_def o crypt_linked_def Let_def
        FrameDataFrag_def FrameData_def FrameAuth_def)
  have l2: "crypt_linked (m + length o2) (s1\<lparr>ss_tx := ss_tx s1 + 1\<rparr>) (rl\<lparr>rl_window := w\<rparr>, ?c)"
    using l1 by (rule crypt_linked_cong) simp_all
  have "Suc i + length pcs = length ps" using Cons.prems(1) by simp
  from Cons.IH [OF this pcs l2 e(2) as(3)]
  obtain rl' c' where rest: "client_recv_all env as' (rl\<lparr>rl_window := w\<rparr>, ?c) =
        (whole_frames (fst (deliver_pieces fid ps (zip (map fst as') [Suc i..<length ps]) ra)), None, rl', c')"
      "k_reasm c' = snd (deliver_pieces fid ps (zip (map fst as') [Suc i..<length ps]) ra)"
      "k_pipe c' = k_pipe c" "crypt_linked m s' (rl', c')" "ss_pipe s' = ss_pipe s" "ss_frag s' = ss_frag s"
      "ss_frag_id s' = ss_frag_id s"
    by (auto simp: s1)
  have up: "[i..<length ps] = i # [Suc i..<length ps]" using i by (rule upt_conv_Cons)
  show ?case using rest first add pc
    by (intro exI [of _ rl'] exI [of _ c']) (cases whole; simp add: as(1) up case_prod_beta Let_def)
qed

text \<open>The whole link: cipher, pipes, and a reassembler that knows no id the sender has yet to use.\<close>

definition linked :: "nat \<Rightarrow> nat \<Rightarrow> nat \<Rightarrow> nat \<Rightarrow> session \<Rightarrow> recv_loop \<times> client_session \<Rightarrow> bool" where
  "linked k r n m s st \<longleftrightarrow> crypt_linked n s st \<and>
     (\<exists>bid i. fec_linked k r bid i s (snd st) \<and> unat bid + m < 4294967296) \<and>
     (\<forall>fid. map_of (k_reasm (snd st)) fid \<noteq> None \<longrightarrow> unat fid \<le> unat (ss_frag_id s)) \<and>
     unat (ss_frag_id s) + m < 4294967296"

definition fits :: "bytes \<Rightarrow> bool" where
  "fits f \<longleftrightarrow> f \<noteq> [] \<and> length (split_frame f (int MaxFramePlaintext)) < 256"

lemma recv_frame_frag:
  assumes law: "aead_law (en_seal env) (en_open env)"
    and path: "ss_frag s" "needs_split f (int MaxFramePlaintext)" "length (split_frame f (int MaxFramePlaintext)) < 256"
    and l: "linked k r (n + length out) (Suc m) s (rl, c)"
    and send: "session_send env now f s = (out, s')" and as: "map snd as = map packet_of out"
  obtains rl' c' where "client_recv_all env as (rl, c) = (to_adapter [f], None, rl', c')"
    and "linked k r n m s' (rl', c')" and "ss_frag s' = ss_frag s"
proof -
  let ?s = "s\<lparr>ss_hub_calls := ss_hub_calls s + 1\<rparr>"
  let ?fid = "ss_frag_id s + 1" and ?ps = "split_frame f (int MaxFramePlaintext)"
  have sp: "send_pieces env ?fid 0 (length ?ps) ?ps (?s\<lparr>ss_frag_id := ?fid\<rparr>) = (out, s')"
    using send path by (simp add: session_send_def send_frag_def Let_def)
  have u: "unat ?fid = unat (ss_frag_id s) + 1" using l by (simp add: linked_def unat_word_ariths)
  have new: "map_of (k_reasm c) ?fid = None"
    using l u by (cases "map_of (k_reasm c) ?fid") (auto simp: linked_def)
  have cl: "crypt_linked (n + length out) (?s\<lparr>ss_frag_id := ?fid\<rparr>) (rl, c)"
    using l by (auto simp: linked_def crypt_linked_def)
  let ?ds = "zip (map fst as) [0..<length ?ps]"
  obtain rl' c' where r: "client_recv_all env as (rl, c) =
        (whole_frames (fst (deliver_pieces ?fid ?ps ?ds (k_reasm c))), None, rl', c')"
      "k_reasm c' = snd (deliver_pieces ?fid ?ps ?ds (k_reasm c))" "k_pipe c' = k_pipe c" "crypt_linked n s' (rl', c')"
      "ss_pipe s' = ss_pipe s" "ss_frag s' = ss_frag s" "ss_frag_id s' = ?fid"
    using recv_pieces [OF law path(3), of 0 ?ps n out "?s\<lparr>ss_frag_id := ?fid\<rparr>" rl c ?fid s' as] sp cl as
    by auto
  have "length out = length ?ps" using send_pieces_length [OF sp] cl by (simp add: crypt_linked_def)
  then have "length as = length ?ps" using as by (metis length_map)
  then have ds: "map snd ?ds = [0..<length ?ps]" by simp
  have all: "set (map snd ?ds) = {..<length ?ps}" unfolding ds by auto
  have "whole_frames (fst (deliver_pieces ?fid ?ps ?ds (k_reasm c))) = to_adapter [f]"
    using deliver_pieces_complete [OF split_frame_at_least_two [OF path(2)] path(3) new all]
      whole_frames_filter [of "fst (deliver_pieces ?fid ?ps ?ds (k_reasm c))"]
    by (simp add: concat_split_frame)
  moreover have "unat fid \<le> unat ?fid" if "map_of (k_reasm c') fid \<noteq> None" for fid
  proof -
    have "fid = ?fid \<or> map_of (k_reasm c) fid \<noteq> None"
      using that deliver_pieces_keys [of ?fid ?ps ?ds "k_reasm c" fid] unfolding r(2) by blast
    then show ?thesis using l u by (auto simp: linked_def)
  qed
  moreover have "\<exists>bid i. fec_linked k r bid i s' c' \<and> unat bid + m < 4294967296"
    using l r(3,5) by (fastforce simp: linked_def fec_linked_def)
  ultimately show ?thesis using that [of rl' c'] r l u by (simp add: linked_def)
qed

text \<open>One frame, on whichever path.\<close>

lemma recv_frame:
  assumes law: "aead_law (en_seal env) (en_open env)" and enc: "encodes (en_rs env) k r" and f: "fits f"
    and l: "linked k r (n + length out) (Suc m) s (rl, c)"
    and send: "session_send env now f s = (out, s')" and as: "map snd as = map packet_of out"
  obtains rl' c' where "client_recv_all env as (rl, c) = (to_adapter [f], None, rl', c')"
    and "linked k r n m s' (rl', c')"
proof (cases "ss_frag s \<and> needs_split f (int MaxFramePlaintext)")
  case True
  then show ?thesis using recv_frame_frag [OF law _ _ _ l send as] f that by (metis fits_def)
next
  case False
  obtain bid i where fl: "fec_linked k r bid i s c" and bid: "unat bid + Suc m < 4294967296"
    using l by (auto simp: linked_def)
  have cl: "crypt_linked (n + length out) s (rl, c)" using l by (simp add: linked_def)
  have fne: "f \<noteq> []" using f by (simp add: fits_def)
  have "unat bid < 4294967295" using bid by simp
  from recv_frame_fec [OF law enc fne False fl cl this send as]
  obtain rl' c' bid' i' where r: "client_recv_all env as (rl, c) = (to_adapter [f], None, rl', c')"
    "crypt_linked n s' (rl', c')" "fec_linked k r bid' i' s' c'" "unat bid' \<le> unat bid + 1"
    "k_reasm c' = k_reasm c" "ss_frag s' = ss_frag s" "ss_frag_id s' = ss_frag_id s" .
  have "\<exists>bid i. fec_linked k r bid i s' c' \<and> unat bid + m < 4294967296"
    using r(3,4) bid by (intro exI [of _ bid'] exI [of _ i']) simp
  then have "linked k r n m s' (rl', c')" using l r(2,5,7) by (simp add: linked_def)
  then show ?thesis by (rule that [OF r(1)])
qed

text \<open>Any sequence of frames.\<close>

fun server_sends :: "env \<Rightarrow> (time \<times> bytes) list \<Rightarrow> session \<Rightarrow> effect list \<times> session" where
  "server_sends env [] s = ([], s)"
| "server_sends env ((now, f) # fs) s =
     (case session_send env now f s of (out, s1) \<Rightarrow> case server_sends env fs s1 of (rest, s2) \<Rightarrow> (out @ rest, s2))"

lemma recv_all_frames:
  assumes law: "aead_law (en_seal env) (en_open env)" and enc: "encodes (en_rs env) k r"
  shows "linked k r (length out) (length fs) s (rl, c) \<Longrightarrow> list_all fits (map snd fs) \<Longrightarrow>
    server_sends env fs s = (out, s') \<Longrightarrow> map snd as = map packet_of out \<Longrightarrow>
    \<exists>st'. client_recv_all env as (rl, c) = (to_adapter (map snd fs), None, st')"
proof (induction fs arbitrary: s out as rl c)
  case Nil
  then show ?case by (simp add: to_adapter_def)
next
  case (Cons x fs)
  obtain now f where x: "x = (now, f)" by fastforce
  obtain o1 s1 o2 where e: "session_send env now f s = (o1, s1)" "server_sends env fs s1 = (o2, s')" "out = o1 @ o2"
    using Cons.prems(3) by (auto simp: x split: prod.splits)
  obtain as1 as2 where as: "as = as1 @ as2" "map snd as1 = map packet_of o1" "map snd as2 = map packet_of o2"
    using Cons.prems(4) unfolding e(3) by (auto simp: map_eq_append_conv)
  have l: "linked k r (length o2 + length o1) (Suc (length fs)) s (rl, c)"
    using Cons.prems(1) e(3) by (simp add: add.commute)
  have "fits f" using Cons.prems(2) by (simp add: x)
  from recv_frame [OF law enc this l e(1) as(2)]
  obtain rl1 c1 where r: "client_recv_all env as1 (rl, c) = (to_adapter [f], None, rl1, c1)"
    "linked k r (length o2) (length fs) s1 (rl1, c1)" .
  obtain st' where "client_recv_all env as2 (rl1, c1) = (to_adapter (map snd fs), None, st')"
    using Cons.IH [OF r(2) _ e(2) as(3)] Cons.prems(2) by auto
  then show ?case using client_recv_append [OF r(1), of as2] as(1) by (simp add: x to_adapter_def)
qed

text \<open>The sessions the two ends create in the handshake are linked, with the whole counter space ahead.\<close>

lemma linked_fresh:
  assumes "build_session env sid salt now og hello fec = Some s" and "length salt = 4"
    and "k_id c = sid" and "c_key (k_cipher c) = c_key (ss_cipher s)" and "k_reasm c = []"
    and "in_order 0 0 (p_dec (k_pipe c))" and "d_k (p_dec (k_pipe c)) = nat (fc_k fec)"
    and "n < 2 ^ 64" and "m < 4294967296"
  shows "linked (nat (fc_k fec)) (nat (fc_r fec)) n m s (new_recv_loop, c)"
proof -
  obtain key where b: "new_cipher salt key sid = Inr (ss_cipher s)"
    "new_pipe (en_rs env) (fc_k fec) (fc_r fec) (repair_delay_duration fec) True = Inr (ss_pipe s)"
    "ss_id s = sid" "ss_raw2 s = None" "ss_frag_id s = 0"
    using build_sessionD [OF assms(1)] by metis
  have "fec_linked (nat (fc_k fec)) (nat (fc_r fec)) 0 0 s c"
    using new_pipe_sending [OF b(2)] new_pipe_bounds(2) [OF b(2)] assms(6,7) by (simp add: fec_linked_def)
  then have "\<exists>bid i. fec_linked (nat (fc_k fec)) (nat (fc_r fec)) bid i s c \<and> unat bid + m < 4294967296"
    using assms(9) by (intro exI [of _ 0] exI [of _ 0]) simp
  then show ?thesis
    using b assms new_cipher_ok [OF b(1) assms(2)] new_cipherD [OF b(1)]
    by (simp add: linked_def crypt_linked_def new_recv_loop_def replay_init_def)
qed

text \<open>From the hello to the adapter: the client gets every frame the server's session sends, in order.\<close>

lemma tunnel_transparent:
  assumes ok: "sendable env cfg" "length salt = 4"
    and law: "aead_law (en_seal env) (en_open env)"
    and fec: "fec = fec_defaults (sc_fec (sv_cfg sv))" "encodes (en_rs env) (nat (fc_k fec)) (nat (fc_r fec))"
    and h: "handle_auth env rnd salt now og (request_payload env cfg) sv = (sid, hello, sv')" "sid \<noteq> 0"
    and s: "find_session sv' sid = Some i" "s = get_obj sv' i"
    and c: "auth_loop env csalt cfg (map packet_of hello) = Inr ar" "open_session env cnow cfg mode ar sec = Inr c"
    and run: "server_sends env fs s = (out, s')" "map snd as = map packet_of out"
    and small: "list_all fits (map snd fs)" "length out < 2 ^ 64" "length fs < 4294967296"
  shows "\<exists>st. client_recv_all env as (new_recv_loop, c) = (to_adapter (map snd fs), None, st)"
proof -
  obtain s0 pkt ar0 where r: "sv' = register_session s0 sv" "ss_id s0 = sid" "hello = [SendTo (og_send og) pkt]"
    "auth_loop env csalt cfg [pkt] = Inr ar0" "ar_session ar0 = sid" "c_key (ar_cipher ar0) = c_key (ss_cipher s0)"
    "uint (ar_k ar0) = int (e_k (p_enc (ss_pipe s0)))" "uint (ar_r ar0) = int (e_r (p_enc (ss_pipe s0)))"
    "build_session env sid salt now og (client_hello_of env cfg) fec = Some s0"
    using handshake [OF ok(1) h, of "[]" csalt "[]"] fec(1) by (metis append_Nil list.pred_inject(1))
  have ar: "ar = ar0" using c(1) r(3,4) by (simp add: packet_of_def)
  have i: "i = length (sv_objs sv)" "s = s0"
    using s r(1,2) by (auto simp: find_session_def get_obj_def register_session_def Let_def nth_append split: option.splits)
  obtain key where p: "new_pipe (en_rs env) (fc_k fec) (fc_r fec) (repair_delay_duration fec) True = Inr (ss_pipe s0)"
    using build_sessionD [OF r(9)] by metis
  note b = new_pipe_bounds [OF p]
  have "uint (ar_k ar) = fc_k fec" "uint (ar_r ar) = fc_r fec" using b r(7,8) by (simp_all add: ar)
  from client_opens [OF p this, of cnow cfg mode sec]
  have "k_id c = ar_session ar" "k_cipher c = ar_cipher ar" "k_reasm c = []" "in_order 0 0 (p_dec (k_pipe c))"
    "d_k (p_dec (k_pipe c)) = nat (fc_k fec)" using c(2) by (metis sum.inject(2))+
  then have "linked (nat (fc_k fec)) (nat (fc_r fec)) (length out) (length fs) s (new_recv_loop, c)"
    using linked_fresh [OF r(9) ok(2)] r(5,6) small by (simp add: ar i(2))
  from recv_all_frames [OF law fec(2) this small(1) run] show ?thesis .
qed

end
