(* ===== verification/ConfigForm.thy ===== *)
theory ConfigForm
  imports Config Proto Update
begin

text \<open>
  The configuration form of the two client GUIs (\<open>cmd/supervpn-client-gui/ui.go\<close> and
  \<open>ui_windows.go\<close>): the widgets that hold settings, \<open>buildConfig\<close>, \<open>populateFromConfig\<close>, the hub
  list of the Windows form, and the list of configuration files. What a toolkit call leaves in a
  widget is a parameter where the toolkit decides it. The interface of both forms is the locale
  \<open>config_form\<close>: which settings survive loading and saving.
\<close>

section \<open>Widgets\<close>

text \<open>The entries both forms have, then the widgets of each.\<close>

record form =
  ff_server :: string
  ff_login :: string
  ff_password :: string
  ff_fec_k :: string
  ff_fec_r :: string
  ff_fec_delay :: string
  ff_sni :: string
  ff_knock_count :: string
  ff_knock_size :: string
  ff_attempts :: string
  ff_nic :: string
  ff_tap :: string
  ff_tun_name :: string
  ff_tun_ip :: string
  ff_status :: string
  ff_timeout :: string
  ff_minimize :: bool
  ff_auto_connect :: bool
  ff_battery :: bool

record main_form = form +
  mf_select :: string
  mf_addrs :: "(string, string) amap"
  mf_options :: "string list"
  mf_hub :: string
  mf_mode :: string
  mf_transport :: string
  mf_method :: string

record win_form = form +
  wf_preset :: int
  wf_presets :: "string list"
  wf_hub_text :: string
  wf_hub_items :: "string list"
  wf_pending :: "16 word"
  wf_mode :: int
  wf_transport :: int
  wf_method :: int
  wf_start_windows :: bool

text \<open>
  \<open>tk_select options old new\<close> is what a select shows after \<open>SetSelected\<close>; \<open>tk_set_text items old new\<close>
  and \<open>tk_set_model items old\<close> what a combo box shows after \<open>SetText\<close> and \<open>SetModel\<close>.
\<close>

record toolkit =
  tk_select :: "string list \<Rightarrow> string \<Rightarrow> string \<Rightarrow> string"
  tk_set_text :: "string list \<Rightarrow> string \<Rightarrow> string \<Rightarrow> string"
  tk_set_model :: "string list \<Rightarrow> string \<Rightarrow> string"

definition mode_items :: "string list" where "mode_items = [''auto'', ''direct'', ''bridge'']"
definition transport_items :: "string list" where "transport_items = [''auto'', ''udp'', ''tcp'', ''reality'']"
definition method_items :: "string list" where "method_items = [''netbridge'', ''hyperv'']"

definition predefined_servers :: "(string \<times> string) list" where
  "predefined_servers = [(''RDVM'', ''185.108.16.16:5555''), (''ADVM'', ''212.48.224.5:5555''),
     (''RAVM'', ''81.27.241.25:5555''), (''HE2'', ''49.13.4.85:5555''), (''HE3'', ''162.55.48.218:5555'')]"

section \<open>Reading the form\<close>

text \<open>A numeric entry: its value when it parses and is at least \<open>lo\<close>, or the default.\<close>

definition int_field :: "int \<Rightarrow> int \<Rightarrow> string \<Rightarrow> int" where
  "int_field d lo s = (case atoi s of None \<Rightarrow> d | Some n \<Rightarrow> if lo \<le> n then n else d)"

definition no_reality :: reality_client_config where
  "no_reality = \<lparr>rcl_addr = '''', rcl_sni = '''', rcl_public_key = '''', rcl_short_id = '''', rcl_fingerprint = ''''\<rparr>"

text \<open>The struct literal of \<open>buildConfig\<close>, shared by both forms; fields it does not name are zero.\<close>

definition read_fields ::
  "string \<Rightarrow> 16 word \<Rightarrow> string \<Rightarrow> string \<Rightarrow> string \<Rightarrow> bool \<Rightarrow> 'a form_scheme \<Rightarrow> client_config"
where
  "read_fields server hub transport mode method start f =
     \<lparr>cc_server = server, cc_server_tcp = '''', cc_status_listen = trim_space (ff_status f), cc_hub_id = hub,
      cc_login = ff_login f, cc_password = ff_password f, cc_transport = transport, cc_mode = mode,
      cc_tun_name = trim_space (ff_tun_name f), cc_tun_ip = trim_space (ff_tun_ip f),
      cc_fec = fec_defaults \<lparr>fc_k = int_field 4 1 (ff_fec_k f), fc_r = int_field 2 0 (ff_fec_r f),
        fc_delay = int_field 100 0 (ff_fec_delay f)\<rparr>,
      cc_tls_sni = trim_space (ff_sni f), cc_tls_skip = False,
      cc_udp = udp_defaults \<lparr>ud_knock_count = int_field 3 1 (ff_knock_count f),
        ud_knock_size = int_field 16 1 (ff_knock_size f), ud_attempts = int_field 3 1 (ff_attempts f)\<rparr>,
      cc_bridge = bridge_defaults \<lparr>br_tap = trim_space (ff_tap f), br_nic = trim_space (ff_nic f),
        br_setup = method, br_mss_clamp = 0\<rparr>,
      cc_reality = no_reality, cc_mirrors = [], cc_timeout = trim_space (ff_timeout f),
      cc_minimize = ff_minimize f, cc_auto_connect = ff_auto_connect f, cc_start_windows = start,
      cc_no_battery = (\<not> ff_battery f)\<rparr>"

definition main_build :: "main_form \<Rightarrow> client_config" where
  "main_build f =
     (let typed = trim_space (ff_server f);
          server = (if typed = '''' then (case map_of (mf_addrs f) (mf_select f) of
                      Some a \<Rightarrow> a | None \<Rightarrow> mf_select f) else typed)
      in read_fields server (of_int (int_field 1 1 (mf_hub f)))
           (if mf_transport f = ''auto'' then '''' else mf_transport f)
           (if mf_mode f = ''auto'' then '''' else mf_mode f) (mf_method f) False f)"

text \<open>\<open>strings.Index\<close>, and the number at the start of the hub combo's text.\<close>

fun str_index :: "string \<Rightarrow> string \<Rightarrow> nat option" where
  "str_index sub [] = (if sub = [] then Some 0 else None)"
| "str_index sub (c # cs) =
     (if take (length sub) (c # cs) = sub then Some 0 else map_option Suc (str_index sub cs))"

definition parse_hub_id :: "string \<Rightarrow> 16 word" where
  "parse_hub_id text =
     (let t = trim_space text in
      if t = '''' then 0
      else let t = (case str_index '' - '' t of Some i \<Rightarrow> trim_space (take i t) | None \<Rightarrow> t) in
        case atoi t of None \<Rightarrow> 0 | Some n \<Rightarrow> if n \<le> 0 then 0 else of_int n)"

text \<open>The item at a combo box's index, from index \<open>lo\<close>.\<close>

definition combo_item :: "string list \<Rightarrow> int \<Rightarrow> string \<Rightarrow> int \<Rightarrow> string" where
  "combo_item items lo d i = (if lo \<le> i \<and> i < int (length items) then items ! nat i else d)"

definition win_build :: "win_form \<Rightarrow> client_config" where
  "win_build f =
     (let typed = trim_space (ff_server f);
          server = (if typed = '''' then combo_item (map snd predefined_servers) 0 typed (wf_preset f) else typed);
          shown = parse_hub_id (wf_hub_text f);
          hub = (if shown = 0 \<and> wf_pending f \<noteq> 0 then wf_pending f else shown)
      in read_fields server (if hub = 0 then 1 else hub)
           (combo_item transport_items 1 '''' (wf_transport f))
           (combo_item mode_items 1 '''' (wf_mode f))
           (combo_item method_items 0 ''netbridge'' (wf_method f)) (wf_start_windows f) f)"

section \<open>Filling the form\<close>

definition set_if :: "bool \<Rightarrow> string \<Rightarrow> string \<Rightarrow> string" where
  "set_if b new old = (if b then new else old)"

definition fill_fields :: "client_config \<Rightarrow> 'a form_scheme \<Rightarrow> 'a form_scheme" where
  "fill_fields c f = f\<lparr>ff_server := cc_server c, ff_login := cc_login c, ff_password := cc_password c,
     ff_fec_k := set_if (0 < fc_k (cc_fec c)) (itoa (fc_k (cc_fec c))) (ff_fec_k f),
     ff_fec_r := set_if (0 < fc_r (cc_fec c)) (itoa (fc_r (cc_fec c))) (ff_fec_r f),
     ff_fec_delay := set_if (0 < fc_delay (cc_fec c)) (itoa (fc_delay (cc_fec c))) (ff_fec_delay f),
     ff_sni := cc_tls_sni c,
     ff_knock_count := set_if (0 < ud_knock_count (cc_udp c)) (itoa (ud_knock_count (cc_udp c))) (ff_knock_count f),
     ff_knock_size := set_if (0 < ud_knock_size (cc_udp c)) (itoa (ud_knock_size (cc_udp c))) (ff_knock_size f),
     ff_attempts := set_if (0 < ud_attempts (cc_udp c)) (itoa (ud_attempts (cc_udp c))) (ff_attempts f),
     ff_nic := br_nic (cc_bridge c), ff_tap := br_tap (cc_bridge c),
     ff_tun_name := set_if (cc_tun_name c \<noteq> '''') (cc_tun_name c) (ff_tun_name f),
     ff_tun_ip := cc_tun_ip c, ff_status := cc_status_listen c, ff_timeout := cc_timeout c,
     ff_minimize := cc_minimize c, ff_auto_connect := cc_auto_connect c, ff_battery := \<not> cc_no_battery c\<rparr>"

definition or_auto :: "string \<Rightarrow> string" where
  "or_auto s = (if s = '''' then ''auto'' else s)"

definition main_populate :: "toolkit \<Rightarrow> client_config \<Rightarrow> main_form \<Rightarrow> main_form" where
  "main_populate tk c f = (fill_fields c f)\<lparr>mf_hub := itoa (uint (cc_hub_id c)),
     mf_mode := tk_select tk mode_items (mf_mode f) (or_auto (cc_mode c)),
     mf_transport := tk_select tk transport_items (mf_transport f) (or_auto (cc_transport c)),
     mf_method := (if br_setup (cc_bridge c) \<noteq> '''' then tk_select tk method_items (mf_method f) (br_setup (cc_bridge c))
       else mf_method f)\<rparr>"

text \<open>The loops that look for a value among the items and select the first match.\<close>

fun first_index :: "string \<Rightarrow> string list \<Rightarrow> nat option" where
  "first_index s [] = None"
| "first_index s (x # xs) = (if x = s then Some 0 else map_option Suc (first_index s xs))"

definition select_item :: "string list \<Rightarrow> string \<Rightarrow> int \<Rightarrow> int" where
  "select_item items s i = (case first_index s items of None \<Rightarrow> i | Some k \<Rightarrow> int k)"

definition win_populate :: "toolkit \<Rightarrow> client_config \<Rightarrow> win_form \<Rightarrow> win_form" where
  "win_populate tk c f = (fill_fields c f)\<lparr>wf_pending := cc_hub_id c,
     wf_hub_text := tk_set_text tk (wf_hub_items f) (wf_hub_text f) (itoa (uint (cc_hub_id c))),
     wf_mode := select_item mode_items (or_auto (cc_mode c)) (wf_mode f),
     wf_transport := select_item transport_items (or_auto (cc_transport c)) (wf_transport f),
     wf_method := select_item method_items (br_setup (cc_bridge c)) (wf_method f),
     wf_start_windows := cc_start_windows c\<rparr>"

text \<open>\<open>fetchAndPopulateHubs\<close>: the closure that runs when the server's hub list has arrived.\<close>

definition hub_item :: "hub_info \<Rightarrow> string" where
  "hub_item h = itoa (uint (hi_id h)) @ '' - '' @ hi_name h"

fun hub_position :: "16 word \<Rightarrow> hub_info list \<Rightarrow> nat option" where
  "hub_position n [] = None"
| "hub_position n (h # hs) = (if hi_id h = n then Some 0 else map_option Suc (hub_position n hs))"

definition hubs_arrived :: "toolkit \<Rightarrow> hub_info list \<Rightarrow> win_form \<Rightarrow> win_form" where
  "hubs_arrived tk hubs f =
     (let items = map hub_item hubs; shown = tk_set_model tk items (wf_hub_text f);
          target = (if wf_pending f = 0 then parse_hub_id shown else wf_pending f)
      in f\<lparr>wf_hub_items := items, wf_pending := 0,
           wf_hub_text := (case hub_position target hubs of
               Some i \<Rightarrow> items ! i
             | None \<Rightarrow> if items = [] then shown else items ! 0)\<rparr>)"

section \<open>Server presets\<close>

text \<open>The select's callback fills the entry; "Add" makes the entry's text a preset of its own.\<close>

definition main_server_selected :: "string \<Rightarrow> main_form \<Rightarrow> main_form" where
  "main_server_selected name f = f\<lparr>mf_select := name,
     ff_server := (case map_of (mf_addrs f) name of Some a \<Rightarrow> a | None \<Rightarrow> ff_server f)\<rparr>"

definition main_add_server :: "main_form \<Rightarrow> main_form" where
  "main_add_server f =
     (let text = trim_space (ff_server f) in
      if text = '''' then f
      else if map_of (mf_addrs f) text \<noteq> None then main_server_selected text f
      else main_server_selected text
        (f\<lparr>mf_addrs := mput text text (mf_addrs f), mf_options := mf_options f @ [text]\<rparr>))"

definition win_preset_changed :: "nat \<Rightarrow> win_form \<Rightarrow> win_form" where
  "win_preset_changed i f = f\<lparr>wf_preset := int i,
     ff_server := (if i < length predefined_servers then snd (predefined_servers ! i) else ff_server f)\<rparr>"

definition win_add_server :: "win_form \<Rightarrow> win_form" where
  "win_add_server f =
     (let text = trim_space (ff_server f) in
      if text = '''' then f
      else case first_index text (wf_presets f) of
          Some i \<Rightarrow> win_preset_changed i f
        | None \<Rightarrow> win_preset_changed (length (wf_presets f)) (f\<lparr>wf_presets := wf_presets f @ [text]\<rparr>))"

section \<open>Trimming and numbers\<close>

lemma dropWhile_idem: "dropWhile P (dropWhile P s) = dropWhile P s"
  by (induction s) auto

lemma dropWhile_hd: "s = [] \<or> \<not> P (hd s) \<Longrightarrow> dropWhile P s = s"
  by (cases s) auto

lemma trim_right_append: "trim_right cs t \<noteq> [] \<Longrightarrow> trim_right cs (s @ t) = s @ trim_right cs t"
  by (auto simp: trim_right_def dropWhile_append dropWhile_eq_Nil_conv split: if_splits)

lemma trim_right_prefix: "\<exists>t. s = trim_right cs s @ t \<and> set t \<subseteq> cs"
proof -
  have "rev s = takeWhile (\<lambda>c. c \<in> cs) (rev s) @ dropWhile (\<lambda>c. c \<in> cs) (rev s)" by simp
  then have "s = trim_right cs s @ rev (takeWhile (\<lambda>c. c \<in> cs) (rev s))"
    unfolding trim_right_def by (metis rev_append rev_rev_ident)
  then show ?thesis by (intro exI [of _ "rev (takeWhile (\<lambda>c. c \<in> cs) (rev s))"]) (auto dest: set_takeWhileD)
qed

lemma trim_space_idem [simp]: "trim_space (trim_space s) = trim_space s"
proof -
  let ?l = "trim_left space_chars s" and ?r = "trim_right space_chars (trim_left space_chars s)"
  have l: "?r = [] \<or> hd ?r \<notin> space_chars"
  proof -
    have "?l = [] \<or> hd ?l \<notin> space_chars"
      using hd_dropWhile [of "\<lambda>c. c \<in> space_chars" s] by (auto simp: trim_left_def)
    moreover obtain t where "?l = ?r @ t" using trim_right_prefix by blast
    ultimately show ?thesis by (metis hd_append2 append_is_Nil_conv)
  qed
  have "trim_left space_chars ?r = ?r"
    using l by (auto simp: trim_left_def [of _ "trim_right _ _"] intro: dropWhile_hd)
  moreover have "trim_right space_chars ?r = ?r"
    by (simp add: trim_right_def dropWhile_idem)
  ultimately show ?thesis by (simp add: trim_space_def trim_def)
qed

lemma int_field_itoa: "lo \<le> i \<Longrightarrow> - (2 ^ 63) \<le> i \<Longrightarrow> i < 2 ^ 63 \<Longrightarrow> int_field d lo (itoa i) = i"
  by (simp add: int_field_def atoi_itoa)

lemma int_field_range: "lo \<le> d \<Longrightarrow> lo \<le> int_field d lo s"
  by (simp add: int_field_def split: option.split)

lemma atoi_below: "atoi s = Some n \<Longrightarrow> n < 2 ^ 63"
  by (auto simp: atoi_def Let_def split: option.splits if_splits prod.splits)

lemma int_field_below: "d < 2 ^ 63 \<Longrightarrow> int_field d lo s < 2 ^ 63"
  by (auto simp: int_field_def dest: atoi_below split: option.split)

lemma nat_digits_no_space: "set (nat_digits n) \<inter> space_chars = {}"
  using nat_digits_chars [of _ n] by (fastforce simp: space_chars_def)

lemma trim_space_itoa [simp]: "0 \<le> i \<Longrightarrow> trim_space (itoa i) = itoa i"
  by (simp add: itoa_def trim_space_none nat_digits_no_space)

lemma atoi_hub [simp]: "atoi (itoa (uint (n :: 16 word))) = Some (uint n)"
  using uint_range_size [of n] by (intro atoi_itoa) (simp_all add: word_size order_trans [OF _ uint_ge_0])

lemma itoa_not_Nil [simp]: "0 \<le> i \<Longrightarrow> itoa i \<noteq> []"
  by (simp add: itoa_def)

lemma itoa_no_space: "0 \<le> i \<Longrightarrow> CHR '' '' \<notin> set (itoa i)"
  using nat_digits_no_space by (auto simp: itoa_def space_chars_def)

lemma str_index_digits: "CHR '' '' \<notin> set s \<Longrightarrow> str_index '' - '' (s @ '' - '' @ t) = Some (length s)"
  by (induction s) auto

lemma str_index_none: "CHR '' '' \<notin> set s \<Longrightarrow> str_index '' - '' s = None"
  by (induction s) auto

lemma uint_le_0 [simp]: "uint (n :: 16 word) \<le> 0 \<longleftrightarrow> n = 0"
  using uint_0_iff [of n] uint_ge_0 [of n] by linarith

lemma parse_hub_number [simp]: "parse_hub_id (itoa (uint (n :: 16 word))) = n"
  by (simp add: parse_hub_id_def str_index_none itoa_no_space uint_0_iff)

text \<open>The hub list's items are read back, when the hub's name is not blank.\<close>

lemma parse_hub_item:
  assumes "trim_space (hi_name h) \<noteq> ''''"
  shows "parse_hub_id (hub_item h) = hi_id h"
proof -
  let ?d = "itoa (uint (hi_id h))" and ?r = "trim_right space_chars (hi_name h)"
  have d: "?d \<noteq> []" "set ?d \<inter> space_chars = {}" using nat_digits_no_space by (auto simp: itoa_def)
  have r: "?r \<noteq> []"
  proof
    assume "?r = []"
    then have "set (hi_name h) \<subseteq> space_chars" by (auto simp: trim_right_def dropWhile_eq_Nil_conv)
    then have "trim_left space_chars (hi_name h) = []" by (auto simp: trim_left_def dropWhile_eq_Nil_conv)
    then show False using assms by (simp add: trim_space_def trim_def trim_right_def)
  qed
  have left: "trim_left space_chars (hub_item h) = hub_item h"
  proof -
    have "hd (hub_item h) = hd ?d" using d(1) by (simp add: hub_item_def)
    then have "hd (hub_item h) \<notin> space_chars" using d(2) hd_in_set [OF d(1)] by (auto simp: disjoint_iff)
    then show ?thesis unfolding trim_left_def by (intro dropWhile_hd) simp
  qed
  have "trim_right space_chars (hub_item h) = ?d @ '' - '' @ ?r"
    using trim_right_append [of space_chars "hi_name h" "?d @ '' - ''"] r by (simp add: hub_item_def)
  then have t: "trim_space (hub_item h) = ?d @ '' - '' @ ?r" by (simp add: trim_space_def trim_def left)
  have "str_index '' - '' (?d @ '' - '' @ ?r) = Some (length ?d)"
    by (rule str_index_digits) (simp add: itoa_no_space)
  with d(1) show ?thesis by (simp add: parse_hub_id_def t Let_def uint_0_iff del: append_Cons)
qed

section \<open>What the form keeps\<close>

definition go_int :: "int \<Rightarrow> bool" where "go_int i \<longleftrightarrow> 0 < i \<and> i < 2 ^ 63"

text \<open>A configuration whose settings the form can hold as they are.\<close>

definition form_config :: "client_config \<Rightarrow> bool" where
  "form_config c \<longleftrightarrow>
     cc_server c \<noteq> '''' \<and> trim_space (cc_server c) = cc_server c \<and> cc_hub_id c \<noteq> 0 \<and>
     cc_mode c \<in> {'''', ''direct'', ''bridge''} \<and> cc_transport c \<in> {'''', ''udp'', ''tcp'', ''reality''} \<and>
     br_setup (cc_bridge c) \<in> set method_items \<and>
     cc_tun_name c \<noteq> '''' \<and> br_tap (cc_bridge c) \<noteq> '''' \<and>
     (\<forall>s \<in> {cc_tun_name c, cc_tun_ip c, cc_tls_sni c, br_tap (cc_bridge c), br_nic (cc_bridge c),
            cc_status_listen c, cc_timeout c}. trim_space s = s) \<and>
     (\<forall>i \<in> {fc_k (cc_fec c), fc_r (cc_fec c), fc_delay (cc_fec c), ud_knock_count (cc_udp c),
            ud_knock_size (cc_udp c), ud_attempts (cc_udp c)}. go_int i)"

text \<open>
  What a save writes: the server's TCP address, the Reality settings, the update mirrors and the MSS
  clamp are not on the form.
\<close>

definition off_form :: "client_config \<Rightarrow> client_config" where
  "off_form c = c\<lparr>cc_server_tcp := '''', cc_tls_skip := False, cc_reality := no_reality, cc_mirrors := [],
     cc_bridge := (cc_bridge c)\<lparr>br_mss_clamp := DefaultBridgeMSSClamp\<rparr>\<rparr>"

lemma form_configD:
  assumes "form_config c"
  shows "cc_server c \<noteq> ''''" "cc_hub_id c \<noteq> 0" "cc_tun_name c \<noteq> ''''" "br_tap (cc_bridge c) \<noteq> ''''"
    "trim_space (cc_server c) = cc_server c" "trim_space (cc_tun_name c) = cc_tun_name c"
    "trim_space (cc_tun_ip c) = cc_tun_ip c" "trim_space (cc_tls_sni c) = cc_tls_sni c"
    "trim_space (br_tap (cc_bridge c)) = br_tap (cc_bridge c)"
    "trim_space (br_nic (cc_bridge c)) = br_nic (cc_bridge c)"
    "trim_space (cc_status_listen c) = cc_status_listen c" "trim_space (cc_timeout c) = cc_timeout c"
    "cc_mode c = '''' \<or> cc_mode c = ''direct'' \<or> cc_mode c = ''bridge''"
    "cc_transport c = '''' \<or> cc_transport c = ''udp'' \<or> cc_transport c = ''tcp'' \<or> cc_transport c = ''reality''"
    "br_setup (cc_bridge c) = ''netbridge'' \<or> br_setup (cc_bridge c) = ''hyperv''"
  using assms by (simp_all add: form_config_def method_items_def)

lemma form_config_ints:
  assumes "form_config c"
  shows "go_int (fc_k (cc_fec c))" "go_int (fc_r (cc_fec c))" "go_int (fc_delay (cc_fec c))"
    "go_int (ud_knock_count (cc_udp c))" "go_int (ud_knock_size (cc_udp c))" "go_int (ud_attempts (cc_udp c))"
  using assms by (simp_all add: form_config_def)

lemma set_if_itoa:
  assumes "go_int i" and "lo \<le> 1"
  shows "int_field d lo (set_if (0 < i) (itoa i) old) = i"
  using assms by (simp add: go_int_def set_if_def int_field_itoa)

lemma read_fill:
  assumes "form_config c"
  shows "read_fields (cc_server c) (cc_hub_id c) (cc_transport c) (cc_mode c) (br_setup (cc_bridge c)) b
           (fill_fields c f) = (off_form c)\<lparr>cc_start_windows := b\<rparr>"
proof -
  note ints = form_config_ints [OF assms]
  have pos: "i \<noteq> 0" if "go_int i" for i using that by (simp add: go_int_def)
  have set_up: "br_setup (cc_bridge c) \<noteq> ''''" using form_configD(15) [OF assms] by auto
  show ?thesis
    using form_configD [OF assms] ints pos [OF ints(1)] pos [OF ints(2)] pos [OF ints(3)]
      pos [OF ints(4)] pos [OF ints(5)] pos [OF ints(6)] set_up
    by (intro client_config.equality)
      (simp_all add: read_fields_def fill_fields_def off_form_def set_if_itoa set_if_def [of True]
        fec_defaults_def udp_defaults_def bridge_defaults_def)
qed

lemma off_form_ok:
  assumes "form_config c"
  shows "form_config (off_form c)" "form_config (c\<lparr>cc_start_windows := b\<rparr>)"
  using assms by (simp_all add: form_config_def off_form_def)

lemma off_form_idem [simp]: "off_form (off_form c) = off_form c"
  "off_form (c\<lparr>cc_start_windows := b\<rparr>) = (off_form c)\<lparr>cc_start_windows := b\<rparr>"
  by (simp_all add: off_form_def)

section \<open>The interface of both forms\<close>

text \<open>
  A form that holds a configuration up to the settings \<open>kept\<close> leaves out. Saving, loading the saved
  file into any state of the form and saving again writes the same file.
\<close>

locale config_form =
  fixes populate :: "client_config \<Rightarrow> 'f \<Rightarrow> 'f" and build :: "'f \<Rightarrow> client_config"
    and kept :: "client_config \<Rightarrow> client_config" and ready :: "'f \<Rightarrow> bool" and fits :: "client_config \<Rightarrow> bool"
  assumes build_populate: "fits c \<Longrightarrow> ready f \<Longrightarrow> build (populate c f) = kept c"
    and fits_kept: "fits c \<Longrightarrow> fits (kept c)"
    and kept_idem: "kept (kept c) = kept c"
begin

lemma save_stable:
  assumes "fits c" "ready f" "ready f'"
  shows "build (populate (build (populate c f)) f') = build (populate c f)"
  using assms by (simp add: build_populate fits_kept kept_idem)

fun resave :: "'f list \<Rightarrow> client_config \<Rightarrow> client_config" where
  "resave [] c = c"
| "resave (f # fs) c = resave fs (build (populate c f))"

lemma resave_kept: "fits c \<Longrightarrow> list_all ready fs \<Longrightarrow> resave fs c = (if fs = [] then c else kept c)"
proof (induction fs arbitrary: c)
  case (Cons f fs)
  then show ?case by (cases fs) (simp_all add: build_populate fits_kept kept_idem)
qed simp

end

definition selects :: "toolkit \<Rightarrow> bool" where
  "selects tk \<longleftrightarrow> (\<forall>opts old s. s \<in> set opts \<longrightarrow> tk_select tk opts old s = s)"

definition main_kept :: "client_config \<Rightarrow> client_config" where
  "main_kept c = (off_form c)\<lparr>cc_start_windows := False\<rparr>"

lemma main_form_reads:
  "ff_server (main_populate tk c f) = cc_server c" "mf_hub (main_populate tk c f) = itoa (uint (cc_hub_id c))"
  "read_fields s h t m d b (main_populate tk c f) = read_fields s h t m d b (fill_fields c f)"
  by (simp_all add: main_populate_def fill_fields_def read_fields_def)

lemma main_build_populate:
  assumes "selects tk" and "form_config c"
  shows "main_build (main_populate tk c f) = main_kept c"
proof -
  note c = form_configD [OF assms(2)]
  have sel: "tk_select tk opts old s = s" if "s \<in> set opts" for opts old s using assms(1) that by (simp add: selects_def)
  let ?f = "main_populate tk c f"
  have "\<not> uint (cc_hub_id c) \<le> 0" using c(2) by (simp only: uint_le_0 not_False_eq_True)
  then have "1 \<le> uint (cc_hub_id c)" by linarith
  then have hub: "(of_int (int_field 1 1 (itoa (uint (cc_hub_id c)))) :: 16 word) = cc_hub_id c"
    by (simp add: int_field_def)
  have mode: "mf_mode ?f = or_auto (cc_mode c)" "mf_transport ?f = or_auto (cc_transport c)"
    "mf_method ?f = br_setup (cc_bridge c)"
    using c(13-15) by (auto simp: main_populate_def or_auto_def mode_items_def transport_items_def method_items_def sel)
  have auto: "(if or_auto m = ''auto'' then '''' else or_auto m) = m" if "m \<noteq> ''auto''" for m
    using that by (simp add: or_auto_def)
  have "main_build ?f = read_fields (cc_server c) (cc_hub_id c) (cc_transport c) (cc_mode c)
      (br_setup (cc_bridge c)) False (fill_fields c f)"
    using c(1,5) hub mode auto [of "cc_mode c"] auto [of "cc_transport c"] c(13,14)
    by (auto simp: main_build_def Let_def main_form_reads)
  then show ?thesis by (simp add: read_fill [OF assms(2)] main_kept_def)
qed

lemma hub_text_cases:
  assumes "(t :: string) = itoa (uint n) \<or> t = ''''" and "n \<noteq> (0 :: 16 word)"
  shows "parse_hub_id t = n \<or> parse_hub_id t = 0"
  using assms by (auto simp: parse_hub_id_def [of "''''"] trim_space_none)

text \<open>The Windows form is ready when \<open>SetText\<close> on the hub combo shows the new text or nothing.\<close>

definition win_ready :: "toolkit \<Rightarrow> win_form \<Rightarrow> bool" where
  "win_ready tk f \<longleftrightarrow> (\<forall>s. tk_set_text tk (wf_hub_items f) (wf_hub_text f) s \<in> {s, ''''})"

lemma win_form_reads:
  "ff_server (win_populate tk c f) = cc_server c" "wf_pending (win_populate tk c f) = cc_hub_id c"
  "wf_hub_text (win_populate tk c f) = tk_set_text tk (wf_hub_items f) (wf_hub_text f) (itoa (uint (cc_hub_id c)))"
  "wf_start_windows (win_populate tk c f) = cc_start_windows c"
  "read_fields s h t m d b (win_populate tk c f) = read_fields s h t m d b (fill_fields c f)"
  by (simp_all add: win_populate_def fill_fields_def read_fields_def)

lemma combo_select:
  "m = '''' \<or> m = ''direct'' \<or> m = ''bridge'' \<Longrightarrow>
     combo_item mode_items 1 '''' (select_item mode_items (or_auto m) i) = m"
  "t = '''' \<or> t = ''udp'' \<or> t = ''tcp'' \<or> t = ''reality'' \<Longrightarrow>
     combo_item transport_items 1 '''' (select_item transport_items (or_auto t) i) = t"
  "b = ''netbridge'' \<or> b = ''hyperv'' \<Longrightarrow>
     combo_item method_items 0 ''netbridge'' (select_item method_items b i) = b"
  by (elim disjE; simp add: combo_item_def select_item_def transport_items_def mode_items_def
      method_items_def or_auto_def)+

lemma win_combos:
  assumes "form_config c"
  shows "combo_item transport_items 1 '''' (wf_transport (win_populate tk c f)) = cc_transport c"
    "combo_item mode_items 1 '''' (wf_mode (win_populate tk c f)) = cc_mode c"
    "combo_item method_items 0 ''netbridge'' (wf_method (win_populate tk c f)) = br_setup (cc_bridge c)"
  by (simp_all add: win_populate_def combo_select form_configD(13-15) [OF assms])

lemma win_build_populate:
  assumes "win_ready tk f" and "form_config c"
  shows "win_build (win_populate tk c f) = off_form c"
proof -
  note c = form_configD [OF assms(2)]
  let ?t = "tk_set_text tk (wf_hub_items f) (wf_hub_text f) (itoa (uint (cc_hub_id c)))"
  have "?t = itoa (uint (cc_hub_id c)) \<or> ?t = ''''" using assms(1) by (auto simp: win_ready_def)
  from hub_text_cases [OF this c(2)]
  have "win_build (win_populate tk c f) = read_fields (cc_server c) (cc_hub_id c) (cc_transport c) (cc_mode c)
      (br_setup (cc_bridge c)) (cc_start_windows c) (fill_fields c f)"
    using c(1,2,5) by (auto simp: win_build_def Let_def win_form_reads win_combos [OF assms(2)])
  then show ?thesis by (simp add: read_fill [OF assms(2)]) (simp add: off_form_def)
qed

text \<open>Without that, the hub the combo showed before the load wins over the loaded one.\<close>

lemma win_stale_hub:
  assumes "tk_set_text tk (wf_hub_items f) (wf_hub_text f) (itoa (uint (cc_hub_id c))) = wf_hub_text f"
    and "parse_hub_id (wf_hub_text f) \<noteq> 0"
  shows "cc_hub_id (win_build (win_populate tk c f)) = parse_hub_id (wf_hub_text f)"
  using assms by (simp add: win_build_def Let_def win_form_reads read_fields_def)

text \<open>The plain server address is lost when the preset was added by the user.\<close>

lemma win_added_preset_lost:
  assumes "trim_space (ff_server f) = ''''" and "int (length predefined_servers) \<le> wf_preset f"
  shows "validate_client (win_build f) = Some ServerRequired"
  using assms by (simp add: win_build_def Let_def combo_item_def read_fields_def validate_client_def)

text \<open>Once the hub list is there, the combo shows the configured hub, or the server's first one.\<close>

lemma hub_position_Some: "hub_position n hs = Some i \<Longrightarrow> i < length hs \<and> hi_id (hs ! i) = n"
  by (induction hs arbitrary: i) (auto split: if_splits)

lemma hub_position_None: "hub_position n hs = None \<longleftrightarrow> n \<notin> hi_id ` set hs"
  by (induction hs) auto

lemma win_hub_shown: "parse_hub_id (wf_hub_text f) \<noteq> 0 \<Longrightarrow> cc_hub_id (win_build f) = parse_hub_id (wf_hub_text f)"
  by (simp add: win_build_def Let_def read_fields_def)

lemma hubs_arrived_hub:
  assumes "wf_pending f \<noteq> 0" and "hubs \<noteq> []" and "\<forall>h \<in> set hubs. trim_space (hi_name h) \<noteq> '''' \<and> hi_id h \<noteq> 0"
  shows "cc_hub_id (win_build (hubs_arrived tk hubs f)) =
    (if wf_pending f \<in> hi_id ` set hubs then wf_pending f else hi_id (hubs ! 0))"
proof -
  have item: "parse_hub_id (map hub_item hubs ! i) = hi_id (hubs ! i)" "hi_id (hubs ! i) \<noteq> 0" if "i < length hubs" for i
    using that assms(3) by (auto simp: parse_hub_item)
  show ?thesis
  proof (cases "hub_position (wf_pending f) hubs")
    case None
    then have "wf_pending f \<notin> hi_id ` set hubs" using hub_position_None by blast
    then show ?thesis using None assms(1,2) item [of 0]
      by (simp add: hubs_arrived_def Let_def win_hub_shown)
  next
    case (Some i)
    note i = hub_position_Some [OF this]
    then have "wf_pending f \<in> hi_id ` set hubs" by (metis image_eqI nth_mem)
    with i Some show ?thesis using assms(1) item [of i] by (simp add: hubs_arrived_def Let_def win_hub_shown)
  qed
qed

section \<open>Both forms keep what they hold\<close>

interpretation main_gui: config_form "main_populate tk" main_build main_kept "\<lambda>_. selects tk" form_config for tk
  by unfold_locales (simp_all add: main_build_populate main_kept_def off_form_ok)

interpretation win_gui: config_form "win_populate tk" win_build off_form "win_ready tk" form_config for tk
  by unfold_locales (simp_all add: win_build_populate off_form_ok)

text \<open>
  What the next start reads from the file a GUI has saved: the settings on the form, and the defaults
  of the others.
\<close>

lemma saved_reload:
  assumes "form_config c"
  shows "parse_client_config (Some ((off_form c)\<lparr>cc_start_windows := b\<rparr>)) =
    Some ((off_form c)\<lparr>cc_start_windows := b, cc_reality := reality_client_defaults no_reality\<rparr>)"
proof -
  have pos: "i \<noteq> 0" if "go_int i" for i using that by (simp add: go_int_def)
  note ints = form_config_ints [OF assms]
  have set_up: "br_setup (cc_bridge c) \<noteq> ''''" using form_configD(15) [OF assms] by auto
  show ?thesis
    using form_configD(4) [OF assms] set_up pos [OF ints(1)] pos [OF ints(2)] pos [OF ints(3)]
      pos [OF ints(4)] pos [OF ints(5)] pos [OF ints(6)]
    by (simp add: parse_client_config_def migrate_client_config_def remap_port_def off_form_def fec_defaults_def
        udp_defaults_def bridge_defaults_def DefaultBridgeMSSClamp_def no_reality_def reality_client_defaults_def)
qed

section \<open>The list of configuration files\<close>

definition base_name :: "string \<Rightarrow> string" where "base_name p = last (split_at (CHR ''/'') p)"

definition dir_name :: "string \<Rightarrow> string" where
  "dir_name p = base_name (path_dir p) @ ''/'' @ base_name p"

text \<open>The matches of every directory, each path once, under its base name or its directory and base name.\<close>

fun unseen :: "string list \<Rightarrow> string list \<Rightarrow> string list" where
  "unseen seen [] = []"
| "unseen seen (p # ps) = (if p \<in> set seen then unseen seen ps else p # unseen (p # seen) ps)"

definition display_names :: "string list \<Rightarrow> (string \<times> string) list" where
  "display_names ps = map (\<lambda>p. (if 1 < length (filter (\<lambda>q. base_name q = base_name p) ps)
                                then dir_name p else base_name p, p)) ps"

definition add_paths :: "(string \<times> string) list \<Rightarrow> (string, string) amap \<Rightarrow> (string, string) amap" where
  "add_paths es m = foldl (\<lambda>m (n, p). mput n p m) m es"

text \<open>The entries of the list: the files found, and the last used one when it is somewhere else.\<close>

definition config_entries :: "(string \<Rightarrow> bool) \<Rightarrow> string \<Rightarrow> string list list \<Rightarrow> (string \<times> string) list" where
  "config_entries exists last_used globs =
     (let found = unseen [] (concat globs); es = display_names found
      in if found = [] then []
         else if last_used \<noteq> '''' \<and> last_used \<notin> set found \<and> exists last_used
         then es @ [(if base_name last_used \<in> fst ` set es then dir_name last_used else base_name last_used, last_used)]
         else es)"

text \<open>The name the select is set to at start.\<close>

definition auto_selected :: "string \<Rightarrow> (string \<times> string) list \<Rightarrow> string option" where
  "auto_selected last_used es =
     (let names = map fst es; paths = add_paths es [];
          auto = (if last_used \<noteq> '''' then find (\<lambda>n. map_of paths n = Some last_used) names else None)
      in if auto = None \<and> length names = 1 then Some (hd names) else auto)"

lemma unseen_set: "set (unseen seen ps) = set ps - set seen"
  by (induction seen ps rule: unseen.induct) auto

lemma add_paths_last: "map_of (add_paths (es @ [(n, p)]) m) n = Some p"
  by (simp add: add_paths_def)

lemma add_paths_other: "n \<notin> fst ` set es \<Longrightarrow> map_of (add_paths es m) n = map_of m n"
  by (induction es arbitrary: m) (auto simp: add_paths_def)

lemma add_paths_distinct: "distinct (map fst es) \<Longrightarrow> (n, p) \<in> set es \<Longrightarrow> map_of (add_paths es m) n = Some p"
proof (induction es arbitrary: m)
  case (Cons e es)
  obtain n' p' where e: "e = (n', p')" by force
  have "add_paths (e # es) m = add_paths es (mput n' p' m)" by (simp add: e add_paths_def)
  then show ?case using Cons e add_paths_other [of n' es "mput n' p' m"] by auto
qed simp

lemma find_exists: "x \<in> set xs \<Longrightarrow> P x \<Longrightarrow> \<exists>y. find P xs = Some y \<and> P y"
  by (induction xs) auto

text \<open>The last used configuration is selected again, when the display names are distinct.\<close>

lemma last_config_restored:
  assumes "last_used \<noteq> ''''" "exists last_used" and "concat globs \<noteq> []"
    and "distinct (map fst (display_names (unseen [] (concat globs))))"
  shows "\<exists>n. auto_selected last_used (config_entries exists last_used globs) = Some n \<and>
             map_of (add_paths (config_entries exists last_used globs) []) n = Some last_used"
proof -
  let ?found = "unseen [] (concat globs)" and ?es = "config_entries exists last_used globs"
  have "?found \<noteq> []" using assms(3) unseen_set [of "[]" "concat globs"] by auto
  have "\<exists>n. n \<in> set (map fst ?es) \<and> map_of (add_paths ?es []) n = Some last_used"
  proof (cases "last_used \<in> set ?found")
    case True
    then obtain n where "(n, last_used) \<in> set (display_names ?found)" by (auto simp: display_names_def)
    moreover have "?es = display_names ?found" using \<open>?found \<noteq> []\<close> True by (simp add: config_entries_def Let_def)
    ultimately show ?thesis using add_paths_distinct [OF assms(4)] by (metis fst_conv image_eqI set_map)
  next
    case False
    then show ?thesis using \<open>?found \<noteq> []\<close> assms(1,2) by (auto simp: config_entries_def Let_def add_paths_last)
  qed
  then obtain n where "find (\<lambda>n. map_of (add_paths ?es []) n = Some last_used) (map fst ?es) = Some n"
      "map_of (add_paths ?es []) n = Some last_used"
    using find_exists [where P = "\<lambda>n. map_of (add_paths ?es []) n = Some last_used"] by blast
  then show ?thesis using assms(1) by (simp add: auto_selected_def Let_def)
qed

text \<open>With no file in the searched directories the list stays empty, wherever the last used file is.\<close>

lemma last_config_forgotten: "concat globs = [] \<Longrightarrow> auto_selected last_used (config_entries exists last_used globs) = None"
proof -
  assume none: "concat globs = []"
  have "config_entries exists last_used globs = []" unfolding config_entries_def none by simp
  then show ?thesis by (simp add: auto_selected_def Let_def)
qed

text \<open>Two files can share the disambiguated name; the later one replaces the earlier.\<close>

lemma display_names_collide:
  "display_names [''/a/x/c.toml'', ''/b/x/c.toml''] = [(''x/c.toml'', ''/a/x/c.toml''), (''x/c.toml'', ''/b/x/c.toml'')]"
  by code_simp


section \<open>Loading and saving files in the Windows client\<close>

text \<open>
  The list of files with its selection, the file the form belongs to, and the path stored for the next
  start. Whether a file can be read or written is a parameter.
\<close>

record config_list =
  cl_names :: "string list"
  cl_paths :: "(string, string) amap"
  cl_index :: int
  cl_current :: string
  cl_last :: string

definition win_base_name :: "string \<Rightarrow> string" where
  "win_base_name p = base_name (map (\<lambda>c. if c = CHR 0x5C then CHR ''/'' else c) p)"

definition add_config_to_combo :: "string \<Rightarrow> config_list \<Rightarrow> config_list" where
  "add_config_to_combo path l =
     (let name = win_base_name path;
          l' = (if map_of (cl_paths l) name = None
                then l\<lparr>cl_paths := mput name path (cl_paths l), cl_names := cl_names l @ [name]\<rparr> else l)
      in l'\<lparr>cl_index := select_item (cl_names l') name (cl_index l')\<rparr>)"

definition load_path :: "toolkit \<Rightarrow> (string \<Rightarrow> client_config option) \<Rightarrow> string \<Rightarrow> config_list \<times> win_form \<Rightarrow> (config_list \<times> win_form) option" where
  "load_path tk parse path lf = (case (parse path, lf) of
      (None, _) \<Rightarrow> None
    | (Some c, (l, f)) \<Rightarrow> Some (l\<lparr>cl_current := path, cl_last := path\<rparr>, win_populate tk c f))"

definition on_config_selected :: "toolkit \<Rightarrow> (string \<Rightarrow> client_config option) \<Rightarrow> config_list \<times> win_form \<Rightarrow> config_list \<times> win_form" where
  "on_config_selected tk parse lf =
     (let l = fst lf in
      if cl_index l < 0 \<or> int (length (cl_names l)) \<le> cl_index l then lf
      else case map_of (cl_paths l) (cl_names l ! nat (cl_index l)) of
          None \<Rightarrow> lf
        | Some path \<Rightarrow> (case load_path tk parse path lf of None \<Rightarrow> lf | Some lf' \<Rightarrow> lf'))"

definition on_browse_config :: "toolkit \<Rightarrow> (string \<Rightarrow> client_config option) \<Rightarrow> string \<Rightarrow> config_list \<times> win_form \<Rightarrow> config_list \<times> win_form" where
  "on_browse_config tk parse path lf =
     (case load_path tk parse path lf of None \<Rightarrow> lf | Some (l, f) \<Rightarrow> (add_config_to_combo path l, f))"

text \<open>A save: the configuration that is written to which path, if it can be.\<close>

definition save_to :: "(string \<Rightarrow> bool) \<Rightarrow> string \<Rightarrow> config_list \<times> win_form \<Rightarrow> (string \<times> client_config) option \<times> config_list" where
  "save_to writable path lf = (case lf of (l, f) \<Rightarrow>
     if writable path then (Some (path, win_build f), add_config_to_combo path (l\<lparr>cl_current := path, cl_last := path\<rparr>))
     else (None, l))"

definition ends_with :: "string \<Rightarrow> string \<Rightarrow> bool" where
  "ends_with suf s = (drop (length s - length suf) s = suf)"

definition on_save_config :: "(string \<Rightarrow> bool) \<Rightarrow> string \<Rightarrow> config_list \<times> win_form \<Rightarrow> (string \<times> client_config) option \<times> config_list" where
  "on_save_config writable path lf =
     save_to writable (if ends_with ''.toml'' (to_lower path) then path else path @ ''.toml'') lf"

text \<open>The path of the automatic save: the loaded file, or one next to the program or in the user's directory.\<close>

definition auto_save_path :: "string option \<Rightarrow> string option \<Rightarrow> string \<Rightarrow> string option" where
  "auto_save_path exe user_dir current =
     (if current \<noteq> '''' then Some current
      else case exe of Some e \<Rightarrow> Some (path_join [path_dir e, ''client.toml''])
        | None \<Rightarrow> map_option (\<lambda>d. path_join [d, ''superVPN'', ''client.toml'']) user_dir)"

definition win_auto_save :: "(string \<Rightarrow> bool) \<Rightarrow> string option \<Rightarrow> string option \<Rightarrow> config_list \<times> win_form \<Rightarrow> (string \<times> client_config) option \<times> config_list" where
  "win_auto_save writable exe user_dir lf =
     (case auto_save_path exe user_dir (cl_current (fst lf)) of None \<Rightarrow> (None, fst lf) | Some p \<Rightarrow> save_to writable p lf)"

text \<open>Every listed name has a file and every file with a name is listed.\<close>

definition list_ok :: "config_list \<Rightarrow> bool" where
  "list_ok l \<longleftrightarrow> set (cl_names l) = dom (map_of (cl_paths l))"

lemma first_index_Some: "first_index s xs = Some i \<Longrightarrow> i < length xs \<and> xs ! i = s"
  by (induction xs arbitrary: i) (auto split: if_splits)

lemma first_index_None: "first_index s xs = None \<longleftrightarrow> s \<notin> set xs"
  by (induction xs) auto

lemma select_item_in: "s \<in> set xs \<Longrightarrow> \<exists>i < length xs. select_item xs s d = int i \<and> xs ! i = s"
  using first_index_None [of s xs] first_index_Some [of s xs]
  by (cases "first_index s xs") (auto simp: select_item_def)

lemma add_config_keys:
  "map_of (cl_paths (add_config_to_combo path l)) (win_base_name path) =
     (case map_of (cl_paths l) (win_base_name path) of None \<Rightarrow> Some path | Some p \<Rightarrow> Some p)"
  by (simp add: add_config_to_combo_def Let_def split: option.split)

text \<open>After a file is added, the combo box shows its name.\<close>

lemma add_config_shown:
  assumes "list_ok l"
  shows "list_ok (add_config_to_combo path l)"
    and "\<exists>i < length (cl_names (add_config_to_combo path l)).
      cl_index (add_config_to_combo path l) = int i \<and> cl_names (add_config_to_combo path l) ! i = win_base_name path"
proof -
  let ?name = "win_base_name path"
  let ?l = "if map_of (cl_paths l) ?name = None
    then l\<lparr>cl_paths := mput ?name path (cl_paths l), cl_names := cl_names l @ [?name]\<rparr> else l"
  have l: "add_config_to_combo path l = ?l\<lparr>cl_index := select_item (cl_names ?l) ?name (cl_index ?l)\<rparr>"
    by (simp add: add_config_to_combo_def Let_def)
  have ok: "list_ok ?l"
    using assms by (auto simp: list_ok_def dom_mput)
  then show "list_ok (add_config_to_combo path l)" by (simp add: l list_ok_def)
  have "?name \<in> set (cl_names ?l)"
    using ok by (auto simp: list_ok_def)
  then show "\<exists>i < length (cl_names (add_config_to_combo path l)).
      cl_index (add_config_to_combo path l) = int i \<and> cl_names (add_config_to_combo path l) ! i = ?name"
    using select_item_in [of ?name "cl_names ?l" "cl_index ?l"] unfolding l by simp
qed

text \<open>
  Selecting the entry a browsed file is shown under loads that file again only when no other file had
  the name; otherwise it loads the other file.
\<close>

lemma browse_then_select:
  assumes "list_ok l" and "parse path = Some c"
    and "on_browse_config tk parse path (l, f) = (l1, f1)" and "on_config_selected tk parse (l1, f1) = (l2, f2)"
  shows "cl_current l1 = path \<and>
    (case map_of (cl_paths l) (win_base_name path) of
       None \<Rightarrow> cl_current l2 = path
     | Some other \<Rightarrow> parse other \<noteq> None \<longrightarrow> cl_current l2 = other)"
proof -
  let ?l = "l\<lparr>cl_current := path, cl_last := path\<rparr>"
  have l1: "l1 = add_config_to_combo path ?l" "f1 = win_populate tk c f"
    using assms(2,3) by (simp_all add: on_browse_config_def load_path_def)
  have "list_ok ?l" using assms(1) by (simp add: list_ok_def)
  from add_config_shown(2) [OF this, of path] obtain i where i: "i < length (cl_names l1)" "cl_index l1 = int i"
    "cl_names l1 ! i = win_base_name path" by (auto simp: l1)
  have now: "cl_current l1 = path" by (simp add: l1 add_config_to_combo_def Let_def)
  show ?thesis
  proof (cases "map_of (cl_paths l) (win_base_name path)")
    case None
    then have "map_of (cl_paths l1) (win_base_name path) = Some path" by (simp add: l1 add_config_keys)
    then show ?thesis using assms(2,4) i now None by (auto simp: on_config_selected_def load_path_def)
  next
    case (Some other)
    then have "map_of (cl_paths l1) (win_base_name path) = Some other" by (simp add: l1 add_config_keys)
    then show ?thesis using assms(4) i now Some by (auto simp: on_config_selected_def load_path_def)
  qed
qed

text \<open>The automatic save goes to the file the form was loaded from.\<close>

lemma auto_save_overwrites:
  assumes "load_path tk parse path (l, f) = Some (l', f')" "path \<noteq> ''''" "writable path"
  shows "fst (win_auto_save writable exe user_dir (l', f')) = Some (path, win_build f')"
  using assms by (auto simp: load_path_def win_auto_save_def auto_save_path_def save_to_def split: option.splits)

end
