(* ===== verification/Adapter.thy ===== *)
theory Adapter
  imports Bridge Config
begin

text \<open>
  \<open>internal/clientadapter\<close>: which network adapter a client session opens (\<open>OpenAdapter\<close>), how each
  platform opens it (\<open>adapter_*.go\<close>, \<open>pkg/tun/bridge_windows.go\<close>), the commands that assign its
  address, and the recognition of foreign VPN adapters. The drivers are parameters: whether an open
  succeeds.
\<close>

section \<open>The environment\<close>

text \<open>
  The operating system's interfaces, \<open>net.InterfaceByName\<close>, and the platform's two ways to open an
  adapter: a direct one of a name, or a capture for an interface under an adapter name.
\<close>

record adapter_env =
  ae_adapters :: "adapter list"
  ae_ifaces :: "os_iface list option"
  ae_by_name :: "string \<Rightarrow> (string \<times> bytes) option"
  ae_direct :: "string \<Rightarrow> string option"
  ae_bridge :: "bridge_config \<Rightarrow> bridge_iface \<Rightarrow> string \<Rightarrow> bool"
  ae_bridge_name :: "string \<Rightarrow> string \<Rightarrow> string"

datatype adapter_error = DetectFailed | NoLinkLocal | BridgeOpenFailed string | DirectOpenFailed string

text \<open>What was opened: a direct adapter, or a bridge to a local interface under an adapter name.\<close>

datatype opened = OpenedDirect string | OpenedBridge bridge_iface string

section \<open>Opening\<close>

definition tun_name_of :: "client_config \<Rightarrow> string" where
  "tun_name_of cfg = (if cc_tun_name cfg = '''' then ''supervpn'' else cc_tun_name cfg)"

definition open_direct_adapter :: "adapter_env \<Rightarrow> client_config \<Rightarrow> adapter_error + opened" where
  "open_direct_adapter env cfg =
     (case ae_direct env (tun_name_of cfg) of
        None \<Rightarrow> Inl (DirectOpenFailed (tun_name_of cfg))
      | Some actual \<Rightarrow> Inr (OpenedDirect actual))"

definition open_bridge_adapter :: "adapter_env \<Rightarrow> client_config \<Rightarrow> bridge_iface \<Rightarrow> adapter_error + opened" where
  "open_bridge_adapter env cfg i =
     (let bc = bridge_defaults (cc_bridge cfg); name = ae_bridge_name env (br_tap bc) (bi_name i)
      in if ae_bridge env bc i name then Inr (OpenedBridge i name) else Inl (BridgeOpenFailed name))"

text \<open>An interface that automatic detection may bridge.\<close>

definition is_physical :: "client_config \<Rightarrow> bridge_iface \<Rightarrow> bool" where
  "is_physical cfg i \<longleftrightarrow>
     \<not> (bi_name i = br_tap (bridge_defaults (cc_bridge cfg)) \<or> bi_name i = tun_name_of cfg) \<and>
     \<not> contains (bi_name i) ''*'' \<and> \<not> contains (to_lower (bi_name i)) ''vpn'' \<and>
     \<not> (2 \<le> length (bi_hwaddr i) \<and> bi_hwaddr i ! 0 = 0x00 \<and> bi_hwaddr i ! 1 = 0xFF)"

definition wanted_nic :: "adapter_env \<Rightarrow> client_config \<Rightarrow> string" where
  "wanted_nic env cfg =
     (let nic = br_nic (cc_bridge cfg)
      in if nic \<noteq> '''' \<and> is_excluded_from_bridge (ae_adapters env) nic then '''' else nic)"

definition open_adapter :: "adapter_env \<Rightarrow> client_config \<Rightarrow> adapter_error + opened" where
  "open_adapter env cfg =
     (if cc_mode cfg = ''direct'' then open_direct_adapter env cfg
      else case detect_link_local (ae_adapters env) (ae_ifaces env) of
          None \<Rightarrow> Inl DetectFailed
        | Some ifaces \<Rightarrow>
            let physical = filter (is_physical cfg) ifaces; nic = wanted_nic env cfg
            in if nic \<noteq> '''' then
                 (case find (\<lambda>i. bi_name i = nic) physical of
                    Some i \<Rightarrow> open_bridge_adapter env cfg i
                  | None \<Rightarrow>
                      (case ae_by_name env nic of
                         Some (name, hw) \<Rightarrow> open_bridge_adapter env cfg \<lparr>bi_name = name, bi_hwaddr = hw, bi_addr = []\<rparr>
                       | None \<Rightarrow> open_direct_adapter env cfg))
               else if cc_mode cfg = ''bridge'' \<and> physical = [] then Inl NoLinkLocal
               else if physical \<noteq> [] then
                 (case open_bridge_adapter env cfg (hd physical) of
                    Inr a \<Rightarrow> Inr a
                  | Inl e \<Rightarrow> if cc_mode cfg = ''bridge'' then Inl e else open_direct_adapter env cfg)
               else open_direct_adapter env cfg)"

text \<open>The description of the active mode.\<close>

definition mode_text :: "opened \<Rightarrow> string" where
  "mode_text a = (case a of OpenedDirect n \<Rightarrow> ''direct ('' @ n @ '')'' | OpenedBridge i _ \<Rightarrow> ''bridge ('' @ bi_name i @ '')'')"

section \<open>The platforms\<close>

text \<open>Windows: a TAP adapter first, WinTun otherwise.\<close>

definition win_open_direct :: "(string \<Rightarrow> bool) \<Rightarrow> (string \<Rightarrow> bool) \<Rightarrow> string \<Rightarrow> string option" where
  "win_open_direct tap wintun name = (if tap name then Some name else if wintun name then Some name else None)"

definition other_open_direct :: "(string \<Rightarrow> bool) \<Rightarrow> string \<Rightarrow> string option" where
  "other_open_direct tun name = (if tun name then Some name else None)"

datatype capture = Npcap | Ndisuio | TapBridge

definition is_vethernet :: "string \<Rightarrow> bool" where
  "is_vethernet name \<longleftrightarrow> take 9 (to_lower name) = ''vethernet''"

record capture_env =
  cp_hyperv :: bool
  cp_npcap :: "string \<Rightarrow> bool"
  cp_ndisuio :: "string \<Rightarrow> bool"
  cp_tap :: "string \<Rightarrow> bool"

definition open_bridge_multi :: "capture_env \<Rightarrow> string \<Rightarrow> string \<Rightarrow> capture option" where
  "open_bridge_multi env nic tap =
     (if cp_npcap env nic then Some Npcap
      else if \<not> is_vethernet nic \<and> cp_ndisuio env nic then Some Ndisuio
      else if cp_hyperv env then None
      else if cp_tap env tap then Some TapBridge else None)"

text \<open>What \<open>ensureBridge\<close> runs for: only the TAP capture needs the operating system's bridge.\<close>

definition win_open_bridge :: "capture_env \<Rightarrow> bridge_config \<Rightarrow> bridge_iface \<Rightarrow> (capture \<times> bool) option" where
  "win_open_bridge env bc i =
     (case open_bridge_multi env (bi_name i) (br_tap bc) of None \<Rightarrow> None | Some m \<Rightarrow> Some (m, m = TapBridge))"

section \<open>Addresses and foreign adapters\<close>

text \<open>
  \<open>parseCIDR\<close>: \<open>cidr\<close> stands for \<open>net.ParseCIDR\<close> (the address and the mask), \<open>ip\<close> for \<open>net.ParseIP\<close>.
\<close>

definition parse_cidr :: "(string \<Rightarrow> (string \<times> 'm) option) \<Rightarrow> (string \<Rightarrow> string option) \<Rightarrow> string \<Rightarrow> (string \<times> 'm) option" where
  "parse_cidr cidr ip s =
     (case cidr s of Some r \<Rightarrow> Some r
      | None \<Rightarrow> (case ip s of None \<Rightarrow> None | Some a \<Rightarrow> map_option (\<lambda>(_, m). (a, m)) (cidr (s @ ''/24''))))"

datatype os = Darwin | Linux

definition assign_command :: "os \<Rightarrow> string \<Rightarrow> string \<Rightarrow> string \<Rightarrow> int \<Rightarrow> string list" where
  "assign_command os name ip netmask ones = (case os of
      Darwin \<Rightarrow> [''ifconfig'', name, ''inet'', ip, ''netmask'', netmask]
    | Linux \<Rightarrow> [''ip'', ''addr'', ''add'', ip @ ''/'' @ itoa ones, ''dev'', name])"

definition win_assign_command :: "string \<Rightarrow> string \<Rightarrow> string \<Rightarrow> string list" where
  "win_assign_command name ip netmask =
     [''netsh'', ''interface'', ''ip'', ''set'', ''address'', ''name='' @ name, ''static'', ip, netmask]"

definition is_softether_adapter :: "string \<Rightarrow> string \<Rightarrow> bool" where
  "is_softether_adapter cid desc \<longleftrightarrow>
     take 11 (to_lower cid) = ''neoadapter_'' \<or> to_lower cid = ''sun_neo'' \<or>
     take 18 (to_lower desc) = ''vpn client adapter''"

text \<open>\<open>psSingleQuote\<close>, and the reading of a single-quoted literal: a doubled quote is a quote.\<close>

fun double_quotes :: "string \<Rightarrow> string" where
  "double_quotes [] = []"
| "double_quotes (c # cs) = (if c = CHR 0x27 then [CHR 0x27, CHR 0x27] else [c]) @ double_quotes cs"

definition ps_single_quote :: "string \<Rightarrow> string" where
  "ps_single_quote s = CHR 0x27 # double_quotes s @ [CHR 0x27]"

fun ps_literal :: "string \<Rightarrow> (string \<times> string) option" where
  "ps_literal [] = None"
| "ps_literal [c] = (if c = CHR 0x27 then Some ([], []) else None)"
| "ps_literal (c # d # cs) =
     (if c = CHR 0x27 then (if d = CHR 0x27 then map_option (apfst ((#) c)) (ps_literal cs) else Some ([], d # cs))
      else map_option (apfst ((#) c)) (ps_literal (d # cs)))"

text \<open>\<open>ensureBridge\<close>: whether it reports an error, and whether it had to bind.\<close>

definition ensure_bridge :: "string \<Rightarrow> bool \<Rightarrow> bool \<Rightarrow> bool \<Rightarrow> bool \<times> bool" where
  "ensure_bridge present elevated ps_ok inetcfg_ok =
     (if present \<noteq> '''' then (True, False)
      else if \<not> elevated then (True, False)
      else (ps_ok \<or> inetcfg_ok, True))"

section \<open>Properties\<close>

lemma open_direct_not_bridge: "open_direct_adapter env cfg \<noteq> Inr (OpenedBridge i n)"
  by (simp add: open_direct_adapter_def split: option.split)

lemma open_bridge_iface: "open_bridge_adapter env cfg j = Inr (OpenedBridge i n) \<Longrightarrow> i = j"
  by (auto simp: open_bridge_adapter_def Let_def split: if_splits)

lemma hd_filter: "filter P xs \<noteq> [] \<Longrightarrow> hd (filter P xs) \<in> set xs \<and> P (hd (filter P xs))"
  using hd_in_set [of "filter P xs"] by auto

lemma find_in: "find P xs = Some x \<Longrightarrow> x \<in> set xs \<and> P x"
  by (induction xs) (auto split: if_splits)

text \<open>
  A bridged interface is one that detection found and kept, or the configured one.
\<close>

lemma open_adapter_bridged:
  assumes "open_adapter env cfg = Inr (OpenedBridge i n)"
  shows "cc_mode cfg \<noteq> ''direct'' \<and>
    ((\<exists>ifaces. detect_link_local (ae_adapters env) (ae_ifaces env) = Some ifaces \<and> i \<in> set ifaces \<and> is_physical cfg i) \<or>
     (wanted_nic env cfg \<noteq> '''' \<and> (\<exists>name hw. ae_by_name env (wanted_nic env cfg) = Some (name, hw) \<and>
        i = \<lparr>bi_name = name, bi_hwaddr = hw, bi_addr = []\<rparr>)))"
  using assms
  by (auto simp: open_adapter_def Let_def open_direct_not_bridge dest!: open_bridge_iface find_in hd_filter
      split: if_splits option.splits sum.splits prod.splits)

lemma link_local_not_excluded: "link_local_iface ads i = Some b \<Longrightarrow> bi_name b = if_name i \<and> \<not> is_excluded_from_bridge ads (bi_name b)"
  by (auto simp: link_local_iface_def split: if_splits option.splits)

lemma detected_not_excluded:
  "detect_link_local ads ifs = Some out \<Longrightarrow> b \<in> set out \<Longrightarrow> \<not> is_excluded_from_bridge ads (bi_name b)"
  using link_local_not_excluded by (fastforce simp: detect_link_local_def map_filter_def)

lemma wanted_not_excluded: "wanted_nic env cfg \<noteq> '''' \<Longrightarrow> \<not> is_excluded_from_bridge (ae_adapters env) (wanted_nic env cfg)"
  by (auto simp: wanted_nic_def Let_def split: if_splits)

text \<open>In bridge mode without a configured interface a direct adapter is never opened.\<close>

lemma bridge_mode_strict:
  assumes "cc_mode cfg = ''bridge''" "wanted_nic env cfg = ''''"
  shows "open_adapter env cfg \<noteq> Inr (OpenedDirect n)"
proof -
  have "open_bridge_adapter env cfg i \<noteq> Inr (OpenedDirect n)" for i
    by (simp add: open_bridge_adapter_def Let_def)
  then show ?thesis using assms by (auto simp: open_adapter_def Let_def split: option.split sum.split)
qed

text \<open>With a configured interface that does not exist it is, although the mode forces a bridge.\<close>

lemma bridge_mode_falls_back:
  assumes "cc_mode cfg = ''bridge''" "wanted_nic env cfg \<noteq> ''''" "ae_by_name env (wanted_nic env cfg) = None"
    and "detect_link_local (ae_adapters env) (ae_ifaces env) = Some []" "ae_direct env (tun_name_of cfg) = Some n"
  shows "open_adapter env cfg = Inr (OpenedDirect n)"
  using assms by (simp add: open_adapter_def Let_def open_direct_adapter_def)

text \<open>The VPN's own adapter is kept out of automatic detection only.\<close>

lemma own_adapter_bridged:
  assumes "cc_mode cfg = ''''" "wanted_nic env cfg = br_tap (bridge_defaults (cc_bridge cfg))"
    and "wanted_nic env cfg \<noteq> ''''" "ae_by_name env (wanted_nic env cfg) = Some (wanted_nic env cfg, hw)"
    and "detect_link_local (ae_adapters env) (ae_ifaces env) = Some ifaces" "\<And>bc i n. ae_bridge env bc i n"
  shows "\<exists>i n. open_adapter env cfg = Inr (OpenedBridge i n) \<and> bi_name i = br_tap (bridge_defaults (cc_bridge cfg))"
proof -
  have "find (\<lambda>i. bi_name i = wanted_nic env cfg) (filter (is_physical cfg) ifaces) = None"
    using assms(2) by (auto simp: find_None_iff is_physical_def)
  then show ?thesis using assms by (simp add: open_adapter_def Let_def open_bridge_adapter_def)
qed

text \<open>Without a configured interface only detection and the direct adapter can fail, outside bridge mode.\<close>

lemma auto_mode_opens:
  assumes "cc_mode cfg \<noteq> ''bridge''" "wanted_nic env cfg = ''''" "ae_direct env (tun_name_of cfg) \<noteq> None"
    and "ae_ifaces env \<noteq> None"
  shows "\<exists>a. open_adapter env cfg = Inr a"
  using assms by (auto simp: open_adapter_def Let_def open_direct_adapter_def detect_link_local_def
      split: option.split sum.split)

lemma capture_rules:
  "cp_hyperv env \<Longrightarrow> open_bridge_multi env nic tap \<noteq> Some TapBridge"
  "is_vethernet nic \<Longrightarrow> open_bridge_multi env nic tap \<noteq> Some Ndisuio"
  "cp_npcap env nic \<Longrightarrow> open_bridge_multi env nic tap = Some Npcap"
  by (simp_all add: open_bridge_multi_def)

text \<open>A quoted name is read back as it was, whatever follows that is not a quote.\<close>

lemma ps_literal_quoted:
  assumes "rest = [] \<or> hd rest \<noteq> CHR 0x27"
  shows "ps_literal (double_quotes s @ CHR 0x27 # rest) = Some (s, rest)"
proof (induction s)
  case Nil
  then show ?case using assms by (cases rest) auto
next
  case (Cons c s)
  obtain d ds where "double_quotes s @ CHR 0x27 # rest = d # ds" by (cases "double_quotes s") auto
  with Cons show ?case by (cases "c = CHR 0x27") simp_all
qed

interpretation ps_names: codec "\<lambda>s. double_quotes s @ [CHR 0x27]" "\<lambda>w. map_option fst (ps_literal w)" "\<lambda>_. True"
  by unfold_locales (simp add: ps_literal_quoted)

end
