(* ===== verification/BpfGuard.thy ===== *)
theory BpfGuard
  imports Prelude
begin

text \<open>
  \<open>pkg/tun/bpf_darwin.go\<close>: the macOS bridge over a packet filter that also captures what it injects.
  The frames of one read of the device, the two guards that keep injected frames from going back to
  the hub (a hash of recent frames, and the stations known to live behind the hub), \<open>ReadFrame\<close> and
  \<open>WriteFrame\<close>. The header layout of the kernel and the hash are parameters.
\<close>

section \<open>State\<close>

text \<open>The size of a packet's header in a read, and the two fields the code reads from it.\<close>

record bpf_layout =
  bl_size :: nat
  bl_caplen :: "bytes \<Rightarrow> nat"
  bl_hdrlen :: "bytes \<Rightarrow> nat"

record bpf =
  bf_pending :: "bytes list"
  bf_dedup :: "(64 word, time) amap"
  bf_local :: bytes
  bf_hub :: "(bytes, time) amap"
  bf_sweep :: "time option"
  bf_dedup_drops :: nat
  bf_loop_drops :: nat

definition bpf_dedup_ttl :: time where "bpf_dedup_ttl = 300 * millisecond"
definition hub_mac_ttl :: time where "hub_mac_ttl = 5 * minute"
definition hub_sweep_interval :: time where "hub_sweep_interval = second"

text \<open>A fresh device; an address that could not be read is all zeros.\<close>

definition open_bpf :: "bytes option \<Rightarrow> bpf" where
  "open_bpf hw = \<lparr>bf_pending = [], bf_dedup = [],
     bf_local = (case hw of Some a \<Rightarrow> if 6 \<le> length a then take 6 a else replicate 6 0 | None \<Rightarrow> replicate 6 0),
     bf_hub = [], bf_sweep = None, bf_dedup_drops = 0, bf_loop_drops = 0\<rparr>"

section \<open>The two guards\<close>

definition frame_hash :: "(bytes \<Rightarrow> bytes) \<Rightarrow> bytes \<Rightarrow> 64 word" where
  "frame_hash sha f = get64 (rev (take 8 (sha (if length f < 60 then f @ replicate (60 - length f) 0 else f))))"

definition dedup_record :: "(bytes \<Rightarrow> bytes) \<Rightarrow> time \<Rightarrow> bytes \<Rightarrow> bpf \<Rightarrow> bpf" where
  "dedup_record sha now f b =
     b\<lparr>bf_dedup := mdrop (\<lambda>h t. bpf_dedup_ttl < now - t) (mput (frame_hash sha f) now (bf_dedup b))\<rparr>"

definition dedup_seen :: "(bytes \<Rightarrow> bytes) \<Rightarrow> time \<Rightarrow> bytes \<Rightarrow> bpf \<Rightarrow> bool" where
  "dedup_seen sha now f b =
     (let hit = (case map_of (bf_dedup b) (frame_hash sha f) of
            Some t \<Rightarrow> Some t
          | None \<Rightarrow> if 4 < length f then map_of (bf_dedup b) (frame_hash sha (take (length f - 4) f)) else None)
      in case hit of None \<Rightarrow> False | Some t \<Rightarrow> now - t < bpf_dedup_ttl)"

definition src_of :: "bytes \<Rightarrow> bytes" where "src_of f = slice 6 12 f"

definition hub_mac_record :: "time \<Rightarrow> bytes \<Rightarrow> bpf \<Rightarrow> bpf" where
  "hub_mac_record now f b =
     (if length f < 12 \<or> src_of f = bf_local b then b
      else let macs = mput (src_of f) now (bf_hub b);
               sweep = (case bf_sweep b of None \<Rightarrow> True | Some t \<Rightarrow> hub_sweep_interval < now - t)
        in if sweep then b\<lparr>bf_hub := mdrop (\<lambda>m t. hub_mac_ttl < now - t) macs, bf_sweep := Some now\<rparr>
           else b\<lparr>bf_hub := macs\<rparr>)"

definition loop_seen :: "time \<Rightarrow> bytes \<Rightarrow> bpf \<Rightarrow> bool" where
  "loop_seen now f b =
     (if length f < 12 \<or> src_of f = bf_local b then False
      else case map_of (bf_hub b) (src_of f) of None \<Rightarrow> False | Some t \<Rightarrow> now - t < hub_mac_ttl)"

section \<open>Reading and writing\<close>

definition word_align :: "nat \<Rightarrow> nat" where "word_align n = (n + 3) div 4 * 4"

text \<open>
  The packets of one read, from an offset. A packet with an empty header and no bytes, which the kernel
  never writes, would keep the loop at its offset; the recursion stops there.
\<close>

function parse_packets :: "bpf_layout \<Rightarrow> bytes \<Rightarrow> nat \<Rightarrow> bytes list" where
  "parse_packets bl buf off =
     (if length buf < off + bl_size bl then []
      else let hdr = drop off buf; start = off + bl_hdrlen bl hdr; stop = start + bl_caplen bl hdr;
               step = word_align (bl_hdrlen bl hdr + bl_caplen bl hdr)
        in if length buf < stop \<or> step = 0 then []
           else slice start stop buf # parse_packets bl buf (off + step))"
  by pat_completeness auto
termination by (relation "measure (\<lambda>(bl, buf, off). Suc (length buf) - off)") auto

declare parse_packets.simps [simp del]

text \<open>The first queued frame that is no echo.\<close>

fun next_pending :: "(bytes \<Rightarrow> bytes) \<Rightarrow> time \<Rightarrow> bytes list \<Rightarrow> bpf \<Rightarrow> bytes option \<times> bpf" where
  "next_pending sha now [] b = (None, b\<lparr>bf_pending := []\<rparr>)"
| "next_pending sha now (f # fs) b =
     (if dedup_seen sha now f b then next_pending sha now fs (b\<lparr>bf_dedup_drops := bf_dedup_drops b + 1\<rparr>)
      else if loop_seen now f b then next_pending sha now fs (b\<lparr>bf_loop_drops := bf_loop_drops b + 1\<rparr>)
      else (Some f, b\<lparr>bf_pending := fs\<rparr>))"

datatype read_result = ReadAgain | ReadFailed | ReadData bytes
datatype bpf_error = BpfCancelled | BpfReadError

text \<open>\<open>ReadFrame\<close> over the results of the device's reads; the context is cancelled at their end.\<close>

fun bpf_read_frame :: "bpf_layout \<Rightarrow> (bytes \<Rightarrow> bytes) \<Rightarrow> time \<Rightarrow> (time \<times> read_result) list \<Rightarrow> bpf \<Rightarrow> (bpf_error + bytes) \<times> bpf" where
  "bpf_read_frame bl sha now [] b =
     (case next_pending sha now (bf_pending b) b of
        (Some f, b') \<Rightarrow> (Inr f, b') | (None, b') \<Rightarrow> (Inl BpfCancelled, b'))"
| "bpf_read_frame bl sha now ((t, r) # rs) b =
     (case next_pending sha now (bf_pending b) b of
        (Some f, b') \<Rightarrow> (Inr f, b')
      | (None, b') \<Rightarrow> (case r of
            ReadAgain \<Rightarrow> bpf_read_frame bl sha t rs b'
          | ReadFailed \<Rightarrow> (Inl BpfReadError, b')
          | ReadData buf \<Rightarrow> bpf_read_frame bl sha t rs (b'\<lparr>bf_pending := bf_pending b' @ parse_packets bl buf 0\<rparr>)))"

definition bpf_write_frame :: "(bytes \<Rightarrow> bytes) \<Rightarrow> time \<Rightarrow> bytes \<Rightarrow> bpf \<Rightarrow> bpf" where
  "bpf_write_frame sha now f b = (if f = [] then b else hub_mac_record now f (dedup_record sha now f b))"

datatype bpf_event = Inject time bytes | Capture time "(time \<times> read_result) list"

fun bpf_run :: "bpf_layout \<Rightarrow> (bytes \<Rightarrow> bytes) \<Rightarrow> bpf_event list \<Rightarrow> bpf \<Rightarrow> (time \<times> bytes) list \<times> bpf" where
  "bpf_run bl sha [] b = ([], b)"
| "bpf_run bl sha (Inject now f # es) b = bpf_run bl sha es (bpf_write_frame sha now f b)"
| "bpf_run bl sha (Capture now rs # es) b =
     (case bpf_read_frame bl sha now rs b of (r, b1) \<Rightarrow>
        case bpf_run bl sha es b1 of (out, b2) \<Rightarrow>
          ((case r of Inr f \<Rightarrow> [(now, f)] | Inl _ \<Rightarrow> []) @ out, b2))"

section \<open>Reading what the kernel wrote\<close>

definition kernel_packet :: "bytes \<times> bytes \<Rightarrow> bytes" where
  "kernel_packet p = (case p of (h, f) \<Rightarrow>
     h @ f @ replicate (word_align (length h + length f) - (length h + length f)) 0)"

text \<open>The layout reads the lengths of a packet from the start of its header.\<close>

definition packet_ok :: "bpf_layout \<Rightarrow> bytes \<times> bytes \<Rightarrow> bool" where
  "packet_ok bl p \<longleftrightarrow> bl_size bl \<le> length (fst p) \<and> fst p \<noteq> [] \<and>
     (\<forall>rest. bl_hdrlen bl (fst p @ rest) = length (fst p) \<and> bl_caplen bl (fst p @ rest) = length (snd p))"

lemma word_align_ge: "n \<le> word_align n"
  by (simp add: word_align_def)

lemma length_kernel_packet: "length (kernel_packet (h, f)) = word_align (length h + length f)"
  using word_align_ge [of "length h + length f"] by (simp add: kernel_packet_def)

lemma parse_kernel_packets:
  assumes "list_all (packet_ok bl) ps" and "0 < bl_size bl"
  shows "parse_packets bl (pre @ concat (map kernel_packet ps)) (length pre) = map snd ps"
  using assms
proof (induction ps arbitrary: pre)
  case Nil
  then show ?case by (simp add: parse_packets.simps)
next
  case (Cons p ps)
  obtain h f where p: "p = (h, f)" by force
  define buf where "buf = pre @ concat (map kernel_packet (p # ps))"
  let ?rest = "concat (map kernel_packet ps)"
  have ok: "bl_size bl \<le> length h" "h \<noteq> []" "bl_hdrlen bl (h @ r) = length h" "bl_caplen bl (h @ r) = length f" for r
    using Cons.prems(1) by (auto simp: packet_ok_def p)
  let ?n = "word_align (length h + length f)"
  have n: "length h + length f \<le> ?n" by (rule word_align_ge)
  have "drop (length pre) buf = h @ (f @ replicate (?n - (length h + length f)) 0 @ ?rest)"
    by (simp add: buf_def p kernel_packet_def)
  then have hdr: "bl_hdrlen bl (drop (length pre) buf) = length h" "bl_caplen bl (drop (length pre) buf) = length f"
    by (simp_all add: ok)
  have len: "length buf = length pre + ?n + length ?rest" using length_kernel_packet [of h f] by (simp add: buf_def p)
  have pos: "0 < ?n" using n ok(2) by (cases h) auto
  have "slice (length pre + length h) (length pre + length h + length f) buf = f"
    by (simp add: slice_def buf_def p kernel_packet_def)
  moreover have "parse_packets bl buf (length pre + ?n) = map snd ps"
    using Cons.IH [of "pre @ kernel_packet p"] Cons.prems length_kernel_packet [of h f] by (simp add: buf_def p)
  ultimately have "parse_packets bl buf (length pre) = map snd (p # ps)"
    using n pos ok(1) len by (subst parse_packets.simps) (simp add: p hdr Let_def)
  then show ?case by (simp only: buf_def)
qed

section \<open>No frame goes back\<close>

definition bpf_ok :: "bpf \<Rightarrow> bool" where
  "bpf_ok b \<longleftrightarrow> amap_ok (bf_dedup b) \<and> amap_ok (bf_hub b)"

text \<open>A station is known to live behind the hub since \<open>t\<close> or later.\<close>

definition behind_hub :: "bytes \<Rightarrow> time \<Rightarrow> bpf \<Rightarrow> bool" where
  "behind_hub m t b \<longleftrightarrow> (\<exists>t'. map_of (bf_hub b) m = Some t' \<and> t \<le> t')"

lemma dedup_record_frame [simp]: "bf_hub (dedup_record sha now f b) = bf_hub b"
  "bf_local (dedup_record sha now f b) = bf_local b" "bf_pending (dedup_record sha now f b) = bf_pending b"
  "bf_sweep (dedup_record sha now f b) = bf_sweep b"
  by (simp_all add: dedup_record_def)

lemma write_ok: "bpf_ok b \<Longrightarrow> bpf_ok (bpf_write_frame sha now f b)"
  by (auto simp: bpf_ok_def bpf_write_frame_def hub_mac_record_def dedup_record_def Let_def)

lemma write_local [simp]: "bf_local (bpf_write_frame sha now f b) = bf_local b"
  by (simp add: bpf_write_frame_def hub_mac_record_def Let_def)

lemma hub_record_keeps:
  assumes "amap_ok (bf_hub b)" "behind_hub m t b" "t \<le> now" "now \<le> t + hub_mac_ttl"
  shows "behind_hub m t (hub_mac_record now f b)"
  using assms by (auto simp: behind_hub_def hub_mac_record_def Let_def map_of_mdrop map_of_mput)

lemma write_keeps:
  assumes "bpf_ok b" "behind_hub m t b" "t \<le> now" "now \<le> t + hub_mac_ttl"
  shows "behind_hub m t (bpf_write_frame sha now f b)"
  using hub_record_keeps [of "dedup_record sha now f b" m t now f] assms
  by (auto simp: bpf_write_frame_def bpf_ok_def behind_hub_def)

lemma write_records:
  assumes "bpf_ok b" "12 \<le> length f" "src_of f \<noteq> bf_local b"
  shows "behind_hub (src_of f) now (bpf_write_frame sha now f b)"
proof -
  have "f \<noteq> []" using assms(2) by auto
  moreover have "0 \<le> hub_mac_ttl" by (simp add: hub_mac_ttl_def minute_def second_def)
  ultimately show ?thesis using assms
    by (auto simp: bpf_write_frame_def hub_mac_record_def behind_hub_def bpf_ok_def Let_def map_of_mdrop map_of_mput)
qed

lemma seen_drops:
  "dedup_seen sha now f (b\<lparr>bf_dedup_drops := n\<rparr>) = dedup_seen sha now f b"
  "loop_seen now f (b\<lparr>bf_dedup_drops := n\<rparr>) = loop_seen now f b"
  "dedup_seen sha now f (b\<lparr>bf_loop_drops := n\<rparr>) = dedup_seen sha now f b"
  "loop_seen now f (b\<lparr>bf_loop_drops := n\<rparr>) = loop_seen now f b"
  by (simp_all add: dedup_seen_def loop_seen_def split: option.split)

lemma next_pending_spec:
  assumes "next_pending sha now fs b = (r, b')"
  shows "bf_hub b' = bf_hub b \<and> bf_local b' = bf_local b \<and> bf_dedup b' = bf_dedup b \<and>
    (\<forall>f. r = Some f \<longrightarrow> f \<in> set fs \<and> \<not> dedup_seen sha now f b \<and> \<not> loop_seen now f b)"
  using assms
proof (induction sha now fs b rule: next_pending.induct)
  case (1 sha now b)
  then show ?case by (elim next_pending.elims) auto
next
  case (2 sha now f fs b)
  let ?d = "b\<lparr>bf_dedup_drops := bf_dedup_drops b + 1\<rparr>" and ?l = "b\<lparr>bf_loop_drops := bf_loop_drops b + 1\<rparr>"
  consider "dedup_seen sha now f b" | "\<not> dedup_seen sha now f b" "loop_seen now f b"
    | "\<not> dedup_seen sha now f b" "\<not> loop_seen now f b" by blast
  then show ?case
  proof cases
    case 1
    then have "next_pending sha now fs ?d = (r, b')" using 2(3) by simp
    from 2(1) [OF 1 this] show ?thesis unfolding seen_drops by simp
  next
    case 2
    then have "next_pending sha now fs ?l = (r, b')" using "2.prems" by simp
    from "2.IH"(2) [OF 2 this] show ?thesis unfolding seen_drops by simp
  next
    case 3
    then show ?thesis using 2(3) by auto
  qed
qed

lemma loop_seen_behind:
  assumes "behind_hub (src_of f) t b" "12 \<le> length f" "src_of f \<noteq> bf_local b" "now < t + hub_mac_ttl"
  shows "loop_seen now f b"
  using assms by (auto simp: behind_hub_def loop_seen_def)

lemma read_spec:
  assumes "bpf_read_frame bl sha now rs b = (r, b')" "behind_hub m t b" "m \<noteq> bf_local b"
    and "now < t + hub_mac_ttl" "\<forall>(u, _) \<in> set rs. u < t + hub_mac_ttl" "bpf_ok b"
  shows "behind_hub m t b' \<and> bf_local b' = bf_local b \<and> bpf_ok b' \<and>
    (\<forall>f. r = Inr f \<longrightarrow> length f < 12 \<or> src_of f \<noteq> m)"
  using assms
proof (induction bl sha now rs b rule: bpf_read_frame.induct)
  case (1 bl sha now b)
  then show ?case
    using next_pending_spec [of sha now "bf_pending b" b] loop_seen_behind [of _ t b now]
    by (auto simp: behind_hub_def bpf_ok_def not_less split: prod.splits option.splits)
next
  case (2 bl sha now u x rs b)
  obtain p b1 where p: "next_pending sha now (bf_pending b) b = (p, b1)" by fastforce
  note spec = next_pending_spec [OF p]
  show ?case
  proof (cases p)
    case (Some f)
    then show ?thesis using 2(3-) p spec loop_seen_behind [of f t b now]
      by (auto simp: behind_hub_def bpf_ok_def not_less)
  next
    case None
    then show ?thesis using 2 p spec by (cases x) (auto simp: behind_hub_def bpf_ok_def)
  qed
qed

text \<open>Every event within the lifetime of an entry made at \<open>t\<close>.\<close>

definition within :: "time \<Rightarrow> bpf_event \<Rightarrow> bool" where
  "within t e = (case e of Inject u _ \<Rightarrow> t \<le> u \<and> u < t + hub_mac_ttl
     | Capture u rs \<Rightarrow> u < t + hub_mac_ttl \<and> (\<forall>(v, _) \<in> set rs. v < t + hub_mac_ttl))"

lemma run_no_echo:
  assumes "bpf_ok b" "behind_hub m t b" "m \<noteq> bf_local b" "list_all (within t) es"
  shows "\<forall>(u, g) \<in> set (fst (bpf_run bl sha es b)). length g < 12 \<or> src_of g \<noteq> m"
  using assms
proof (induction bl sha es b rule: bpf_run.induct)
  case (2 bl sha now f es b)
  then show ?case by (simp add: within_def write_ok write_keeps)
next
  case (3 bl sha now rs es b)
  obtain r b1 where r: "bpf_read_frame bl sha now rs b = (r, b1)" by fastforce
  have "behind_hub m t b1 \<and> bf_local b1 = bf_local b \<and> bpf_ok b1 \<and> (\<forall>f. r = Inr f \<longrightarrow> length f < 12 \<or> src_of f \<noteq> m)"
    using 3(2-) by (intro read_spec [OF r]) (auto simp: within_def)
  then show ?case using 3 r by (auto split: sum.split prod.split)
qed simp

text \<open>A frame that was injected, or any other of the same station, is not captured for five minutes.\<close>

lemma injected_never_captured:
  assumes "bpf_ok b" "12 \<le> length f" "src_of f \<noteq> bf_local b" "list_all (within t) es"
    and "(u, g) \<in> set (fst (bpf_run bl sha (Inject t f # es) b))" "12 \<le> length g"
  shows "src_of g \<noteq> src_of f"
proof -
  have "behind_hub (src_of f) t (bpf_write_frame sha t f b)" by (rule write_records [OF assms(1-3)])
  from run_no_echo [OF write_ok [OF assms(1)] this _ assms(4)] assms(3,5,6) show ?thesis by fastforce
qed

text \<open>The host's own frames pass the loop guard; only a hash of a recent injection stops them.\<close>

lemma host_frames_pass: "src_of f = bf_local b \<Longrightarrow> \<not> loop_seen now f b"
  by (simp add: loop_seen_def)

lemma captured_first:
  "\<not> dedup_seen sha now f b \<Longrightarrow> \<not> loop_seen now f b \<Longrightarrow> bf_pending b = f # fs \<Longrightarrow>
     bpf_read_frame bl sha now rs b = (Inr f, b\<lparr>bf_pending := fs\<rparr>)"
  by (cases rs) auto

text \<open>The echo the hash recognises: as written, padded to 60 bytes, or with four check bytes.\<close>

lemma echo_hashes:
  assumes "bpf_ok b" "f \<noteq> []" "g = f \<or> length f < 60 \<and> g = f @ replicate (60 - length f) 0"
    and "t \<le> now" "now < t + bpf_dedup_ttl" "bf_dedup b = []"
  shows "dedup_seen sha now g (bpf_write_frame sha t f b)"
    "length c = 4 \<Longrightarrow> dedup_seen sha now (g @ c) (bpf_write_frame sha t f b)"
proof -
  have "bf_dedup (bpf_write_frame sha t f b) = [(frame_hash sha f, t)]"
    using assms(2,6) by (simp add: bpf_write_frame_def hub_mac_record_def dedup_record_def Let_def mdrop_def
        bpf_dedup_ttl_def millisecond_def)
  moreover have "frame_hash sha g = frame_hash sha f" using assms(3) by (auto simp: frame_hash_def)
  ultimately show "dedup_seen sha now g (bpf_write_frame sha t f b)"
    "length c = 4 \<Longrightarrow> dedup_seen sha now (g @ c) (bpf_write_frame sha t f b)"
    using assms(2-5) by (auto simp: dedup_seen_def Let_def)
qed

end
