(* ===== verification/L2Emulation.thy ===== *)
theory L2Emulation
  imports Hub GoNet
begin

text \<open>
  The layer-2 emulation over a layer-3 tunnel device, on macOS (\<open>pkg/tun/tun_darwin.go\<close>) and Windows
  (\<open>wintun_l2_windows.go\<close>): the host's IP packets are wrapped in Ethernet frames of a virtual
  station, and the hub's frames are unwrapped, with ARP answered here. The two files share every
  operation except \<open>ReadFrame\<close>, whose contract is the locale \<open>l2_driver\<close>. Also the address the
  direct-mode adapters get, and the header of the macOS device.
\<close>

section \<open>The virtual station\<close>

text \<open>\<open>l2_ip\<close> is all zeros while the host's address is not known.\<close>

record l2 =
  l2_mac :: mac
  l2_ip :: bytes
  l2_arp :: "(bytes, mac) amap"
  l2_inject :: "bytes list"

definition no_ip :: bytes where "no_ip = replicate 4 0"
definition broadcast_mac :: mac where "broadcast_mac = replicate 6 0xff"

definition virtual_mac :: "bytes \<Rightarrow> mac" where
  "virtual_mac r = (case r of [] \<Rightarrow> [] | b # bs \<Rightarrow> ((b AND NOT 0x01) OR 0x02) # bs)"

text \<open>On Windows \<open>ip\<close> is zero here; on macOS it is the first IPv4 address of the device.\<close>

definition new_l2 :: "bytes \<Rightarrow> bytes \<Rightarrow> l2" where
  "new_l2 rnd ip = \<lparr>l2_mac = virtual_mac rnd, l2_ip = ip, l2_arp = [], l2_inject = []\<rparr>"

definition iface_ip :: "bytes option list option \<Rightarrow> bytes" where
  "iface_ip addrs = (case addrs of None \<Rightarrow> no_ip
    | Some as \<Rightarrow> (case List.map_filter id as of [] \<Rightarrow> no_ip | a # _ \<Rightarrow> a))"

section \<open>From the host to the hub\<close>

definition ip_version :: "bytes \<Rightarrow> byte" where "ip_version p = drop_bit 4 (p ! 0)"

definition is_ipv4 :: "bytes \<Rightarrow> bool" where "is_ipv4 p \<longleftrightarrow> 20 \<le> length p \<and> ip_version p = 4"

definition learn_own :: "bytes \<Rightarrow> l2 \<Rightarrow> l2" where
  "learn_own p d = (if is_ipv4 p \<and> l2_ip d = no_ip then d\<lparr>l2_ip := slice 12 16 p\<rparr> else d)"

definition next_hop :: "bytes \<Rightarrow> l2 \<Rightarrow> mac" where
  "next_hop p d =
     (if is_ipv4 p then (case map_of (l2_arp d) (slice 16 20 p) of Some m \<Rightarrow> m | None \<Rightarrow> broadcast_mac)
      else broadcast_mac)"

text \<open>The rest of \<open>ReadFrame\<close> once the device gave a packet; reading the version of an empty one panics.\<close>

definition l2_wrap :: "bytes \<Rightarrow> l2 \<Rightarrow> (bytes \<times> l2) option" where
  "l2_wrap p d =
     (if p = [] then None
      else Some (next_hop p d @ l2_mac d @ (if ip_version p = 6 then [0x86, 0xDD] else [0x08, 0x00]) @ p,
                 learn_own p d))"

section \<open>From the hub to the host\<close>

definition arp_reply :: "mac \<Rightarrow> bytes \<Rightarrow> mac \<Rightarrow> bytes \<Rightarrow> bytes" where
  "arp_reply our_mac our_ip to_mac to_ip =
     put16 1 @ put16 0x0800 @ [6, 4] @ put16 2 @ our_mac @ our_ip @ to_mac @ to_ip"

definition inject_cap :: nat where "inject_cap = 16"

definition handle_arp :: "bytes \<Rightarrow> l2 \<Rightarrow> l2" where
  "handle_arp p d =
     (if length p < 28 then d
      else let oper = get16 (slice 6 8 p); sha = slice 8 14 p; spa = slice 14 18 p; tpa = slice 24 28 p;
               d = (if sha \<noteq> broadcast_mac \<and> spa \<noteq> no_ip then d\<lparr>l2_arp := mput spa sha (l2_arp d)\<rparr> else d)
        in if oper = 1 \<and> tpa = l2_ip d \<and> l2_ip d \<noteq> no_ip \<and> length (l2_inject d) < inject_cap
           then d\<lparr>l2_inject := l2_inject d @
                  [sha @ l2_mac d @ [0x08, 0x06] @ arp_reply (l2_mac d) (l2_ip d) sha spa]\<rparr>
           else d)"

definition for_us :: "mac \<Rightarrow> l2 \<Rightarrow> bool" where
  "for_us m d \<longleftrightarrow> m = l2_mac d \<or> m = broadcast_mac \<or> m ! 0 AND 1 \<noteq> 0"

text \<open>\<open>WriteFrame\<close>: the IP packet the device gets, if any.\<close>

definition l2_write :: "bytes \<Rightarrow> l2 \<Rightarrow> bytes option \<times> l2" where
  "l2_write f d =
     (if length f < 14 \<or> \<not> for_us (dst_mac f) d then (None, d)
      else let p = drop 14 f in
        if ether_type f = 0x0800 then
          (if length p < 20 then (None, d)
           else (Some p, if src_mac f \<noteq> broadcast_mac then d\<lparr>l2_arp := mput (slice 12 16 p) (src_mac f) (l2_arp d)\<rparr> else d))
        else if ether_type f = 0x86DD then (if p = [] then None else Some p, d)
        else if ether_type f = 0x0806 then (None, handle_arp p d)
        else (None, d))"

section \<open>Reading, on each platform\<close>

text \<open>
  One round of the device with the frames the bridge loop then gets from \<open>ReadFrame\<close>, which it calls
  again at once. macOS: a queued answer is looked for only on entry, then \<open>ReadFrame\<close> waits for a
  packet of the host. Windows: the queue is looked at before each poll. No result is a panic.
\<close>

definition darwin_host :: "bytes option \<Rightarrow> l2 \<Rightarrow> (bytes list \<times> l2) option" where
  "darwin_host x d = (case x of None \<Rightarrow> Some ([], d)
    | Some p \<Rightarrow> (case l2_wrap p d of None \<Rightarrow> None | Some (f, d') \<Rightarrow> Some (f # l2_inject d', d'\<lparr>l2_inject := []\<rparr>)))"

definition win_host :: "bytes option \<Rightarrow> l2 \<Rightarrow> (bytes list \<times> l2) option" where
  "win_host x d =
     (let queued = l2_inject d; d = d\<lparr>l2_inject := []\<rparr> in
      case x of None \<Rightarrow> Some (queued, d)
      | Some p \<Rightarrow> (case l2_wrap p d of None \<Rightarrow> None | Some (f, d') \<Rightarrow> Some (queued @ [f], d')))"

text \<open>The macOS device puts four bytes with the address family before each packet.\<close>

definition utun_put :: "bytes \<Rightarrow> bytes" where
  "utun_put p = [0, 0, 0, if ip_version p = 6 then 30 else 2] @ p"

definition utun_get :: "bytes \<Rightarrow> bytes option" where
  "utun_get b = (if length b < 4 then None else Some (drop 4 b))"

section \<open>Link-local addresses\<close>

definition usable_host :: "nat \<times> nat \<Rightarrow> nat \<times> nat" where
  "usable_host h = (if h = (0, 0) then (1, 1) else if h = (255, 255) then (254, 254) else h)"

definition link_local_text :: "nat \<times> nat \<Rightarrow> string" where
  "link_local_text h = ''169.254.'' @ itoa (int (fst h)) @ ''.'' @ itoa (int (snd h))"

text \<open>\<open>ConfigureIP\<close>; \<open>assign\<close> is whether the command could set the address.\<close>

definition configure_ip :: "(string \<Rightarrow> bool) \<Rightarrow> l2 \<Rightarrow> l2" where
  "configure_ip assign d =
     (let h = usable_host (unat (l2_mac d ! 4), unat (l2_mac d ! 5))
      in if assign (link_local_text h) then d\<lparr>l2_ip := [169, 254, of_nat (fst h), of_nat (snd h)]\<rparr> else d)"

definition hex_nibble :: "char \<Rightarrow> nat option" where
  "hex_nibble c = (let n = (of_char c :: nat) in
     if 48 \<le> n \<and> n \<le> 57 then Some (n - 48) else if 97 \<le> n \<and> n \<le> 102 then Some (n - 87)
     else if 65 \<le> n \<and> n \<le> 70 then Some (n - 55) else None)"

definition hex_pair :: "char \<Rightarrow> char \<Rightarrow> nat option" where
  "hex_pair a b = (case (hex_nibble a, hex_nibble b) of (Some x, Some y) \<Rightarrow> Some (16 * x + y) | _ \<Rightarrow> None)"

definition tap_link_local :: "string \<Rightarrow> nat \<times> nat" where
  "tap_link_local guid =
     (let g = hd (split_at (CHR ''-'') (trim {CHR ''{'', CHR ''}''} guid))
      in if length g < 8 then (1, 1)
         else case (hex_pair (g ! 4) (g ! 5), hex_pair (g ! 6) (g ! 7)) of
             (Some a, Some b) \<Rightarrow> usable_host (a, b) | _ \<Rightarrow> (1, 1))"

section \<open>Runs\<close>

text \<open>A frame of the hub, or a round of the device: a packet of the host or none.\<close>

datatype l2_event = FromHub bytes | HostRound "bytes option"

text \<open>What the host and the hub get.\<close>

fun l2_run ::
  "(bytes option \<Rightarrow> l2 \<Rightarrow> (bytes list \<times> l2) option) \<Rightarrow> l2_event list \<Rightarrow> l2 \<Rightarrow> (bytes list \<times> bytes list \<times> l2) option"
where
  "l2_run host [] d = Some ([], [], d)"
| "l2_run host (FromHub f # es) d =
     (case l2_write f d of (up, d1) \<Rightarrow>
        map_option (\<lambda>(ups, out, d2). ((case up of None \<Rightarrow> [] | Some p \<Rightarrow> [p]) @ ups, out, d2)) (l2_run host es d1))"
| "l2_run host (HostRound x # es) d =
     (case host x d of None \<Rightarrow> None
      | Some (fs, d1) \<Rightarrow> map_option (\<lambda>(ups, out, d2). (ups, fs @ out, d2)) (l2_run host es d1))"

text \<open>A frame of the station, and the invariant of the emulation.\<close>

definition own_frame :: "mac \<Rightarrow> bytes \<Rightarrow> bool" where
  "own_frame m f \<longleftrightarrow> 14 < length f \<and> src_mac f = m"

definition l2_ok :: "l2 \<Rightarrow> bool" where
  "l2_ok d \<longleftrightarrow> length (l2_mac d) = 6 \<and> l2_mac d ! 0 AND 1 = 0 \<and> length (l2_ip d) = 4 \<and>
     (\<forall>k m. map_of (l2_arp d) k = Some m \<longrightarrow> length m = 6) \<and>
     length (l2_inject d) \<le> inject_cap \<and> list_all (own_frame (l2_mac d)) (l2_inject d)"


lemma new_l2_ok:
  assumes "length rnd = 6" "length ip = 4"
  shows "l2_ok (new_l2 rnd ip)"
proof -
  obtain b bs where "rnd = b # bs" using assms(1) by (cases rnd) auto
  moreover have "((b AND NOT 0x01) OR 0x02) AND (1 :: byte) = 0"
    by (rule bit_word_eqI) (auto simp: bit_simps)
  ultimately show ?thesis using assms by (simp add: l2_ok_def new_l2_def virtual_mac_def)
qed

lemma own_not_broadcast: "l2_ok d \<Longrightarrow> l2_mac d \<noteq> broadcast_mac"
  by (auto simp: l2_ok_def broadcast_mac_def)

lemma src_mac_frame: "length a = 6 \<Longrightarrow> length m = 6 \<Longrightarrow> src_mac (a @ m @ r) = m"
  by (simp add: src_mac_def slice_def)

lemma next_hop_length: "l2_ok d \<Longrightarrow> length (next_hop p d) = 6"
  by (auto simp: next_hop_def l2_ok_def broadcast_mac_def split: option.split)

lemma l2_wrap_ok:
  assumes "l2_ok d" "l2_wrap p d = Some (f, d')"
  shows "l2_ok d' \<and> l2_mac d' = l2_mac d \<and> l2_arp d' = l2_arp d \<and> l2_inject d' = l2_inject d \<and> own_frame (l2_mac d) f"
proof -
  have "own_frame (l2_mac d) f"
    using assms next_hop_length [OF assms(1), of p]
    by (auto simp: l2_wrap_def own_frame_def src_mac_frame l2_ok_def split: if_splits)
  then show ?thesis using assms by (auto simp: l2_wrap_def learn_own_def l2_ok_def is_ipv4_def split: if_splits)
qed

lemma handle_arp_ok:
  assumes "l2_ok d"
  shows "l2_ok (handle_arp p d) \<and> l2_mac (handle_arp p d) = l2_mac d \<and> l2_ip (handle_arp p d) = l2_ip d"
proof (cases "length p < 28")
  case False
  let ?sha = "slice 8 14 p" and ?spa = "slice 14 18 p"
  define d1 where "d1 = (if ?sha \<noteq> broadcast_mac \<and> ?spa \<noteq> no_ip then d\<lparr>l2_arp := mput ?spa ?sha (l2_arp d)\<rparr> else d)"
  have d1: "l2_ok d1" "l2_mac d1 = l2_mac d" "l2_ip d1 = l2_ip d"
    using assms False by (auto simp: d1_def l2_ok_def)
  have "own_frame (l2_mac d1) (?sha @ l2_mac d1 @ [0x08, 0x06] @ arp_reply (l2_mac d1) (l2_ip d1) ?sha ?spa)"
    using False d1(1) by (simp add: own_frame_def src_mac_frame l2_ok_def arp_reply_def)
  then have "l2_ok (d1\<lparr>l2_inject := l2_inject d1 @
      [?sha @ l2_mac d1 @ [0x08, 0x06] @ arp_reply (l2_mac d1) (l2_ip d1) ?sha ?spa]\<rparr>)" if "length (l2_inject d1) < inject_cap"
    using d1(1) that by (simp add: l2_ok_def)
  then show ?thesis using False d1 by (simp add: handle_arp_def Let_def d1_def [symmetric])
qed (simp add: handle_arp_def assms)

lemma l2_write_ok:
  assumes "l2_ok d" "l2_write f d = (up, d')"
  shows "l2_ok d' \<and> l2_mac d' = l2_mac d \<and> (\<forall>p. up = Some p \<longrightarrow> p = drop 14 f \<and> for_us (dst_mac f) d)"
proof -
  have "l2_ok (d\<lparr>l2_arp := mput k (src_mac f) (l2_arp d)\<rparr>)" if "14 \<le> length f" for k
    using assms(1) that by (auto simp: l2_ok_def src_mac_def)
  then show ?thesis using assms handle_arp_ok [OF assms(1)]
    by (auto simp: l2_write_def Let_def split: if_splits)
qed

section \<open>The contract of a driver\<close>

locale l2_driver =
  fixes host :: "bytes option \<Rightarrow> l2 \<Rightarrow> (bytes list \<times> l2) option"
  assumes host_panics: "host x d = None \<longleftrightarrow> x = Some []"
    and host_ok: "l2_ok d \<Longrightarrow> host x d = Some (fs, d') \<Longrightarrow>
      l2_ok d' \<and> l2_mac d' = l2_mac d \<and> list_all (own_frame (l2_mac d)) fs"
begin

lemma run_panics: "l2_run host es d = None \<longleftrightarrow> HostRound (Some []) \<in> set es"
proof (induction es arbitrary: d)
  case (Cons e es)
  show ?case
  proof (cases e)
    case (HostRound x)
    then show ?thesis using Cons.IH host_panics [of x d] by (auto split: option.split)
  qed (auto simp: Cons.IH split: prod.split)
qed simp

text \<open>Every frame to the hub is the station's own; every packet to the host came in a frame for it.\<close>

lemma run_ok:
  assumes "l2_ok d" "l2_run host es d = Some (ups, out, d')"
  shows "l2_ok d' \<and> l2_mac d' = l2_mac d \<and> list_all (own_frame (l2_mac d)) out \<and>
    (\<forall>p \<in> set ups. \<exists>f. FromHub f \<in> set es \<and> p = drop 14 f \<and> for_us (dst_mac f) d)"
  using assms
proof (induction es arbitrary: d ups out)
  case (Cons e es)
  show ?case
  proof (cases e)
    case (FromHub f)
    obtain up d1 where w: "l2_write f d = (up, d1)" by (cases "l2_write f d")
    note ok = l2_write_ok [OF Cons.prems(1) w]
    obtain ups1 where r: "l2_run host es d1 = Some (ups1, out, d')"
      "ups = (case up of None \<Rightarrow> [] | Some p \<Rightarrow> [p]) @ ups1"
      using Cons.prems(2) FromHub w by (auto split: option.splits)
    have same: "for_us m d1 = for_us m d" for m using ok by (simp add: for_us_def)
    show ?thesis using Cons.IH [OF _ r(1)] ok FromHub r(2) by (auto simp: same split: option.splits)
  next
    case (HostRound x)
    then obtain fs d1 where h: "host x d = Some (fs, d1)" using Cons.prems(2) by (auto split: option.splits)
    note ok = host_ok [OF Cons.prems(1) h]
    obtain out1 where r: "l2_run host es d1 = Some (ups, out1, d')" "out = fs @ out1"
      using Cons.prems(2) HostRound h by auto
    have same: "for_us m d1 = for_us m d" for m using ok by (simp add: for_us_def)
    show ?thesis using Cons.IH [OF _ r(1)] ok HostRound r(2) by (auto simp: same)
  qed
qed simp

end

lemma l2_ok_drained: "l2_ok d \<Longrightarrow> l2_ok (d\<lparr>l2_inject := []\<rparr>)"
  by (simp add: l2_ok_def inject_cap_def)


lemma l2_okD: "l2_ok d \<Longrightarrow> list_all (own_frame (l2_mac d)) (l2_inject d)"
  by (simp add: l2_ok_def)

interpretation darwin_l2: l2_driver darwin_host
proof
  fix x d
  show "darwin_host x d = None \<longleftrightarrow> x = Some []"
    by (auto simp: darwin_host_def l2_wrap_def split: option.split)
next
  fix x d fs d'
  assume "l2_ok d" "darwin_host x d = Some (fs, d')"
  then show "l2_ok d' \<and> l2_mac d' = l2_mac d \<and> list_all (own_frame (l2_mac d)) fs"
    using l2_wrap_ok [of d] l2_okD [of d] by (fastforce simp: darwin_host_def l2_ok_drained split: option.splits)
qed

interpretation windows_l2: l2_driver win_host
proof
  fix x d
  show "win_host x d = None \<longleftrightarrow> x = Some []"
    by (auto simp: win_host_def Let_def l2_wrap_def split: option.split)
next
  fix x d fs d'
  assume "l2_ok d" "win_host x d = Some (fs, d')"
  then show "l2_ok d' \<and> l2_mac d' = l2_mac d \<and> list_all (own_frame (l2_mac d)) fs"
    using l2_wrap_ok [of "d\<lparr>l2_inject := []\<rparr>"] l2_okD [of d] l2_ok_drained [of d]
    by (fastforce simp: win_host_def Let_def split: option.splits)
qed

section \<open>Two stations\<close>

text \<open>A packet the receiver can take: IPv6, or long enough for an IPv4 header.\<close>

definition carried :: "bytes \<Rightarrow> bool" where
  "carried p \<longleftrightarrow> p \<noteq> [] \<and> (ip_version p = 6 \<or> 20 \<le> length p)"

lemma wrapped_parts:
  assumes "l2_ok a" "l2_wrap p a = Some (f, a')"
  shows "dst_mac f = next_hop p a" "src_mac f = l2_mac a" "drop 14 f = p" "14 \<le> length f"
    "ether_type f = (if ip_version p = 6 then 0x86DD else 0x0800)"
proof -
  have f: "f = next_hop p a @ l2_mac a @ (if ip_version p = 6 then [0x86, 0xDD] else [0x08, 0x00]) @ p"
    using assms(2) by (auto simp: l2_wrap_def split: if_splits)
  have len: "length (next_hop p a) = 6" "length (l2_mac a) = 6"
    using next_hop_length [OF assms(1)] assms(1) by (simp_all add: l2_ok_def)
  show "dst_mac f = next_hop p a" "src_mac f = l2_mac a" "drop 14 f = p" "14 \<le> length f"
    using len by (simp_all add: f dst_mac_def src_mac_frame)
  have "f ! 12 = (if ip_version p = 6 then 0x86 else 0x08)" "f ! 13 = (if ip_version p = 6 then 0xDD else 0x00)"
    using len by (simp_all add: f nth_append)
  then show "ether_type f = (if ip_version p = 6 then 0x86DD else 0x0800)"
    by (simp add: ether_type_def)
qed

lemma unwrap_wrapped:
  assumes "l2_ok a" "l2_wrap p a = Some (f, a')" "carried p" "next_hop p a = l2_mac b \<or> next_hop p a = broadcast_mac"
  shows "fst (l2_write f b) = Some p"
    and "ip_version p \<noteq> 6 \<Longrightarrow> map_of (l2_arp (snd (l2_write f b))) (slice 12 16 p) = Some (l2_mac a)"
proof -
  note f = wrapped_parts [OF assms(1,2)]
  have us: "for_us (dst_mac f) b" using assms(4) by (auto simp: for_us_def f(1))
  show "fst (l2_write f b) = Some p"
    using assms(3) us f by (auto simp: l2_write_def Let_def carried_def)
  show "map_of (l2_arp (snd (l2_write f b))) (slice 12 16 p) = Some (l2_mac a)" if "ip_version p \<noteq> 6"
    using that assms(3) us f own_not_broadcast [OF assms(1)] by (simp add: l2_write_def Let_def carried_def)
qed

lemma stranger_ignored:
  assumes "l2_ok b" "length f \<ge> 14" "dst_mac f \<noteq> l2_mac b" "dst_mac f ! 0 AND 1 = 0"
  shows "l2_write f b = (None, b)"
proof -
  have "dst_mac f \<noteq> broadcast_mac" using assms(4) by (auto simp: broadcast_mac_def)
  then show ?thesis using assms by (simp add: l2_write_def for_us_def)
qed

section \<open>Answering ARP\<close>

definition arp_request :: "mac \<Rightarrow> bytes \<Rightarrow> bytes \<Rightarrow> bytes" where
  "arp_request sha spa tpa = broadcast_mac @ sha @ [0x08, 0x06] @
     put16 1 @ put16 0x0800 @ [6, 4] @ put16 1 @ sha @ spa @ replicate 6 0 @ tpa"

definition arp_answer :: "l2 \<Rightarrow> mac \<Rightarrow> bytes \<Rightarrow> bytes" where
  "arp_answer d sha spa = sha @ l2_mac d @ [0x08, 0x06] @ arp_reply (l2_mac d) (l2_ip d) sha spa"

lemma arp_request_parts:
  assumes "length sha = 6" "length spa = 4" "length tpa = 4"
  shows "dst_mac (arp_request sha spa tpa) = broadcast_mac" "ether_type (arp_request sha spa tpa) = 0x0806"
    "length (arp_request sha spa tpa) = 42"
    "get16 (slice 6 8 (drop 14 (arp_request sha spa tpa))) = 1" "slice 8 14 (drop 14 (arp_request sha spa tpa)) = sha"
    "slice 14 18 (drop 14 (arp_request sha spa tpa)) = spa" "slice 24 28 (drop 14 (arp_request sha spa tpa)) = tpa"
proof -
  have b: "length broadcast_mac = 6" by (simp add: broadcast_mac_def)
  show "dst_mac (arp_request sha spa tpa) = broadcast_mac" "length (arp_request sha spa tpa) = 42"
    using assms by (simp_all add: arp_request_def dst_mac_def b)
  have "arp_request sha spa tpa ! 12 = 0x08" "arp_request sha spa tpa ! 13 = 0x06"
    using assms by (simp_all add: arp_request_def nth_append b)
  then show "ether_type (arp_request sha spa tpa) = 0x0806" by (simp add: ether_type_def)
  have d: "drop 14 (arp_request sha spa tpa) =
      put16 1 @ put16 0x0800 @ [6, 4] @ put16 1 @ sha @ spa @ replicate 6 0 @ tpa"
    using assms by (simp add: arp_request_def b)
  show "get16 (slice 6 8 (drop 14 (arp_request sha spa tpa))) = 1" "slice 8 14 (drop 14 (arp_request sha spa tpa)) = sha"
    "slice 14 18 (drop 14 (arp_request sha spa tpa)) = spa" "slice 24 28 (drop 14 (arp_request sha spa tpa)) = tpa"
    using assms unfolding d by (simp_all add: slice_def)
qed

lemma handle_arp_request:
  assumes "28 \<le> length p" "get16 (slice 6 8 p) = 1" "slice 24 28 p = l2_ip d" "l2_ip d \<noteq> no_ip"
    and "length (l2_inject d) < inject_cap"
  shows "l2_inject (handle_arp p d) = l2_inject d @ [arp_answer d (slice 8 14 p) (slice 14 18 p)]"
proof -
  define d1 where "d1 = (if slice 8 14 p \<noteq> broadcast_mac \<and> slice 14 18 p \<noteq> no_ip
    then d\<lparr>l2_arp := mput (slice 14 18 p) (slice 8 14 p) (l2_arp d)\<rparr> else d)"
  have same: "l2_ip d1 = l2_ip d" "l2_mac d1 = l2_mac d" "l2_inject d1 = l2_inject d" by (simp_all add: d1_def)
  have "handle_arp p d = d1\<lparr>l2_inject := l2_inject d1 @ [arp_answer d1 (slice 8 14 p) (slice 14 18 p)]\<rparr>"
    unfolding handle_arp_def Let_def d1_def [symmetric] arp_answer_def using assms same by simp
  then show ?thesis by (simp add: same arp_answer_def)
qed

lemma arp_request_queued:
  assumes "length sha = 6" "length spa = 4" "l2_ok d" "l2_ip d \<noteq> no_ip" "length (l2_inject d) < inject_cap"
  shows "l2_write (arp_request sha spa (l2_ip d)) d = (None, handle_arp (drop 14 (arp_request sha spa (l2_ip d))) d)"
    and "l2_inject (handle_arp (drop 14 (arp_request sha spa (l2_ip d))) d) = l2_inject d @ [arp_answer d sha spa]"
proof -
  have "length (l2_ip d) = 4" using assms(3) by (simp add: l2_ok_def)
  note parts = arp_request_parts [OF assms(1,2) this]
  show "l2_write (arp_request sha spa (l2_ip d)) d = (None, handle_arp (drop 14 (arp_request sha spa (l2_ip d))) d)"
    using parts by (simp add: l2_write_def for_us_def)
  have long: "28 \<le> length (drop 14 (arp_request sha spa (l2_ip d)))" using parts(3) by simp
  show "l2_inject (handle_arp (drop 14 (arp_request sha spa (l2_ip d))) d) = l2_inject d @ [arp_answer d sha spa]"
    using handle_arp_request [OF long parts(4,7) assms(4,5)] unfolding parts(5,6) .
qed

text \<open>On Windows the answer leaves at the next poll; on macOS nothing leaves until the host sends a packet.\<close>

lemma windows_answers:
  assumes "length sha = 6" "length spa = 4" "l2_ok d" "l2_ip d \<noteq> no_ip" "l2_inject d = []"
  shows "\<exists>d'. l2_run win_host [FromHub (arp_request sha spa (l2_ip d)), HostRound None] d = Some ([], [arp_answer d sha spa], d')"
  using arp_request_queued [OF assms(1-4)] assms(5) by (simp add: win_host_def inject_cap_def Let_def)

lemma darwin_silent:
  assumes "\<forall>e \<in> set es. \<forall>p. e \<noteq> HostRound (Some p)" "l2_run darwin_host es d = Some (ups, out, d')"
  shows "out = []"
  using assms
proof (induction es arbitrary: d ups out)
  case (Cons e es)
  show ?case
  proof (cases e)
    case (FromHub f)
    then show ?thesis using Cons by (auto split: prod.splits)
  next
    case (HostRound x)
    then have "x = None" using Cons.prems(1) by (cases x) auto
    then show ?thesis using Cons HostRound by (auto simp: darwin_host_def)
  qed
qed simp

section \<open>The device's header and the link-local addresses\<close>

interpretation utun: codec utun_put utun_get "\<lambda>_. True"
  by unfold_locales (simp add: utun_put_def utun_get_def)

lemma usable_host_ok:
  "usable_host h \<noteq> (0, 0) \<and> usable_host h \<noteq> (255, 255)"
  "fst h < 256 \<Longrightarrow> snd h < 256 \<Longrightarrow> fst (usable_host h) < 256 \<and> snd (usable_host h) < 256"
  by (auto simp: usable_host_def)

lemma hex_nibble_below: "hex_nibble c = Some n \<Longrightarrow> n < 16"
  by (auto simp: hex_nibble_def Let_def split: if_splits)

lemma hex_pair_below: "hex_pair a b = Some n \<Longrightarrow> n < 256"
  by (auto simp: hex_pair_def split: option.splits dest!: hex_nibble_below)

lemma tap_link_local_ok:
  "tap_link_local guid \<noteq> (0, 0) \<and> tap_link_local guid \<noteq> (255, 255)"
  "fst (tap_link_local guid) < 256 \<and> snd (tap_link_local guid) < 256"
  using usable_host_ok hex_pair_below
  by (auto simp: tap_link_local_def Let_def split: option.split)

text \<open>A configured station is in the link-local network and never its first or last address.\<close>

lemma configure_ip_ok:
  assumes "l2_ok d" "assign (link_local_text (usable_host (unat (l2_mac d ! 4), unat (l2_mac d ! 5))))"
  shows "l2_ok (configure_ip assign d) \<and> take 2 (l2_ip (configure_ip assign d)) = [169, 254] \<and>
    l2_ip (configure_ip assign d) \<noteq> [169, 254, 0, 0] \<and> l2_ip (configure_ip assign d) \<noteq> [169, 254, 255, 255]"
proof -
  let ?h = "usable_host (unat (l2_mac d ! 4), unat (l2_mac d ! 5))"
  have "(of_nat (fst ?h), of_nat (snd ?h)) \<noteq> (0 :: byte, 0 :: byte) \<and>
      (of_nat (fst ?h), of_nat (snd ?h)) \<noteq> (255 :: byte, 255 :: byte)"
    by (auto simp: usable_host_def word_unat_eq_iff)
  then show ?thesis using assms by (simp add: configure_ip_def Let_def l2_ok_def)
qed

end
