(* ===== verification/Instances.thy ===== *)
theory Instances
  imports Server Reality Tunnel ConfigForm Adapter BpfGuard L2Emulation
begin

text \<open>
  Concrete values of the parameters that stand for code outside the repository, used to show that
  the laws the development assumes of them can hold: an AEAD that appends a constant tag, a curve
  whose shared secret is constant, an erasure code that is never asked, and an environment of these.
\<close>

definition tag_seal :: aead_seal where
  "tag_seal k n p a = p @ replicate 16 0"

definition tag_open :: aead_open where
  "tag_open k n c a = (if length c < 16 then None else Some (take (length c - 16) c))"

lemma tag_law: "aead_law tag_seal tag_open"
  by (simp add: aead_law_def tag_seal_def tag_open_def)

definition flat_prims :: reality_prims where
  "flat_prims = \<lparr>pr_sha256 = (\<lambda>_. replicate 32 1), pr_seal = tag_seal, pr_open = tag_open,
     pr_ecdh = (\<lambda>_ _. Some (replicate 32 2)), pr_pub_ok = (\<lambda>_. True)\<rparr>"

definition no_rs :: rs_code where
  "no_rs = \<lparr>rs_new_ok = (\<lambda>_ _. False), rs_encode = (\<lambda>_ _ _. None), rs_reconstruct = (\<lambda>_ _ _. None)\<rparr>"

lemma flat_prims_law: "aead_law (pr_seal flat_prims) (pr_open flat_prims)"
  by (simp add: flat_prims_def tag_law)

definition tag_cipher :: cipher where
  "tag_cipher = \<lparr>c_key = replicate 16 3, c_counter = 0, c_peer = 7, c_salt = [1, 2, 3, 4]\<rparr>"

lemma tag_cipher_ok: "cipher_ok tag_cipher"
  by (simp add: cipher_ok_def tag_cipher_def)


definition pipe21 :: pipe where
  "pipe21 = \<lparr>p_enc = \<lparr>e_k = 2, e_r = 1, e_buf = [], e_block = 0\<rparr>, p_dec = fresh_decoder 2 1,
     p_delay = 0, p_idx = 0, p_has_repair = True, p_queue = None\<rparr>"

lemma pipe21_new: "new_pipe no_rs 2 1 0 True = Inr pipe21"
  by (simp add: new_pipe_def new_encoder_def new_decoder_def pipe21_def fresh_decoder_def MaxK_def MaxR_def)

text \<open>A ClientHello of the modelled client, and the parameters that admit it.\<close>

definition flat_hello :: "64 word \<Rightarrow> client_hello" where
  "flat_hello t = \<lparr>ch_random = replicate 32 5, ch_session_id = replicate 8 0 @ put64 t @ replicate 16 0,
     ch_x25519 = Some (replicate 32 6), ch_server_name = ''a''\<rparr>"

definition flat_params :: reality_params where
  "flat_params = \<lparr>rp_privs = [replicate 32 4], rp_dest = ''d:443'', rp_names = [], rp_short_ids = [replicate 8 0],
     rp_window = word_of_int 90 * 1000000000, rp_replay = new_replay_cache 180\<rparr>"

lemma flat_params_window: "window_params 90 flat_params"
  by (simp add: window_params_def flat_params_def new_replay_cache_def cache_ok_def)

lemma flat_simps [simp]:
  "ch_x25519 (flat_hello t) = Some (replicate 32 6)" "ch_server_name (flat_hello t) = ''a''"
  "pr_ecdh flat_prims a b = Some (replicate 32 2)" "pr_pub_ok flat_prims a"
  "rp_privs flat_params = [replicate 32 4]" "rp_names flat_params = []"
  "rp_short_ids flat_params = [replicate 8 0]" "rp_replay flat_params = \<lparr>rc_seen = [], rc_ttl = 180\<rparr>"
  "rp_window flat_params = word_of_int 90 * 1000000000"
  by (simp_all add: flat_hello_def flat_prims_def flat_params_def new_replay_cache_def)

lemma flat_open:
  "open_reality_auth flat_prims sh (ch_random (flat_hello t)) (ch_session_id (flat_hello t)) =
     Some (replicate 8 0, t)"
  by (simp add: open_reality_auth_def flat_prims_def flat_hello_def tag_open_def realitySessionIDLen_def
      realityShortIDLen_def slice_append_over)

lemma flat_hello_time: "hello_time flat_prims flat_params (flat_hello t) = Some t"
  by (simp add: hello_time_def flat_open map_filter_simps)

lemma flat_authenticate:
  assumes "sane_time t"
  shows "fst (authenticate flat_prims flat_params t (flat_hello (word_of_int t)))"
  using time_ok_sane [of t t 90] assms
  by (simp add: authenticate_def flat_open short_id_allowed_def cache_fresh_def mdrop_def)

definition flat_env :: env where
  "flat_env = \<lparr>en_rs = no_rs, en_seal = tag_seal, en_open = tag_open, en_sha256 = (\<lambda>_. replicate 32 1),
     en_hkdf = (\<lambda>_ _. replicate 16 3), en_bcrypt = (\<lambda>a b. a = b), en_send_ok = (\<lambda>_. True),
     en_format_time = (\<lambda>_. ''t''), en_parse_ip = (\<lambda>_. True), en_version = ''b1'',
     en_files = \<lparr>fl_exe = None, fl_resolve = (\<lambda>_. None), fl_stat = (\<lambda>_. False), fl_open = (\<lambda>_. None)\<rparr>,
     en_disk_ok = True\<rparr>"

definition flat_config :: server_config where
  "flat_config = \<lparr>sc_listen = ''0.0.0.0:5555'', sc_listen_tcp = '''', sc_status_listen = '''', sc_update_listen = '''',
     sc_update_dir = ''d'',
     sc_hubs = [\<lparr>hcfg_id = 1, hcfg_name = ''h'', hcfg_users = [\<lparr>uc_login = ''bob'', uc_hash = ''x''\<rparr>]\<rparr>],
     sc_fec = \<lparr>fc_k = 4, fc_r = 1, fc_delay = 0\<rparr>, sc_tls = \<lparr>ts_cert = '''', ts_key = ''''\<rparr>,
     sc_reality = \<lparr>rs_listen = '''', rs_dest = '''', rs_names = [], rs_private_key = '''', rs_private_keys = [],
       rs_short_ids = [], rs_time_window = 0, rs_disable = False\<rparr>\<rparr>"

text \<open>A server with one user, that user's client, and their handshake.\<close>

definition bob_server :: server_config where
  "bob_server = flat_config\<lparr>sc_hubs := [\<lparr>hcfg_id = 1, hcfg_name = ''h'',
     hcfg_users = [\<lparr>uc_login = ''bob'', uc_hash = hex_encode (replicate 32 1)\<rparr>]\<rparr>]\<rparr>"

definition bob :: client_config where
  "bob = \<lparr>cc_server = ''h:1'', cc_server_tcp = '''', cc_status_listen = '''', cc_hub_id = 1, cc_login = ''bob'', cc_password = ''p'',
     cc_transport = ''udp'', cc_mode = '''', cc_tun_name = '''', cc_tun_ip = '''', cc_fec = \<lparr>fc_k = 4, fc_r = 1, fc_delay = 0\<rparr>, cc_tls_sni = '''', cc_tls_skip = False,
     cc_udp = \<lparr>ud_knock_count = 0, ud_knock_size = 0, ud_attempts = 3\<rparr>,
     cc_bridge = \<lparr>br_tap = '''', br_nic = '''', br_setup = '''', br_mss_clamp = 0\<rparr>,
     cc_reality = \<lparr>rcl_addr = '''', rcl_sni = '''', rcl_public_key = '''', rcl_short_id = '''', rcl_fingerprint = ''''\<rparr>,
     cc_mirrors = [], cc_timeout = '''', cc_minimize = False, cc_auto_connect = False, cc_start_windows = False,
     cc_no_battery = False\<rparr>"

definition bob_origin :: origin where
  "bob_origin = \<lparr>og_send = ''u'', og_addr = ''1.2.3.4:5'', og_mode = ''udp'', og_close = None\<rparr>"

definition bob_login :: "session_id \<times> effect list \<times> server" where
  "bob_login = handle_auth flat_env 7 [1, 2, 3, 4] 0 bob_origin (request_payload flat_env bob) (new_server bob_server)"

definition bob_auth :: "auth_failure + auth_info" where
  "bob_auth = auth_loop flat_env [5, 6, 7, 8] bob (map packet_of (fst (snd bob_login)))"

definition bob_session :: "fec_error + client_session" where
  "bob_session = open_session flat_env 0 bob ''udp'' (projr bob_auth) False"

lemma bob_login_ok: "fst bob_login = 7" by code_simp
lemma bob_found: "find_session (snd (snd bob_login)) 7 = Some 0" by code_simp
lemma bob_login_tables: "server_ok (snd (snd bob_login))" unfolding bob_login_def by (rule handle_auth_ok [OF new_server_ok])
lemma bob_auth_ok: "\<not> isl bob_auth" by code_simp
lemma bob_session_ok: "\<not> isl bob_session" by code_simp

text \<open>The same user from a second machine, after the first.\<close>

definition far_origin :: origin where
  "far_origin = \<lparr>og_send = ''v'', og_addr = ''5.6.7.8:9'', og_mode = ''udp'', og_close = None\<rparr>"

definition far_login :: "session_id \<times> effect list \<times> server" where
  "far_login = handle_auth flat_env 8 [4, 3, 2, 1] 1 far_origin (request_payload flat_env bob) (snd (snd bob_login))"

definition far_auth :: "auth_failure + auth_info" where
  "far_auth = auth_loop flat_env [8, 7, 6, 5] bob (map packet_of (fst (snd far_login)))"

definition far_session :: "fec_error + client_session" where
  "far_session = open_session flat_env 1 bob ''udp'' (projr far_auth) False"

definition far_hub :: hub where
  "far_hub = the (manager_get 1 (sv_hubs (snd (snd far_login))))"

lemma far_login_ok: "fst far_login = 8" by code_simp
lemma far_auth_ok: "\<not> isl far_auth" by code_simp
lemma far_session_ok: "\<not> isl far_session" by code_simp
lemma far_hub_ok: "manager_get 1 (sv_hubs (snd (snd far_login))) \<noteq> None" by code_simp
lemma far_clients: "sv_clients (snd (snd far_login)) = [((1, 7), 0), ((1, 8), 1)]" by code_simp
lemma far_hub_state: "h_clients far_hub = [(7, \<lparr>hc_session = 7, hc_login = ''bob''\<rparr>), (8, \<lparr>hc_session = 8, hc_login = ''bob''\<rparr>)]"
  "h_macs far_hub = []" by code_simp+
lemma far_endpoints: "ss_raw (get_obj (snd (snd far_login)) (Suc 0)) = ''v''" "ss_raw2 (get_obj (snd (snd far_login)) (Suc 0)) = None"
  by code_simp+

section \<open>A saved configuration, adapters and a capture\<close>

definition home_config :: client_config where
  "home_config = bob\<lparr>cc_tun_name := ''vpn'', cc_fec := \<lparr>fc_k = 4, fc_r = 2, fc_delay = 50\<rparr>,
     cc_udp := \<lparr>ud_knock_count = 3, ud_knock_size = 16, ud_attempts = 3\<rparr>,
     cc_bridge := \<lparr>br_tap = ''tap'', br_nic = '''', br_setup = ''netbridge'', br_mss_clamp = 1200\<rparr>,
     cc_reality := \<lparr>rcl_addr = '''', rcl_sni = ''s'', rcl_public_key = ''k'', rcl_short_id = '''', rcl_fingerprint = ''''\<rparr>,
     cc_mirrors := [''m'']\<rparr>"

definition plain_toolkit :: toolkit where
  "plain_toolkit = \<lparr>tk_select = (\<lambda>opts old new. if new \<in> set opts then new else old),
     tk_set_text = (\<lambda>items old new. new), tk_set_model = (\<lambda>items old. '''')\<rparr>"

definition blank_form :: form where
  "blank_form = \<lparr>ff_server = '''', ff_login = '''', ff_password = '''', ff_fec_k = '''', ff_fec_r = '''',
     ff_fec_delay = '''', ff_sni = '''', ff_knock_count = '''', ff_knock_size = '''', ff_attempts = '''', ff_nic = '''',
     ff_tap = '''', ff_tun_name = '''', ff_tun_ip = '''', ff_status = '''', ff_timeout = '''', ff_minimize = False,
     ff_auto_connect = False, ff_battery = True\<rparr>"

definition blank_main :: main_form where
  "blank_main = form.extend blank_form (main_form.fields '''' [] [] '''' '''' '''' '''')"

definition blank_win :: win_form where
  "blank_win = form.extend blank_form (win_form.fields (- 1) [] '''' [] 0 0 0 0 False)"

lemma home_form: "form_config home_config"
  by (simp add: form_config_def home_config_def bob_def method_items_def go_int_def trim_space_def trim_def
      trim_left_def trim_right_def space_chars_def)

lemma plain_ready: "selects plain_toolkit" "win_ready plain_toolkit f"
  by (simp_all add: selects_def win_ready_def plain_toolkit_def)

text \<open>One physical interface, whose capture can be opened.\<close>

definition home_adapters :: adapter_env where
  "home_adapters = \<lparr>ae_adapters = [],
     ae_ifaces = Some [\<lparr>if_name = ''eth'', if_up = True, if_hwaddr = [2, 2, 2, 2, 2, 2], if_addrs = Some [[169, 254, 1, 1]]\<rparr>],
     ae_by_name = (\<lambda>n. None), ae_direct = Some, ae_bridge = (\<lambda>bc i n. True), ae_bridge_name = (\<lambda>tap nic. nic)\<rparr>"

definition home_iface :: bridge_iface where
  "home_iface = \<lparr>bi_name = ''eth'', bi_hwaddr = [2, 2, 2, 2, 2, 2], bi_addr = [169, 254, 1, 1]\<rparr>"

lemma home_opened: "open_adapter home_adapters home_config = Inr (OpenedBridge home_iface ''eth'')"
  by code_simp

text \<open>A read of two packets: an echo of an injected frame, and a frame of a local station.\<close>

definition tiny_layout :: bpf_layout where
  "tiny_layout = \<lparr>bl_size = 2, bl_caplen = (\<lambda>h. unat (h ! 1)), bl_hdrlen = (\<lambda>h. 2)\<rparr>"

definition station_frame :: "byte \<Rightarrow> bytes" where
  "station_frame n = replicate 6 9 @ replicate 6 n @ [8, 0]"

definition echo_read :: bytes where
  "echo_read = kernel_packet ([0, 14], station_frame 1) @ kernel_packet ([0, 14], station_frame 2)"

text \<open>Two virtual stations, a packet from the one to the other and its answer.\<close>

definition left_station :: l2 where "left_station = new_l2 (replicate 6 8) no_ip"
definition right_station :: l2 where "right_station = new_l2 (replicate 6 16) no_ip"
definition ping :: bytes where "ping = 0x45 # replicate 11 0 @ [10, 0, 0, 1, 10, 0, 0, 2]"
definition pong :: bytes where "pong = 0x45 # replicate 11 0 @ [10, 0, 0, 2, 10, 0, 0, 1]"

lemma stations_ok: "l2_ok left_station" "l2_ok right_station"
  by (simp_all add: left_station_def right_station_def new_l2_ok no_ip_def)

end
