(* ===== verification/Upstream.thy ===== *)
theory Upstream
  imports Tunnel
begin

text \<open>
  The way up: the packets of the client's \<open>sendFrame\<close>, taken in by the server's handlers, against a
  reference that hands every frame straight to the hub. Each packet may arrive several times in
  succession, over either path, as it does when both endpoints send it on two links.
\<close>

section \<open>The reference\<close>

text \<open>What the sealed path comes to for one frame: too short for an Ethernet header, or one hub forward.\<close>

definition relay :: "env \<Rightarrow> time \<Rightarrow> 16 word \<Rightarrow> session_id \<Rightarrow> bytes \<Rightarrow> server \<Rightarrow> effect list \<times> server" where
  "relay env now b n f sv = (if length f < 14 then ([], sv) else forward env now b n f sv)"

fun relay_all :: "env \<Rightarrow> 16 word \<Rightarrow> session_id \<Rightarrow> (time \<times> bytes) list \<Rightarrow> server \<Rightarrow> effect list \<times> server" where
  "relay_all env b n [] sv = ([], sv)"
| "relay_all env b n ((now, f) # fs) sv =
     (case relay env now b n f sv of (out, sv1) \<Rightarrow> case relay_all env b n fs sv1 of (rest, sv2) \<Rightarrow> (out @ rest, sv2))"

lemma relay_all_append:
  "relay_all env b n (fs @ gs) sv =
     (case relay_all env b n fs sv of (out, sv1) \<Rightarrow> case relay_all env b n gs sv1 of (rest, sv2) \<Rightarrow> (out @ rest, sv2))"
  by (induction fs arbitrary: sv) (auto split: prod.split)

fun server_run :: "env \<Rightarrow> server_event list \<Rightarrow> server \<Rightarrow> effect list \<times> server" where
  "server_run env [] sv = ([], sv)"
| "server_run env (e # es) sv =
     (case server_event_step env sv e of (out, sv1) \<Rightarrow> case server_run env es sv1 of (rest, sv2) \<Rightarrow> (out @ rest, sv2))"

lemma server_run_append:
  "server_run env (as @ bs) sv =
     (case server_run env as sv of (out, sv1) \<Rightarrow> case server_run env bs sv1 of (rest, sv2) \<Rightarrow> (out @ rest, sv2))"
  by (induction as arbitrary: sv) (auto split: prod.split)

section \<open>A delivery does not look at the sender's own object\<close>

lemma put_put_obj [simp]: "put_obj r s (put_obj r t sv) = put_obj r s sv"
  by (simp add: put_obj_def)

lemma put_obj_commute: "q \<noteq> r \<Longrightarrow> put_obj q s (put_obj r t sv) = put_obj r t (put_obj q s sv)"
  by (simp add: put_obj_def list_update_swap)

lemma deliver_put:
  "\<forall>t \<in> set ts. map_of (sv_clients sv) (b, t) \<noteq> Some r \<Longrightarrow>
     deliver env now b f ts (put_obj r s sv) = map_prod id (put_obj r s) (deliver env now b f ts sv)"
proof (induction ts arbitrary: sv)
  case (Cons t ts)
  show ?case
  proof (cases "map_of (sv_clients sv) (b, t)")
    case None
    then show ?thesis using Cons by simp
  next
    case (Some q)
    then have q: "q \<noteq> r" using Cons.prems by auto
    obtain out u where u: "session_send env now f (get_obj sv q) = (out, u)" by fastforce
    have "deliver env now b f ts (put_obj r s (put_obj q u sv)) =
        map_prod id (put_obj r s) (deliver env now b f ts (put_obj q u sv))"
      using Cons.prems by (intro Cons.IH) simp
    then show ?thesis using q u Some
      by (simp add: get_put_obj put_obj_commute [OF q] case_prod_beta)
  qed
qed simp

definition attached :: "nat \<Rightarrow> session_id \<Rightarrow> server \<Rightarrow> bool" where
  "attached r n sv \<longleftrightarrow> server_ok sv \<and> find_session sv n = Some r"

lemma forward_put:
  assumes a: "attached r n sv"
  shows "forward env now b n f (put_obj r s sv) = map_prod id (put_obj r s) (forward env now b n f sv)"
proof (cases "manager_get b (sv_hubs sv)")
  case None
  then show ?thesis by (simp add: forward_def)
next
  case (Some h)
  obtain ts h' where f: "hub_forward now n f h = (ts, h')" by fastforce
  let ?sv = "sv\<lparr>sv_hubs := mput b h' (sv_hubs sv)\<rparr>"
  have ok: "server_ok sv" and r: "find_session sv n = Some r" using a by (simp_all add: attached_def)
  have n: "n \<notin> set ts" using hub_targets_other(1) [OF _ f] server_okD(3) [OF ok Some] by simp
  have "map_of (sv_clients ?sv) (b, t) \<noteq> Some r" if "t \<in> set ts" for t
    using server_okD(1) [OF ok r] server_okD(2) [OF ok, of b t r] n that by auto
  moreover have "(put_obj r s sv)\<lparr>sv_hubs := mput b h' (sv_hubs sv)\<rparr> = put_obj r s ?sv" by (simp add: put_obj_def)
  ultimately show ?thesis using Some f deliver_put [of ts ?sv b r env now f s] by (simp add: forward_def)
qed

lemma relay_attached: "attached r n sv \<Longrightarrow> relay env now b n f sv = (out, sv') \<Longrightarrow> attached r n sv'"
  using forward_spec [of env now b n f sv out sv']
  by (auto simp: relay_def attached_def same_table_def find_session_def split: if_splits)

lemma relay_all_attached: "attached r n sv \<Longrightarrow> relay_all env b n fs sv = (out, sv') \<Longrightarrow> attached r n sv'"
  by (induction fs arbitrary: sv out) (auto split: prod.splits, blast dest: relay_attached)

lemma attached_put:
  assumes "attached r n sv"
  shows "find_session (put_obj r s sv) n = Some r" "get_obj (put_obj r s sv) r = s"
  using assms server_okD(1) [of sv n r] by (auto simp: attached_def get_put_obj)

lemma relay_no_hub: "manager_get b (sv_hubs sv) = None \<Longrightarrow> relay_all env b n fs sv = ([], sv)"
  by (induction fs) (auto simp: relay_def forward_def)

text \<open>The frames the code forwards for a packet are the reference's; the sender's object only counts them.\<close>

lemma forward_all_relay:
  "attached r n sv \<Longrightarrow> \<exists>x'. forward_all env now r b n fs (put_obj r (s\<lparr>ss_rx := x\<rparr>) sv) =
     map_prod id (put_obj r (s\<lparr>ss_rx := x'\<rparr>)) (relay_all env b n (map (Pair now) fs) sv)"
proof (induction fs arbitrary: sv x)
  case Nil
  then show ?case by auto
next
  case (Cons f fs)
  show ?case
  proof (cases "length f < 14")
    case True
    then show ?thesis using Cons by (simp add: relay_def case_prod_beta)
  next
    case False
    obtain out sv1 where f: "forward env now b n f sv = (out, sv1)" by fastforce
    then have "relay env now b n f sv = (out, sv1)" using False by (simp add: relay_def)
    note a1 = relay_attached [OF Cons.prems this]
    have "count_rx r (put_obj r (s\<lparr>ss_rx := x\<rparr>) sv) = put_obj r (s\<lparr>ss_rx := x + 1\<rparr>) sv"
      using attached_put [OF Cons.prems] by (simp add: count_rx_def)
    moreover obtain x' where "forward_all env now r b n fs (put_obj r (s\<lparr>ss_rx := x + 1\<rparr>) sv1) =
        map_prod id (put_obj r (s\<lparr>ss_rx := x'\<rparr>)) (relay_all env b n (map (Pair now) fs) sv1)"
      using Cons.IH [OF a1] by blast
    ultimately show ?thesis using False f forward_put [OF Cons.prems, of env now b f]
      by (intro exI [of _ x']) (simp add: relay_def case_prod_beta)
  qed
qed

lemma forward_recovered_relay:
  assumes "attached r n sv"
  shows "\<exists>x'. forward_recovered env now r n fs (put_obj r (s\<lparr>ss_rx := x\<rparr>) sv) =
     map_prod id (put_obj r (s\<lparr>ss_rx := x'\<rparr>)) (relay_all env (ss_hub s) n (map (Pair now) fs) sv)"
proof (cases "manager_get (ss_hub s) (sv_hubs sv)")
  case None
  then show ?thesis using attached_put [OF assms] by (auto simp: forward_recovered_def relay_no_hub)
next
  case (Some h)
  then show ?thesis using forward_all_relay [OF assms] attached_put [OF assms] by (simp add: forward_recovered_def)
qed

section \<open>What a session's object takes in\<close>

text \<open>
  After the events the session's object is \<open>s'\<close> (up to its receive counter), and everything else is as
  if the frames \<open>del\<close> had been handed to the hub at the given times.
\<close>

definition takes :: "env \<Rightarrow> nat \<Rightarrow> server_event list \<Rightarrow> session \<Rightarrow> (time \<times> bytes) list \<Rightarrow> session \<Rightarrow> bool" where
  "takes env r es s del s' \<longleftrightarrow> ss_id s' = ss_id s \<and> ss_hub s' = ss_hub s \<and>
     (\<forall>sv x. attached r (ss_id s) sv \<longrightarrow> (\<exists>x'. server_run env es (put_obj r (s\<lparr>ss_rx := x\<rparr>) sv) =
        map_prod id (put_obj r (s'\<lparr>ss_rx := x'\<rparr>)) (relay_all env (ss_hub s) (ss_id s) del sv)))"

lemma takes_nil: "takes env r [] s [] s"
  by (auto simp: takes_def)

lemma takes_append:
  assumes 1: "takes env r es s d s1" and 2: "takes env r es' s1 d' s2"
  shows "takes env r (es @ es') s (d @ d') s2"
  unfolding takes_def
proof (intro conjI allI impI)
  show "ss_id s2 = ss_id s" "ss_hub s2 = ss_hub s" using 1 2 by (simp_all add: takes_def)
  fix sv x
  assume a: "attached r (ss_id s) sv"
  obtain o1 sv1 where r1: "relay_all env (ss_hub s) (ss_id s) d sv = (o1, sv1)" by fastforce
  obtain o2 sv2 where r2: "relay_all env (ss_hub s) (ss_id s) d' sv1 = (o2, sv2)" by fastforce
  obtain x1 where s1: "server_run env es (put_obj r (s\<lparr>ss_rx := x\<rparr>) sv) = (o1, put_obj r (s1\<lparr>ss_rx := x1\<rparr>) sv1)"
    using 1 a r1 unfolding takes_def by fastforce
  have "attached r (ss_id s1) sv1" using relay_all_attached [OF a r1] 1 by (simp add: takes_def)
  then obtain x2 where "server_run env es' (put_obj r (s1\<lparr>ss_rx := x1\<rparr>) sv1) = (o2, put_obj r (s2\<lparr>ss_rx := x2\<rparr>) sv2)"
    using 1 2 r2 unfolding takes_def by fastforce
  then show "\<exists>x'. server_run env (es @ es') (put_obj r (s\<lparr>ss_rx := x\<rparr>) sv) =
      map_prod id (put_obj r (s2\<lparr>ss_rx := x'\<rparr>)) (relay_all env (ss_hub s) (ss_id s) (d @ d') sv)"
    using s1 r1 r2 by (intro exI [of _ x2]) (simp add: server_run_append relay_all_append)
qed

text \<open>The events that carry one packet, and the time of an event.\<close>

definition carries :: "bytes \<Rightarrow> server_event \<Rightarrow> bool" where
  "carries p e \<longleftrightarrow> (case e of Packet _ _ _ _ _ q \<Rightarrow> q = p | _ \<Rightarrow> False)"

definition event_time :: "server_event \<Rightarrow> time" where
  "event_time e = (case e of Packet _ _ now _ _ _ \<Rightarrow> now | _ \<Rightarrow> 0)"

text \<open>An opened data packet and an opened fragment.\<close>

lemma takes_data:
  assumes o: "open_packet (en_open env) (ss_cipher s) enc (ss_window s) = (Inr f, w)"
    and q: "unpack_data_seq seq = (bid, idx)" and p: "pipe_recv_data (en_rs env) now bid idx f (ss_pipe s) = (Inr fs, p)"
  shows "takes env r [Packet rnd salt now og sec
      (mk_packet \<lparr>hdr_type = FrameData, hdr_hub = hub, hdr_session = ss_id s, hdr_seq = seq\<rparr> enc)] s (map (Pair now) fs)
    ((register_secondary sec og (s\<lparr>ss_last_seen := now, ss_window := w\<rparr>))\<lparr>ss_pipe := p\<rparr>)"
  unfolding takes_def
proof (intro conjI allI impI)
  let ?s = "(register_secondary sec og (s\<lparr>ss_last_seen := now, ss_window := w\<rparr>))\<lparr>ss_pipe := p\<rparr>"
  show "ss_id ?s = ss_id s" and hub: "ss_hub ?s = ss_hub s" by (simp_all add: register_secondary_def)
  fix sv x
  assume a: "attached r (ss_id s) sv"
  have "register_secondary sec og (s\<lparr>ss_rx := x, ss_last_seen := now, ss_window := w\<rparr>)\<lparr>ss_pipe := p\<rparr> = ?s\<lparr>ss_rx := x\<rparr>"
    by (simp add: register_secondary_def)
  then show "\<exists>x'. server_run env [Packet rnd salt now og sec
        (mk_packet \<lparr>hdr_type = FrameData, hdr_hub = hub, hdr_session = ss_id s, hdr_seq = seq\<rparr> enc)] (put_obj r (s\<lparr>ss_rx := x\<rparr>) sv) =
      map_prod id (put_obj r (?s\<lparr>ss_rx := x'\<rparr>)) (relay_all env (ss_hub s) (ss_id s) (map (Pair now) fs) sv)"
    using forward_recovered_relay [OF a, where env = env and now = now and fs = fs and s = ?s and x = x] attached_put [OF a] o p q hub
    by (simp add: server_event_step_def handle_packet_def handle_data_def FrameData_def FrameAuth_def
        case_prod_beta Let_def)
qed

lemma takes_fragment:
  assumes o: "open_packet (en_open env) (ss_cipher s) enc (ss_window s) = (Inr pc, w)"
    and q: "unpack_frag_seq seq = (fid, idx, cnt)" and ra: "reasm_add now fid idx cnt pc (ss_reasm s) = (whole, ra)"
  shows "takes env r [Packet rnd salt now og sec
      (mk_packet \<lparr>hdr_type = FrameDataFrag, hdr_hub = hub, hdr_session = ss_id s, hdr_seq = seq\<rparr> enc)] s
      (case whole of None \<Rightarrow> [] | Some f \<Rightarrow> [(now, f)])
    ((register_secondary sec og (s\<lparr>ss_last_seen := now, ss_window := w\<rparr>))\<lparr>ss_reasm := ra\<rparr>)"
  unfolding takes_def
proof (intro conjI allI impI)
  let ?s = "(register_secondary sec og (s\<lparr>ss_last_seen := now, ss_window := w\<rparr>))\<lparr>ss_reasm := ra\<rparr>"
  show "ss_id ?s = ss_id s" and hub: "ss_hub ?s = ss_hub s" by (simp_all add: register_secondary_def)
  fix sv x
  assume a: "attached r (ss_id s) sv"
  have "register_secondary sec og (s\<lparr>ss_rx := x, ss_last_seen := now, ss_window := w\<rparr>)\<lparr>ss_reasm := ra\<rparr> = ?s\<lparr>ss_rx := x\<rparr>"
    by (simp add: register_secondary_def)
  then show "\<exists>x'. server_run env [Packet rnd salt now og sec
        (mk_packet \<lparr>hdr_type = FrameDataFrag, hdr_hub = hub, hdr_session = ss_id s, hdr_seq = seq\<rparr> enc)] (put_obj r (s\<lparr>ss_rx := x\<rparr>) sv) =
      map_prod id (put_obj r (?s\<lparr>ss_rx := x'\<rparr>))
        (relay_all env (ss_hub s) (ss_id s) (case whole of None \<Rightarrow> [] | Some f \<Rightarrow> [(now, f)]) sv)"
    using forward_recovered_relay [OF a, where env = env and now = now and fs = "case whole of None \<Rightarrow> [] | Some f \<Rightarrow> [f]"
        and s = ?s and x = x] attached_put [OF a] o ra q hub
    by (cases whole) (auto simp: server_event_step_def handle_packet_def handle_frag_def FrameData_def FrameDataFrag_def FrameAuth_def
        case_prod_beta Let_def)
qed

section \<open>Copies\<close>

text \<open>A packet the session's object has no more use for: its counter is spent, or its block is done.\<close>

definition spent :: "env \<Rightarrow> bytes \<Rightarrow> session \<Rightarrow> bool" where
  "spent env p s \<longleftrightarrow> (case split_packet p of None \<Rightarrow> False | Some (h, payload) \<Rightarrow> hdr_session h = ss_id s \<and>
     ((hdr_type h = FrameData \<or> hdr_type h = FrameDataFrag) \<and>
        (\<exists>e. open_packet (en_open env) (ss_cipher s) payload (ss_window s) = (Inl e, ss_window s)) \<or>
      hdr_type h = FrameRepair \<and> repair_block_done (fst (unpack_repair_seq (hdr_seq h))) (ss_pipe s)))"

lemma takes_spent:
  assumes p: "spent env p s" and c: "carries p e"
  shows "\<exists>t. takes env r [e] s [] (s\<lparr>ss_last_seen := t\<rparr>)"
proof -
  obtain rnd salt now og sec where e: "e = Packet rnd salt now og sec p"
    using c by (auto simp: carries_def split: server_event.splits)
  obtain h payload where h: "split_packet p = Some (h, payload)" "hdr_session h = ss_id s"
    using p by (auto simp: spent_def split: option.splits)
  show ?thesis
  proof (cases "hdr_type h = FrameRepair")
    case True
    then have d: "repair_block_done (fst (unpack_repair_seq (hdr_seq h))) (ss_pipe s)"
      using p h by (auto simp: spent_def FrameRepair_def FrameData_def FrameDataFrag_def)
    have "takes env r [e] s [] s" unfolding takes_def
    proof (intro conjI allI impI)
      fix sv x
      assume a: "attached r (ss_id s) sv"
      show "\<exists>x'. server_run env [e] (put_obj r (s\<lparr>ss_rx := x\<rparr>) sv) =
          map_prod id (put_obj r (s\<lparr>ss_rx := x'\<rparr>)) (relay_all env (ss_hub s) (ss_id s) [] sv)"
        using attached_put [OF a] d h True
        by (auto simp: e server_event_step_def handle_packet_def handle_repair_def FrameRepair_def FrameAuth_def
            FrameData_def FrameDataFrag_def case_prod_beta Let_def)
    qed simp_all
    then show ?thesis by (intro exI [of _ "ss_last_seen s"]) simp
  next
    case False
    then obtain err where o: "open_packet (en_open env) (ss_cipher s) payload (ss_window s) = (Inl err, ss_window s)"
      and ty: "hdr_type h = FrameData \<or> hdr_type h = FrameDataFrag"
      using p h by (auto simp: spent_def)
    have "takes env r [e] s [] (s\<lparr>ss_last_seen := now\<rparr>)" unfolding takes_def
    proof (intro conjI allI impI)
      fix sv x
      assume a: "attached r (ss_id s) sv"
      have swap: "s\<lparr>ss_rx := x, ss_last_seen := now\<rparr> = s\<lparr>ss_last_seen := now, ss_rx := x\<rparr>" by simp
      show "\<exists>x'. server_run env [e] (put_obj r (s\<lparr>ss_rx := x\<rparr>) sv) =
          map_prod id (put_obj r (s\<lparr>ss_last_seen := now, ss_rx := x'\<rparr>)) (relay_all env (ss_hub s) (ss_id s) [] sv)"
        using ty
      proof (rule disjE)
        assume "hdr_type h = FrameData"
        then show ?thesis using attached_put [OF a] o h
          by (intro exI [of _ x]) (simp add: e server_event_step_def handle_packet_def handle_data_def FrameAuth_def
              FrameData_def Let_def swap)
      next
        assume "hdr_type h = FrameDataFrag"
        then show ?thesis using attached_put [OF a] o h
          by (intro exI [of _ x]) (simp add: e server_event_step_def handle_packet_def handle_frag_def FrameAuth_def
              FrameData_def FrameDataFrag_def Let_def swap)
      qed
    qed simp_all
    then show ?thesis by blast
  qed
qed

lemma spent_last_seen [simp]: "spent env p (s\<lparr>ss_last_seen := t\<rparr>) = spent env p s"
  by (simp add: spent_def split: option.split)

lemma takes_copies:
  "spent env p s \<Longrightarrow> list_all (carries p) es \<Longrightarrow> \<exists>t. takes env r es s [] (s\<lparr>ss_last_seen := t\<rparr>)"
proof (induction es arbitrary: s)
  case Nil
  then show ?case using takes_nil [of env r s] by (intro exI [of _ "ss_last_seen s"]) simp
next
  case (Cons e es)
  obtain t where t: "takes env r [e] s [] (s\<lparr>ss_last_seen := t\<rparr>)" using takes_spent Cons.prems by fastforce
  obtain u where "takes env r es (s\<lparr>ss_last_seen := t\<rparr>) [] (s\<lparr>ss_last_seen := t, ss_last_seen := u\<rparr>)"
    using Cons.IH [of "s\<lparr>ss_last_seen := t\<rparr>"] Cons.prems by auto
  then have "takes env r ([e] @ es) s ([] @ []) (s\<lparr>ss_last_seen := u\<rparr>)" using takes_append [OF t] by fastforce
  then show ?case by auto
qed

section \<open>The link\<close>

text \<open>The packets of the primary path, and groups of events that carry them, each at least once.\<close>

definition primary :: "link_out \<Rightarrow> bytes list" where
  "primary out = map snd (filter (\<lambda>x. fst x = Primary) out)"

lemma primary_simps [simp]:
  "primary [] = []" "primary (a @ b) = primary a @ primary b" "primary (send_on_both c p) = [p]"
  by (simp_all add: primary_def send_on_both_def)

definition arrives :: "bytes \<Rightarrow> server_event list \<Rightarrow> bool" where
  "arrives p g \<longleftrightarrow> g \<noteq> [] \<and> list_all (carries p) g"

lemma takes_group:
  assumes "arrives p g" and first: "\<And>e. carries p e \<Longrightarrow> takes env r [e] s (del e) (s1 e) \<and> spent env p (s1 e)"
  obtains e t where "e \<in> set g" and "carries p e" and "takes env r g s (del e) ((s1 e)\<lparr>ss_last_seen := t\<rparr>)"
proof -
  obtain e es where g: "g = e # es" "carries p e" "list_all (carries p) es"
    using assms(1) by (cases g) (auto simp: arrives_def)
  obtain t where t: "takes env r es (s1 e) [] ((s1 e)\<lparr>ss_last_seen := t\<rparr>)"
    using takes_copies [OF _ g(3)] first [OF g(2)] by blast
  have "takes env r [e] s (del e) (s1 e)" using first [OF g(2)] by simp
  from takes_append [OF this t] show ?thesis using that [of e t] g by simp
qed

text \<open>
  The two ends agree on the session, and the server's window is behind the client's counter, which has
  room for \<open>n\<close> more packets.
\<close>

definition up_crypt :: "nat \<Rightarrow> client_session \<Rightarrow> session \<Rightarrow> bool" where
  "up_crypt n c s \<longleftrightarrow> k_id c = ss_id s \<and> c_key (ss_cipher s) = c_key (k_cipher c) \<and> cipher_ok (k_cipher c) \<and>
     replay_ok (ss_window s) \<and> rw_max (ss_window s) \<le> c_counter (k_cipher c) \<and> unat (c_counter (k_cipher c)) + n < 2 ^ 64"

lemma up_crypt_cong:
  "up_crypt n c s \<Longrightarrow> k_id c' = k_id c \<Longrightarrow> k_cipher c' = k_cipher c \<Longrightarrow> ss_id s' = ss_id s \<Longrightarrow>
     ss_cipher s' = ss_cipher s \<Longrightarrow> ss_window s' = ss_window s \<Longrightarrow> up_crypt n c' s'"
  by (simp add: up_crypt_def)

lemma refused_unchanged: "\<not> fst (replay_check w x) \<Longrightarrow> replay_check w x = (False, w)"
  by (auto simp: replay_check_def Let_def split: if_splits)

lemma open_twice:
  assumes ok: "replay_ok w" and o: "open_packet aopen d pkt w = (Inr p, w')"
  shows "\<exists>e. open_packet aopen d pkt w' = (Inl e, w')"
proof -
  let ?x = "get64 (slice 4 12 pkt)"
  have r: "replay_check w ?x = (True, w')" and len: "\<not> length pkt < MinPktSize"
    using o by (auto simp: open_packet_def Let_def split: if_splits prod.splits option.splits)
  then have "replay_check w' ?x = (False, w')"
    using window.second_refused [OF ok, of ?x] by (intro refused_unchanged) simp
  then show ?thesis using len by (simp add: open_packet_def Let_def)
qed

lemma client_packet:
  assumes law: "aead_law (en_seal env) (en_open env)" and l: "up_crypt (Suc n) c s"
    and send: "client_sealed env ty seq plain c = (out, c')"
  obtains enc w cc where "primary out = [mk_packet \<lparr>hdr_type = ty, hdr_hub = k_hub c, hdr_session = ss_id s, hdr_seq = seq\<rparr> enc]"
    and "open_packet (en_open env) (ss_cipher s) enc (ss_window s) = (Inr plain, w)"
    and "\<exists>e. open_packet (en_open env) (ss_cipher s) enc w = (Inl e, w)"
    and "c' = c\<lparr>k_cipher := cc\<rparr>" and "up_crypt n c' s" and "up_crypt n c' (s\<lparr>ss_window := w\<rparr>)"
proof -
  obtain cc enc where sp: "seal_packet (en_seal env) (k_cipher c) plain = (cc, enc)" by fastforce
  have u: "unat (c_counter (k_cipher c) + 1) = unat (c_counter (k_cipher c)) + 1"
    using l by (simp add: up_crypt_def unat_word_ariths)
  then have lt: "rw_max (ss_window s) < c_counter (k_cipher c) + 1"
    using l by (simp add: up_crypt_def word_less_nat_alt word_le_nat_alt)
  let ?w = "snd (replay_check (ss_window s) (c_counter (k_cipher c) + 1))"
  have o: "open_packet (en_open env) (ss_cipher s) enc (ss_window s) = (Inr plain, ?w)"
    using open_seal [OF law, of "k_cipher c" "ss_cipher s" "ss_window s" plain] l sp check_next_fresh [OF lt]
    by (simp add: up_crypt_def)
  have cc: "c_key cc = c_key (k_cipher c)" "cipher_ok cc" "c_counter cc = c_counter (k_cipher c) + 1"
    using seal_packet_cipher [of "en_seal env" "k_cipher c" plain] cipher_ok_seal [of "en_seal env" "k_cipher c" plain] l
    by (simp_all add: sp up_crypt_def)
  have c': "c' = c\<lparr>k_cipher := cc\<rparr>" "primary out =
      [mk_packet \<lparr>hdr_type = ty, hdr_hub = k_hub c, hdr_session = ss_id s, hdr_seq = seq\<rparr> enc]"
    using send l by (auto simp: client_sealed_def sp up_crypt_def)
  have "replay_ok (ss_window s)" using l by (simp add: up_crypt_def)
  then have "\<exists>e. open_packet (en_open env) (ss_cipher s) enc ?w = (Inl e, ?w)" using open_twice o by blast
  moreover have "up_crypt n c' s" "up_crypt n c' (s\<lparr>ss_window := ?w\<rparr>)"
    using l cc u lt check_next_fresh [OF lt] by (simp_all add: up_crypt_def c' less_imp_le)
  ultimately show ?thesis using o c' by (intro that [of enc ?w cc]) simp_all
qed

section \<open>A frame on the FEC path\<close>

definition up_fec :: "nat \<Rightarrow> nat \<Rightarrow> 32 word \<Rightarrow> nat \<Rightarrow> client_session \<Rightarrow> session \<Rightarrow> bool" where
  "up_fec k r bid i c s \<longleftrightarrow> sending_at k r bid i (k_pipe c) \<and> in_order bid i (p_dec (ss_pipe s)) \<and>
     d_k (p_dec (ss_pipe s)) = k \<and> k \<le> 128"

text \<open>What sealing and sending leave alone at the client.\<close>

definition same_sender :: "client_session \<Rightarrow> client_session \<Rightarrow> bool" where
  "same_sender c c' \<longleftrightarrow> k_pipe c' = k_pipe c \<and> k_frag c' = k_frag c \<and> k_frag_id c' = k_frag_id c"

lemma arrive_data:
  assumes law: "aead_law (en_seal env) (en_open env)" and l: "up_crypt (Suc n) c s"
    and io: "in_order bid i (p_dec (ss_pipe s))" "d_k (p_dec (ss_pipe s)) = k" "k \<le> 128"
    and send: "client_wire env (WireData bid (of_nat i) f) c = (out, c')" and g: "list_all2 arrives (primary out) gs"
  obtains s' now where "takes env r (concat gs) s [(now, f)] s'" and "now \<in> event_time ` set (concat gs)"
    and "up_crypt n c' s'" and "ss_reasm s' = ss_reasm s" and "d_k (p_dec (ss_pipe s')) = k" and "same_sender c c'"
    and "if Suc i < k then in_order bid (Suc i) (p_dec (ss_pipe s'))
         else block_done bid (p_dec (ss_pipe s')) \<and> (unat bid < 4294967295 \<longrightarrow> in_order (bid + 1) 0 (p_dec (ss_pipe s')))"
proof -
  let ?c = "count_tx (length f) c"
  have l0: "up_crypt (Suc n) ?c s" using l by (rule up_crypt_cong) (simp_all add: count_tx_def)
  have snd: "client_sealed env FrameData (pack_data_seq bid (of_nat i)) f ?c = (out, c')"
    using send by (simp add: client_wire_def)
  obtain enc w cc where p: "primary out = [mk_packet \<lparr>hdr_type = FrameData, hdr_hub = k_hub ?c, hdr_session = ss_id s,
        hdr_seq = pack_data_seq bid (of_nat i)\<rparr> enc]"
    and o: "open_packet (en_open env) (ss_cipher s) enc (ss_window s) = (Inr f, w)"
    and twice: "\<exists>e. open_packet (en_open env) (ss_cipher s) enc w = (Inl e, w)"
    and c': "c' = ?c\<lparr>k_cipher := cc\<rparr>" and l1: "up_crypt n c' (s\<lparr>ss_window := w\<rparr>)"
    using client_packet [OF law l0 snd] by metis
  let ?p = "mk_packet \<lparr>hdr_type = FrameData, hdr_hub = k_hub ?c, hdr_session = ss_id s,
        hdr_seq = pack_data_seq bid (of_nat i)\<rparr> enc"
  obtain g where gs: "gs = [g]" "arrives ?p g" using g p by (auto simp: list_all2_Cons1)
  have i: "i < k" using io by (simp add: in_order_def)
  then have "unat (of_nat i :: 16 word) = i" using io(3) by (intro unat_of_nat_u16) simp
  then have idx: "uint (of_nat i :: 16 word) = int i" by (metis uint_nat)
  have "\<exists>d'. add_data (en_rs env) now bid (int i) f (p_dec (ss_pipe s)) = (Inr [f], d') \<and> d_k d' = k \<and>
    (if Suc i < k then in_order bid (Suc i) d'
       else block_done bid d' \<and> (unat bid < 4294967295 \<longrightarrow> in_order (bid + 1) 0 d'))" for now
    using in_order_add [OF io(1), of "en_rs env" now f] io(2) by auto
  then obtain D where D: "\<And>now. add_data (en_rs env) now bid (int i) f (p_dec (ss_pipe s)) = (Inr [f], D now) \<and>
      d_k (D now) = k \<and> (if Suc i < k then in_order bid (Suc i) (D now)
       else block_done bid (D now) \<and> (unat bid < 4294967295 \<longrightarrow> in_order (bid + 1) 0 (D now)))"
    by metis
  define s1 where "s1 e = (case e of Packet rnd salt now og sec q \<Rightarrow>
      (register_secondary sec og (s\<lparr>ss_last_seen := now, ss_window := w\<rparr>))\<lparr>ss_pipe := (ss_pipe s)\<lparr>p_dec := D now\<rparr>\<rparr>
      | _ \<Rightarrow> s)" for e
  have s1: "ss_id (s1 e) = ss_id s" "ss_cipher (s1 e) = ss_cipher s" "ss_window (s1 e) = w"
      "ss_reasm (s1 e) = ss_reasm s" "p_dec (ss_pipe (s1 e)) = D (event_time e)" if "carries ?p e" for e
    using that by (auto simp: carries_def s1_def event_time_def register_secondary_def split: server_event.splits)
  have first: "takes env r [e] s [(event_time e, f)] (s1 e) \<and> spent env ?p (s1 e)" if e: "carries ?p e" for e
  proof
    show "spent env ?p (s1 e)" using twice by (simp add: spent_def s1 [OF e])
    obtain rnd salt now og sec where e': "e = Packet rnd salt now og sec ?p"
      using e by (auto simp: carries_def split: server_event.splits)
    have q: "unpack_data_seq (pack_data_seq bid (of_nat i)) = (bid, of_nat i)" by simp
    have pr: "pipe_recv_data (en_rs env) now bid (of_nat i) f (ss_pipe s) = (Inr [f], (ss_pipe s)\<lparr>p_dec := D now\<rparr>)"
      using D [of now] by (simp add: pipe_recv_data_def idx)
    from takes_data [OF o q pr] show "takes env r [e] s [(event_time e, f)] (s1 e)"
      by (simp add: e' s1_def event_time_def)
  qed
  obtain e t where r: "e \<in> set g" "carries ?p e"
    "takes env r g s [(event_time e, f)] ((s1 e)\<lparr>ss_last_seen := t\<rparr>)"
    using takes_group [OF gs(2) first] .
  have "up_crypt n c' ((s1 e)\<lparr>ss_last_seen := t\<rparr>)" using l1 by (rule up_crypt_cong) (simp_all add: s1 [OF r(2)])
  then show ?thesis using that [of "event_time e" "(s1 e)\<lparr>ss_last_seen := t\<rparr>"] r D [of "event_time e"]
    by (simp add: gs(1) s1 [OF r(2)] c' same_sender_def count_tx_def)
qed

text \<open>The repairs of a block that is done.\<close>

lemma arrive_repairs:
  assumes law: "aead_law (en_seal env) (en_open env)"
  shows "up_crypt (n + length (primary out)) c s \<Longrightarrow> all_repairs bid ws \<Longrightarrow> block_done bid (p_dec (ss_pipe s)) \<Longrightarrow>
     client_wires env ws c = (out, c') \<Longrightarrow> list_all2 arrives (primary out) gs \<Longrightarrow>
     \<exists>t. takes env r (concat gs) s [] (s\<lparr>ss_last_seen := t\<rparr>) \<and> up_crypt n c' s \<and> same_sender c c'"
proof (induction ws arbitrary: c s out gs)
  case Nil
  then show ?case using takes_nil [of env r s]
    by (intro exI [of _ "ss_last_seen s"]) (simp add: same_sender_def)
next
  case (Cons w ws)
  obtain idx d where w: "w = WireRepair bid idx d" and ws: "all_repairs bid ws"
    using Cons.prems(2) by (auto simp: all_repairs_def)
  obtain o1 c1 o2 where e: "client_wire env w c = (o1, c1)" "client_wires env ws c1 = (o2, c')" "out = o1 @ o2"
    using Cons.prems(4) by (auto split: prod.splits)
  let ?c = "count_tx (length d) c"
  obtain k r' where ss: "client_sealed env FrameRepair (pack_repair_seq bid idx k r') d ?c = (o1, c1)"
    using e(1) by (auto simp: w client_wire_def)
  then have "length (primary o1) = 1" by (auto simp: client_sealed_def split: prod.splits)
  then have l0: "up_crypt (Suc (n + length (primary o2))) ?c s"
    using Cons.prems(1) e(3) by (simp add: up_crypt_def count_tx_def)
  obtain enc cc where p: "primary o1 = [mk_packet \<lparr>hdr_type = FrameRepair, hdr_hub = k_hub ?c, hdr_session = ss_id s,
        hdr_seq = pack_repair_seq bid idx k r'\<rparr> enc]" (is "_ = [?p]")
    and c1: "c1 = ?c\<lparr>k_cipher := cc\<rparr>" and l1: "up_crypt (n + length (primary o2)) c1 s"
    using client_packet [OF law l0 ss] by metis
  obtain g gs' where gs: "gs = g # gs'" "arrives ?p g" "list_all2 arrives (primary o2) gs'"
    using Cons.prems(5) p e(3) by (auto simp: list_all2_Cons1)
  have "spent env ?p s" using Cons.prems(3) by (simp add: spent_def repair_block_done_def)
  then obtain t where t: "takes env r g s [] (s\<lparr>ss_last_seen := t\<rparr>)"
    using takes_copies gs(2) unfolding arrives_def by blast
  let ?s = "s\<lparr>ss_last_seen := t\<rparr>"
  have l2: "up_crypt (n + length (primary o2)) c1 ?s" using l1 by (rule up_crypt_cong) simp_all
  have "block_done bid (p_dec (ss_pipe ?s))" using Cons.prems(3) by simp
  from Cons.IH [OF l2 ws this e(2) gs(3)] obtain u where u: "takes env r (concat gs') ?s [] (?s\<lparr>ss_last_seen := u\<rparr>)"
    "up_crypt n c' ?s" "same_sender c1 c'" by blast
  have "up_crypt n c' s" using u(2) by (rule up_crypt_cong) simp_all
  moreover have "same_sender c c'" using u(3) by (simp add: same_sender_def c1 count_tx_def)
  ultimately show ?case using takes_append [OF t u(1)] by (auto simp: gs(1))
qed

lemma arrive_frame_fec:
  assumes law: "aead_law (en_seal env) (en_open env)" and enc: "encodes (en_rs env) k m" and f: "f \<noteq> []"
    and path: "\<not> (k_frag c \<and> needs_split f (int MaxFramePlaintext))"
    and fl: "up_fec k m bid i c s" and l: "up_crypt (n + length (primary out)) c s" and bid: "unat bid < 4294967295"
    and send: "client_send env now f c = (out, c')" and g: "list_all2 arrives (primary out) gs"
  obtains s' tm bid' i' where "takes env r (concat gs) s [(tm, f)] s'" and "tm \<in> event_time ` set (concat gs)"
    and "up_crypt n c' s'" and "up_fec k m bid' i' c' s'" and "unat bid' \<le> unat bid + 1"
    and "ss_reasm s' = ss_reasm s" and "k_frag c' = k_frag c" and "k_frag_id c' = k_frag_id c"
proof -
  obtain res ws q where p: "pipe_send (en_rs env) (\<lambda>_. True) now f (k_pipe c) = (res, ws, q)"
    using prod_cases3 by blast
  let ?c = "c\<lparr>k_pipe := q\<rparr>"
  have em: "client_wires env ws ?c = (out, c')" using send path p by (simp add: client_send_def)
  have at: "sending_at k m bid i (k_pipe c)" and io: "in_order bid i (p_dec (ss_pipe s))"
    and k: "d_k (p_dec (ss_pipe s)) = k" "k \<le> 128" using fl by (simp_all add: up_fec_def)
  obtain reps where ws: "ws = WireData bid (of_nat i) f # reps" "all_repairs bid reps" "Suc i < k \<longrightarrow> reps = []"
    and at': "if Suc i < k then sending_at k m bid (Suc i) q else sending_at k m (bid + 1) 0 q"
    using pipe_send_next [OF at enc f p] by blast
  obtain o1 c1 o2 where e: "client_wire env (WireData bid (of_nat i) f) ?c = (o1, c1)"
      "client_wires env reps c1 = (o2, c')" "out = o1 @ o2"
    using em ws(1) by (auto split: prod.splits)
  have one: "length (primary o1) = 1" using e(1) by (auto simp: client_wire_def client_sealed_def split: prod.splits)
  have l1: "up_crypt (Suc (n + length (primary o2))) ?c s" using l one e(3) by (simp add: up_crypt_def)
  obtain gs1 gs2 where gs: "gs = gs1 @ gs2" "list_all2 arrives (primary o1) gs1" "list_all2 arrives (primary o2) gs2"
    using g unfolding e(3) by (auto simp: list_all2_append1)
  obtain s1 tm where s1: "takes env r (concat gs1) s [(tm, f)] s1" "tm \<in> event_time ` set (concat gs1)"
    "up_crypt (n + length (primary o2)) c1 s1" "ss_reasm s1 = ss_reasm s" "d_k (p_dec (ss_pipe s1)) = k" "same_sender ?c c1"
    and io': "if Suc i < k then in_order bid (Suc i) (p_dec (ss_pipe s1))
         else block_done bid (p_dec (ss_pipe s1)) \<and> (unat bid < 4294967295 \<longrightarrow> in_order (bid + 1) 0 (p_dec (ss_pipe s1)))"
    using arrive_data [OF law l1 io k e(1) gs(2), of r] .
  show ?thesis
  proof (cases "Suc i < k")
    case True
    then have "o2 = []" "c' = c1" "gs2 = []" using e(2) ws(3) gs(3) by auto
    then show ?thesis using that [of tm s1 bid "Suc i"] True s1 gs(1) k io' at' by (simp add: up_fec_def same_sender_def)
  next
    case False
    have u: "unat (bid + 1) = unat bid + 1" using bid by (simp add: unat_word_ariths)
    have fin: "block_done bid (p_dec (ss_pipe s1))" using False io' by simp
    obtain t where t: "takes env r (concat gs2) s1 [] (s1\<lparr>ss_last_seen := t\<rparr>)" "up_crypt n c' s1" "same_sender c1 c'"
      using arrive_repairs [OF law s1(3) ws(2) fin e(2) gs(3)] by blast
    have "up_crypt n c' (s1\<lparr>ss_last_seen := t\<rparr>)" using t(2) by (rule up_crypt_cong) simp_all
    moreover have "takes env r (concat gs) s [(tm, f)] (s1\<lparr>ss_last_seen := t\<rparr>)"
      using takes_append [OF s1(1) t(1)] by (simp add: gs(1))
    moreover have "tm \<in> event_time ` set (concat gs)" using s1(2) by (auto simp: gs(1))
    ultimately show ?thesis using that [of tm "s1\<lparr>ss_last_seen := t\<rparr>" "bid + 1" 0] False s1 t(3) k io' at' bid u
      by (simp add: up_fec_def same_sender_def)
  qed
qed

section \<open>A frame in pieces\<close>

text \<open>The whole frames of a run of fragments, with the times at which they were completed.\<close>

definition timed_frames :: "time list \<Rightarrow> bytes option list \<Rightarrow> (time \<times> bytes) list" where
  "timed_frames ts outs = concat (map (\<lambda>(t, x). case x of None \<Rightarrow> [] | Some f \<Rightarrow> [(t, f)]) (zip ts outs))"

lemma timed_frames_Cons: "timed_frames (t # ts) (x # outs) = (case x of None \<Rightarrow> [] | Some f \<Rightarrow> [(t, f)]) @ timed_frames ts outs"
  by (simp add: timed_frames_def)

lemma timed_frames_once:
  assumes "filter (\<lambda>x. x \<noteq> None) outs = [Some f]" and "length ts = length outs"
  shows "\<exists>t \<in> set ts. timed_frames ts outs = [(t, f)]"
  using assms(2,1)
proof (induction ts outs rule: list_induct2)
  case Nil
  then show ?case by simp
next
  case (Cons t ts x outs)
  have none: "timed_frames ts outs = []" if "filter (\<lambda>x. x \<noteq> None) outs = []" for ts and outs :: "bytes option list"
    using that by (auto simp: timed_frames_def filter_empty_conv dest!: set_zip_rightD)
  show ?case
  proof (cases x)
    case None
    then show ?thesis using Cons by (simp add: timed_frames_Cons)
  next
    case (Some g)
    then show ?thesis using Cons.prems none by (simp add: timed_frames_Cons)
  qed
qed

lemma arrive_pieces:
  assumes law: "aead_law (en_seal env) (en_open env)" and n: "length ps < 256"
  shows "i + length pcs = length ps \<Longrightarrow> pcs = drop i ps \<Longrightarrow> up_crypt (m + length (primary out)) c s \<Longrightarrow>
    client_pieces env fid i (length ps) pcs c = (out, c') \<Longrightarrow> list_all2 arrives (primary out) gs \<Longrightarrow>
    \<exists>s' ts. length ts = length pcs \<and> set ts \<subseteq> event_time ` set (concat gs) \<and>
      takes env r (concat gs) s (timed_frames ts (fst (deliver_pieces fid ps (zip ts [i..<length ps]) (ss_reasm s)))) s' \<and>
      ss_reasm s' = snd (deliver_pieces fid ps (zip ts [i..<length ps]) (ss_reasm s)) \<and>
      ss_pipe s' = ss_pipe s \<and> up_crypt m c' s' \<and> same_sender c c'"
proof (induction pcs arbitrary: i c out gs s)
  case Nil
  then show ?case using takes_nil [of env r s] by (intro exI [of _ s]) (simp add: timed_frames_def same_sender_def)
next
  case (Cons pc pcs)
  obtain o1 c1 o2 where e: "client_sealed env FrameDataFrag (pack_frag_seq fid (of_nat i) (of_nat (length ps))) pc c = (o1, c1)"
      "client_pieces env fid (Suc i) (length ps) pcs c1 = (o2, c')" "out = o1 @ o2"
    using Cons.prems(4) by (auto split: prod.splits)
  have "length (primary o1) = 1" using e(1) by (auto simp: client_sealed_def split: prod.splits)
  then have l: "up_crypt (Suc (m + length (primary o2))) c s" using Cons.prems(3) e(3) by simp
  have i: "i < length ps" using Cons.prems(1) by simp
  then have pc: "pc = ps ! i" and pcs: "pcs = drop (Suc i) ps"
    using Cons.prems(2) Cons_nth_drop_Suc [OF i] by (simp_all flip: Cons.prems(2))
  obtain enc w cc where p: "primary o1 = [mk_packet \<lparr>hdr_type = FrameDataFrag, hdr_hub = k_hub c, hdr_session = ss_id s,
        hdr_seq = pack_frag_seq fid (of_nat i) (of_nat (length ps))\<rparr> enc]" (is "_ = [?p]")
    and o: "open_packet (en_open env) (ss_cipher s) enc (ss_window s) = (Inr pc, w)"
    and twice: "\<exists>e. open_packet (en_open env) (ss_cipher s) enc w = (Inl e, w)"
    and c1: "c1 = c\<lparr>k_cipher := cc\<rparr>" and l1: "up_crypt (m + length (primary o2)) c1 (s\<lparr>ss_window := w\<rparr>)"
    using client_packet [OF law l e(1)] by metis
  obtain g gs' where gs: "gs = g # gs'" "arrives ?p g" "list_all2 arrives (primary o2) gs'"
    using Cons.prems(5) p e(3) by (auto simp: list_all2_Cons1)
  define ra where "ra now = reasm_add now fid (of_nat i) (of_nat (length ps)) pc (ss_reasm s)" for now
  define del where "del e = (case fst (ra (event_time e)) of None \<Rightarrow> [] | Some f \<Rightarrow> [(event_time e, f)])" for e
  define s1 where "s1 e = (case e of Packet rnd salt now og sec q \<Rightarrow>
      (register_secondary sec og (s\<lparr>ss_last_seen := now, ss_window := w\<rparr>))\<lparr>ss_reasm := snd (ra now)\<rparr> | _ \<Rightarrow> s)" for e
  have s1: "ss_id (s1 e) = ss_id s" "ss_cipher (s1 e) = ss_cipher s" "ss_window (s1 e) = w"
      "ss_reasm (s1 e) = snd (ra (event_time e))" "ss_pipe (s1 e) = ss_pipe s" if "carries ?p e" for e
    using that by (auto simp: carries_def s1_def event_time_def register_secondary_def split: server_event.splits)
  have first: "takes env r [e] s (del e) (s1 e) \<and> spent env ?p (s1 e)" if e: "carries ?p e" for e
  proof
    show "spent env ?p (s1 e)" using twice by (simp add: spent_def s1 [OF e])
    obtain rnd salt now og sec where e': "e = Packet rnd salt now og sec ?p"
      using e by (auto simp: carries_def split: server_event.splits)
    have q: "unpack_frag_seq (pack_frag_seq fid (of_nat i) (of_nat (length ps))) = (fid, of_nat i, of_nat (length ps))" by simp
    have "reasm_add now fid (of_nat i) (of_nat (length ps)) pc (ss_reasm s) = (fst (ra now), snd (ra now))" by (simp add: ra_def)
    from takes_fragment [OF o q this] show "takes env r [e] s (del e) (s1 e)"
      by (simp add: e' s1_def event_time_def del_def cong: option.case_cong)
  qed
  obtain e t where r: "e \<in> set g" "carries ?p e" "takes env r g s (del e) ((s1 e)\<lparr>ss_last_seen := t\<rparr>)"
    using takes_group [OF gs(2) first] .
  let ?s = "(s1 e)\<lparr>ss_last_seen := t\<rparr>" and ?tm = "event_time e"
  have l2: "up_crypt (m + length (primary o2)) c1 ?s" using l1 by (rule up_crypt_cong) (simp_all add: s1 [OF r(2)])
  have "Suc i + length pcs = length ps" using Cons.prems(1) by simp
  from Cons.IH [OF this pcs l2 e(2) gs(3)]
  obtain s' ts where s': "length ts = length pcs" "set ts \<subseteq> event_time ` set (concat gs')"
      "takes env r (concat gs') ?s (timed_frames ts (fst (deliver_pieces fid ps (zip ts [Suc i..<length ps]) (ss_reasm ?s)))) s'"
      "ss_reasm s' = snd (deliver_pieces fid ps (zip ts [Suc i..<length ps]) (ss_reasm ?s))"
      "ss_pipe s' = ss_pipe ?s" "up_crypt m c' s'" "same_sender c1 c'"
    by blast
  have up: "[i..<length ps] = i # [Suc i..<length ps]" using i by (rule upt_conv_Cons)
  let ?d = "deliver_pieces fid ps (zip (?tm # ts) [i..<length ps]) (ss_reasm s)"
  have d: "fst ?d = fst (ra ?tm) # fst (deliver_pieces fid ps (zip ts [Suc i..<length ps]) (ss_reasm ?s))"
    "snd ?d = snd (deliver_pieces fid ps (zip ts [Suc i..<length ps]) (ss_reasm ?s))"
    by (simp_all add: up s1 [OF r(2)] ra_def pc case_prod_beta)
  have "takes env r (concat gs) s (timed_frames (?tm # ts) (fst ?d)) s'"
    using takes_append [OF r(3) s'(3)] by (simp add: gs(1) d timed_frames_Cons del_def)
  moreover have "set (?tm # ts) \<subseteq> event_time ` set (concat gs)" using s'(2) r(1) by (auto simp: gs(1))
  ultimately show ?case using s' d
    by (intro exI [of _ s'] exI [of _ "?tm # ts"]) (simp add: same_sender_def c1 s1 [OF r(2)])
qed

section \<open>Any sequence of frames\<close>

text \<open>The link of client and server object, with room for \<open>n\<close> packets and \<open>m\<close> frames.\<close>

definition up_linked :: "nat \<Rightarrow> nat \<Rightarrow> nat \<Rightarrow> nat \<Rightarrow> client_session \<Rightarrow> session \<Rightarrow> bool" where
  "up_linked k p n m c s \<longleftrightarrow> up_crypt n c s \<and> (\<exists>bid i. up_fec k p bid i c s \<and> unat bid + m < 4294967296) \<and>
     (\<forall>fid. map_of (ss_reasm s) fid \<noteq> None \<longrightarrow> unat fid \<le> unat (k_frag_id c)) \<and>
     unat (k_frag_id c) + m < 4294967296"

lemma arrive_frame_frag:
  assumes law: "aead_law (en_seal env) (en_open env)"
    and path: "k_frag c" "needs_split f (int MaxFramePlaintext)" "length (split_frame f (int MaxFramePlaintext)) < 256"
    and l: "up_linked k p (n + length (primary out)) (Suc m) c s"
    and send: "client_send env now f c = (out, c')" and g: "list_all2 arrives (primary out) gs"
  obtains s' tm where "takes env r (concat gs) s [(tm, f)] s'" and "tm \<in> event_time ` set (concat gs)"
    and "up_linked k p n m c' s'"
proof -
  let ?fid = "k_frag_id c + 1" and ?ps = "split_frame f (int MaxFramePlaintext)"
  obtain c1 where sp: "client_pieces env ?fid 0 (length ?ps) ?ps (c\<lparr>k_frag_id := ?fid\<rparr>) = (out, c1)"
    and c': "c' = count_tx (length f) c1"
    using send path by (auto simp: client_send_def Let_def split: prod.splits)
  have u: "unat ?fid = unat (k_frag_id c) + 1" using l by (simp add: up_linked_def unat_word_ariths)
  have new: "map_of (ss_reasm s) ?fid = None"
    using l u by (cases "map_of (ss_reasm s) ?fid") (auto simp: up_linked_def)
  have cl: "up_crypt (n + length (primary out)) (c\<lparr>k_frag_id := ?fid\<rparr>) s"
    using l by (auto simp: up_linked_def up_crypt_def)
  obtain s' ts where r: "length ts = length ?ps" "set ts \<subseteq> event_time ` set (concat gs)"
      "takes env r (concat gs) s (timed_frames ts (fst (deliver_pieces ?fid ?ps (zip ts [0..<length ?ps]) (ss_reasm s)))) s'"
      "ss_reasm s' = snd (deliver_pieces ?fid ?ps (zip ts [0..<length ?ps]) (ss_reasm s))"
      "ss_pipe s' = ss_pipe s" "up_crypt n c1 s'" "same_sender (c\<lparr>k_frag_id := ?fid\<rparr>) c1"
    using arrive_pieces [OF law path(3), of 0 ?ps n out "c\<lparr>k_frag_id := ?fid\<rparr>" s ?fid c1 gs r] sp cl g by auto
  let ?ds = "zip ts [0..<length ?ps]"
  have ds: "map snd ?ds = [0..<length ?ps]" using r(1) by simp
  have all: "set (map snd ?ds) = {..<length ?ps}" unfolding ds by auto
  have once: "filter (\<lambda>x. x \<noteq> None) (fst (deliver_pieces ?fid ?ps ?ds (ss_reasm s))) = [Some f]"
    using deliver_pieces_complete [OF split_frame_at_least_two [OF path(2)] path(3) new all]
    by (simp add: concat_split_frame)
  have "length (fst (deliver_pieces fid qs es ra)) = length es" for fid qs ra and es :: "(time \<times> nat) list"
    by (induction es arbitrary: ra) (auto simp: case_prod_beta)
  then have len: "length ts = length (fst (deliver_pieces ?fid ?ps ?ds (ss_reasm s)))" using r(1) by simp
  obtain tm where tm: "tm \<in> set ts" "timed_frames ts (fst (deliver_pieces ?fid ?ps ?ds (ss_reasm s))) = [(tm, f)]"
    using timed_frames_once [OF once len] by blast
  have keys: "unat fid \<le> unat ?fid" if known: "map_of (ss_reasm s') fid \<noteq> None" for fid
  proof -
    have "fid = ?fid \<or> map_of (ss_reasm s) fid \<noteq> None"
      using known deliver_pieces_keys [of ?fid ?ps ?ds "ss_reasm s" fid] unfolding r(4) by blast
    then show ?thesis using l u by (auto simp: up_linked_def)
  qed
  have c1: "k_pipe c1 = k_pipe c" "k_frag_id c1 = ?fid" using r(7) by (simp_all add: same_sender_def)
  have "\<exists>bid i. up_fec k p bid i c1 s' \<and> unat bid + m < 4294967296"
    using l r(5) c1(1) by (fastforce simp: up_linked_def up_fec_def)
  moreover have "up_crypt n c' s'" using r(6) by (rule up_crypt_cong) (simp_all add: c' count_tx_def)
  ultimately have "up_linked k p n m c' s'"
    using keys l u c1 by (simp add: up_linked_def up_fec_def c' count_tx_def)
  then show ?thesis using that [of tm s'] r(2,3) tm by auto
qed

lemma arrive_frame:
  assumes law: "aead_law (en_seal env) (en_open env)" and enc: "encodes (en_rs env) k p" and f: "fits f"
    and l: "up_linked k p (n + length (primary out)) (Suc m) c s"
    and send: "client_send env now f c = (out, c')" and g: "list_all2 arrives (primary out) gs"
  obtains s' tm where "takes env r (concat gs) s [(tm, f)] s'" and "tm \<in> event_time ` set (concat gs)"
    and "up_linked k p n m c' s'"
proof (cases "k_frag c \<and> needs_split f (int MaxFramePlaintext)")
  case True
  then show ?thesis using arrive_frame_frag [OF law _ _ _ l send g] f that by (metis fits_def)
next
  case False
  obtain bid i where fl: "up_fec k p bid i c s" and bid: "unat bid + Suc m < 4294967296"
    using l by (auto simp: up_linked_def)
  have cl: "up_crypt (n + length (primary out)) c s" using l by (simp add: up_linked_def)
  have fne: "f \<noteq> []" using f by (simp add: fits_def)
  have "unat bid < 4294967295" using bid by simp
  from arrive_frame_fec [OF law enc fne False fl cl this send g, of r]
  obtain s' tm bid' i' where r: "takes env r (concat gs) s [(tm, f)] s'" "tm \<in> event_time ` set (concat gs)"
    "up_crypt n c' s'" "up_fec k p bid' i' c' s'" "unat bid' \<le> unat bid + 1"
    "ss_reasm s' = ss_reasm s" "k_frag c' = k_frag c" "k_frag_id c' = k_frag_id c" .
  have "\<exists>bid i. up_fec k p bid i c' s' \<and> unat bid + m < 4294967296"
    using r(4,5) bid by (intro exI [of _ bid'] exI [of _ i']) simp
  then have "up_linked k p n m c' s'" using l r(3,6,8) by (simp add: up_linked_def)
  then show ?thesis by (rule that [OF r(1,2)])
qed

fun client_sends :: "env \<Rightarrow> (time \<times> bytes) list \<Rightarrow> client_session \<Rightarrow> link_out \<times> client_session" where
  "client_sends env [] c = ([], c)"
| "client_sends env ((now, f) # fs) c =
     (case client_send env now f c of (out, c1) \<Rightarrow> case client_sends env fs c1 of (rest, c2) \<Rightarrow> (out @ rest, c2))"

lemma arrive_frames:
  assumes law: "aead_law (en_seal env) (en_open env)" and enc: "encodes (en_rs env) k p"
  shows "up_linked k p (length (primary out)) (length fs) c s \<Longrightarrow> list_all fits (map snd fs) \<Longrightarrow>
    client_sends env fs c = (out, c') \<Longrightarrow> list_all2 arrives (primary out) gs \<Longrightarrow>
    \<exists>ts s'. length ts = length fs \<and> set ts \<subseteq> event_time ` set (concat gs) \<and>
      takes env r (concat gs) s (zip ts (map snd fs)) s'"
proof (induction fs arbitrary: c s out gs)
  case Nil
  then show ?case using takes_nil [of env r s] by auto
next
  case (Cons x fs)
  obtain now f where x: "x = (now, f)" by fastforce
  obtain o1 c1 o2 where e: "client_send env now f c = (o1, c1)" "client_sends env fs c1 = (o2, c')" "out = o1 @ o2"
    using Cons.prems(3) by (auto simp: x split: prod.splits)
  obtain gs1 gs2 where gs: "gs = gs1 @ gs2" "list_all2 arrives (primary o1) gs1" "list_all2 arrives (primary o2) gs2"
    using Cons.prems(4) unfolding e(3) by (auto simp: list_all2_append1)
  have l: "up_linked k p (length (primary o2) + length (primary o1)) (Suc (length fs)) c s"
    using Cons.prems(1) e(3) by (simp add: add.commute)
  have "fits f" using Cons.prems(2) by (simp add: x)
  from arrive_frame [OF law enc this l e(1) gs(2), of r]
  obtain s1 tm where r: "takes env r (concat gs1) s [(tm, f)] s1" "tm \<in> event_time ` set (concat gs1)"
    "up_linked k p (length (primary o2)) (length fs) c1 s1" .
  obtain ts s' where i: "length ts = length fs" "set ts \<subseteq> event_time ` set (concat gs2)"
    "takes env r (concat gs2) s1 (zip ts (map snd fs)) s'"
    using Cons.IH [OF r(3) _ e(2) gs(3)] Cons.prems(2) by auto
  have "takes env r (concat gs) s (zip (tm # ts) (map snd (x # fs))) s'"
    using takes_append [OF r(1) i(3)] by (simp add: gs(1) x)
  moreover have "set (tm # ts) \<subseteq> event_time ` set (concat gs)" using i(2) r(2) by (simp add: gs(1) image_Un) blast
  ultimately show ?case using i(1) by (intro exI [of _ "tm # ts"] exI [of _ s']) simp
qed

section \<open>From the hello to the hub\<close>

lemma auth_loop_cipher:
  "auth_loop env salt cfg fs = Inr ar \<Longrightarrow> \<exists>key n. new_cipher salt key n = Inr (ar_cipher ar)"
proof (induction fs)
  case (Cons f fs)
  then show ?case by (auto simp: accept_auth_ok_def split: option.splits prod.splits if_splits list.splits sum.splits, blast)
qed simp

lemma up_linked_fresh:
  assumes b: "build_session env sid salt now og hello fec = Some s"
    and c: "open_session env cnow cfg mode ar sec = Inr c"
    and ar: "new_cipher csalt key' sid' = Inr (ar_cipher ar)" "length csalt = 4" "ar_session ar = sid"
    and same: "c_key (ar_cipher ar) = c_key (ss_cipher s)" "uint (ar_k ar) = fc_k fec" "uint (ar_r ar) = fc_r fec"
    and room: "n < 2 ^ 64" "m < 4294967296"
  shows "up_linked (nat (fc_k fec)) (nat (fc_r fec)) n m c s"
proof -
  obtain key where s: "new_pipe (en_rs env) (fc_k fec) (fc_r fec) (repair_delay_duration fec) True = Inr (ss_pipe s)"
    "ss_id s = sid" "ss_window s = replay_init"
    using build_sessionD [OF b] by metis
  have ra: "ss_reasm s = []" using b by (auto simp: build_session_def split: sum.splits)
  have c1: "k_id c = sid" "k_cipher c = ar_cipher ar"
      "sending_at (nat (fc_k fec)) (nat (fc_r fec)) 0 0 (k_pipe c)"
    using client_opens [OF s(1) same(2,3), of cnow cfg mode sec] c ar(3) by (metis sum.inject(2))+
  have fid: "k_frag_id c = 0" using c by (auto simp: open_session_def Let_def split: sum.splits)
  have "up_crypt n c s"
    using c1 s new_cipher_ok [OF ar(1,2)] new_cipherD [OF ar(1)] same(1) room(1)
    by (simp add: up_crypt_def) (simp add: replay_init_def)
  moreover have "up_fec (nat (fc_k fec)) (nat (fc_r fec)) 0 0 c s"
    using c1 new_pipe_sending [OF s(1)] new_pipe_bounds [OF s(1)] by (simp add: up_fec_def)
  then have "\<exists>bid i. up_fec (nat (fc_k fec)) (nat (fc_r fec)) bid i c s \<and> unat bid + m < 4294967296"
    using room(2) by (intro exI [of _ 0] exI [of _ 0]) simp
  ultimately show ?thesis using ra fid room(2) by (simp add: up_linked_def)
qed

lemma put_own_obj: "put_obj r (get_obj sv r) sv = sv"
  by (simp add: put_obj_def get_obj_def)

text \<open>
  The client's packets, from its first frame on, come to hub forwards of its frames: the server sends
  exactly what the reference sends, and differs from it only in the session's own object.
\<close>

lemma client_reaches_hub:
  assumes ok: "sendable env cfg" "length csalt = 4" "server_ok sv"
    and law: "aead_law (en_seal env) (en_open env)"
    and fec: "fec = fec_defaults (sc_fec (sv_cfg sv))" "encodes (en_rs env) (nat (fc_k fec)) (nat (fc_r fec))"
    and h: "handle_auth env rnd salt now og (request_payload env cfg) sv = (sid, hello, sv')" "sid \<noteq> 0"
    and c: "auth_loop env csalt cfg (map packet_of hello) = Inr ar" "open_session env cnow cfg mode ar sec = Inr c"
    and run: "client_sends env fs c = (out, c')" "list_all2 arrives (primary out) gs"
    and small: "list_all fits (map snd fs)" "length (primary out) < 2 ^ 64" "length fs < 4294967296"
  shows "\<exists>i ts s. find_session sv' sid = Some i \<and> length ts = length fs \<and> set ts \<subseteq> event_time ` set (concat gs) \<and>
    server_run env (concat gs) sv' =
      map_prod id (put_obj i s) (relay_all env (cc_hub_id cfg) sid (zip ts (map snd fs)) sv')"
proof -
  obtain s pkt ar0 where r: "sv' = register_session s sv" "ss_id s = sid" "hello = [SendTo (og_send og) pkt]"
    "auth_loop env csalt cfg [pkt] = Inr ar0" "ss_hub s = cc_hub_id cfg" "ar_session ar0 = sid"
    "c_key (ar_cipher ar0) = c_key (ss_cipher s)"
    "uint (ar_k ar0) = int (e_k (p_enc (ss_pipe s)))" "uint (ar_r ar0) = int (e_r (p_enc (ss_pipe s)))"
    "build_session env sid salt now og (client_hello_of env cfg) fec = Some s"
    using handshake [OF ok(1) h, of "[]" csalt "[]"] fec(1) by (metis append_Nil list.pred_inject(1))
  have ar: "ar = ar0" using c(1) r(3,4) by (simp add: packet_of_def)
  let ?i = "length (sv_objs sv)"
  have i: "find_session sv' sid = Some ?i" "get_obj sv' ?i = s"
    using registered_session [of s sv] by (simp_all add: r(1,2))
  have a: "attached ?i (ss_id s) sv'"
    using i(1) server_ok_register [OF ok(3)] by (simp add: attached_def r(1,2))
  obtain key where p: "new_pipe (en_rs env) (fc_k fec) (fc_r fec) (repair_delay_duration fec) True = Inr (ss_pipe s)"
    using build_sessionD [OF r(10)] by metis
  have kr: "uint (ar_k ar) = fc_k fec" "uint (ar_r ar) = fc_r fec"
    using new_pipe_bounds [OF p] r(8,9) by (simp_all add: ar)
  obtain key' sid' where nc: "new_cipher csalt key' sid' = Inr (ar_cipher ar)" using auth_loop_cipher [OF c(1)] by blast
  have "up_linked (nat (fc_k fec)) (nat (fc_r fec)) (length (primary out)) (length fs) c s"
    using up_linked_fresh [OF r(10) c(2) nc ok(2) _ _ kr small(2,3)] r(6,7) by (simp add: ar)
  then obtain ts s' where t: "length ts = length fs" "set ts \<subseteq> event_time ` set (concat gs)"
    "takes env ?i (concat gs) s (zip ts (map snd fs)) s'"
    using arrive_frames [OF law fec(2) _ small(1) run, of s ?i] by blast
  obtain x' where x: "server_run env (concat gs) (put_obj ?i (s\<lparr>ss_rx := ss_rx s\<rparr>) sv') =
      map_prod id (put_obj ?i (s'\<lparr>ss_rx := x'\<rparr>)) (relay_all env (ss_hub s) (ss_id s) (zip ts (map snd fs)) sv')"
    using t(3) a unfolding takes_def by blast
  have "put_obj ?i (s\<lparr>ss_rx := ss_rx s\<rparr>) sv' = sv'" using put_own_obj [of ?i sv'] i(2) by simp
  then show ?thesis using x i(1) t(1,2) r(2,5) by (intro exI [of _ ?i] exI [of _ ts] exI [of _ "s'\<lparr>ss_rx := x'\<rparr>"]) simp
qed


end
