(* ===== verification/EndToEnd.thy ===== *)
theory EndToEnd
  imports Upstream
begin

text \<open>
  Two clients and the server between them: what one client writes to its adapter of the frames another
  client reads from its own. The reference is a learning switch that knows nothing of packets, FEC,
  ciphers or sessions objects.
\<close>

section \<open>The switch\<close>

text \<open>What port \<open>t\<close> of an ideal switch hears of the frames port \<open>n\<close> sends.\<close>

fun switched :: "session_id set \<Rightarrow> session_id \<Rightarrow> session_id \<Rightarrow> (mac \<Rightarrow> session_id option) \<Rightarrow> bytes list \<Rightarrow> bytes list" where
  "switched ports t n tab [] = []"
| "switched ports t n tab (f # fs) =
     (if length f < 14 then switched ports t n tab fs
      else let tab' = tab(src_mac f \<mapsto> n) in
        (if t \<in> switch_targets ports tab' n (dst_mac f) then [f] else []) @ switched ports t n tab' fs)"

text \<open>The same with the times of the frames.\<close>

fun heard :: "session_id set \<Rightarrow> session_id \<Rightarrow> session_id \<Rightarrow> (mac \<Rightarrow> session_id option) \<Rightarrow> (time \<times> bytes) list \<Rightarrow>
    (time \<times> bytes) list" where
  "heard ports t n tab [] = []"
| "heard ports t n tab ((now, f) # fs) =
     (if length f < 14 then heard ports t n tab fs
      else let tab' = tab(src_mac f \<mapsto> n) in
        (if t \<in> switch_targets ports tab' n (dst_mac f) then [(now, f)] else []) @ heard ports t n tab' fs)"

lemma heard_switched: "map snd (heard ports t n tab fs) = switched ports t n tab (map snd fs)"
  by (induction fs arbitrary: tab) (auto simp: Let_def)

lemma heard_subset: "set (heard ports t n tab fs) \<subseteq> set fs"
proof (induction fs arbitrary: tab)
  case (Cons x fs)
  obtain now f where x: "x = (now, f)" by fastforce
  show ?case using Cons.IH [of tab] Cons.IH [of "tab(src_mac f \<mapsto> n)"]
    by (auto simp: x Let_def simp del: fun_upd_apply split: if_splits)
qed simp

lemma heard_length: "length (heard ports t n tab fs) \<le> length fs"
  by (induction ports t n tab fs rule: heard.induct) (auto simp: Let_def simp del: fun_upd_apply)

lemma heard_long: "x \<in> set (heard ports t n tab fs) \<Longrightarrow> 14 \<le> length (snd x)"
  by (induction ports t n tab fs rule: heard.induct) (auto simp: Let_def split: if_splits)

lemma to_adapter_heard: "to_adapter (map snd (heard ports t n tab fs)) = switched ports t n tab (map snd fs)"
  using heard_long [of _ ports t n tab fs] by (auto simp: to_adapter_def min_frame_def heard_switched [symmetric] filter_id_conv)

section \<open>One member's share of what the server sends\<close>

definition sent_to :: "endpoint \<Rightarrow> effect list \<Rightarrow> effect list" where
  "sent_to e out = filter (\<lambda>x. case x of SendTo e' _ \<Rightarrow> e' = e | CloseConn e' \<Rightarrow> e' = e) out"

lemma sent_to_simps [simp]: "sent_to e [] = []" "sent_to e (a @ b) = sent_to e a @ sent_to e b"
  by (simp_all add: sent_to_def)

lemma sent_to_none: "effects_to es out \<Longrightarrow> e \<notin> es \<Longrightarrow> sent_to e out = []"
  by (fastforce simp: sent_to_def effects_to_def filter_empty_conv split: effect.splits)

lemma sent_to_all: "effects_to {e} out \<Longrightarrow> sent_to e out = out"
  by (fastforce simp: sent_to_def effects_to_def filter_id_conv split: effect.splits)

text \<open>A member of a hub that is reached over one endpoint, which no other member uses.\<close>

definition sole_listener :: "16 word \<Rightarrow> session_id \<Rightarrow> nat \<Rightarrow> endpoint \<Rightarrow> server \<Rightarrow> bool" where
  "sole_listener b t j e sv \<longleftrightarrow> server_ok sv \<and> map_of (sv_clients sv) (b, t) = Some j \<and>
     session_endpoints (get_obj sv j) = {e} \<and> e \<notin> peer_endpoints sv b t"

lemma sole_listener_same: "sole_listener b t j e sv \<Longrightarrow> server_ok sv' \<Longrightarrow> same_table sv sv' \<Longrightarrow> sole_listener b t j e sv'"
  using same_session_endpoints [of "get_obj sv j" "get_obj sv' j"] peer_endpoints_same [of sv sv' b t]
  by (simp add: sole_listener_def same_table_def)

lemma deliver_listener:
  "deliver env now b f ts sv = (out, sv') \<Longrightarrow> sole_listener b t j e sv \<Longrightarrow> distinct ts \<Longrightarrow>
     (t \<in> set ts \<longrightarrow> session_send env now f (get_obj sv j) = (sent_to e out, get_obj sv' j)) \<and>
     (t \<notin> set ts \<longrightarrow> sent_to e out = [] \<and> get_obj sv' j = get_obj sv j)"
proof (induction ts arbitrary: sv out)
  case (Cons u us)
  note l = Cons.prems(2)
  have ok: "server_ok sv" and j: "map_of (sv_clients sv) (b, t) = Some j" using l by (simp_all add: sole_listener_def)
  show ?case
  proof (cases "map_of (sv_clients sv) (b, u)")
    case None
    then have "u \<noteq> t" using j by auto
    then show ?thesis using Cons.IH [of sv out] Cons.prems None by simp
  next
    case (Some q)
    obtain o1 s where s: "session_send env now f (get_obj sv q) = (o1, s)" by fastforce
    obtain o2 where d: "deliver env now b f us (put_obj q s sv) = (o2, sv')" and out: "out = o1 @ o2"
      using Cons.prems(1) Some s by (auto split: prod.splits)
    note sp = session_send_spec [OF s]
    have ok': "server_ok (put_obj q s sv)"
      using ok sp same_session_identity by (intro server_ok_put_obj) auto
    have l': "sole_listener b t j e (put_obj q s sv)"
      using sole_listener_same [OF l ok'] same_table_put [of sv q s] sp by simp
    have us: "distinct us" using Cons.prems(3) by simp
    note ih = Cons.IH [OF d l' us]
    show ?thesis
    proof (cases "u = t")
      case True
      then have q: "q = j" "t \<notin> set us" using Some j Cons.prems(3) by auto
      have "effects_to {e} o1" using sp l q(1) by (simp add: sole_listener_def)
      moreover have "get_obj (put_obj q s sv) j = s" using server_okD(2) [OF ok j] q(1) by (simp add: get_put_obj)
      ultimately show ?thesis using ih q s True sent_to_all by (simp add: out)
    next
      case False
      have "session_endpoints (get_obj sv q) \<subseteq> peer_endpoints sv b t" using Some False by (auto simp: peer_endpoints_def)
      then have "sent_to e o1 = []" using sp l by (intro sent_to_none) (auto simp: sole_listener_def)
      moreover have "q \<noteq> j" using server_okD(2) [OF ok j] server_okD(2) [OF ok Some] False by auto
      then have "get_obj (put_obj q s sv) j = get_obj sv j" by (simp add: get_put_obj)
      ultimately show ?thesis using ih False by (simp add: out)
    qed
  qed
qed simp

text \<open>The member's session sends on what the switch delivers to it, and its endpoint gets nothing else.\<close>

lemma relay_listener:
  assumes "relay env now b n f sv = (out, sv')" and l: "sole_listener b t j e sv"
    and h: "manager_get b (sv_hubs sv) = Some h"
  obtains h' where "manager_get b (sv_hubs sv') = Some h'" and "sole_listener b t j e sv'"
    and "abs_clients h' = abs_clients h"
    and "abs_table h' = (if length f < 14 then abs_table h else (abs_table h)(src_mac f \<mapsto> n))"
    and "14 \<le> length f \<and> t \<in> switch_targets (abs_clients h) ((abs_table h)(src_mac f \<mapsto> n)) n (dst_mac f) \<longrightarrow>
         session_send env now f (get_obj sv j) = (sent_to e out, get_obj sv' j)"
    and "length f < 14 \<or> t \<notin> switch_targets (abs_clients h) ((abs_table h)(src_mac f \<mapsto> n)) n (dst_mac f) \<longrightarrow>
         sent_to e out = [] \<and> get_obj sv' j = get_obj sv j"
proof (cases "length f < 14")
  case True
  then have "out = []" "sv' = sv" using assms(1) by (simp_all add: relay_def)
  then show ?thesis using that [of h] h l True by simp
next
  case False
  have ok: "server_ok sv" using l by (simp add: sole_listener_def)
  obtain ts h' where f: "hub_forward now n f h = (ts, h')" by fastforce
  let ?sv = "sv\<lparr>sv_hubs := mput b h' (sv_hubs sv)\<rparr>"
  have d: "deliver env now b f ts ?sv = (out, sv')" using assms False f by (simp add: relay_def forward_def)
  have hok: "hub_ok h" "h_id h = b" using server_okD(3) [OF ok h] by simp_all
  note o = hub_targets_other [OF hok(1) f]
  have "12 \<le> length f" using False by simp
  note r = hub_forward_refines [OF hok(1) this f]
  have ok': "server_ok ?sv" using ok h o hok by (intro server_ok_hub) (simp_all add: manager_get_def)
  have st: "same_table sv ?sv" by (simp add: same_table_def get_obj_def)
  have l': "sole_listener b t j e ?sv" by (rule sole_listener_same [OF l ok' st])
  have sp: "server_ok sv'" "same_table ?sv sv'" "sv_hubs sv' = sv_hubs ?sv" using deliver_spec [OF d ok' o(1)] by simp_all
  have "manager_get b (sv_hubs sv') = Some h'" by (simp add: sp(3) manager_get_def)
  moreover have "sole_listener b t j e sv'" by (rule sole_listener_same [OF l' sp(1,2)])
  moreover have "get_obj ?sv j = get_obj sv j" by (simp add: get_obj_def)
  ultimately show ?thesis using that [of h'] deliver_listener [OF d l' r(2)] r False by simp
qed

lemma relay_all_listener:
  "relay_all env b n fs sv = (out, sv') \<Longrightarrow> sole_listener b t j e sv \<Longrightarrow> manager_get b (sv_hubs sv) = Some h \<Longrightarrow>
     server_sends env (heard (abs_clients h) t n (abs_table h) fs) (get_obj sv j) = (sent_to e out, get_obj sv' j)"
proof (induction fs arbitrary: sv out h)
  case (Cons x fs)
  obtain now f where x: "x = (now, f)" by fastforce
  obtain o1 sv1 o2 where r: "relay env now b n f sv = (o1, sv1)" "relay_all env b n fs sv1 = (o2, sv')" "out = o1 @ o2"
    using Cons.prems(1) by (auto simp: x split: prod.splits)
  obtain h' where h': "manager_get b (sv_hubs sv1) = Some h'" "sole_listener b t j e sv1"
    "abs_clients h' = abs_clients h"
    "abs_table h' = (if length f < 14 then abs_table h else (abs_table h)(src_mac f \<mapsto> n))"
    "14 \<le> length f \<and> t \<in> switch_targets (abs_clients h) ((abs_table h)(src_mac f \<mapsto> n)) n (dst_mac f) \<longrightarrow>
         session_send env now f (get_obj sv j) = (sent_to e o1, get_obj sv1 j)"
    "length f < 14 \<or> t \<notin> switch_targets (abs_clients h) ((abs_table h)(src_mac f \<mapsto> n)) n (dst_mac f) \<longrightarrow>
         sent_to e o1 = [] \<and> get_obj sv1 j = get_obj sv j"
    using relay_listener [OF r(1) Cons.prems(2,3)] .
  have ih: "server_sends env (heard (abs_clients h') t n (abs_table h') fs) (get_obj sv1 j) = (sent_to e o2, get_obj sv' j)"
    by (rule Cons.IH [OF r(2) h'(2,1)])
  show ?case
  proof (cases "length f < 14")
    case True
    then show ?thesis using ih h'(3-6) by (simp add: x r(3))
  next
    case False
    then show ?thesis using ih h'(3-6)
      by (cases "t \<in> switch_targets (abs_clients h) ((abs_table h)(src_mac f \<mapsto> n)) n (dst_mac f)")
        (simp_all add: x r(3) Let_def)
  qed
qed simp

section \<open>Client to client\<close>

lemma register_keeps:
  "q < length (sv_objs sv) \<Longrightarrow> get_obj (register_session s sv) q = get_obj sv q"
  "(b, t) \<noteq> (ss_hub s, ss_id s) \<Longrightarrow> map_of (sv_clients (register_session s sv)) (b, t) = map_of (sv_clients sv) (b, t)"
  "manager_get b (sv_hubs (register_session s sv)) = None \<longleftrightarrow> manager_get b (sv_hubs sv) = None"
  by (auto simp: register_session_def Let_def get_obj_def nth_append manager_get_def split: option.splits)

lemma register_client:
  "manager_get (ss_hub s) (sv_hubs sv) \<noteq> None \<Longrightarrow>
     map_of (sv_clients (register_session s sv)) (ss_hub s, ss_id s) = Some (length (sv_objs sv))"
  by (auto simp: register_session_def Let_def)

lemma register_cfg: "sv_cfg (register_session s sv) = sv_cfg sv"
  by (simp add: register_session_def Let_def split: option.split)

lemma frames_cross:
  assumes ok: "sendable env cfg" "sendable env cfg'" "length csalt = 4" "length salt' = 4" "server_ok sv"
    and law: "aead_law (en_seal env) (en_open env)"
    and fec: "fec = fec_defaults (sc_fec (sv_cfg sv))" "encodes (en_rs env) (nat (fc_k fec)) (nat (fc_r fec))"
    and b: "handle_auth env rnd' salt' now' og' (request_payload env cfg') sv = (t, hello', sv1)" "t \<noteq> 0"
      "auth_loop env csalt' cfg' (map packet_of hello') = Inr ar'" "open_session env cnow' cfg' mode' ar' sec' = Inr c'"
    and a: "handle_auth env rnd salt now og (request_payload env cfg) sv1 = (n, hello, sv2)" "n \<noteq> 0" "n \<noteq> t"
      "auth_loop env csalt cfg (map packet_of hello) = Inr ar" "open_session env cnow cfg mode ar sec = Inr c"
    and hub: "cc_hub_id cfg' = cc_hub_id cfg" "manager_get (cc_hub_id cfg) (sv_hubs sv2) = Some h"
      "og_send og' \<notin> peer_endpoints sv2 (cc_hub_id cfg) t"
    and up: "client_sends env fs c = (out, c1)" "list_all2 arrives (primary out) gs"
    and down: "server_run env (concat gs) sv2 = (effs, sv3)" "map snd as = map packet_of (sent_to (og_send og') effs)"
    and small: "list_all fits (map snd fs)" "length (primary out) < 2 ^ 64" "length (sent_to (og_send og') effs) < 2 ^ 64"
      "length fs < 4294967296"
  shows "\<exists>st. client_recv_all env as (new_recv_loop, c') =
    (switched (abs_clients h) t n (abs_table h) (map snd fs), None, st)"
proof -
  let ?b = "cc_hub_id cfg" and ?e = "og_send og'" and ?j = "length (sv_objs sv)"
  obtain s pkt ar0 where r: "sv1 = register_session s sv" "ss_id s = t" "hello' = [SendTo (og_send og') pkt]"
    "auth_loop env csalt' cfg' [pkt] = Inr ar0" "ss_hub s = cc_hub_id cfg'" "ar_session ar0 = t"
    "c_key (ar_cipher ar0) = c_key (ss_cipher s)"
    "uint (ar_k ar0) = int (e_k (p_enc (ss_pipe s)))" "uint (ar_r ar0) = int (e_r (p_enc (ss_pipe s)))"
    "build_session env t salt' now' og' (client_hello_of env cfg') fec = Some s"
    using handshake [OF ok(2) b(1,2), of "[]" csalt' "[]"] fec(1) by (metis append_Nil list.pred_inject(1))
  have ar': "ar' = ar0" using b(3) r(3,4) by (simp add: packet_of_def)
  obtain key where p: "new_pipe (en_rs env) (fc_k fec) (fc_r fec) (repair_delay_duration fec) True = Inr (ss_pipe s)"
    "ss_raw s = og_send og'" "ss_raw2 s = None"
    using build_sessionD [OF r(10)] by metis
  have kr: "uint (ar_k ar') = fc_k fec" "uint (ar_r ar') = fc_r fec"
    using new_pipe_bounds [OF p(1)] r(8,9) by (simp_all add: ar')
  from client_opens [OF p(1) this, of cnow' cfg' mode' sec']
  have c': "k_id c' = ar_session ar'" "k_cipher c' = ar_cipher ar'" "k_reasm c' = []" "in_order 0 0 (p_dec (k_pipe c'))"
    "d_k (p_dec (k_pipe c')) = nat (fc_k fec)" using b(4) by (metis sum.inject(2))+
  have ok1: "server_ok sv1" by (simp add: r(1) server_ok_register ok(5))
  obtain s2 where s2: "sv2 = register_session s2 sv1" "ss_id s2 = n"
    using handshake [OF ok(1) a(1,2), of "[]" csalt "[]"] by (metis list.pred_inject(1))
  have ok2: "server_ok sv2" by (simp add: s2(1) server_ok_register ok1)
  have fec1: "fec = fec_defaults (sc_fec (sv_cfg sv1))" by (simp add: fec(1) r(1) register_cfg)
  obtain i ts s' where u: "length ts = length fs"
    "server_run env (concat gs) sv2 = map_prod id (put_obj i s') (relay_all env ?b n (zip ts (map snd fs)) sv2)"
    using client_reaches_hub [OF ok(1,3) ok1 law fec1 fec(2) a(1,2,4,5) up small(1,2,4)] by blast
  obtain sv4 where rel: "relay_all env ?b n (zip ts (map snd fs)) sv2 = (effs, sv4)"
    using down(1) u(2) by (cases "relay_all env ?b n (zip ts (map snd fs)) sv2") simp
  have hubs: "manager_get ?b (sv_hubs sv) \<noteq> None" using hub(2) register_keeps(3) by (metis option.distinct(1) r(1) s2(1))
  have obj1: "get_obj sv1 ?j = s" using registered_session(2) [of s sv] by (simp add: r(1))
  have obj: "get_obj sv2 ?j = s"
    using register_keeps(1) [of ?j sv1 s2] obj1 by (simp add: s2(1)) (simp add: r(1) register_session_def Let_def split: option.splits)
  have "map_of (sv_clients sv1) (?b, t) = Some ?j" using register_client [of s sv] hubs r(1,2,5) hub(1) by simp
  then have "map_of (sv_clients sv2) (?b, t) = Some ?j" using register_keeps(2) [of ?b t s2 sv1] a(3) s2 by simp
  then have l: "sole_listener ?b t ?j ?e sv2"
    using ok2 hub(3) obj p(2,3) by (simp add: sole_listener_def session_endpoints_def)
  let ?heard = "heard (abs_clients h) t n (abs_table h) (zip ts (map snd fs))"
  have run: "server_sends env ?heard s = (sent_to ?e effs, get_obj sv4 ?j)"
    using relay_all_listener [OF rel l hub(2)] by (simp add: obj)
  have frames: "map snd (zip ts (map snd fs)) = map snd fs" using u(1) by simp
  have sub: "set (map snd ?heard) \<subseteq> set (map snd fs)"
    using heard_subset [of "abs_clients h" t n "abs_table h" "zip ts (map snd fs)"] frames by (metis image_mono set_map)
  have fit: "list_all fits (map snd ?heard)" using small(1) sub unfolding list_all_iff by blast
  have len: "length ?heard < 4294967296"
    using heard_length [of "abs_clients h" t n "abs_table h" "zip ts (map snd fs)"] small(4) u(1) by simp
  have "linked (nat (fc_k fec)) (nat (fc_r fec)) (length (sent_to ?e effs)) (length ?heard) s (new_recv_loop, c')"
    using linked_fresh [OF r(10) ok(4) _ _ c'(3-5) small(3) len] c'(1,2) r(6,7) by (simp add: ar')
  from recv_all_frames [OF law fec(2) this fit run down(2)] show ?thesis
    unfolding to_adapter_heard frames .
qed


end
