(* ===== verification/Battery.thy ===== *)
theory Battery
  imports Prelude
begin

text \<open>
  \<open>internal/bmwbattery\<close>: the request and response frames of the diagnostic link, reading one data
  identifier, the two series' readouts with their search for a plausible voltage, and the merging of
  readings that \<open>StickyPoll\<close> shows. A connection is what it will still deliver before its deadline,
  what was written to it, and how many more writes succeed. A voltage is kept in millivolts.
\<close>

section \<open>Frames\<close>

record bconn =
  bc_in :: bytes
  bc_out :: "bytes list"
  bc_writes :: nat

definition diag_frame :: "16 word \<Rightarrow> bytes \<Rightarrow> bytes" where
  "diag_frame ty p = put32 (of_nat (length p)) @ put16 ty @ p"

text \<open>\<open>writeFrame\<close>: whether the write succeeded.\<close>

definition write_frame :: "bytes \<Rightarrow> bconn \<Rightarrow> bool \<times> bconn" where
  "write_frame p c =
     (if bc_writes c = 0 then (False, c)
      else (True, c\<lparr>bc_out := bc_out c @ [diag_frame 1 p], bc_writes := bc_writes c - 1\<rparr>))"

definition conn_read :: "nat \<Rightarrow> bconn \<Rightarrow> bytes option \<times> bconn" where
  "conn_read n c =
     (if length (bc_in c) < n then (None, c\<lparr>bc_in := []\<rparr>)
      else (Some (take n (bc_in c)), c\<lparr>bc_in := drop n (bc_in c)\<rparr>))"

definition read_frame :: "bconn \<Rightarrow> (16 word \<times> bytes) option \<times> bconn" where
  "read_frame c =
     (case conn_read 6 c of
        (None, c1) \<Rightarrow> (None, c1)
      | (Some hdr, c1) \<Rightarrow>
          let len = get32 (slice 0 4 hdr); ty = get16 (slice 4 6 hdr)
          in if len = 0 then (Some (ty, []), c1)
             else (case conn_read (unat len) c1 of
                 (None, c2) \<Rightarrow> (None, c2)
               | (Some p, c2) \<Rightarrow> (Some (ty, p), c2)))"

section \<open>One data identifier\<close>

datatype did_error = DidWrite | DidRead | DidTooShort | DidNegative byte | DidUnexpected byte | DidNoData

definition did_request :: "byte \<Rightarrow> byte \<Rightarrow> bytes" where
  "did_request hi lo = [0xF4, 0x12, 0x22, hi, lo]"

definition did_answer :: "bytes \<Rightarrow> did_error + bytes" where
  "did_answer p =
     (if length p < 6 then Inl DidTooShort
      else if p ! 2 = 0x7F then Inl (DidNegative (if 4 < length p then p ! 4 else 0))
      else if p ! 2 \<noteq> 0x62 then Inl (DidUnexpected (p ! 2))
      else Inr (drop 5 p))"

fun did_loop :: "nat \<Rightarrow> bconn \<Rightarrow> (did_error + bytes) \<times> bconn" where
  "did_loop 0 c = (Inl DidNoData, c)"
| "did_loop (Suc n) c =
     (case read_frame c of
        (None, c1) \<Rightarrow> (Inl DidRead, c1)
      | (Some (ty, p), c1) \<Rightarrow> if ty \<noteq> 1 then did_loop n c1 else (did_answer p, c1))"

definition read_did :: "byte \<Rightarrow> byte \<Rightarrow> bconn \<Rightarrow> (did_error + bytes) \<times> bconn" where
  "read_did hi lo c =
     (case write_frame (did_request hi lo) c of
        (False, c1) \<Rightarrow> (Inl DidWrite, c1)
      | (True, c1) \<Rightarrow> did_loop 3 c1)"

section \<open>Looking for a voltage\<close>

definition word_be :: "bytes \<Rightarrow> nat \<Rightarrow> nat" where
  "word_be d i = 256 * unat (d ! i) + unat (d ! Suc i)"

definition word_le :: "bytes \<Rightarrow> nat \<Rightarrow> nat" where
  "word_le d i = 256 * unat (d ! Suc i) + unat (d ! i)"

definition volt_range :: "nat \<Rightarrow> bool" where
  "volt_range w \<longleftrightarrow> 11000 \<le> w \<and> w \<le> 15200"

text \<open>A loop that returns the first value in range.\<close>

fun scan_words :: "(nat \<Rightarrow> nat list) \<Rightarrow> nat list \<Rightarrow> nat option" where
  "scan_words f [] = None"
| "scan_words f (i # is) = (case filter volt_range (f i) of w # _ \<Rightarrow> Some w | [] \<Rightarrow> scan_words f is)"

definition pair_starts :: "bytes \<Rightarrow> nat list" where
  "pair_starts d = [0..<length d - 1]"

definition aligned_starts :: "bytes \<Rightarrow> nat list" where
  "aligned_starts d = filter even (pair_starts d)"

definition three_scans :: "bytes \<Rightarrow> nat list \<Rightarrow> nat list \<Rightarrow> nat option" where
  "three_scans d aligned any =
     (case scan_words (\<lambda>i. [word_be d i]) aligned of Some w \<Rightarrow> Some w
      | None \<Rightarrow> (case scan_words (\<lambda>i. [word_le d i]) aligned of Some w \<Rightarrow> Some w
      | None \<Rightarrow> scan_words (\<lambda>i. [word_be d i, word_le d i]) any))"

definition find_voltage :: "bytes \<Rightarrow> nat option" where
  "find_voltage d = three_scans d (aligned_starts d) (pair_starts d)"

definition find_voltage_from_end :: "bytes \<Rightarrow> nat option" where
  "find_voltage_from_end d = three_scans d (rev (aligned_starts d)) (rev (pair_starts d))"

section \<open>Readouts\<close>

record battery =
  bt_soc :: nat
  bt_has_soc :: bool
  bt_mv :: nat
  bt_has_mv :: bool
  bt_age :: nat
  bt_has_age :: bool

definition no_battery :: battery where
  "no_battery = \<lparr>bt_soc = 0, bt_has_soc = False, bt_mv = 0, bt_has_mv = False, bt_age = 0, bt_has_age = False\<rparr>"

definition percent :: "byte \<Rightarrow> nat option" where
  "percent v = (if 1 \<le> v \<and> v \<le> 100 then Some (unat v) else None)"

definition percent_at :: "nat \<Rightarrow> did_error + bytes \<Rightarrow> nat option" where
  "percent_at i r = (case r of Inl _ \<Rightarrow> None | Inr d \<Rightarrow> if i < length d then percent (d ! i) else None)"

definition put_soc :: "nat option \<Rightarrow> battery \<Rightarrow> battery" where
  "put_soc v b = (case v of None \<Rightarrow> b | Some n \<Rightarrow> b\<lparr>bt_soc := n, bt_has_soc := True\<rparr>)"

definition put_mv :: "nat option \<Rightarrow> battery \<Rightarrow> battery" where
  "put_mv v b = (case v of None \<Rightarrow> b | Some n \<Rightarrow> b\<lparr>bt_mv := n, bt_has_mv := True\<rparr>)"

definition put_age :: "nat option \<Rightarrow> battery \<Rightarrow> battery" where
  "put_age v b = (case v of None \<Rightarrow> b | Some n \<Rightarrow> b\<lparr>bt_age := n, bt_has_age := True\<rparr>)"

definition voltage_of :: "(bytes \<Rightarrow> nat option) \<Rightarrow> did_error + bytes \<Rightarrow> nat option" where
  "voltage_of look r = (case r of Inl _ \<Rightarrow> None | Inr d \<Rightarrow> look d)"

text \<open>The readouts: the status, and whether anything was obtained (else the caller gets an error).\<close>

definition read_g :: "bconn \<Rightarrow> (battery \<times> bool) \<times> bconn" where
  "read_g c =
     (case read_did 0x40 0xAD c of (r1, c1) \<Rightarrow>
      case read_did 0x40 0xC3 c1 of (r2, c2) \<Rightarrow>
      case read_did 0x40 0xB5 c2 of (r3, c3) \<Rightarrow>
        let soc = percent_at 0 r1; mv = voltage_of find_voltage r2; age = percent_at 19 r3
        in ((put_age age (put_mv mv (put_soc soc no_battery)), soc \<noteq> None \<or> mv \<noteq> None \<or> age \<noteq> None), c3))"

definition read_f :: "bconn \<Rightarrow> (battery \<times> bool) \<times> bconn" where
  "read_f c =
     (case read_did 0x40 0x23 c of (r1, c1) \<Rightarrow>
      case read_did 0x40 0x22 c1 of (r2, c2) \<Rightarrow>
        let soc = percent_at 17 r1; mv = voltage_of find_voltage_from_end r2
        in ((put_mv mv (put_soc soc no_battery), \<not> isl r1 \<or> mv \<noteq> None), c2))"

definition g_series :: "string \<Rightarrow> bool" where
  "g_series platform \<longleftrightarrow> platform \<in> set [''S15A'', ''S15C'', ''S18A'', ''G045'', ''G070'']"

text \<open>\<open>Read\<close>: \<open>None\<close> for the connection that could not be opened.\<close>

definition read_battery :: "bconn option \<Rightarrow> string \<Rightarrow> battery option \<times> bool" where
  "read_battery conn platform =
     (case conn of
        None \<Rightarrow> (None, False)
      | Some c \<Rightarrow> (case (if g_series platform then read_g c else read_f c) of ((b, ok), _) \<Rightarrow> (Some b, ok)))"

section \<open>Polling\<close>

definition merge_battery :: "battery option \<Rightarrow> battery option \<Rightarrow> battery" where
  "merge_battery held fresh =
     (let h = (case held of None \<Rightarrow> no_battery | Some h \<Rightarrow> h) in
      case fresh of
        None \<Rightarrow> h
      | Some f \<Rightarrow>
          put_age (if bt_has_age f then Some (bt_age f) else None)
            (put_mv (if bt_has_mv f then Some (bt_mv f) else None)
              (put_soc (if bt_has_soc f then Some (bt_soc f) else None) h)))"

text \<open>What \<open>StickyPoll\<close> hands to its callback after every reading.\<close>

fun sticky_poll :: "battery option \<Rightarrow> battery option list \<Rightarrow> battery list" where
  "sticky_poll held [] = []"
| "sticky_poll held (r # rs) = (let h = merge_battery held r in h # sticky_poll (Some h) rs)"

section \<open>Frames are read as they were written\<close>

definition diag_ok :: "16 word \<times> bytes \<Rightarrow> bool" where
  "diag_ok x \<longleftrightarrow> length (snd x) < 2 ^ 32"

lemma read_diag_frame:
  assumes "length p < 2 ^ 32" and "bc_in c = diag_frame ty p @ rest"
  shows "read_frame c = (Some (ty, p), c\<lparr>bc_in := rest\<rparr>)"
proof -
  have n: "unat (of_nat (length p) :: 32 word) = length p"
    using assms(1) by (simp add: unat_of_nat take_bit_nat_eq_self)
  then have z: "(of_nat (length p) :: 32 word) = 0 \<longleftrightarrow> p = []" by (metis length_0_conv unat_eq_zero)
  show ?thesis using n z assms(2) by (auto simp: read_frame_def conn_read_def diag_frame_def Let_def slice_append_over)
qed

interpretation diag: codec "\<lambda>(ty, p). diag_frame ty p"
  "\<lambda>s. case read_frame \<lparr>bc_in = s, bc_out = [], bc_writes = 0\<rparr> of (Some x, c) \<Rightarrow> if bc_in c = [] then Some x else None
     | (None, _) \<Rightarrow> None" diag_ok
  by unfold_locales (use read_diag_frame [where rest = "[]"] in \<open>auto simp: diag_ok_def\<close>)

text \<open>The answer to a request, after at most two acknowledgements.\<close>

definition positive :: "byte \<Rightarrow> byte \<Rightarrow> bytes \<Rightarrow> bytes" where
  "positive hi lo d = [0x12, 0xF4, 0x62, hi, lo] @ d"

lemma did_answer_positive: "d \<noteq> [] \<Longrightarrow> did_answer (positive hi lo d) = Inr d"
  by (cases d) (simp_all add: did_answer_def positive_def)

text \<open>
  The echoed identifier is not compared: an answer to any other request counts. And the five bytes of
  a negative response are too short for its own branch, which only longer ones reach.
\<close>

lemma did_answer_any: "d \<noteq> [] \<Longrightarrow> did_answer (positive hi' lo' d) = did_answer (positive hi lo d)"
  by (simp add: did_answer_positive)

lemma did_answer_negative: "did_answer [a, b, 0x7F, svc, nrc] = Inl DidTooShort"
  by (simp add: did_answer_def)

lemma did_answer_Inr: "did_answer p = Inr d \<Longrightarrow> d \<noteq> [] \<and> length d = length p - 5"
  by (auto simp: did_answer_def split: if_splits)

lemma did_loop_acks:
  assumes "list_all (\<lambda>(ty, p). ty \<noteq> 1 \<and> length p < 2 ^ 32) acks" and "length acks < n" and "length p < 2 ^ 32"
    and "bc_in c = concat (map (\<lambda>(ty, p). diag_frame ty p) acks) @ diag_frame 1 p @ rest"
  shows "did_loop n c = (did_answer p, c\<lparr>bc_in := rest\<rparr>)"
  using assms
proof (induction acks arbitrary: n c)
  case Nil
  then show ?case by (cases n) (simp_all add: read_diag_frame [of p c 1 rest])
next
  case (Cons a acks)
  obtain ty q where a: "a = (ty, q)" by fastforce
  obtain m where n: "n = Suc m" using Cons.prems(2) by (cases n) simp_all
  let ?rest = "concat (map (\<lambda>(ty, p). diag_frame ty p) acks) @ diag_frame 1 p @ rest"
  have "read_frame c = (Some (ty, q), c\<lparr>bc_in := ?rest\<rparr>)"
    using Cons.prems(1,4) by (intro read_diag_frame) (simp_all add: a)
  moreover have "did_loop m (c\<lparr>bc_in := ?rest\<rparr>) = (did_answer p, c\<lparr>bc_in := ?rest, bc_in := rest\<rparr>)"
    using Cons.prems(1-3) by (intro Cons.IH) (simp_all add: n)
  ultimately show ?case using Cons.prems(1) by (simp add: n a)
qed

section \<open>The voltage search\<close>

lemma scan_words_Some: "scan_words f is = Some w \<Longrightarrow> \<exists>i \<in> set is. w \<in> set (f i) \<and> volt_range w"
proof (induction "is")
  case (Cons i "is")
  show ?case
  proof (cases "filter volt_range (f i)")
    case Nil
    then show ?thesis using Cons by auto
  next
    case (Cons x xs)
    have "x \<in> set (filter volt_range (f i))" unfolding Cons by simp
    then have "x \<in> set (f i)" "volt_range x" unfolding set_filter by simp_all
    moreover have "x = w" using Cons Cons.prems by simp
    ultimately show ?thesis by auto
  qed
qed simp

lemma scan_words_None: "scan_words f is = None \<longleftrightarrow> (\<forall>i \<in> set is. \<forall>w \<in> set (f i). \<not> volt_range w)"
proof (induction "is")
  case (Cons i "is")
  show ?case
  proof (cases "filter volt_range (f i)")
    case Nil
    then show ?thesis using Cons by (auto simp: filter_empty_conv)
  next
    case (Cons x xs)
    have "x \<in> set (filter volt_range (f i))" unfolding Cons by simp
    then have "x \<in> set (f i)" "volt_range x" unfolding set_filter by simp_all
    then show ?thesis using Cons by auto
  qed
qed simp

text \<open>A voltage that is found is in range and stands in the data; one is missed only if there is none.\<close>

definition has_voltage :: "bytes \<Rightarrow> nat \<Rightarrow> bool" where
  "has_voltage d w \<longleftrightarrow> volt_range w \<and> (\<exists>i < length d - 1. w = word_be d i \<or> w = word_le d i)"

lemma has_voltageI: "i < length d - 1 \<Longrightarrow> w = word_be d i \<or> w = word_le d i \<Longrightarrow> volt_range w \<Longrightarrow> has_voltage d w"
  unfolding has_voltage_def by blast

lemma no_voltage:
  "(\<forall>w. \<not> has_voltage d w) \<longleftrightarrow> (\<forall>i < length d - 1. \<not> volt_range (word_be d i) \<and> \<not> volt_range (word_le d i))"
  unfolding has_voltage_def by blast

lemma three_scans_sound:
  assumes "set aligned \<subseteq> set (pair_starts d)" and "set any = set (pair_starts d)"
  shows "three_scans d aligned any = Some w \<Longrightarrow> has_voltage d w"
    and "three_scans d aligned any = None \<longleftrightarrow> (\<forall>w. \<not> has_voltage d w)"
proof -
  have sub: "i \<in> set aligned \<Longrightarrow> i < length d - 1" "i \<in> set any \<longleftrightarrow> i < length d - 1" for i
    using assms by (auto simp: pair_starts_def)
  show "three_scans d aligned any = None \<longleftrightarrow> (\<forall>w. \<not> has_voltage d w)"
    unfolding three_scans_def option.case_eq_if
    using sub by (auto simp: scan_words_None no_voltage)
  assume "three_scans d aligned any = Some w"
  then consider "scan_words (\<lambda>i. [word_be d i]) aligned = Some w" | "scan_words (\<lambda>i. [word_le d i]) aligned = Some w"
    | "scan_words (\<lambda>i. [word_be d i, word_le d i]) any = Some w"
    by (auto simp: three_scans_def split: option.splits)
  then show "has_voltage d w"
    using sub has_voltageI by cases (fastforce dest!: scan_words_Some)+
qed

lemma find_voltage_spec:
  "find_voltage d = Some w \<Longrightarrow> has_voltage d w" "find_voltage d = None \<longleftrightarrow> (\<forall>w. \<not> has_voltage d w)"
  "find_voltage_from_end d = Some w \<Longrightarrow> has_voltage d w"
  "find_voltage_from_end d = None \<longleftrightarrow> (\<forall>w. \<not> has_voltage d w)"
  using three_scans_sound [of "aligned_starts d" d "pair_starts d"]
    three_scans_sound [of "rev (aligned_starts d)" d "rev (pair_starts d)"]
  by (auto simp: find_voltage_def find_voltage_from_end_def aligned_starts_def)

text \<open>On a block of big-endian words the search takes the first plausible word, from the end the last.\<close>

lemma scan_words_single: "scan_words (\<lambda>i. [g i]) is = find volt_range (map g is)"
  by (induction "is") simp_all

definition word_block :: "16 word list \<Rightarrow> bytes" where
  "word_block ws = concat (map put16 ws)"

lemma length_word_block [simp]: "length (word_block ws) = 2 * length ws"
  by (induction ws) (simp_all add: word_block_def)

lemma word_block_nth: "j < length ws \<Longrightarrow> word_be (word_block ws) (2 * j) = unat (ws ! j)"
proof (induction ws arbitrary: j)
  case (Cons w ws)
  have g: "[put16 w ! 0, put16 w ! 1] = put16 w" by (rule nth_equalityI) (auto simp: nth_Cons less_Suc_eq)
  have w: "256 * unat (put16 w ! 0) + unat (put16 w ! 1) = unat w"
    using unat_get16 [of "put16 w ! 0" "put16 w ! 1"] unfolding g by simp
  show ?case
  proof (cases j)
    case 0
    then show ?thesis using w by (simp add: word_be_def word_block_def nth_append)
  next
    case (Suc i)
    then show ?thesis using Cons by (simp add: word_be_def word_block_def nth_append)
  qed
qed simp

lemma even_starts: "filter even [0..<2 * n - 1] = map ((*) 2) [0..<n]"
proof (induction n)
  case (Suc n)
  show ?case
  proof (cases n)
    case (Suc m)
    have "[0..<2 * Suc n - 1] = [0..<2 * n - 1] @ [2 * n - 1, 2 * n]"
      by (simp add: Suc)
    then show ?thesis using Suc.IH by (simp add: Suc)
  qed simp
qed simp

lemma aligned_word_block: "aligned_starts (word_block ws) = map ((*) 2) [0..<length ws]"
  by (simp add: aligned_starts_def pair_starts_def even_starts del: One_nat_def)

lemma words_of_block: "map (word_be (word_block ws)) (aligned_starts (word_block ws)) = map unat ws"
  by (rule nth_equalityI) (simp_all add: aligned_word_block word_block_nth)

lemma find_voltage_block:
  "find_voltage (word_block ws) = Some v" if "find volt_range (map unat ws) = Some v"
  using that scan_words_single [of "word_be (word_block ws)" "aligned_starts (word_block ws)"] words_of_block [of ws]
  by (simp add: find_voltage_def three_scans_def)

lemma find_voltage_from_end_block:
  "find_voltage_from_end (word_block ws) = Some v" if "find volt_range (rev (map unat ws)) = Some v"
proof -
  have "map (word_be (word_block ws)) (rev (aligned_starts (word_block ws))) = rev (map unat ws)"
    unfolding rev_map [symmetric] words_of_block ..
  then show ?thesis using that scan_words_single [of "word_be (word_block ws)" "rev (aligned_starts (word_block ws))"]
    by (simp add: find_voltage_from_end_def three_scans_def)
qed

section \<open>Readings\<close>

definition battery_ok :: "battery \<Rightarrow> bool" where
  "battery_ok b \<longleftrightarrow> (if bt_has_soc b then 1 \<le> bt_soc b \<and> bt_soc b \<le> 100 else bt_soc b = 0) \<and>
     (if bt_has_mv b then volt_range (bt_mv b) else bt_mv b = 0) \<and>
     (if bt_has_age b then 1 \<le> bt_age b \<and> bt_age b \<le> 100 else bt_age b = 0)"

lemma percent_range: "percent v = Some n \<Longrightarrow> 1 \<le> n \<and> n \<le> 100"
  by (auto simp: percent_def word_le_nat_alt split: if_splits)

lemma percent_at_range: "percent_at i r = Some n \<Longrightarrow> 1 \<le> n \<and> n \<le> 100"
  by (auto simp: percent_at_def dest!: percent_range split: sum.splits if_splits)

lemma no_battery_ok [simp]: "battery_ok no_battery"
  by (simp add: battery_ok_def no_battery_def)

lemma put_ok:
  "battery_ok b \<Longrightarrow> (\<And>n. v = Some n \<Longrightarrow> 1 \<le> n \<and> n \<le> 100) \<Longrightarrow> battery_ok (put_soc v b)"
  "battery_ok b \<Longrightarrow> (\<And>n. v = Some n \<Longrightarrow> volt_range n) \<Longrightarrow> battery_ok (put_mv v b)"
  "battery_ok b \<Longrightarrow> (\<And>n. v = Some n \<Longrightarrow> 1 \<le> n \<and> n \<le> 100) \<Longrightarrow> battery_ok (put_age v b)"
  by (auto simp: battery_ok_def put_soc_def put_mv_def put_age_def split: option.splits)

lemma voltage_of_range:
  "voltage_of find_voltage r = Some n \<Longrightarrow> volt_range n"
  "voltage_of find_voltage_from_end r = Some n \<Longrightarrow> volt_range n"
  by (auto simp: voltage_of_def has_voltage_def dest!: find_voltage_spec(1,3) split: sum.splits)

lemma read_g_ok: "battery_ok (fst (fst (read_g c)))"
proof -
  have "battery_ok (put_age (percent_at 19 r3) (put_mv (voltage_of find_voltage r2) (put_soc (percent_at 0 r1) no_battery)))"
    for r1 r2 r3
    by (rule put_ok, rule put_ok, rule put_ok, rule no_battery_ok) (erule percent_at_range voltage_of_range)+
  then show ?thesis unfolding read_g_def Let_def case_prod_beta fst_conv .
qed

lemma read_f_ok: "battery_ok (fst (fst (read_f c)))"
proof -
  have "battery_ok (put_mv (voltage_of find_voltage_from_end r2) (put_soc (percent_at 17 r1) no_battery))" for r1 r2
    by (rule put_ok, rule put_ok, rule no_battery_ok) (erule percent_at_range voltage_of_range)+
  then show ?thesis unfolding read_f_def Let_def case_prod_beta fst_conv .
qed

lemma read_battery_ok: "read_battery conn platform = (Some b, ok) \<Longrightarrow> battery_ok b"
  using read_g_ok read_f_ok by (auto simp: read_battery_def case_prod_beta split: option.splits if_splits)

lemma merge_battery_ok:
  "(\<And>h. held = Some h \<Longrightarrow> battery_ok h) \<Longrightarrow> (\<And>f. fresh = Some f \<Longrightarrow> battery_ok f) \<Longrightarrow> battery_ok (merge_battery held fresh)"
proof -
  have "battery_ok (put_age (if bt_has_age f then Some (bt_age f) else None)
      (put_mv (if bt_has_mv f then Some (bt_mv f) else None)
        (put_soc (if bt_has_soc f then Some (bt_soc f) else None) h)))" if "battery_ok h" "battery_ok f" for h f
    using that by (intro put_ok) (simp_all add: battery_ok_def split: if_splits)
  moreover assume "\<And>h. held = Some h \<Longrightarrow> battery_ok h" "\<And>f. fresh = Some f \<Longrightarrow> battery_ok f"
  ultimately show ?thesis by (simp add: merge_battery_def Let_def split: option.split)
qed

text \<open>What is shown is, field by field, the value of the last reading that had it.\<close>

definition last_seen :: "(battery \<Rightarrow> bool) \<Rightarrow> (battery \<Rightarrow> nat) \<Rightarrow> battery option list \<Rightarrow> nat option" where
  "last_seen has get rs =
     foldl (\<lambda>acc r. case r of Some b \<Rightarrow> if has b then Some (get b) else acc | None \<Rightarrow> acc) None rs"

definition shown :: "bool \<Rightarrow> nat \<Rightarrow> nat option" where
  "shown has v = (if has then Some v else None)"

definition sticky_state :: "battery option list \<Rightarrow> battery" where
  "sticky_state rs = foldl (\<lambda>h r. merge_battery (Some h) r) no_battery rs"

lemma merge_held: "merge_battery None r = merge_battery (Some no_battery) r"
  by (simp add: merge_battery_def)

lemma sticky_poll_states:
  "sticky_poll (Some h) rs = map (\<lambda>n. foldl (\<lambda>h r. merge_battery (Some h) r) h (take (Suc n) rs)) [0..<length rs]"
proof (induction rs arbitrary: h)
  case (Cons r rs)
  have "map (\<lambda>n. foldl (\<lambda>h r. merge_battery (Some h) r) h (take (Suc n) (r # rs))) [0..<length (r # rs)] =
      merge_battery (Some h) r #
      map (\<lambda>n. foldl (\<lambda>h r. merge_battery (Some h) r) (merge_battery (Some h) r) (take (Suc n) rs)) [0..<length rs]"
    by (simp add: upt_conv_Cons map_Suc_upt [symmetric] del: upt_Suc)
  then show ?case using Cons.IH by (simp add: Let_def)
qed simp

lemma sticky_poll_nth: "n < length rs \<Longrightarrow> sticky_poll None rs ! n = sticky_state (take (Suc n) rs)"
proof -
  assume n: "n < length rs"
  have "sticky_poll None rs = sticky_poll (Some no_battery) rs"
    by (cases rs) (simp_all add: merge_held)
  then show ?thesis using n by (simp add: sticky_poll_states sticky_state_def)
qed

lemma length_sticky_poll [simp]: "length (sticky_poll held rs) = length rs"
  by (induction held rs rule: sticky_poll.induct) (simp_all add: Let_def)

lemma sticky_state_shows:
  "shown (bt_has_soc (sticky_state rs)) (bt_soc (sticky_state rs)) = last_seen bt_has_soc bt_soc rs \<and>
   shown (bt_has_mv (sticky_state rs)) (bt_mv (sticky_state rs)) = last_seen bt_has_mv bt_mv rs \<and>
   shown (bt_has_age (sticky_state rs)) (bt_age (sticky_state rs)) = last_seen bt_has_age bt_age rs"
proof (induction rs rule: rev_induct)
  case Nil
  then show ?case by (simp add: sticky_state_def last_seen_def shown_def no_battery_def)
next
  case (snoc r rs)
  show ?case
    using snoc by (cases r)
      (auto simp: sticky_state_def last_seen_def shown_def merge_battery_def put_soc_def put_mv_def put_age_def Let_def)
qed

lemma readings_ok: "case fst (read_battery conn platform) of None \<Rightarrow> True | Some b \<Rightarrow> battery_ok b"
  using read_battery_ok [of conn platform] by (cases "read_battery conn platform") (simp split: option.split)

lemma sticky_poll_ok:
  "(\<And>h. held = Some h \<Longrightarrow> battery_ok h) \<Longrightarrow> list_all (\<lambda>r. case r of None \<Rightarrow> True | Some b \<Rightarrow> battery_ok b) rs \<Longrightarrow>
     list_all battery_ok (sticky_poll held rs)"
proof (induction rs arbitrary: held)
  case (Cons r rs)
  have "battery_ok (merge_battery held r)"
    using Cons.prems by (intro merge_battery_ok) auto
  then show ?case using Cons.IH [of "Some (merge_battery held r)"] Cons.prems(2) by (simp add: Let_def)
qed simp

lemma sticky_readings_ok: "list_all battery_ok (sticky_poll None (map (\<lambda>c. fst (read_battery c platform)) cs))"
  by (rule sticky_poll_ok) (use readings_ok in \<open>simp_all add: list_all_iff\<close>)

end
