(* ===== verification/VinDecode.thy ===== *)
theory VinDecode
  imports GoNet
begin

text \<open>
  \<open>decodeVIN\<close> of \<open>internal/zgw/zgw.go\<close> with its hand-written tables, the platform tables of \<open>zgw.go\<close> and
  \<open>fa_platform.go\<close>, and the type database of \<open>vindb.go\<close>. The two generated data sets, the table
  \<open>faTypeKeys\<close> and the embedded CSV, are arguments (\<open>car_db\<close>).
\<close>

section \<open>Tables\<close>

record bmw_model =
  bm_chassis :: string
  bm_tourer :: string
  bm_series :: string
  bm_fwd :: bool

record body_info =
  bi_touring :: bool
  bi_xdrive :: bool

abbreviation model_entry :: "string \<Rightarrow> string \<Rightarrow> string \<Rightarrow> bool \<Rightarrow> bmw_model" where
  "model_entry c t s f \<equiv> \<lparr>bm_chassis = c, bm_tourer = t, bm_series = s, bm_fwd = f\<rparr>"

definition bmwBodyCodes :: "(char \<times> body_info) list" where
  "bmwBodyCodes = [
    (CHR ''X'', \<lparr>bi_touring = False, bi_xdrive = True\<rparr>),
    (CHR ''W'', \<lparr>bi_touring = False, bi_xdrive = True\<rparr>),
    (CHR ''B'', \<lparr>bi_touring = True, bi_xdrive = False\<rparr>),
    (CHR ''D'', \<lparr>bi_touring = True, bi_xdrive = True\<rparr>),
    (CHR ''K'', \<lparr>bi_touring = True, bi_xdrive = False\<rparr>),
    (CHR ''E'', \<lparr>bi_touring = True, bi_xdrive = False\<rparr>),
    (CHR ''N'', \<lparr>bi_touring = True, bi_xdrive = True\<rparr>),
    (CHR ''F'', \<lparr>bi_touring = True, bi_xdrive = False\<rparr>),
    (CHR ''G'', \<lparr>bi_touring = True, bi_xdrive = True\<rparr>)]"

definition gseriesIntroMY :: "(char \<times> char) list" where
  "gseriesIntroMY = [
    (CHR ''H'', CHR ''K''), (CHR ''K'', CHR ''G''), (CHR ''W'', CHR ''N''), (CHR ''5'', CHR ''K'')]"

definition fseriesAltKeys :: "(char \<times> bmw_model) list" where
  "fseriesAltKeys = [
    (CHR ''H'', model_entry ''F48'' '''' ''X1'' True), (CHR ''K'', model_entry ''F15'' '''' ''X5'' False),
    (CHR ''W'', model_entry ''F25'' '''' ''X3'' False), (CHR ''5'', model_entry ''F10'' ''F11'' ''5'' False)]"

definition bmwTypeKeys :: "(char \<times> bmw_model) list" where
  "bmwTypeKeys = [
    (CHR ''9'', model_entry ''E90'' ''E91'' ''3'' False), (CHR ''1'', model_entry ''F20'' ''F21'' ''1'' False),
    (CHR ''2'', model_entry ''F45'' ''F46'' ''2'' True), (CHR ''3'', model_entry ''F33'' '''' ''4'' False),
    (CHR ''4'', model_entry ''F36'' '''' ''4'' False), (CHR ''5'', model_entry ''G20'' ''G21'' ''3'' False),
    (CHR ''6'', model_entry ''F12'' '''' ''6'' False), (CHR ''7'', model_entry ''G11'' ''G12'' ''7'' False),
    (CHR ''8'', model_entry ''F30'' ''F31'' ''3'' False), (CHR ''A'', model_entry ''F15'' '''' ''X5'' False),
    (CHR ''B'', model_entry ''F16'' '''' ''X6'' False), (CHR ''C'', model_entry ''G05'' '''' ''X5'' False),
    (CHR ''D'', model_entry ''F26'' '''' ''X4'' False), (CHR ''E'', model_entry ''F45'' '''' ''2'' True),
    (CHR ''F'', model_entry ''F48'' '''' ''X1'' True), (CHR ''G'', model_entry ''F39'' '''' ''X2'' True),
    (CHR ''H'', model_entry ''G29'' '''' ''Z4'' False), (CHR ''J'', model_entry ''G30'' ''G31'' ''5'' False),
    (CHR ''K'', model_entry ''G11'' ''G12'' ''7'' False), (CHR ''L'', model_entry ''F13'' '''' ''6'' False),
    (CHR ''M'', model_entry ''G02'' '''' ''X4'' False), (CHR ''N'', model_entry ''G05'' '''' ''X5'' False),
    (CHR ''P'', model_entry ''G06'' '''' ''X6'' False), (CHR ''R'', model_entry ''G07'' '''' ''X7'' False),
    (CHR ''S'', model_entry ''G29'' '''' ''Z4'' False), (CHR ''T'', model_entry ''G01'' '''' ''X3'' False),
    (CHR ''U'', model_entry ''G01'' '''' ''X3'' False), (CHR ''V'', model_entry ''G82'' ''G83'' ''M4'' False),
    (CHR ''W'', model_entry ''G26'' '''' ''4'' False), (CHR ''X'', model_entry ''F26'' '''' ''X4'' False),
    (CHR ''Y'', model_entry ''F39'' '''' ''X2'' True), (CHR ''Z'', model_entry ''G16'' '''' ''8'' False)]"

definition bmwEngineCodes :: "(char \<times> string) list" where
  "bmwEngineCodes = [
    (CHR ''0'', ''16i''), (CHR ''1'', ''18i''), (CHR ''2'', ''20d''), (CHR ''3'', ''30d''),
    (CHR ''4'', ''35i''), (CHR ''5'', ''20i''), (CHR ''6'', ''40i''), (CHR ''7'', ''35d''),
    (CHR ''8'', ''40d''), (CHR ''9'', ''50i''), (CHR ''A'', ''16d''), (CHR ''B'', ''18d''),
    (CHR ''C'', ''20d''), (CHR ''D'', ''25d''), (CHR ''E'', ''30i''), (CHR ''F'', ''M''), (CHR ''G'', ''M''),
    (CHR ''H'', ''25e''), (CHR ''J'', ''30e''), (CHR ''K'', ''45e''), (CHR ''L'', ''25i''),
    (CHR ''N'', ''28i''), (CHR ''P'', ''35i''), (CHR ''R'', ''28d''), (CHR ''S'', ''M''), (CHR ''T'', ''30i''),
    (CHR ''U'', ''30i''), (CHR ''V'', ''40i''), (CHR ''W'', ''50e''), (CHR ''X'', ''45e''), (CHR ''Y'', ''M''),
    (CHR ''Z'', ''60i'')]"

definition chassisPlatform :: "(string \<times> string) list" where
  "chassisPlatform = [
    (''F01'', ''F001''), (''F07'', ''F010''), (''F10'', ''F010''), (''F11'', ''F010''), (''F12'', ''F010''),
    (''F13'', ''F010''), (''F15'', ''F025''), (''F16'', ''F025''), (''F25'', ''F025''), (''F26'', ''F025''),
    (''F20'', ''F020''), (''F21'', ''F020''), (''F22'', ''F020''), (''F23'', ''F020''), (''F30'', ''F020''),
    (''F31'', ''F020''), (''F32'', ''F020''), (''F33'', ''F020''), (''F34'', ''F020''), (''F35'', ''F020''),
    (''F36'', ''F020''), (''F39'', ''F056''), (''F45'', ''F056''), (''F46'', ''F056''), (''F47'', ''F056''),
    (''F48'', ''F056''), (''F49'', ''F056''), (''G01'', ''S15A''), (''G02'', ''S15A''), (''G11'', ''S15A''),
    (''G12'', ''S15A''), (''G30'', ''S15A''), (''G31'', ''S15A''), (''G32'', ''S15A''), (''G38'', ''S15C''),
    (''G20'', ''S18A''), (''G21'', ''S18A''), (''G28'', ''S18A''), (''G22'', ''S18A''), (''G23'', ''S18A''),
    (''G24'', ''S18A''), (''G26'', ''S18A''), (''G42'', ''S18A''), (''G05'', ''S18A''), (''G06'', ''S18A''),
    (''G07'', ''S18A''), (''G09'', ''S18A''), (''G14'', ''S18A''), (''G15'', ''S18A''), (''G16'', ''S18A''),
    (''G29'', ''S18A''), (''G80'', ''S18A''), (''G81'', ''S18A''), (''G82'', ''S18A''), (''G83'', ''S18A''),
    (''G87'', ''S18A''), (''G45'', ''G045''), (''G46'', ''G045''), (''G48'', ''G045''), (''G60'', ''G070''),
    (''G61'', ''G070''), (''G68'', ''G070''), (''G70'', ''G070''), (''G71'', ''G070''), (''G72'', ''G070''),
    (''G73'', ''G070''), (''G84'', ''G070''), (''G90'', ''G070''), (''G99'', ''G070'')]"

definition faChassisPlatform :: "(string \<times> string) list" where
  "faChassisPlatform = [
    (''F01'', ''F001''), (''F02'', ''F001''), (''F07'', ''F001''), (''F10'', ''F010''), (''F11'', ''F010''),
    (''F12'', ''F010''), (''F13'', ''F010''), (''F15'', ''F025''), (''F16'', ''F025''), (''F20'', ''F020''),
    (''F22'', ''F020''), (''F25'', ''F025''), (''F26'', ''F025''), (''F30'', ''F020''), (''F31'', ''F020''),
    (''F32'', ''F020''), (''F33'', ''F020''), (''F34'', ''F020''), (''F36'', ''F020''), (''F39'', ''F056''),
    (''F40'', ''S18A''), (''F44'', ''S18A''), (''F45'', ''F056''), (''F46'', ''F056''), (''F48'', ''F056''),
    (''F49'', ''F056''), (''F52'', ''F056''), (''F54'', ''F056''), (''F55'', ''F056''), (''F56'', ''F056''),
    (''F57'', ''F056''), (''F60'', ''F056''), (''F65'', ''U006''), (''F85'', ''F025''), (''F86'', ''F025''),
    (''F87'', ''F020''), (''F90'', ''S15A''), (''F93'', ''S18A''), (''F95'', ''S18A''), (''F97'', ''S15A''),
    (''F98'', ''S15A''), (''G01'', ''S15A''), (''G02'', ''S15A''), (''G05'', ''S18A''), (''G06'', ''S18A''),
    (''G07'', ''S18A''), (''G08'', ''S15C''), (''G11'', ''S15A''), (''G12'', ''S15A''), (''G16'', ''S18A''),
    (''G20'', ''S18A''), (''G21'', ''S18A''), (''G22'', ''S18A''), (''G26'', ''S18A''), (''G29'', ''S18A''),
    (''G30'', ''S15A''), (''G31'', ''S15A''), (''G32'', ''S15A''), (''G38'', ''S15A''), (''G42'', ''S18A''),
    (''G48'', ''G045''), (''G60'', ''G070''), (''G70'', ''G070''), (''G80'', ''S18A''), (''G81'', ''S18A''),
    (''G82'', ''S18A''), (''I20'', ''I020''), (''J01'', ''J001''), (''J29'', ''S18T''), (''K50'', ''K001''),
    (''K51'', ''K001''), (''K69'', ''K001''), (''K80'', ''K001''), (''K81'', ''K001''), (''U10'', ''U006''),
    (''U11'', ''U006''), (''U12'', ''U006'')]"

text \<open>A Go map lookup of a string table: absent is the empty string.\<close>

definition lookup_str :: "('k \<times> string) list \<Rightarrow> 'k \<Rightarrow> string" where
  "lookup_str t k = (case map_of t k of None \<Rightarrow> '''' | Some s \<Rightarrow> s)"

definition platform_for_chassis :: "string \<Rightarrow> string" where
  "platform_for_chassis c =
     (case map_of faChassisPlatform c of Some p \<Rightarrow> p | None \<Rightarrow> lookup_str chassisPlatform c)"

section \<open>The type database\<close>

record fa_entry =
  fa_chassis :: string
  fa_model :: string
  fa_xdrive :: bool

record vin_variant =
  vv_family :: string
  vv_model :: string
  vv_engine :: string
  vv_power :: int
  vv_drive :: string
  vv_body :: string
  vv_steering :: string
  vv_region :: string

text \<open>\<open>strings.Index\<close> and \<open>baseFamilyCode\<close>.\<close>

fun index_of :: "string \<Rightarrow> string \<Rightarrow> nat option" where
  "index_of sub [] = (if sub = [] then Some 0 else None)"
| "index_of sub (c # cs) =
     (if take (length sub) (c # cs) = sub then Some 0 else map_option Suc (index_of sub cs))"

definition base_family_code :: "string \<Rightarrow> string" where
  "base_family_code code = (case index_of '' ('' code of None \<Rightarrow> code | Some i \<Rightarrow> take i code)"

text \<open>The number \<open>strconv.Atoi\<close> returns when its error is ignored: 0, or the nearest 64-bit value.\<close>

definition atoi_value :: "string \<Rightarrow> int" where
  "atoi_value s =
     (let (neg, ds) = (case s of c # cs \<Rightarrow> if c = CHR ''-'' then (True, cs)
                         else if c = CHR ''+'' then (False, cs) else (False, s) | [] \<Rightarrow> (False, []))
      in if ds = [] then 0
         else case digits_nat 0 ds of
           None \<Rightarrow> 0
         | Some n \<Rightarrow> if neg then max (- int n) (- (2 ^ 63)) else min (int n) (2 ^ 63 - 1))"

definition power_of :: "string \<Rightarrow> int" where
  "power_of p =
     (if 2 \<le> length p \<and> drop (length p - 2) p = ''kW'' then atoi_value (take (length p - 2) p) else 0)"

text \<open>A column of a record, by the header's name for it; \<open>cols\<close> is the header in the file's order.\<close>

definition column_index :: "string list \<Rightarrow> (string \<times> nat) list" where
  "column_index hdr =
     foldl (\<lambda>m (i, h). mput (trim_prefix (trim_space h) [CHR 0xEF, CHR 0xBB, CHR 0xBF]) i m) [] (enumerate 0 hdr)"

definition csv_get :: "(string \<times> nat) list \<Rightarrow> string list \<Rightarrow> string \<Rightarrow> string" where
  "csv_get cols rec name =
     (case map_of cols name of
        None \<Rightarrow> ''''
      | Some i \<Rightarrow> if length rec \<le> i then '''' else trim_space (rec ! i))"

definition csv_variant :: "(string \<times> nat) list \<Rightarrow> string list \<Rightarrow> vin_variant option" where
  "csv_variant cols rec =
     (let get = csv_get cols rec; fam = base_family_code (get ''family_code''); model = get ''model''
      in if get ''record_kind'' \<noteq> ''variant'' \<or> fam = '''' \<or> model = '''' then None
         else Some \<lparr>vv_family = fam, vv_model = model, vv_engine = get ''engine'', vv_power = power_of (get ''power''),
           vv_drive = get ''drivetrain'', vv_body = get ''chassis'', vv_steering = get ''steering'',
           vv_region = get ''region''\<rparr>)"

type_synonym variant_index = "(string \<times> vin_variant list) list"

definition add_variant :: "variant_index \<Rightarrow> vin_variant \<Rightarrow> variant_index" where
  "add_variant m v =
     mput (vv_family v) ((case map_of m (vv_family v) of None \<Rightarrow> [] | Some vs \<Rightarrow> vs) @ [v]) m"

text \<open>\<open>parseVariantCSV\<close> over the records the CSV reader returns before its first error.\<close>

definition parse_variants :: "string list list \<Rightarrow> variant_index" where
  "parse_variants rows =
     (case rows of
        [] \<Rightarrow> []
      | hdr # recs \<Rightarrow> foldl add_variant [] (List.map_filter (csv_variant (column_index hdr)) recs))"

definition variant_score :: "vin_variant \<Rightarrow> nat" where
  "variant_score v =
     (if to_lower (vv_region v) = ''europe'' then 2 else 0) + (if vv_steering v = ''left'' then 1 else 0)"

definition variant_fits :: "string \<Rightarrow> string \<Rightarrow> vin_variant \<Rightarrow> bool" where
  "variant_fits drive eng v \<longleftrightarrow> vv_drive v = drive \<and> (eng = '''' \<or> contains (to_lower (vv_model v)) (to_lower eng))"

fun best_variant :: "vin_variant \<Rightarrow> vin_variant list \<Rightarrow> vin_variant" where
  "best_variant b [] = b"
| "best_variant b (c # cs) = best_variant (if variant_score b < variant_score c then c else b) cs"

definition lookup_variant :: "variant_index \<Rightarrow> string \<Rightarrow> string \<Rightarrow> string \<Rightarrow> vin_variant option" where
  "lookup_variant m chassis drive eng =
     (case map_of m chassis of
        None \<Rightarrow> None
      | Some vs \<Rightarrow> (case filter (variant_fits drive eng) vs of [] \<Rightarrow> None | c # cs \<Rightarrow> Some (best_variant c cs)))"

section \<open>Decoding\<close>

record car_db =
  db_fa :: "string \<Rightarrow> fa_entry option"
  db_variants :: variant_index

record vin_info =
  vi_chassis :: string
  vi_model :: string
  vi_engine :: string
  vi_body :: string
  vi_power :: int

definition no_vin_info :: vin_info where
  "no_vin_info = \<lparr>vi_chassis = '''', vi_model = '''', vi_engine = '''', vi_body = '''', vi_power = 0\<rparr>"

definition with_variant :: "vin_variant option \<Rightarrow> vin_info \<Rightarrow> vin_info" where
  "with_variant v i =
     (case v of None \<Rightarrow> i
      | Some x \<Rightarrow> i\<lparr>vi_engine := vv_engine x, vi_body := vv_body x, vi_power := vv_power x\<rparr>)"

definition decode_fa :: "car_db \<Rightarrow> fa_entry \<Rightarrow> vin_info" where
  "decode_fa db fa =
     (let model = fa_chassis fa @ (if fa_model fa \<noteq> '''' then '' '' @ fa_model fa else '''') @
            (if fa_xdrive fa then '' xDrive'' else '''');
          drive = (if fa_xdrive fa then ''All Wheel-Drive'' else ''Rear-Wheel Drive'')
      in with_variant (lookup_variant (db_variants db) (fa_chassis fa) drive '''')
           (no_vin_info\<lparr>vi_chassis := fa_chassis fa, vi_model := model\<rparr>))"

text \<open>Which generation a type key means, by the model year.\<close>

definition type_key_entry :: "char \<Rightarrow> char \<Rightarrow> bmw_model option" where
  "type_key_entry key year =
     (case map_of gseriesIntroMY key of
        Some intro \<Rightarrow> if (of_char year :: nat) < of_char intro then map_of fseriesAltKeys key else map_of bmwTypeKeys key
      | None \<Rightarrow> map_of bmwTypeKeys key)"

definition body_code :: "char \<Rightarrow> body_info" where
  "body_code c = (case map_of bmwBodyCodes c of None \<Rightarrow> \<lparr>bi_touring = False, bi_xdrive = False\<rparr> | Some b \<Rightarrow> b)"

definition entry_chassis :: "bmw_model \<Rightarrow> body_info \<Rightarrow> string" where
  "entry_chassis e b = (if bi_touring b \<and> bm_tourer e \<noteq> '''' then bm_tourer e else bm_chassis e)"

definition drive_name :: "bmw_model \<Rightarrow> body_info \<Rightarrow> string" where
  "drive_name e b =
     (if bi_xdrive b then ''All Wheel-Drive'' else if bm_fwd e then ''Front-Wheel Drive'' else ''Rear-Wheel Drive'')"

definition built_model :: "string \<Rightarrow> bmw_model \<Rightarrow> body_info \<Rightarrow> string \<Rightarrow> string" where
  "built_model chassis e b eng =
     chassis @ '' '' @ bm_series e @
     (if length (bm_series e) = 1 then eng else if eng \<noteq> '''' \<and> eng \<noteq> ''M'' then '' '' @ eng else '''') @
     (if bi_xdrive b then '' xDrive'' else '''')"

definition decode_entry :: "car_db \<Rightarrow> bmw_model \<Rightarrow> body_info \<Rightarrow> string \<Rightarrow> vin_info" where
  "decode_entry db e b eng =
     (let chassis = entry_chassis e b; drive = drive_name e b;
          by_engine = (if eng \<noteq> '''' then lookup_variant (db_variants db) chassis drive eng else None);
          found = (case by_engine of None \<Rightarrow> lookup_variant (db_variants db) chassis drive '''' | Some v \<Rightarrow> Some v)
      in with_variant found (no_vin_info\<lparr>vi_chassis := chassis,
           vi_model := (case found of Some v \<Rightarrow> chassis @ '' '' @ vv_model v | None \<Rightarrow> built_model chassis e b eng)\<rparr>))"

definition decode_vin :: "car_db \<Rightarrow> string \<Rightarrow> vin_info" where
  "decode_vin db vin =
     (if length vin < 17 then no_vin_info
      else case db_fa db (slice 3 7 vin) of
        Some fa \<Rightarrow> decode_fa db fa
      | None \<Rightarrow> (case type_key_entry (vin ! 3) (vin ! 9) of
            None \<Rightarrow> no_vin_info
          | Some e \<Rightarrow> decode_entry db e (body_code (vin ! 4)) (lookup_str bmwEngineCodes (vin ! 5))))"

section \<open>The database lookup\<close>

lemma best_variant_spec:
  "best_variant b cs \<in> set (b # cs) \<and> (\<forall>c \<in> set (b # cs). variant_score c \<le> variant_score (best_variant b cs))"
proof (induction cs arbitrary: b)
  case (Cons c cs)
  show ?case
  proof (cases "variant_score b < variant_score c")
    case True
    then show ?thesis using Cons.IH [of c] by auto
  next
    case False
    then show ?thesis using Cons.IH [of b] by auto
  qed
qed simp

lemma lookup_variant_best:
  assumes "lookup_variant m chassis drive eng = Some v"
  obtains vs where "map_of m chassis = Some vs" and "v \<in> set vs" and "variant_fits drive eng v"
    and "\<And>u. u \<in> set vs \<Longrightarrow> variant_fits drive eng u \<Longrightarrow> variant_score u \<le> variant_score v"
proof -
  obtain vs c cs where vs: "map_of m chassis = Some vs" "filter (variant_fits drive eng) vs = c # cs" "v = best_variant c cs"
    using assms by (auto simp: lookup_variant_def split: option.splits list.splits)
  have f: "u \<in> set (c # cs) \<longleftrightarrow> u \<in> set vs \<and> variant_fits drive eng u" for u
    unfolding vs(2) [symmetric] set_filter by simp
  show ?thesis using that [OF vs(1)] best_variant_spec [of c cs] f unfolding vs(3) by blast
qed

lemma lookup_variant_None:
  "lookup_variant m chassis drive eng = None \<longleftrightarrow>
     (case map_of m chassis of None \<Rightarrow> True | Some vs \<Rightarrow> \<not> list_ex (variant_fits drive eng) vs)"
proof (cases "map_of m chassis")
  case (Some vs)
  have "(case filter (variant_fits drive eng) vs of [] \<Rightarrow> None | c # cs \<Rightarrow> Some (best_variant c cs)) = None \<longleftrightarrow>
      filter (variant_fits drive eng) vs = []" by (simp split: list.split)
  then show ?thesis by (simp add: lookup_variant_def Some filter_empty_conv list_ex_iff)
qed (simp add: lookup_variant_def)

text \<open>An index files every variant under its own family, and only usable ones.\<close>

definition index_ok :: "variant_index \<Rightarrow> bool" where
  "index_ok m \<longleftrightarrow> amap_ok m \<and> (\<forall>(f, vs) \<in> set m. vs \<noteq> [] \<and> f \<noteq> '''' \<and>
     (\<forall>v \<in> set vs. vv_family v = f \<and> vv_model v \<noteq> ''''))"

lemma add_variant_ok:
  assumes m: "index_ok m" and v: "vv_family v \<noteq> ''''" "vv_model v \<noteq> ''''"
  shows "index_ok (add_variant m v)"
proof -
  let ?old = "case map_of m (vv_family v) of None \<Rightarrow> [] | Some vs \<Rightarrow> vs"
  have am: "amap_ok m" using m by (simp add: index_ok_def)
  have entry: "vs \<noteq> [] \<and> f \<noteq> '''' \<and> (\<forall>u \<in> set vs. vv_family u = f \<and> vv_model u \<noteq> '''')"
    if "map_of (add_variant m v) f = Some vs" for f vs
  proof (cases "f = vv_family v")
    case True
    then have vs: "vs = ?old @ [v]" using that by (simp add: add_variant_def)
    have "\<forall>u \<in> set ?old. vv_family u = f \<and> vv_model u \<noteq> ''''"
    proof (cases "map_of m f")
      case (Some us)
      then have "(f, us) \<in> set m" using amap_in_set [OF am] by blast
      then show ?thesis using m Some True by (auto simp: index_ok_def)
    qed (simp add: True)
    then show ?thesis using v True unfolding vs by auto
  next
    case False
    then have "(f, vs) \<in> set m" using that amap_in_set [OF am] by (simp add: add_variant_def)
    then show ?thesis using m by (auto simp: index_ok_def)
  qed
  have "amap_ok (add_variant m v)" using am by (simp add: add_variant_def amap_ok_mput)
  then show ?thesis using entry amap_in_set by (fastforce simp: index_ok_def)
qed

lemma csv_variant_usable: "csv_variant cols rec = Some v \<Longrightarrow> vv_family v \<noteq> '''' \<and> vv_model v \<noteq> ''''"
  by (auto simp: csv_variant_def Let_def split: if_splits)

lemma parse_variants_ok: "index_ok (parse_variants rows)"
proof -
  have "index_ok (foldl add_variant m (List.map_filter (csv_variant cols) recs))" if "index_ok m" for m cols recs
    using that
  proof (induction recs arbitrary: m)
    case (Cons r recs)
    then show ?case using csv_variant_usable add_variant_ok
      by (cases "csv_variant cols r") (auto simp: map_filter_simps)
  qed (simp add: map_filter_simps)
  moreover have "index_ok []" by (simp add: index_ok_def)
  ultimately show ?thesis by (simp add: parse_variants_def split: list.split)
qed

section \<open>What decoding gives\<close>

definition from_db :: "car_db \<Rightarrow> vin_info \<Rightarrow> bool" where
  "from_db db i \<longleftrightarrow> (vi_engine i, vi_body i, vi_power i) = ('''', '''', 0) \<or>
     (\<exists>vs v. map_of (db_variants db) (vi_chassis i) = Some vs \<and> v \<in> set vs \<and>
        (vi_engine i, vi_body i, vi_power i) = (vv_engine v, vv_body v, vv_power v))"

lemma with_variant_from_db:
  "from_db db (with_variant (lookup_variant (db_variants db) c d e) (no_vin_info\<lparr>vi_chassis := c, vi_model := m\<rparr>))"
proof (cases "lookup_variant (db_variants db) c d e")
  case None
  then show ?thesis by (simp add: from_db_def with_variant_def no_vin_info_def)
next
  case (Some x)
  then obtain vs where "map_of (db_variants db) c = Some vs" "x \<in> set vs"
    by (rule lookup_variant_best)
  then show ?thesis by (auto simp: Some from_db_def with_variant_def no_vin_info_def)
qed

lemma with_variant_names [simp]:
  "vi_chassis (with_variant v i) = vi_chassis i" "vi_model (with_variant v i) = vi_model i"
  by (simp_all add: with_variant_def split: option.split)

definition starts_with :: "string \<Rightarrow> string \<Rightarrow> bool" where
  "starts_with p s \<longleftrightarrow> take (length p) s = p"

lemma starts_with_append [simp]: "starts_with p (p @ s)"
  by (simp add: starts_with_def)

lemma decode_fa_ok: "from_db db (decode_fa db fa) \<and> starts_with (fa_chassis fa) (vi_model (decode_fa db fa)) \<and>
    vi_chassis (decode_fa db fa) = fa_chassis fa"
proof (intro conjI)
  show "from_db db (decode_fa db fa)" unfolding decode_fa_def Let_def by (rule with_variant_from_db)
qed (simp_all add: decode_fa_def Let_def)

lemma decode_entry_ok: "from_db db (decode_entry db e b eng) \<and>
    starts_with (entry_chassis e b) (vi_model (decode_entry db e b eng)) \<and>
    vi_chassis (decode_entry db e b eng) = entry_chassis e b"
proof (intro conjI)
  let ?c = "entry_chassis e b" and ?d = "drive_name e b"
  let ?l = "lookup_variant (db_variants db) ?c ?d"
  show "from_db db (decode_entry db e b eng)"
  proof (cases "eng \<noteq> '''' \<and> ?l eng \<noteq> None")
    case True
    then obtain x where x: "?l eng = Some x" by auto
    then show ?thesis using True with_variant_from_db [of db ?c ?d eng] by (simp add: decode_entry_def Let_def)
  next
    case False
    then have f: "(case if eng \<noteq> '''' then ?l eng else None of None \<Rightarrow> ?l '''' | Some v \<Rightarrow> Some v) = ?l ''''" by auto
    show ?thesis unfolding decode_entry_def Let_def f by (rule with_variant_from_db)
  qed
qed (auto simp: decode_entry_def Let_def built_model_def split: option.split)

text \<open>
  The generation rule: a reused key is the older model exactly when the model year comes before the
  letter the newer one began with.
\<close>

lemma reuse_table:
  "list_all (\<lambda>(k, i). case (map_of fseriesAltKeys k, map_of bmwTypeKeys k) of
     (Some a, Some b) \<Rightarrow> hd (bm_chassis a) = CHR ''F'' \<and> hd (bm_chassis b) = CHR ''G'' | _ \<Rightarrow> False) gseriesIntroMY"
  by code_simp

lemma reused_key_generation:
  assumes "map_of gseriesIntroMY key = Some intro"
  shows "\<exists>e. type_key_entry key year = Some e \<and>
    hd (bm_chassis e) = (if (of_char year :: nat) < of_char intro then CHR ''F'' else CHR ''G'')"
proof -
  have "(key, intro) \<in> set gseriesIntroMY" using assms by (rule map_of_SomeD)
  then show ?thesis using reuse_table assms
    by (auto simp: list_all_iff type_key_entry_def split: option.splits dest!: bspec)
qed

text \<open>Every chassis the tables name has a platform, but for the E90 and its touring.\<close>

definition chassis_known :: "bmw_model \<Rightarrow> bool" where
  "chassis_known e \<longleftrightarrow> platform_for_chassis (bm_chassis e) \<noteq> '''' \<and>
     (bm_tourer e = '''' \<or> platform_for_chassis (bm_tourer e) \<noteq> '''')"

lemma tables_known: "list_all (\<lambda>(k, e). k = CHR ''9'' \<or> chassis_known e) (bmwTypeKeys @ fseriesAltKeys)"
  by code_simp

lemma type_key_entry_mem:
  "type_key_entry key year = Some e \<Longrightarrow> (key, e) \<in> set (bmwTypeKeys @ fseriesAltKeys)"
  by (auto simp: type_key_entry_def dest: map_of_SomeD split: option.splits if_splits)

lemma decoded_platform:
  assumes "type_key_entry key year = Some e" and "key \<noteq> CHR ''9''"
  shows "platform_for_chassis (entry_chassis e b) \<noteq> ''''"
proof -
  have "chassis_known e" using tables_known type_key_entry_mem [OF assms(1)] assms(2) by (auto simp: list_all_iff)
  then show ?thesis by (auto simp: chassis_known_def entry_chassis_def)
qed

lemma e90_no_platform: "platform_for_chassis ''E90'' = '''' \<and> platform_for_chassis ''E91'' = ''''"
  by code_simp

end
