(* ===== verification/Gateway.thy ===== *)
theory Gateway
  imports VinDecode
begin

text \<open>
  Gateway discovery (\<open>internal/zgw/zgw.go\<close>): the three patterns looked for in a gateway's UDP answer, the
  \<open>Info\<close> built from it, the state of \<open>Run\<close> with its change notifications, and the label shown. Sockets
  are events: a packet that arrives, a tick with what the interface scan found.
\<close>

section \<open>Patterns\<close>

text \<open>The leftmost match of a pattern that matches no empty string: \<open>FindSubmatch\<close>'s capture.\<close>

fun first_match :: "(string \<Rightarrow> 'a option) \<Rightarrow> string \<Rightarrow> 'a option" where
  "first_match m [] = None"
| "first_match m (c # s) = (case m (c # s) of Some x \<Rightarrow> Some x | None \<Rightarrow> first_match m s)"

definition char_in :: "char \<Rightarrow> char \<Rightarrow> char \<Rightarrow> bool" where
  "char_in lo hi c \<longleftrightarrow> (of_char lo :: nat) \<le> of_char c \<and> (of_char c :: nat) \<le> of_char hi"

definition vin_char :: "char \<Rightarrow> bool" where
  "vin_char c \<longleftrightarrow> char_in CHR ''A'' CHR ''H'' c \<or> char_in CHR ''J'' CHR ''N'' c \<or> c = CHR ''P'' \<or>
     char_in CHR ''R'' CHR ''Z'' c \<or> char_in CHR ''0'' CHR ''9'' c"

definition hex_char :: "char \<Rightarrow> bool" where
  "hex_char c \<longleftrightarrow> char_in CHR ''0'' CHR ''9'' c \<or> char_in CHR ''A'' CHR ''F'' c \<or> char_in CHR ''a'' CHR ''f'' c"

definition after :: "string \<Rightarrow> string \<Rightarrow> string option" where
  "after key s = (if starts_with key s then Some (drop (length key) s) else None)"

definition class_run :: "(char \<Rightarrow> bool) \<Rightarrow> nat \<Rightarrow> string \<Rightarrow> string option" where
  "class_run P n s = (if n \<le> length s \<and> list_all P (take n s) then Some (take n s) else None)"

text \<open>\<open>BMWVIN([A-HJ-NPR-Z0-9]{17})\<close> and \<open>BMWMAC([0-9A-Fa-f]{12})\<close>.\<close>

definition vin_re :: "string \<Rightarrow> string option" where
  "vin_re s = (case after ''BMWVIN'' s of None \<Rightarrow> None | Some r \<Rightarrow> class_run vin_char 17 r)"

definition mac_re :: "string \<Rightarrow> string option" where
  "mac_re s = (case after ''BMWMAC'' s of None \<Rightarrow> None | Some r \<Rightarrow> class_run hex_char 12 r)"

text \<open>\<open>DIAGADR([0-9A-Fa-f]+)BMWMAC\<close>: the longest run of digits first, then shorter ones.\<close>

fun greedy_before :: "string \<Rightarrow> nat \<Rightarrow> string \<Rightarrow> string option" where
  "greedy_before key 0 s = None"
| "greedy_before key (Suc n) s =
     (if starts_with key (drop (Suc n) s) then Some (take (Suc n) s) else greedy_before key n s)"

definition diagadr_re :: "string \<Rightarrow> string option" where
  "diagadr_re s =
     (case after ''DIAGADR'' s of
        None \<Rightarrow> None
      | Some r \<Rightarrow> greedy_before ''BMWMAC'' (length (takeWhile hex_char r)) r)"

section \<open>Fields\<close>

definition hex_value :: "char \<Rightarrow> nat" where
  "hex_value c = (let n = of_char c in if n \<le> 57 then n - 48 else if n \<le> 70 then n - 55 else n - 87)"

definition hex_number :: "string \<Rightarrow> nat" where
  "hex_number s = foldl (\<lambda>a c. 16 * a + hex_value c) 0 s"

definition hex_digit :: "nat \<Rightarrow> char" where
  "hex_digit d = (if d < 10 then char_of (48 + d) else char_of (55 + d))"

fun hex_digits :: "nat \<Rightarrow> string" where
  "hex_digits n = (if n < 16 then [hex_digit n] else hex_digits (n div 16) @ [hex_digit (n mod 16)])"

declare hex_digits.simps [simp del]

text \<open>\<open>%03X\<close> of a signed integer: zero padding to three places, the sign among them.\<close>

definition zero_pad :: "nat \<Rightarrow> string \<Rightarrow> string" where
  "zero_pad n s = replicate (n - length s) CHR ''0'' @ s"

definition format_03X :: "int \<Rightarrow> string" where
  "format_03X v = (if v < 0 then CHR ''-'' # zero_pad 2 (hex_digits (nat (- v))) else zero_pad 3 (hex_digits (nat v)))"

text \<open>\<open>diagadrToTarget\<close> on a digit string; doubling wraps at 64 bits.\<close>

definition diagadr_to_target :: "string \<Rightarrow> string" where
  "diagadr_to_target hex =
     (if hex = '''' \<or> 2 ^ 63 \<le> hex_number hex then ''''
      else CHR ''F'' # format_03X (sint (of_nat (hex_number hex) * 2 :: 64 word)))"

definition format_mac :: "string \<Rightarrow> string" where
  "format_mac s =
     (if length s \<noteq> 12 then s
      else slice 0 2 s @ '':'' @ slice 2 4 s @ '':'' @ slice 4 6 s @ '':'' @ slice 6 8 s @ '':'' @
        slice 8 10 s @ '':'' @ slice 10 12 s)"

section \<open>The result of a discovery step\<close>

record gw_info =
  gi_ip :: string
  gi_mac :: string
  gi_vin :: string
  gi_model :: string
  gi_chassis :: string
  gi_platform :: string
  gi_target :: string
  gi_engine :: string
  gi_power :: int
  gi_body :: string

definition bare_info :: "string \<Rightarrow> gw_info" where
  "bare_info ip = \<lparr>gi_ip = ip, gi_mac = '''', gi_vin = '''', gi_model = '''', gi_chassis = '''', gi_platform = '''',
     gi_target = '''', gi_engine = '''', gi_power = 0, gi_body = ''''\<rparr>"

text \<open>\<open>scanIfaces\<close> over the detected interfaces (name and address); \<open>None\<close> is a failed detection.\<close>

definition scan_ifaces :: "string \<Rightarrow> (string \<times> string option) list option \<Rightarrow> gw_info option" where
  "scan_ifaces skip found =
     (case found of
        None \<Rightarrow> None
      | Some ifs \<Rightarrow> map_option (\<lambda>(_, a). bare_info (the a))
          (find (\<lambda>(name, a). \<not> (skip \<noteq> '''' \<and> name = skip) \<and> a \<noteq> None) ifs))"

definition packet_info :: "car_db \<Rightarrow> string \<Rightarrow> bytes \<Rightarrow> gw_info option" where
  "packet_info db ip buf =
     (let s = bytes_str buf in
      case first_match vin_re s of
        None \<Rightarrow> None
      | Some vin \<Rightarrow>
          let d = decode_vin db vin
          in Some \<lparr>gi_ip = ip,
               gi_mac = (case first_match mac_re s of None \<Rightarrow> '''' | Some m \<Rightarrow> format_mac m),
               gi_vin = vin, gi_model = vi_model d, gi_chassis = vi_chassis d,
               gi_platform = platform_for_chassis (vi_chassis d),
               gi_target = (case first_match diagadr_re s of None \<Rightarrow> '''' | Some h \<Rightarrow> diagadr_to_target h),
               gi_engine = vi_engine d, gi_power = vi_power d, gi_body = vi_body d\<rparr>)"

text \<open>\<open>Discover\<close>: the first answer that carries a VIN.\<close>

fun discover :: "car_db \<Rightarrow> (string \<times> bytes) list \<Rightarrow> gw_info option" where
  "discover db [] = None"
| "discover db ((ip, buf) # ps) = (case packet_info db ip buf of Some i \<Rightarrow> Some i | None \<Rightarrow> discover db ps)"

definition same_info :: "gw_info \<Rightarrow> gw_info \<Rightarrow> bool" where
  "same_info a b \<longleftrightarrow> gi_ip a = gi_ip b \<and> gi_vin a = gi_vin b \<and> gi_platform a = gi_platform b \<and>
     gi_target a = gi_target b \<and> gi_model a = gi_model b \<and> gi_engine a = gi_engine b \<and> gi_power a = gi_power b"

definition info_equal :: "gw_info option \<Rightarrow> gw_info option \<Rightarrow> bool" where
  "info_equal a b = (case (a, b) of (None, None) \<Rightarrow> True | (Some x, Some y) \<Rightarrow> same_info x y | _ \<Rightarrow> False)"

section \<open>The discovery loop\<close>

text \<open>
  What \<open>doProbes\<close> writes: the probe to both broadcast addresses, from the receiving socket (\<open>None\<close>) and
  from a socket bound to every detected link-local address.
\<close>

definition zgw_probe :: bytes where
  "zgw_probe = [0, 0, 0, 0, 0, 0x11]"

definition do_probes :: "(string \<times> string option) list option \<Rightarrow> (string option \<times> string \<times> bytes) list" where
  "do_probes found =
     (let both = (\<lambda>src. [(src, ''255.255.255.255:6811'', zgw_probe), (src, ''169.254.255.255:6811'', zgw_probe)])
      in both None @ concat (map (\<lambda>a. both (Some a)) (case found of None \<Rightarrow> [] | Some ifs \<Rightarrow> List.map_filter snd ifs)))"

record gw_run =
  gr_first :: bool
  gr_last :: "gw_info option"
  gr_seen :: "time option"

definition zgw_interval :: time where "zgw_interval = 5 * second"
definition zgw_silence :: time where "zgw_silence = 2 * zgw_interval"

definition gw_start :: gw_run where
  "gw_start = \<lparr>gr_first = True, gr_last = None, gr_seen = None\<rparr>"

definition gw_notify :: "gw_info option \<Rightarrow> gw_run \<Rightarrow> gw_info option list \<times> gw_run" where
  "gw_notify i r =
     (if gr_first r \<or> \<not> info_equal (gr_last r) i then ([i], r\<lparr>gr_first := False, gr_last := i\<rparr>) else ([], r))"

datatype gw_event = GwPacket time string bytes | GwTick time "gw_info option"

definition gw_packet :: "car_db \<Rightarrow> time \<Rightarrow> string \<Rightarrow> bytes \<Rightarrow> gw_run \<Rightarrow> gw_info option list \<times> gw_run" where
  "gw_packet db now ip buf r =
     (case packet_info db ip buf of
        None \<Rightarrow> ([], r)
      | Some i \<Rightarrow> gw_notify (Some i) (r\<lparr>gr_seen := Some now\<rparr>))"

definition gw_tick :: "time \<Rightarrow> gw_info option \<Rightarrow> gw_run \<Rightarrow> gw_info option list \<times> gw_run" where
  "gw_tick now scan r =
     (case gr_seen r of
        None \<Rightarrow> gw_notify scan r
      | Some t \<Rightarrow> if zgw_silence < now - t then gw_notify scan r else ([], r))"

definition gw_step :: "car_db \<Rightarrow> gw_run \<Rightarrow> gw_event \<Rightarrow> gw_info option list \<times> gw_run" where
  "gw_step db r ev = (case ev of GwPacket now ip buf \<Rightarrow> gw_packet db now ip buf r | GwTick now scan \<Rightarrow> gw_tick now scan r)"

text \<open>\<open>Run\<close>: the interface is reported at once, then the events follow.\<close>

definition gw_run_all :: "car_db \<Rightarrow> gw_info option \<Rightarrow> gw_event list \<Rightarrow> gw_info option list \<times> gw_run" where
  "gw_run_all db scan es =
     (case gw_notify scan gw_start of (o1, r1) \<Rightarrow> case run_steps (gw_step db) es r1 of (o2, r2) \<Rightarrow> (o1 @ o2, r2))"

section \<open>Labels\<close>

definition info_string :: "gw_info option \<Rightarrow> string" where
  "info_string i =
     (case i of
        None \<Rightarrow> ''''
      | Some g \<Rightarrow>
          if gi_vin g = '''' then gi_ip g
          else gi_ip g @ ''  '' @ gi_vin g @ (if gi_model g \<noteq> '''' then ''  '' @ gi_model g else '''') @
            (if gi_platform g \<noteq> '''' then ''  '' @ gi_platform g else ''''))"

definition add_field :: "string \<Rightarrow> string \<Rightarrow> string" where
  "add_field line x = (if x = '''' then line else if line = '''' then x else line @ ''  '' @ x)"

definition format_bmw :: "gw_info option \<Rightarrow> string" where
  "format_bmw i =
     (case i of
        None \<Rightarrow> ''BMW: not found''
      | Some g \<Rightarrow>
          if gi_vin g = '''' then ''BMW: '' @ gi_ip g @ '' (no ZGW response)''
          else let line1 = ''BMW: '' @ gi_ip g @ ''  '' @ gi_vin g;
                   kw = (if 0 < gi_power g then itoa (gi_power g) @ ''kW'' else '''');
                   line2 = add_field (add_field (add_field (gi_model g) (gi_platform g)) kw) (gi_body g)
               in if line2 = '''' then line1 else line1 @ [CHR 0x0A] @ line2)"

section \<open>Matching\<close>

lemma first_match_Some:
  "first_match m s = Some x \<Longrightarrow> \<exists>pre post. s = pre @ post \<and> m post = Some x"
proof (induction s)
  case (Cons c s)
  show ?case
  proof (cases "m (c # s)")
    case None
    then obtain pre post where "s = pre @ post" "m post = Some x" using Cons by auto
    then show ?thesis by (metis append_Cons)
  next
    case (Some y)
    then show ?thesis using Cons.prems by (metis append_Nil first_match.simps(2) option.simps(5))
  qed
qed simp

lemma first_match_skip:
  "(\<And>i. i < length a \<Longrightarrow> m (drop i a @ s) = None) \<Longrightarrow> first_match m (a @ s) = first_match m s"
proof (induction a)
  case (Cons c a)
  have "m (drop 0 (c # a) @ s) = None" by (rule Cons.prems) simp
  moreover have "first_match m (a @ s) = first_match m s"
    by (rule Cons.IH) (use Cons.prems [of "Suc i" for i] in simp)
  ultimately show ?case by simp
qed simp

lemma first_match_here: "s \<noteq> [] \<Longrightarrow> m s = Some x \<Longrightarrow> first_match m s = Some x"
  by (cases s) simp_all

lemma starts_with_Cons: "starts_with (c # p) (d # s) \<longleftrightarrow> c = d \<and> starts_with p s"
  by (auto simp: starts_with_def)

lemma starts_with_Nil [simp]: "starts_with [] s" "\<not> starts_with (c # p) []"
  by (simp_all add: starts_with_def)

lemma after_append [simp]: "after key (key @ s) = Some s"
  by (simp add: after_def)

text \<open>No keyword begins inside a run of hexadecimal digits that a \<open>B\<close> follows.\<close>

lemma hex_run_skips:
  assumes "list_all hex_char a" and "i < length a"
  shows "\<not> starts_with (CHR ''B'' # CHR ''M'' # k) (drop i a @ CHR ''B'' # s)"
proof -
  obtain c cs where d: "drop i a = c # cs" using assms(2) by (cases "drop i a") auto
  have "list_all hex_char cs" using assms(1) d by (metis append_take_drop_id list_all_append list.pred_inject(2))
  moreover have "\<not> hex_char CHR ''M''" by code_simp
  ultimately show ?thesis unfolding d by (cases cs) (auto simp: starts_with_Cons)
qed

lemma hex_not_D: "list_all hex_char a \<Longrightarrow> i < length a \<Longrightarrow> drop i a = c # cs \<Longrightarrow> hex_char c"
  by (metis append_take_drop_id list_all_append list.pred_inject(2))

text \<open>An answer in the gateway's form.\<close>

definition gw_answer :: "string \<Rightarrow> string \<Rightarrow> string \<Rightarrow> string" where
  "gw_answer d mac vin = ''DIAGADR'' @ d @ ''BMWMAC'' @ mac @ ''BMWVIN'' @ vin"

definition answer_ok :: "string \<Rightarrow> string \<Rightarrow> string \<Rightarrow> bool" where
  "answer_ok d mac vin \<longleftrightarrow> d \<noteq> '''' \<and> list_all hex_char d \<and> length mac = 12 \<and> list_all hex_char mac \<and>
     length vin = 17 \<and> list_all vin_char vin"

lemma vin_re_keyword: "vin_re s \<noteq> None \<Longrightarrow> starts_with ''BMWVIN'' s"
  by (auto simp: vin_re_def after_def split: if_splits)

lemma mac_re_keyword: "mac_re s \<noteq> None \<Longrightarrow> starts_with ''BMWMAC'' s"
  by (auto simp: mac_re_def after_def split: if_splits)

lemma not_B_skips:
  "list_all (\<lambda>c. c \<noteq> CHR ''B'') a \<Longrightarrow> i < length a \<Longrightarrow> \<not> starts_with (CHR ''B'' # k) (drop i a @ s)"
proof -
  assume a: "list_all (\<lambda>c. c \<noteq> CHR ''B'') a" "i < length a"
  then obtain cs where "drop i a = a ! i # cs" by (metis Cons_nth_drop_Suc)
  moreover have "a ! i \<noteq> CHR ''B''" using a by (simp add: list_all_length)
  ultimately show ?thesis by (simp add: starts_with_Cons)
qed

lemma answer_mac:
  assumes "answer_ok d mac vin"
  shows "first_match mac_re (gw_answer d mac vin) = Some mac"
proof -
  let ?s = "''BMWMAC'' @ mac @ ''BMWVIN'' @ vin"
  have hd: "?s = CHR ''B'' # tl ?s" by simp
  have "first_match mac_re (gw_answer d mac vin) = first_match mac_re (d @ ?s)"
    unfolding gw_answer_def
    by (rule first_match_skip) (use not_B_skips [of "''DIAGADR''"] mac_re_keyword in \<open>fastforce simp: list_all_def\<close>)
  also have "\<dots> = first_match mac_re ?s"
  proof (rule first_match_skip)
    fix i assume "i < length d"
    then show "mac_re (drop i d @ ?s) = None"
      using assms mac_re_keyword hex_run_skips [of d i _ "tl ?s"] unfolding hd [symmetric] answer_ok_def by blast
  qed
  also have "\<dots> = Some mac"
    using assms by (intro first_match_here) (simp_all add: mac_re_def class_run_def answer_ok_def after_def starts_with_def)
  finally show ?thesis .
qed

lemma answer_vin:
  assumes "answer_ok d mac vin"
  shows "first_match vin_re (gw_answer d mac vin) = Some vin"
proof -
  let ?v = "''BMWVIN'' @ vin"
  let ?s = "''BMWMAC'' @ mac @ ?v"
  have hd: "?s = CHR ''B'' # tl ?s" "?v = CHR ''B'' # tl ?v" by simp_all
  have "first_match vin_re (gw_answer d mac vin) = first_match vin_re (d @ ?s)"
    unfolding gw_answer_def
    by (rule first_match_skip) (use not_B_skips [of "''DIAGADR''"] vin_re_keyword in \<open>fastforce simp: list_all_def\<close>)
  also have "\<dots> = first_match vin_re ?s"
  proof (rule first_match_skip)
    fix i assume "i < length d"
    then show "vin_re (drop i d @ ?s) = None"
      using assms vin_re_keyword hex_run_skips [of d i _ "tl ?s"] unfolding hd(1) [symmetric] answer_ok_def by blast
  qed
  also have "\<dots> = first_match vin_re (mac @ ?v)"
  proof (rule first_match_skip)
    fix i assume "i < length ''BMWMAC''"
    then have "i \<in> {0, 1, 2, 3, 4, 5}" by auto
    then show "vin_re (drop i ''BMWMAC'' @ mac @ ?v) = None"
      by (auto simp: vin_re_def after_def starts_with_Cons)
  qed
  also have "\<dots> = first_match vin_re ?v"
  proof (rule first_match_skip)
    fix i assume "i < length mac"
    then show "vin_re (drop i mac @ ?v) = None"
      using assms vin_re_keyword hex_run_skips [of mac i _ "tl ?v"] unfolding hd(2) [symmetric] answer_ok_def by blast
  qed
  also have "\<dots> = Some vin"
    using assms by (intro first_match_here) (simp_all add: vin_re_def class_run_def answer_ok_def after_def starts_with_def)
  finally show ?thesis .
qed

lemma greedy_exact: "n \<le> length d \<Longrightarrow> starts_with key s \<Longrightarrow> 0 < length d \<Longrightarrow> greedy_before key (length d) (d @ s) = Some d"
  by (cases "length d") simp_all

lemma takeWhile_run: "list_all P d \<Longrightarrow> \<not> P c \<Longrightarrow> takeWhile P (d @ c # s) = d"
  by (induction d) simp_all

lemma greedy_run:
  assumes "list_all hex_char d" and "d \<noteq> ''''"
  shows "greedy_before ''BMWMAC'' (length (takeWhile hex_char (d @ ''BMWMAC'' @ s))) (d @ ''BMWMAC'' @ s) = Some d"
proof -
  have "takeWhile hex_char ((d @ ''B'') @ CHR ''M'' # (''WMAC'' @ s)) = d @ ''B''"
  proof (rule takeWhile_run)
    have "hex_char CHR ''B''" by code_simp
    then show "list_all hex_char (d @ ''B'')" using assms(1) by simp
    show "\<not> hex_char CHR ''M''" by code_simp
  qed
  then have w: "takeWhile hex_char (d @ ''BMWMAC'' @ s) = d @ ''B''" by simp
  obtain n where n: "length d = Suc n" using assms(2) by (cases d) simp_all
  have "\<not> starts_with ''BMWMAC'' (drop (Suc (length d)) (d @ ''BMWMAC'' @ s))" by (simp add: starts_with_Cons)
  moreover have "starts_with ''BMWMAC'' (drop (Suc n) (d @ ''BMWMAC'' @ s))" by (simp add: n [symmetric] starts_with_Cons)
  ultimately show ?thesis unfolding w by (simp add: n)
qed

lemma answer_diagadr:
  assumes "answer_ok d mac vin"
  shows "first_match diagadr_re (gw_answer d mac vin) = Some d"
proof (rule first_match_here)
  show "diagadr_re (gw_answer d mac vin) = Some d"
    using assms greedy_run [of d "mac @ ''BMWVIN'' @ vin"]
    unfolding diagadr_re_def gw_answer_def answer_ok_def after_append option.case by blast
qed (simp add: gw_answer_def)

lemma answer_read:
  assumes "answer_ok d mac vin"
  shows "packet_info db ip (str_bytes (gw_answer d mac vin)) =
    (let x = decode_vin db vin in Some \<lparr>gi_ip = ip, gi_mac = format_mac mac, gi_vin = vin, gi_model = vi_model x,
       gi_chassis = vi_chassis x, gi_platform = platform_for_chassis (vi_chassis x), gi_target = diagadr_to_target d,
       gi_engine = vi_engine x, gi_power = vi_power x, gi_body = vi_body x\<rparr>)"
  using answer_mac [OF assms] answer_vin [OF assms] answer_diagadr [OF assms] by (simp add: packet_info_def Let_def)

text \<open>Whatever arrives, a reported VIN has 17 characters of the standard.\<close>

lemma vin_re_Some: "vin_re s = Some v \<Longrightarrow> length v = 17 \<and> list_all vin_char v"
  by (auto simp: vin_re_def class_run_def split: option.splits if_splits)

lemma packet_info_vin: "packet_info db ip buf = Some i \<Longrightarrow>
    gi_ip i = ip \<and> length (gi_vin i) = 17 \<and> list_all vin_char (gi_vin i)"
  by (auto simp: packet_info_def Let_def dest!: first_match_Some vin_re_Some split: option.splits)

section \<open>The target\<close>

lemma hex_value_digit: "d < 16 \<Longrightarrow> hex_value (hex_digit d) = d"
  by (auto simp: hex_value_def hex_digit_def Let_def)

lemma hex_number_append: "hex_number (a @ [c]) = 16 * hex_number a + hex_value c"
  by (simp add: hex_number_def)

lemma hex_number_digits: "hex_number (hex_digits n) = n"
proof (induction n rule: less_induct)
  case (less n)
  show ?case
  proof (cases "n < 16")
    case True
    then show ?thesis by (simp add: hex_digits.simps [of n] hex_number_def hex_value_digit)
  next
    case False
    then have "hex_digits n = hex_digits (n div 16) @ [hex_digit (n mod 16)]" by (simp add: hex_digits.simps [of n])
    then show ?thesis using less [of "n div 16"] False by (simp add: hex_number_append hex_value_digit)
  qed
qed

lemma hex_number_zeros: "hex_number (replicate n CHR ''0'' @ s) = hex_number s"
proof -
  have "foldl (\<lambda>a c. 16 * a + hex_value c) 0 (replicate n CHR ''0'') = 0"
    by (induction n) (simp_all add: hex_value_def)
  then show ?thesis by (simp add: hex_number_def)
qed

text \<open>The target is \<open>F\<close> and the doubled address, unless doubling leaves the 64-bit range.\<close>

lemma target_doubles:
  assumes "hex \<noteq> ''''" and "hex_number hex < 2 ^ 62"
  shows "\<exists>t. diagadr_to_target hex = CHR ''F'' # t \<and> 3 \<le> length t \<and> hex_number t = 2 * hex_number hex"
proof -
  have m: "(of_nat (hex_number hex) * 2 :: 64 word) = of_nat (2 * hex_number hex)" by simp
  have "sint (of_nat (2 * hex_number hex) :: 64 word) = int (2 * hex_number hex)"
    using assms(2) unfolding of_int_of_nat_eq [symmetric, where 'a = "64 word"]
    by (simp only: sint_sbintrunc') (simp add: signed_take_bit_int_eq_self)
  then have s: "sint (of_nat (hex_number hex) * 2 :: 64 word) = int (2 * hex_number hex)" unfolding m .
  have "hex_number hex < 2 ^ 63" using assms(2) by simp
  then have "diagadr_to_target hex = CHR ''F'' # zero_pad 3 (hex_digits (2 * hex_number hex))"
    using assms(1) unfolding diagadr_to_target_def s by (simp add: format_03X_def nat_mult_distrib)
  then show ?thesis by (simp add: zero_pad_def hex_number_zeros hex_number_digits)
qed

lemma target_overflow: "diagadr_to_target ''4000000000000000'' = ''F-8000000000000000''"
proof -
  have c: "char_of (56 :: nat) = CHR ''8''" "char_of (48 :: nat) = CHR ''0''" by code_simp+
  show ?thesis
    by (simp add: diagadr_to_target_def hex_number_def hex_value_def format_03X_def zero_pad_def hex_digits.simps
        hex_digit_def c)
qed

section \<open>Notifications\<close>

lemma info_equal_refl [simp]: "info_equal a a"
  by (auto simp: info_equal_def same_info_def split: option.split)

text \<open>A changed address or body alone is not a change.\<close>

lemma info_equal_ignores: "info_equal (Some (g\<lparr>gi_mac := m, gi_body := b\<rparr>)) (Some g)"
  by (simp add: info_equal_def same_info_def)

lemma gw_notify_reports:
  "\<not> gr_first r \<Longrightarrow> gw_notify i r = (out, r') \<Longrightarrow> \<not> gr_first r' \<and>
     (out = [] \<and> gr_last r' = gr_last r \<or> out = [gr_last r'] \<and> \<not> info_equal (gr_last r) (gr_last r'))"
  by (auto simp: gw_notify_def split: if_splits)

interpretation gw: reporter "gw_step db" gr_last info_equal "\<lambda>r. \<not> gr_first r" for db
proof
  fix r e out r'
  assume r: "\<not> gr_first r" and s: "gw_step db r e = (out, r')"
  show "\<not> gr_first r' \<and>
     (out = [] \<and> gr_last r' = gr_last r \<or> out = [gr_last r'] \<and> \<not> info_equal (gr_last r) (gr_last r'))"
  proof (cases e)
    case (GwPacket now ip buf)
    show ?thesis
    proof (cases "packet_info db ip buf")
      case None
      then show ?thesis using r s by (simp add: GwPacket gw_step_def gw_packet_def)
    next
      case (Some i)
      then show ?thesis using r s gw_notify_reports [of "r\<lparr>gr_seen := Some now\<rparr>" "Some i" out r']
        by (simp add: GwPacket gw_step_def gw_packet_def)
    qed
  next
    case (GwTick now scan)
    have "gw_step db r e = gw_notify scan r \<or> gw_step db r e = ([], r)"
      by (simp add: GwTick gw_step_def gw_tick_def split: option.split)
    then show ?thesis using r s gw_notify_reports [of r scan out r'] by auto
  qed
qed

lemma gw_run_said:
  "case gw_run_all db scan es of (outs, r) \<Rightarrow>
     hd outs = scan \<and> gr_last r = last outs \<and> successively (\<lambda>a b. \<not> info_equal a b) outs"
proof -
  obtain o1 r1 where s: "gw_notify scan gw_start = (o1, r1)" by fastforce
  then have o1: "o1 = [scan]" "gr_last r1 = scan" "\<not> gr_first r1" by (auto simp: gw_notify_def gw_start_def)
  obtain o2 r2 where t: "run_steps (gw_step db) es r1 = (o2, r2)" by fastforce
  show ?thesis using gw.said_run [OF o1(3) _ _ _ t, of "[scan]"] o1(1,2) by (simp add: gw_run_all_def s t)
qed

text \<open>A silent gateway is forgotten at the next tick; a silence that is short changes nothing.\<close>

lemma gw_tick_shows:
  assumes "\<not> gr_first r"
  shows "case gr_seen r of
      Some t \<Rightarrow> if zgw_silence < now - t then info_equal (gr_last (snd (gw_tick now scan r))) scan
                else gw_tick now scan r = ([], r)
    | None \<Rightarrow> info_equal (gr_last (snd (gw_tick now scan r))) scan"
  using assms by (auto simp: gw_tick_def gw_notify_def split: option.split)

lemma gw_packet_shows:
  assumes "\<not> gr_first r" and "packet_info db ip buf = Some i"
  shows "info_equal (gr_last (snd (gw_packet db now ip buf r))) (Some i) \<and>
    gr_seen (snd (gw_packet db now ip buf r)) = Some now"
  using assms by (auto simp: gw_packet_def gw_notify_def)

end
