(* ===== verification/Standalone.thy ===== *)
theory Standalone
  imports Gateway Bridge
begin

text \<open>
  The separate module \<open>standalone/bmwzgw/zgw.go\<close> that repeats \<open>internal/zgw\<close> for other programs: its own
  decoding tables with a two-character key table, its interface scan, comparison, labels and discovery
  loop. The patterns, field formats, type database and generated tables are those of \<open>Gateway\<close> and
  \<open>VinDecode\<close>: the files are the same. The theorems say where the two modules agree.
\<close>

section \<open>Tables\<close>

definition sa_bodyCodes :: "(char \<times> body_info) list" where
  "sa_bodyCodes = [
    (CHR ''X'', \<lparr>bi_touring = False, bi_xdrive = True\<rparr>),
    (CHR ''W'', \<lparr>bi_touring = False, bi_xdrive = True\<rparr>),
    (CHR ''R'', \<lparr>bi_touring = False, bi_xdrive = True\<rparr>),
    (CHR ''V'', \<lparr>bi_touring = False, bi_xdrive = True\<rparr>),
    (CHR ''B'', \<lparr>bi_touring = True, bi_xdrive = False\<rparr>),
    (CHR ''D'', \<lparr>bi_touring = True, bi_xdrive = True\<rparr>),
    (CHR ''K'', \<lparr>bi_touring = True, bi_xdrive = False\<rparr>),
    (CHR ''E'', \<lparr>bi_touring = True, bi_xdrive = False\<rparr>),
    (CHR ''N'', \<lparr>bi_touring = True, bi_xdrive = True\<rparr>),
    (CHR ''F'', \<lparr>bi_touring = True, bi_xdrive = False\<rparr>),
    (CHR ''G'', \<lparr>bi_touring = True, bi_xdrive = True\<rparr>)]"

definition sa_chassisPlatform :: "(string \<times> string) list" where
  "sa_chassisPlatform = [
    (''F01'', ''F001''), (''F02'', ''F001''), (''F04'', ''F001''), (''F07'', ''F010''), (''F10'', ''F010''),
    (''F11'', ''F010''), (''F12'', ''F010''), (''F13'', ''F010''), (''F15'', ''F025''), (''F16'', ''F025''),
    (''F25'', ''F025''), (''F26'', ''F025''), (''F85'', ''F025''), (''F86'', ''F025''), (''F20'', ''F020''),
    (''F21'', ''F020''), (''F22'', ''F020''), (''F23'', ''F020''), (''F30'', ''F020''), (''F31'', ''F020''),
    (''F32'', ''F020''), (''F33'', ''F020''), (''F34'', ''F020''), (''F35'', ''F020''), (''F36'', ''F020''),
    (''F40'', ''F020''), (''F44'', ''F020''), (''F52'', ''F020''), (''F80'', ''F020''), (''F82'', ''F020''),
    (''F83'', ''F020''), (''F39'', ''F056''), (''F45'', ''F056''), (''F46'', ''F056''), (''F47'', ''F056''),
    (''F48'', ''F056''), (''F49'', ''F056''), (''F90'', ''S15A''), (''F97'', ''S15A''), (''F98'', ''S15A''),
    (''G01'', ''S15A''), (''G02'', ''S15A''), (''G11'', ''S15A''), (''G12'', ''S15A''), (''G30'', ''S15A''),
    (''G31'', ''S15A''), (''G32'', ''S15A''), (''G08'', ''S15C''), (''G38'', ''S15C''), (''G20'', ''S18A''),
    (''G21'', ''S18A''), (''G28'', ''S18A''), (''G22'', ''S18A''), (''G23'', ''S18A''), (''G24'', ''S18A''),
    (''G26'', ''S18A''), (''G42'', ''S18A''), (''G05'', ''S18A''), (''G06'', ''S18A''), (''G07'', ''S18A''),
    (''G09'', ''S18A''), (''G14'', ''S18A''), (''G15'', ''S18A''), (''G16'', ''S18A''), (''G29'', ''S18A''),
    (''G80'', ''S18A''), (''G81'', ''S18A''), (''G82'', ''S18A''), (''G83'', ''S18A''), (''G87'', ''S18A''),
    (''G45'', ''G045''), (''G46'', ''G045''), (''G48'', ''G045''), (''G60'', ''G070''), (''G61'', ''G070''),
    (''G68'', ''G070''), (''G70'', ''G070''), (''G71'', ''G070''), (''G72'', ''G070''), (''G73'', ''G070''),
    (''G84'', ''G070''), (''G90'', ''G070''), (''G99'', ''G070'')]"

definition sa_introMY :: "(char \<times> char) list" where
  "sa_introMY = [
    (CHR ''H'', CHR ''K''), (CHR ''K'', CHR ''G''), (CHR ''W'', CHR ''N'')]"

definition sa_altKeys :: "(char \<times> bmw_model) list" where
  "sa_altKeys = [
    (CHR ''H'', model_entry ''F48'' '''' ''X1'' True), (CHR ''K'', model_entry ''F15'' '''' ''X5'' False),
    (CHR ''W'', model_entry ''F25'' '''' ''X3'' False)]"

definition sa_type2Keys :: "((char \<times> char) \<times> bmw_model) list" where
  "sa_type2Keys = [
    ((CHR ''1'', CHR ''1''), model_entry ''G30'' '''' ''5'' False),
    ((CHR ''1'', CHR ''3''), model_entry ''G30'' '''' ''5'' False),
    ((CHR ''1'', CHR ''J''), model_entry ''F22'' '''' ''2'' False),
    ((CHR ''2'', CHR ''1''), model_entry ''G07'' '''' ''X7'' False),
    ((CHR ''2'', CHR ''3''), model_entry ''G07'' '''' ''X7'' False),
    ((CHR ''2'', CHR ''J''), model_entry ''F22'' '''' ''2'' False),
    ((CHR ''2'', CHR ''M''), model_entry ''F23'' '''' ''2'' False),
    ((CHR ''3'', CHR ''A''), model_entry ''F30'' '''' ''3'' False),
    ((CHR ''3'', CHR ''B''), model_entry ''F30'' '''' ''3'' False),
    ((CHR ''3'', CHR ''C''), model_entry ''F30'' '''' ''3'' False),
    ((CHR ''3'', CHR ''D''), model_entry ''F30'' '''' ''3'' False),
    ((CHR ''3'', CHR ''K''), model_entry ''F31'' '''' ''3'' False),
    ((CHR ''3'', CHR ''L''), model_entry ''F31'' '''' ''3'' False),
    ((CHR ''3'', CHR ''V''), model_entry ''F33'' '''' ''4'' False),
    ((CHR ''3'', CHR ''X''), model_entry ''F34'' '''' ''3'' False),
    ((CHR ''3'', CHR ''Y''), model_entry ''F34'' '''' ''3'' False),
    ((CHR ''3'', CHR ''Z''), model_entry ''F34'' '''' ''3'' False),
    ((CHR ''3'', CHR ''R''), model_entry ''F82'' '''' ''M4'' False),
    ((CHR ''3'', CHR ''U''), model_entry ''F83'' '''' ''M4'' False),
    ((CHR ''4'', CHR ''1''), model_entry ''G80'' '''' ''M3'' False),
    ((CHR ''4'', CHR ''3''), model_entry ''G80'' '''' ''M3'' False),
    ((CHR ''4'', CHR ''W''), model_entry ''F32'' '''' ''4'' False),
    ((CHR ''4'', CHR ''Z''), model_entry ''F33'' '''' ''4'' False),
    ((CHR ''5'', CHR ''F''), model_entry ''G20'' ''G21'' ''3'' False),
    ((CHR ''5'', CHR ''P''), model_entry ''G20'' ''G21'' ''3'' False),
    ((CHR ''5'', CHR ''R''), model_entry ''G20'' ''G21'' ''3'' False),
    ((CHR ''5'', CHR ''U''), model_entry ''G20'' ''G21'' ''3'' False),
    ((CHR ''5'', CHR ''V''), model_entry ''G20'' ''G21'' ''3'' False),
    ((CHR ''5'', CHR ''W''), model_entry ''G20'' ''G21'' ''3'' False),
    ((CHR ''5'', CHR ''X''), model_entry ''G20'' ''G21'' ''3'' False),
    ((CHR ''5'', CHR ''3''), model_entry ''G22'' ''G23'' ''4'' False),
    ((CHR ''5'', CHR ''7''), model_entry ''G01'' '''' ''X3'' False),
    ((CHR ''5'', CHR ''B''), model_entry ''F10'' '''' ''5'' False),
    ((CHR ''5'', CHR ''D''), model_entry ''F10'' '''' ''5'' False),
    ((CHR ''5'', CHR ''E''), model_entry ''F10'' '''' ''5'' False),
    ((CHR ''5'', CHR ''J''), model_entry ''F11'' '''' ''5'' False),
    ((CHR ''5'', CHR ''L''), model_entry ''F11'' '''' ''5'' False),
    ((CHR ''5'', CHR ''N''), model_entry ''F07'' '''' ''5'' False),
    ((CHR ''6'', CHR ''8''), model_entry ''G20'' '''' ''3'' False),
    ((CHR ''6'', CHR ''9''), model_entry ''G20'' '''' ''3'' False),
    ((CHR ''6'', CHR ''L''), model_entry ''G21'' '''' ''3'' False),
    ((CHR ''6'', CHR ''M''), model_entry ''G21'' '''' ''3'' False),
    ((CHR ''6'', CHR ''N''), model_entry ''G21'' '''' ''3'' False),
    ((CHR ''6'', CHR ''S''), model_entry ''F45'' '''' ''2'' True),
    ((CHR ''6'', CHR ''T''), model_entry ''F45'' '''' ''2'' True),
    ((CHR ''6'', CHR ''U''), model_entry ''F45'' '''' ''2'' True),
    ((CHR ''6'', CHR ''X''), model_entry ''F46'' '''' ''2'' True),
    ((CHR ''6'', CHR ''Y''), model_entry ''F45'' '''' ''2'' True),
    ((CHR ''7'', CHR ''H''), model_entry ''G12'' '''' ''7'' False),
    ((CHR ''7'', CHR ''J''), model_entry ''G12'' '''' ''7'' False),
    ((CHR ''7'', CHR ''T''), model_entry ''G12'' '''' ''7'' False),
    ((CHR ''7'', CHR ''U''), model_entry ''G12'' '''' ''7'' False),
    ((CHR ''7'', CHR ''V''), model_entry ''G12'' '''' ''7'' False),
    ((CHR ''7'', CHR ''B''), model_entry ''G11'' '''' ''7'' False),
    ((CHR ''7'', CHR ''K''), model_entry ''F40'' '''' ''1'' True),
    ((CHR ''7'', CHR ''L''), model_entry ''F40'' '''' ''1'' True),
    ((CHR ''7'', CHR ''M''), model_entry ''F40'' '''' ''1'' True),
    ((CHR ''7'', CHR ''N''), model_entry ''F40'' '''' ''1'' True),
    ((CHR ''7'', CHR ''1''), model_entry ''G30'' '''' ''5'' False),
    ((CHR ''7'', CHR ''3''), model_entry ''G30'' '''' ''5'' False),
    ((CHR ''7'', CHR ''8''), model_entry ''G20'' '''' ''3'' False),
    ((CHR ''8'', CHR ''T''), model_entry ''F34'' '''' ''3'' False),
    ((CHR ''8'', CHR ''X''), model_entry ''F34'' '''' ''3'' False),
    ((CHR ''8'', CHR ''Y''), model_entry ''F34'' '''' ''3'' False),
    ((CHR ''8'', CHR ''Z''), model_entry ''F34'' '''' ''3'' False),
    ((CHR ''8'', CHR ''H''), model_entry ''F31'' '''' ''3'' False),
    ((CHR ''8'', CHR ''J''), model_entry ''F31'' '''' ''3'' False),
    ((CHR ''8'', CHR ''M''), model_entry ''F80'' '''' ''M3'' False),
    ((CHR ''B'', CHR ''C''), model_entry ''G15'' '''' ''8'' False),
    ((CHR ''C'', CHR ''W''), model_entry ''G07'' '''' ''X7'' False),
    ((CHR ''C'', CHR ''X''), model_entry ''G07'' '''' ''X7'' False),
    ((CHR ''C'', CHR ''Y''), model_entry ''G06'' '''' ''X6'' False),
    ((CHR ''F'', CHR ''P''), model_entry ''F10'' ''F11'' ''5'' False),
    ((CHR ''F'', CHR ''R''), model_entry ''F10'' ''F11'' ''5'' False),
    ((CHR ''F'', CHR ''U''), model_entry ''F10'' ''F11'' ''5'' False),
    ((CHR ''F'', CHR ''V''), model_entry ''F10'' ''F11'' ''5'' False),
    ((CHR ''F'', CHR ''W''), model_entry ''F10'' ''F11'' ''5'' False),
    ((CHR ''G'', CHR ''T''), model_entry ''G06'' '''' ''X6'' False),
    ((CHR ''G'', CHR ''V''), model_entry ''G16'' '''' ''8'' False),
    ((CHR ''G'', CHR ''W''), model_entry ''G16'' '''' ''8'' False),
    ((CHR ''H'', CHR ''F''), model_entry ''G29'' '''' ''Z4'' False),
    ((CHR ''H'', CHR ''S''), model_entry ''F48'' '''' ''X1'' True),
    ((CHR ''H'', CHR ''Y''), model_entry ''F48'' '''' ''X1'' True),
    ((CHR ''J'', CHR ''B''), model_entry ''G30'' '''' ''5'' False),
    ((CHR ''J'', CHR ''D''), model_entry ''G30'' '''' ''5'' False),
    ((CHR ''J'', CHR ''E''), model_entry ''G30'' '''' ''5'' False),
    ((CHR ''J'', CHR ''F''), model_entry ''G30'' '''' ''5'' False),
    ((CHR ''J'', CHR ''K''), model_entry ''G30'' '''' ''5'' False),
    ((CHR ''J'', CHR ''L''), model_entry ''G31'' '''' ''5'' False),
    ((CHR ''J'', CHR ''M''), model_entry ''G31'' '''' ''5'' False),
    ((CHR ''J'', CHR ''P''), model_entry ''G31'' '''' ''5'' False),
    ((CHR ''J'', CHR ''V''), model_entry ''G32'' '''' ''6'' False),
    ((CHR ''J'', CHR ''W''), model_entry ''G32'' '''' ''6'' False),
    ((CHR ''J'', CHR ''X''), model_entry ''G32'' '''' ''6'' False),
    ((CHR ''J'', CHR ''U''), model_entry ''G05'' '''' ''X5'' False),
    ((CHR ''J'', CHR ''G''), model_entry ''F48'' '''' ''X1'' True),
    ((CHR ''J'', CHR ''H''), model_entry ''F48'' '''' ''X1'' True),
    ((CHR ''J'', CHR ''J''), model_entry ''F48'' '''' ''X1'' True),
    ((CHR ''K'', CHR ''B''), model_entry ''F02'' '''' ''7'' False),
    ((CHR ''K'', CHR ''C''), model_entry ''F01'' '''' ''7'' False),
    ((CHR ''K'', CHR ''M''), model_entry ''F01'' '''' ''7'' False),
    ((CHR ''K'', CHR ''J''), model_entry ''G01'' '''' ''X3'' False),
    ((CHR ''K'', CHR ''N''), model_entry ''F10'' ''F11'' ''5'' False),
    ((CHR ''K'', CHR ''P''), model_entry ''F10'' ''F11'' ''5'' False),
    ((CHR ''K'', CHR ''R''), model_entry ''F15'' '''' ''X5'' False),
    ((CHR ''K'', CHR ''T''), model_entry ''F85'' '''' ''X5'' False),
    ((CHR ''K'', CHR ''U''), model_entry ''F16'' '''' ''X6'' False),
    ((CHR ''K'', CHR ''V''), model_entry ''F16'' '''' ''X6'' False),
    ((CHR ''K'', CHR ''W''), model_entry ''F86'' '''' ''X6'' False),
    ((CHR ''L'', CHR ''S''), model_entry ''F15'' '''' ''X5'' False),
    ((CHR ''M'', CHR ''X''), model_entry ''F11'' '''' ''5'' False),
    ((CHR ''S'', CHR ''N''), model_entry ''F07'' '''' ''5'' False),
    ((CHR ''S'', CHR ''P''), model_entry ''F07'' '''' ''5'' False),
    ((CHR ''T'', CHR ''A''), model_entry ''G05'' '''' ''X5'' False),
    ((CHR ''T'', CHR ''B''), model_entry ''G07'' '''' ''X7'' False),
    ((CHR ''T'', CHR ''C''), model_entry ''G06'' '''' ''X6'' False),
    ((CHR ''U'', CHR ''J''), model_entry ''F98'' '''' ''X4'' False),
    ((CHR ''V'', CHR ''J''), model_entry ''G02'' '''' ''X4'' False),
    ((CHR ''X'', CHR ''A''), model_entry ''F10'' ''F11'' ''5'' False),
    ((CHR ''X'', CHR ''G''), model_entry ''F10'' ''F11'' ''5'' False),
    ((CHR ''X'', CHR ''H''), model_entry ''F10'' ''F11'' ''5'' False),
    ((CHR ''Y'', CHR ''B''), model_entry ''F01'' '''' ''7'' False),
    ((CHR ''Y'', CHR ''C''), model_entry ''F01'' '''' ''7'' False),
    ((CHR ''Y'', CHR ''E''), model_entry ''F02'' '''' ''7'' False),
    ((CHR ''Y'', CHR ''F''), model_entry ''F02'' '''' ''7'' False),
    ((CHR ''Y'', CHR ''M''), model_entry ''F13'' '''' ''6'' False),
    ((CHR ''Y'', CHR ''P''), model_entry ''F12'' '''' ''6'' False)]"

definition sa_typeKeys :: "(char \<times> bmw_model) list" where
  "sa_typeKeys = [
    (CHR ''9'', model_entry ''E90'' ''E91'' ''3'' False), (CHR ''1'', model_entry ''F20'' ''F21'' ''1'' False),
    (CHR ''2'', model_entry ''F45'' ''F46'' ''2'' True), (CHR ''3'', model_entry ''F30'' ''F31'' ''3'' False),
    (CHR ''4'', model_entry ''F36'' '''' ''4'' False), (CHR ''5'', model_entry ''F10'' ''F11'' ''5'' False),
    (CHR ''6'', model_entry ''F12'' '''' ''6'' False), (CHR ''7'', model_entry ''G11'' ''G12'' ''7'' False),
    (CHR ''8'', model_entry ''F30'' ''F31'' ''3'' False), (CHR ''A'', model_entry ''F15'' '''' ''X5'' False),
    (CHR ''B'', model_entry ''F16'' '''' ''X6'' False), (CHR ''C'', model_entry ''G05'' '''' ''X5'' False),
    (CHR ''D'', model_entry ''F26'' '''' ''X4'' False), (CHR ''E'', model_entry ''F45'' '''' ''2'' True),
    (CHR ''F'', model_entry ''F48'' '''' ''X1'' True), (CHR ''G'', model_entry ''F39'' '''' ''X2'' True),
    (CHR ''H'', model_entry ''G29'' '''' ''Z4'' False), (CHR ''J'', model_entry ''G30'' ''G31'' ''5'' False),
    (CHR ''K'', model_entry ''G11'' ''G12'' ''7'' False), (CHR ''L'', model_entry ''F13'' '''' ''6'' False),
    (CHR ''M'', model_entry ''G02'' '''' ''X4'' False), (CHR ''N'', model_entry ''G05'' '''' ''X5'' False),
    (CHR ''P'', model_entry ''G06'' '''' ''X6'' False), (CHR ''R'', model_entry ''G07'' '''' ''X7'' False),
    (CHR ''S'', model_entry ''G29'' '''' ''Z4'' False), (CHR ''T'', model_entry ''G01'' '''' ''X3'' False),
    (CHR ''U'', model_entry ''G01'' '''' ''X3'' False), (CHR ''V'', model_entry ''G82'' ''G83'' ''M4'' False),
    (CHR ''W'', model_entry ''G26'' '''' ''4'' False), (CHR ''X'', model_entry ''F26'' '''' ''X4'' False),
    (CHR ''Y'', model_entry ''F39'' '''' ''X2'' True), (CHR ''Z'', model_entry ''G16'' '''' ''8'' False)]"

definition sa_engineCodes :: "(char \<times> string) list" where
  "sa_engineCodes = [
    (CHR ''0'', ''16i''), (CHR ''1'', ''18i''), (CHR ''2'', ''20d''), (CHR ''3'', ''30d''),
    (CHR ''4'', ''35i''), (CHR ''5'', ''20i''), (CHR ''6'', ''40i''), (CHR ''7'', ''35d''),
    (CHR ''8'', ''40d''), (CHR ''9'', ''50i''), (CHR ''A'', ''16d''), (CHR ''B'', ''18d''),
    (CHR ''C'', ''20d''), (CHR ''D'', ''25d''), (CHR ''E'', ''30i''), (CHR ''F'', ''M''), (CHR ''G'', ''M''),
    (CHR ''H'', ''25e''), (CHR ''J'', ''30e''), (CHR ''K'', ''45e''), (CHR ''L'', ''25i''),
    (CHR ''N'', ''28i''), (CHR ''P'', ''35i''), (CHR ''R'', ''28d''), (CHR ''S'', ''M''), (CHR ''T'', ''30i''),
    (CHR ''U'', ''30i''), (CHR ''V'', ''40i''), (CHR ''W'', ''50e''), (CHR ''X'', ''45e''), (CHR ''Y'', ''M''),
    (CHR ''Z'', ''60i'')]"

definition sa_platform_for_chassis :: "string \<Rightarrow> string" where
  "sa_platform_for_chassis c =
     (case map_of faChassisPlatform c of Some p \<Rightarrow> p | None \<Rightarrow> lookup_str sa_chassisPlatform c)"

section \<open>Decoding\<close>

definition sa_entry :: "string \<Rightarrow> bmw_model option" where
  "sa_entry vin =
     (case map_of sa_type2Keys (vin ! 3, vin ! 4) of
        Some e \<Rightarrow> Some e
      | None \<Rightarrow> (case map_of sa_introMY (vin ! 3) of
            Some intro \<Rightarrow> if (of_char (vin ! 9) :: nat) < of_char intro then map_of sa_altKeys (vin ! 3)
                         else map_of sa_typeKeys (vin ! 3)
          | None \<Rightarrow> map_of sa_typeKeys (vin ! 3)))"

definition sa_body_code :: "char \<Rightarrow> body_info" where
  "sa_body_code c = (case map_of sa_bodyCodes c of None \<Rightarrow> \<lparr>bi_touring = False, bi_xdrive = False\<rparr> | Some b \<Rightarrow> b)"

definition sa_decode_vin :: "car_db \<Rightarrow> string \<Rightarrow> vin_info" where
  "sa_decode_vin db vin =
     (if length vin < 17 then no_vin_info
      else case db_fa db (slice 3 7 vin) of
        Some fa \<Rightarrow> decode_fa db fa
      | None \<Rightarrow> (case sa_entry vin of
            None \<Rightarrow> no_vin_info
          | Some e \<Rightarrow> decode_entry db e (sa_body_code (vin ! 4)) (lookup_str sa_engineCodes (vin ! 5))))"

section \<open>Discovery\<close>

text \<open>The first link-local address of an interface that is up and not the skipped one.\<close>

definition sa_scan_ifaces :: "(bytes \<Rightarrow> string) \<Rightarrow> string \<Rightarrow> os_iface list option \<Rightarrow> gw_info option" where
  "sa_scan_ifaces show_ip skip found =
     (case found of
        None \<Rightarrow> None
      | Some ifs \<Rightarrow>
          let usable = filter (\<lambda>i. \<not> (skip \<noteq> '''' \<and> if_name i = skip) \<and> if_up i) ifs;
              addrs = concat (map (\<lambda>i. case if_addrs i of None \<Rightarrow> [] | Some as \<Rightarrow> as) usable)
          in map_option (\<lambda>ip. bare_info (show_ip ip)) (find is_link_local addrs))"

definition sa_do_probes :: "(bytes \<Rightarrow> string) \<Rightarrow> string \<Rightarrow> os_iface list option \<Rightarrow> (string option \<times> string \<times> bytes) list" where
  "sa_do_probes show_ip skip found =
     (let both = (\<lambda>src. [(src, ''255.255.255.255:6811'', zgw_probe), (src, ''169.254.255.255:6811'', zgw_probe)]);
          usable = filter (\<lambda>i. \<not> (skip \<noteq> '''' \<and> if_name i = skip) \<and> if_up i) (case found of None \<Rightarrow> [] | Some ifs \<Rightarrow> ifs);
          addrs = concat (map (\<lambda>i. case if_addrs i of None \<Rightarrow> [] | Some as \<Rightarrow> as) usable)
      in both None @ concat (map (\<lambda>ip. both (Some (show_ip ip))) (filter is_link_local addrs)))"

definition sa_packet_info :: "car_db \<Rightarrow> string \<Rightarrow> bytes \<Rightarrow> gw_info option" where
  "sa_packet_info db ip buf =
     (let s = bytes_str buf in
      case first_match vin_re s of
        None \<Rightarrow> None
      | Some vin \<Rightarrow>
          let d = sa_decode_vin db vin
          in Some \<lparr>gi_ip = ip,
               gi_mac = (case first_match mac_re s of None \<Rightarrow> '''' | Some m \<Rightarrow> format_mac m),
               gi_vin = vin, gi_model = vi_model d, gi_chassis = vi_chassis d,
               gi_platform = sa_platform_for_chassis (vi_chassis d),
               gi_target = (case first_match diagadr_re s of None \<Rightarrow> '''' | Some h \<Rightarrow> diagadr_to_target h),
               gi_engine = vi_engine d, gi_power = vi_power d, gi_body = vi_body d\<rparr>)"

fun sa_discover :: "car_db \<Rightarrow> (string \<times> bytes) list \<Rightarrow> gw_info option" where
  "sa_discover db [] = None"
| "sa_discover db ((ip, buf) # ps) = (case sa_packet_info db ip buf of Some i \<Rightarrow> Some i | None \<Rightarrow> sa_discover db ps)"

definition sa_info_equal :: "gw_info option \<Rightarrow> gw_info option \<Rightarrow> bool" where
  "sa_info_equal a b = (case (a, b) of
      (None, None) \<Rightarrow> True
    | (Some x, Some y) \<Rightarrow> gi_ip x = gi_ip y \<and> gi_vin x = gi_vin y \<and> gi_target x = gi_target y \<and>
        gi_model x = gi_model y \<and> gi_platform x = gi_platform y
    | _ \<Rightarrow> False)"

definition sa_notify :: "gw_info option \<Rightarrow> gw_run \<Rightarrow> gw_info option list \<times> gw_run" where
  "sa_notify i r =
     (if gr_first r \<or> \<not> sa_info_equal (gr_last r) i then ([i], r\<lparr>gr_first := False, gr_last := i\<rparr>) else ([], r))"

definition sa_step :: "car_db \<Rightarrow> gw_run \<Rightarrow> gw_event \<Rightarrow> gw_info option list \<times> gw_run" where
  "sa_step db r ev = (case ev of
      GwPacket now ip buf \<Rightarrow>
        (case sa_packet_info db ip buf of
           None \<Rightarrow> ([], r)
         | Some i \<Rightarrow> sa_notify (Some i) (r\<lparr>gr_seen := Some now\<rparr>))
    | GwTick now scan \<Rightarrow>
        (case gr_seen r of
           None \<Rightarrow> sa_notify scan r
         | Some t \<Rightarrow> if zgw_silence < now - t then sa_notify scan r else ([], r)))"

definition sa_run_all :: "car_db \<Rightarrow> gw_info option \<Rightarrow> gw_event list \<Rightarrow> gw_info option list \<times> gw_run" where
  "sa_run_all db scan es =
     (case sa_notify scan gw_start of (o1, r1) \<Rightarrow> case run_steps (sa_step db) es r1 of (o2, r2) \<Rightarrow> (o1 @ o2, r2))"

definition sa_info_string :: "gw_info option \<Rightarrow> string" where
  "sa_info_string i =
     (case i of
        None \<Rightarrow> ''''
      | Some g \<Rightarrow>
          if gi_vin g = '''' then gi_ip g
          else gi_ip g @ ''  '' @ gi_vin g @ (if gi_model g \<noteq> '''' then ''  '' @ gi_model g else '''') @
            (if gi_target g \<noteq> '''' then ''  '' @ gi_target g else ''''))"

definition sa_format_bmw :: "gw_info option \<Rightarrow> string" where
  "sa_format_bmw i =
     (case i of
        None \<Rightarrow> ''BMW: not found''
      | Some g \<Rightarrow>
          if gi_vin g = '''' then ''BMW: '' @ gi_ip g @ '' (no ZGW response)''
          else ''BMW: '' @ gi_ip g @ ''  '' @ gi_vin g @ (if gi_model g \<noteq> '''' then ''  '' @ gi_model g else '''') @
            (if gi_target g \<noteq> '''' then ''  '' @ gi_target g else ''''))"

section \<open>Where the modules agree\<close>

text \<open>Every chassis the client knows a platform for has the same one in the module.\<close>

lemma platform_tables: "list_all (\<lambda>(c, p). lookup_str sa_chassisPlatform c = p) chassisPlatform"
  by code_simp

lemma sa_platform_extends:
  "platform_for_chassis c = '''' \<or> sa_platform_for_chassis c = platform_for_chassis c"
proof (cases "map_of faChassisPlatform c")
  case None
  show ?thesis
  proof (cases "map_of chassisPlatform c")
    case (Some p)
    then have "lookup_str sa_chassisPlatform c = p" using platform_tables by (auto simp: list_all_iff dest: map_of_SomeD)
    then show ?thesis using Some None by (simp add: platform_for_chassis_def sa_platform_for_chassis_def lookup_str_def)
  qed (simp add: platform_for_chassis_def lookup_str_def None)
qed (simp add: platform_for_chassis_def sa_platform_for_chassis_def)

lemma sa_platform_more: "platform_for_chassis ''F80'' = '''' \<and> sa_platform_for_chassis ''F80'' = ''F020''"
  by code_simp

text \<open>The single-character tables differ in the keys 3 and 5 only, the body codes in R and V.\<close>

lemma table_keys:
  "filter (\<lambda>(k, e). k \<noteq> CHR ''3'' \<and> k \<noteq> CHR ''5'') sa_typeKeys =
     filter (\<lambda>(k, e). k \<noteq> CHR ''3'' \<and> k \<noteq> CHR ''5'') bmwTypeKeys"
  "filter (\<lambda>(k, e). k \<noteq> CHR ''3'' \<and> k \<noteq> CHR ''5'') sa_altKeys =
     filter (\<lambda>(k, e). k \<noteq> CHR ''3'' \<and> k \<noteq> CHR ''5'') fseriesAltKeys"
  "filter (\<lambda>(k, e). k \<noteq> CHR ''3'' \<and> k \<noteq> CHR ''5'') sa_introMY =
     filter (\<lambda>(k, e). k \<noteq> CHR ''3'' \<and> k \<noteq> CHR ''5'') gseriesIntroMY"
  "filter (\<lambda>(k, e). k \<noteq> CHR ''R'' \<and> k \<noteq> CHR ''V'') sa_bodyCodes =
     filter (\<lambda>(k, e). k \<noteq> CHR ''R'' \<and> k \<noteq> CHR ''V'') bmwBodyCodes"
  "sa_engineCodes = bmwEngineCodes"
  by code_simp+

lemma map_of_filter_eq:
  assumes "filter (\<lambda>(k, e). k \<noteq> a \<and> k \<noteq> b) xs = filter (\<lambda>(k, e). k \<noteq> a \<and> k \<noteq> b) ys" and "k \<noteq> a" "k \<noteq> b"
  shows "map_of xs k = map_of ys k"
proof -
  have "map_of (filter (\<lambda>(k, e). k \<noteq> a \<and> k \<noteq> b) zs) k = map_of zs k" for zs :: "('a \<times> 'b) list"
    using assms(2,3) by (induction zs) auto
  from this [of xs] this [of ys] show ?thesis using assms(1) by simp
qed

lemma sa_entry_agrees:
  assumes "map_of sa_type2Keys (vin ! 3, vin ! 4) = None" and "vin ! 3 \<noteq> CHR ''3''" "vin ! 3 \<noteq> CHR ''5''"
  shows "sa_entry vin = type_key_entry (vin ! 3) (vin ! 9)"
  using map_of_filter_eq [OF table_keys(1) assms(2,3)] map_of_filter_eq [OF table_keys(2) assms(2,3)]
    map_of_filter_eq [OF table_keys(3) assms(2,3)] assms(1)
  by (simp add: sa_entry_def type_key_entry_def split: option.split)

text \<open>What the vehicle backups decide both modules decode alike, and the rest where the tables agree.\<close>

definition same_tables :: "string \<Rightarrow> bool" where
  "same_tables vin \<longleftrightarrow> map_of sa_type2Keys (vin ! 3, vin ! 4) = None \<and> vin ! 3 \<noteq> CHR ''3'' \<and> vin ! 3 \<noteq> CHR ''5'' \<and>
     vin ! 4 \<noteq> CHR ''R'' \<and> vin ! 4 \<noteq> CHR ''V''"

lemma sa_decode_agrees:
  assumes "length vin < 17 \<or> db_fa db (slice 3 7 vin) \<noteq> None \<or> same_tables vin"
  shows "sa_decode_vin db vin = decode_vin db vin"
proof (cases "length vin < 17 \<or> db_fa db (slice 3 7 vin) \<noteq> None")
  case True
  then show ?thesis by (auto simp: sa_decode_vin_def decode_vin_def)
next
  case False
  then have s: "same_tables vin" using assms by blast
  then have "sa_body_code (vin ! 4) = body_code (vin ! 4)"
    using map_of_filter_eq [OF table_keys(4), of "vin ! 4"] by (simp add: same_tables_def sa_body_code_def body_code_def)
  moreover have "sa_entry vin = type_key_entry (vin ! 3) (vin ! 9)" using s by (intro sa_entry_agrees) (simp_all add: same_tables_def)
  ultimately show ?thesis by (simp add: sa_decode_vin_def decode_vin_def table_keys(5) split: option.split)
qed

text \<open>Elsewhere they may name different cars.\<close>

lemma sa_decode_differs:
  "vi_chassis (sa_decode_vin \<lparr>db_fa = (\<lambda>_. None), db_variants = []\<rparr> ''WBA3P51090F123456'') = ''F30'' \<and>
   vi_chassis (decode_vin \<lparr>db_fa = (\<lambda>_. None), db_variants = []\<rparr> ''WBA3P51090F123456'') = ''F33''"
  by code_simp

text \<open>The examples in the comment of \<open>decodeVIN\<close>.\<close>

lemma sa_examples:
  "vi_model (sa_decode_vin \<lparr>db_fa = (\<lambda>_. None), db_variants = []\<rparr> ''WBA8X51000CF40263'') = ''F34 320i xDrive''"
  "vi_model (sa_decode_vin \<lparr>db_fa = (\<lambda>_. None), db_variants = []\<rparr> ''WBA3B51090F123456'') = ''F30 320i''"
  "sa_decode_vin db ''WBAHE510X0H12345'' = no_vin_info"
  by code_simp+

text \<open>The module's loop also reports only changes; what it compares is less.\<close>

interpretation sa: reporter "sa_step db" gr_last sa_info_equal "\<lambda>r. \<not> gr_first r" for db
proof
  fix r e out r'
  assume r: "\<not> gr_first r" and s: "sa_step db r e = (out, r')"
  have notify: "\<not> gr_first r1 \<Longrightarrow> sa_notify i r1 = (out, r') \<Longrightarrow> \<not> gr_first r' \<and>
     (out = [] \<and> gr_last r' = gr_last r1 \<or> out = [gr_last r'] \<and> \<not> sa_info_equal (gr_last r1) (gr_last r'))" for i r1
    by (auto simp: sa_notify_def split: if_splits)
  have "sa_step db r e = ([], r) \<or> (\<exists>i. sa_step db r e = sa_notify i r) \<or>
      (\<exists>i t. sa_step db r e = sa_notify i (r\<lparr>gr_seen := t\<rparr>))"
    by (cases e; simp add: sa_step_def split: option.split) blast+
  then consider "sa_step db r e = ([], r)" | i where "sa_step db r e = sa_notify i r"
    | i t where "sa_step db r e = sa_notify i (r\<lparr>gr_seen := t\<rparr>)"
    by blast
  then show "\<not> gr_first r' \<and>
     (out = [] \<and> gr_last r' = gr_last r \<or> out = [gr_last r'] \<and> \<not> sa_info_equal (gr_last r) (gr_last r'))"
  proof cases
    case 3
    then show ?thesis using r s notify [of "r\<lparr>gr_seen := t\<rparr>" i] by simp
  qed (use r s notify [of r] in auto)
qed

lemma sa_equal_coarser: "info_equal a b \<Longrightarrow> sa_info_equal a b"
  by (auto simp: info_equal_def sa_info_equal_def same_info_def split: option.splits)

lemma sa_run_reports:
  "case sa_run_all db scan es of (outs, r) \<Rightarrow>
     hd outs = scan \<and> gr_last r = last outs \<and> successively (\<lambda>a b. \<not> sa_info_equal a b) outs"
proof -
  obtain o1 r1 where s: "sa_notify scan gw_start = (o1, r1)" by fastforce
  then have o1: "o1 = [scan]" "gr_last r1 = scan" "\<not> gr_first r1" by (auto simp: sa_notify_def gw_start_def)
  obtain o2 r2 where t: "run_steps (sa_step db) es r1 = (o2, r2)" by fastforce
  show ?thesis using sa.said_run [OF o1(3) _ _ _ t, of "[scan]"] o1(1,2) by (simp add: sa_run_all_def s t)
qed

end
