(* ===== verification/CommandLine.thy ===== *)
theory CommandLine
  imports ClientConn
begin

text \<open>
  \<open>cmd/supervpn-client/main.go\<close>: how the command line and the configuration file make the client's
  configuration, which stale process is killed at start, and the status report; and the connectivity
  test of the GUI (\<open>conntest.go\<close>), which probes the same ports.
\<close>

section \<open>Flags\<close>

text \<open>String flags are empty, numeric ones negative, when not given; the hub's is zero.\<close>

record cli_flags =
  cf_server :: string
  cf_server_tcp :: string
  cf_hub :: nat
  cf_login :: string
  cf_password :: string
  cf_transport :: string
  cf_mode :: string
  cf_tun_name :: string
  cf_status :: string
  cf_timeout :: string
  cf_mirrors :: string
  cf_fec_k :: int
  cf_fec_r :: int
  cf_fec_delay :: int
  cf_sni :: string
  cf_knock_count :: int
  cf_knock_size :: int
  cf_attempts :: int
  cf_nic :: string
  cf_tap :: string
  cf_method :: string

definition str_flag :: "string \<Rightarrow> string \<Rightarrow> string" where
  "str_flag flag v = (if flag \<noteq> '''' then flag else v)"

definition int_flag :: "int \<Rightarrow> int \<Rightarrow> int" where
  "int_flag flag v = (if 0 \<le> flag then flag else v)"

definition mirror_flag :: "string \<Rightarrow> string list" where
  "mirror_flag s = filter (\<lambda>u. u \<noteq> '''') (map trim_space (split_at (CHR '','') s))"

definition hub_flag :: "nat \<Rightarrow> 16 word \<Rightarrow> 16 word" where
  "hub_flag flag v = (let h = (if flag \<noteq> 0 then of_nat flag else v) in if h = 0 then 1 else h)"

definition apply_flags :: "cli_flags \<Rightarrow> client_config \<Rightarrow> client_config" where
  "apply_flags fl c = c\<lparr>cc_server := str_flag (cf_server fl) (cc_server c),
     cc_server_tcp := str_flag (cf_server_tcp fl) (cc_server_tcp c),
     cc_hub_id := hub_flag (cf_hub fl) (cc_hub_id c),
     cc_login := str_flag (cf_login fl) (cc_login c),
     cc_password := str_flag (cf_password fl) (cc_password c),
     cc_transport := str_flag (cf_transport fl) (cc_transport c),
     cc_mode := str_flag (cf_mode fl) (cc_mode c),
     cc_tun_name := str_flag (cf_tun_name fl) (cc_tun_name c),
     cc_status_listen := str_flag (cf_status fl) (cc_status_listen c),
     cc_timeout := str_flag (cf_timeout fl) (cc_timeout c),
     cc_mirrors := cc_mirrors c @ (if cf_mirrors fl \<noteq> '''' then mirror_flag (cf_mirrors fl) else []),
     cc_fec := fec_defaults \<lparr>fc_k = int_flag (cf_fec_k fl) (fc_k (cc_fec c)),
       fc_r = int_flag (cf_fec_r fl) (fc_r (cc_fec c)), fc_delay = int_flag (cf_fec_delay fl) (fc_delay (cc_fec c))\<rparr>,
     cc_tls_sni := str_flag (cf_sni fl) (cc_tls_sni c),
     cc_udp := udp_defaults \<lparr>ud_knock_count = int_flag (cf_knock_count fl) (ud_knock_count (cc_udp c)),
       ud_knock_size = int_flag (cf_knock_size fl) (ud_knock_size (cc_udp c)),
       ud_attempts = int_flag (cf_attempts fl) (ud_attempts (cc_udp c))\<rparr>,
     cc_bridge := bridge_defaults \<lparr>br_tap = str_flag (cf_tap fl) (br_tap (cc_bridge c)),
       br_nic = str_flag (cf_nic fl) (br_nic (cc_bridge c)), br_setup = str_flag (cf_method fl) (br_setup (cc_bridge c)),
       br_mss_clamp = br_mss_clamp (cc_bridge c)\<rparr>\<rparr>"

definition zero_client :: client_config where
  "zero_client = \<lparr>cc_server = '''', cc_server_tcp = '''', cc_status_listen = '''', cc_hub_id = 0, cc_login = '''',
     cc_password = '''', cc_transport = '''', cc_mode = '''', cc_tun_name = '''', cc_tun_ip = '''',
     cc_fec = \<lparr>fc_k = 0, fc_r = 0, fc_delay = 0\<rparr>, cc_tls_sni = '''', cc_tls_skip = False,
     cc_udp = \<lparr>ud_knock_count = 0, ud_knock_size = 0, ud_attempts = 0\<rparr>,
     cc_bridge = \<lparr>br_tap = '''', br_nic = '''', br_setup = '''', br_mss_clamp = 0\<rparr>,
     cc_reality = \<lparr>rcl_addr = '''', rcl_sni = '''', rcl_public_key = '''', rcl_short_id = '''', rcl_fingerprint = ''''\<rparr>,
     cc_mirrors = [], cc_timeout = '''', cc_minimize = False, cc_auto_connect = False, cc_start_windows = False,
     cc_no_battery = False\<rparr>"

text \<open>
  The start of \<open>main\<close>: \<open>file\<close> is \<open>None\<close> without a \<open>-config\<close> flag, otherwise what the decoder made of the file.
\<close>

definition client_main_config :: "client_config option option \<Rightarrow> cli_flags \<Rightarrow> config_error + client_config" where
  "client_main_config file fl =
     (let start = (case file of None \<Rightarrow> Inr zero_client
        | Some decoded \<Rightarrow> (case load_client_config decoded of
              (Some c, None) \<Rightarrow> Inr c | (_, Some e) \<Rightarrow> Inl e | (None, None) \<Rightarrow> Inl DecodeFailed))
      in case start of Inl e \<Rightarrow> Inl e
        | Inr c \<Rightarrow> let c' = apply_flags fl c in (case validate_client c' of Some e \<Rightarrow> Inl e | None \<Rightarrow> Inr c'))"

text \<open>\<open>killStaleClient\<close>: the process to kill, from the content of the pid file.\<close>

definition stale_client :: "int \<Rightarrow> string option \<Rightarrow> int option" where
  "stale_client own file = (case file of None \<Rightarrow> None
    | Some data \<Rightarrow> (case atoi (trim_space data) of None \<Rightarrow> None
        | Some pid \<Rightarrow> if pid \<le> 0 \<or> pid = own then None else Some pid))"

section \<open>The status report\<close>

record session_details =
  sd_session :: session_id
  sd_server :: string
  sd_hub :: "16 word"
  sd_login :: string
  sd_mode :: string
  sd_secondary :: string
  sd_connected :: string
  sd_duration :: time
  sd_fec :: "64 word \<times> 64 word \<times> 64 word \<times> 64 word"
  sd_tx :: "64 word"
  sd_rx :: "64 word"

record client_status_response =
  cr_version :: string
  cr_uptime :: time
  cr_state :: string
  cr_session :: "session_details option"

definition handle_client_status :: "string \<Rightarrow> (time \<Rightarrow> string) \<Rightarrow> time \<Rightarrow> client option \<Rightarrow> client_status_response" where
  "handle_client_status version fmt now c =
     (case c of
        None \<Rightarrow> \<lparr>cr_version = version, cr_uptime = 0, cr_state = ''starting'', cr_session = None\<rparr>
      | Some c \<Rightarrow>
          let st = client_stats c
          in \<lparr>cr_version = version, cr_uptime = ((now - st_start st) div second) * second,
              cr_state = (case st_state st of StateConnected \<Rightarrow> ''connected'' | StateConnecting \<Rightarrow> ''connecting''
                | StateDisconnected \<Rightarrow> ''reconnecting''),
              cr_session = (if st_state st = StateConnected then Some
                \<lparr>sd_session = st_session st, sd_server = st_server st, sd_hub = st_hub st, sd_login = st_login st,
                 sd_mode = st_transport st, sd_secondary = st_secondary st, sd_connected = fmt (st_connected st),
                 sd_duration = ((now - st_connected st) div second) * second,
                 sd_fec = (st_fec_data st, st_fec_repair st, st_fec_recovered st, st_fec_lost st),
                 sd_tx = st_tx st, sd_rx = st_rx st\<rparr> else None)\<rparr>)"

section \<open>The connectivity test\<close>

definition port_plus_one :: "string \<Rightarrow> string" where
  "port_plus_one addr = (case split_host_port addr of
      Inl _ \<Rightarrow> addr
    | Inr (host, port) \<Rightarrow> (case atoi port of None \<Rightarrow> addr | Some p \<Rightarrow> join_host_port host (itoa (p + 1))))"

datatype probe_kind = ProbeUDP | ProbeTCP | ProbeReality

text \<open>The five probes of a server, in the columns' order.\<close>

definition server_probes :: "string \<Rightarrow> (probe_kind \<times> string) list" where
  "server_probes addr =
     (let host = (case split_host_port addr of Inl _ \<Rightarrow> '''' | Inr (h, _) \<Rightarrow> h)
      in [(ProbeUDP, addr), (ProbeUDP, port_plus_one addr), (ProbeTCP, join_host_port host ''8443''),
          (ProbeTCP, join_host_port host ''8444''), (ProbeReality, join_host_port host ''443'')])"

text \<open>What the probes send: a request for the hub list.\<close>

definition list_hubs_frame :: bytes where
  "list_hubs_frame = marshal_header \<lparr>hdr_type = FrameListHubs, hdr_hub = 0, hdr_session = 0, hdr_seq = 0\<rparr>"

section \<open>Properties\<close>

lemma hub_flag_not_0: "hub_flag flag v \<noteq> 0"
  by (simp add: hub_flag_def Let_def)

text \<open>Whatever the file and the flags say, an accepted configuration can be connected with.\<close>

lemma main_config_usable:
  assumes "client_main_config file fl = Inr c"
  shows "cc_server c \<noteq> '''' \<and> cc_login c \<noteq> '''' \<and> cc_password c \<noteq> '''' \<and> cc_hub_id c \<noteq> 0 \<and>
    fc_k (cc_fec c) \<noteq> 0 \<and> fc_r (cc_fec c) \<noteq> 0 \<and> fc_delay (cc_fec c) \<noteq> 0 \<and> ud_attempts (cc_udp c) \<noteq> 0"
proof -
  obtain d where d: "c = apply_flags fl d" "validate_client c = None"
    using assms by (auto simp: client_main_config_def Let_def split: sum.splits option.splits prod.splits)
  then have "cc_server c \<noteq> '''' \<and> cc_login c \<noteq> '''' \<and> cc_password c \<noteq> ''''"
    by (auto simp: validate_client_def split: if_splits)
  then show ?thesis using hub_flag_not_0 by (simp add: d(1) apply_flags_def fec_defaults_def udp_defaults_def)
qed

text \<open>A flag that is given wins over the file; one that is not leaves the file's setting.\<close>

lemma flags_override:
  assumes "client_main_config (Some decoded) fl = Inr c" "load_client_config decoded = (Some d, None)"
  shows "cc_server c = (if cf_server fl = '''' then cc_server d else cf_server fl) \<and>
    cc_transport c = (if cf_transport fl = '''' then cc_transport d else cf_transport fl) \<and>
    cc_mode c = (if cf_mode fl = '''' then cc_mode d else cf_mode fl) \<and>
    cc_reality c = cc_reality d \<and> set (cc_mirrors d) \<subseteq> set (cc_mirrors c) \<and>
    (0 < cf_fec_r fl \<longrightarrow> fc_r (cc_fec c) = cf_fec_r fl)"
  using assms
  by (auto simp: client_main_config_def Let_def apply_flags_def str_flag_def int_flag_def fec_defaults_def
      split: option.splits)

text \<open>Repairs cannot be switched off from the command line; a hub number wraps around.\<close>

lemma fec_r_zero: "cf_fec_r fl = 0 \<Longrightarrow> fc_r (cc_fec (apply_flags fl c)) = 2"
  by (simp add: apply_flags_def int_flag_def fec_defaults_def)

lemma hub_flag_wraps: "hub_flag 65537 v = 1" "hub_flag 65536 v = 1"
  by (simp_all add: hub_flag_def Let_def)

text \<open>The file is checked before the flags are looked at, so they cannot supply what it lacks.\<close>

lemma flags_too_late:
  assumes "cc_login d = ''''" "cc_server d \<noteq> ''''"
  shows "client_main_config (Some (Some d)) fl = Inl CredentialsRequired"
  using assms
  by (simp add: client_main_config_def load_client_config_def parse_client_config_def validate_client_def
      migrate_client_config_def Let_def split: prod.split)

lemma stale_client_not_self: "stale_client own file = Some pid \<Longrightarrow> 0 < pid \<and> pid \<noteq> own"
  by (auto simp: stale_client_def split: option.splits if_splits)

text \<open>The tested second port is the one the server listens on.\<close>

lemma port_plus_one_secondary: "derive_secondary_addr addr \<noteq> '''' \<Longrightarrow> port_plus_one addr = derive_secondary_addr addr"
  by (auto simp: port_plus_one_def derive_secondary_addr_def split: sum.splits option.splits prod.splits)

section \<open>Release assets\<close>

text \<open>\<open>internal/update\<close>: the asset of each program, by \<open>runtime.GOOS\<close> and \<open>runtime.GOARCH\<close>.\<close>

definition asset_for_client :: "string \<Rightarrow> string \<Rightarrow> string" where
  "asset_for_client goos arch =
     (if goos = ''windows'' then ''supervpn-client-windows-amd64.exe''
      else if goos = ''linux'' then
        (if arch = ''arm64'' then ''supervpn-client-linux-arm64'' else ''supervpn-client-linux-amd64'')
      else if goos = ''darwin'' then
        (if arch = ''arm64'' then ''supervpn-client-darwin-arm64'' else ''supervpn-client-darwin-amd64'')
      else ''supervpn-client-darwin-amd64'')"

definition asset_for_client_gui :: "string \<Rightarrow> string \<Rightarrow> string" where
  "asset_for_client_gui goos arch =
     (if goos = ''windows'' \<and> arch = ''386'' then ''supervpn-client-gui-windows-386.exe''
      else if goos = ''windows'' then ''supervpn-client-gui-windows-amd64.exe''
      else if goos = ''darwin'' \<and> arch = ''arm64'' then ''supervpn-client-gui-darwin-arm64''
      else ''supervpn-client-gui-darwin-amd64'')"

definition asset_for_client_gui_fyne :: "string \<Rightarrow> string \<Rightarrow> string" where
  "asset_for_client_gui_fyne goos arch =
     (if goos = ''windows'' then ''supervpn-client-gui-windows-fyne-amd64.exe''
      else if goos = ''darwin'' \<and> arch = ''arm64'' then ''supervpn-client-gui-darwin-arm64''
      else ''supervpn-client-gui-darwin-amd64'')"

text \<open>Every program's asset can be served by a mirror, except the cross-platform GUI's on Windows.\<close>

lemma assets_served:
  "asset_for_client goos arch \<in> set client_assets" "asset_for_client_gui goos arch \<in> set client_assets"
  "asset_for_client_gui_fyne goos arch \<in> set client_assets \<longleftrightarrow> goos \<noteq> ''windows''"
  by (simp_all add: asset_for_client_def asset_for_client_gui_def asset_for_client_gui_fyne_def client_assets_def
      AssetServer_def)

text \<open>
  \<open>CleanupOldFiles\<close>: at most 30 rounds, a second apart, over the files left; \<open>removable i f\<close> is whether
  round \<open>i\<close> can remove a file.
\<close>

fun cleanup_rounds :: "(nat \<Rightarrow> string \<Rightarrow> bool) \<Rightarrow> nat \<Rightarrow> nat \<Rightarrow> string list \<Rightarrow> string list" where
  "cleanup_rounds removable i 0 fs = fs"
| "cleanup_rounds removable i (Suc n) fs =
     (let left = filter (\<lambda>f. \<not> removable i f) fs
      in if left = [] then [] else cleanup_rounds removable (Suc i) n left)"

definition cleanup_old_files :: "(nat \<Rightarrow> string \<Rightarrow> bool) \<Rightarrow> string list \<Rightarrow> string list" where
  "cleanup_old_files removable fs = cleanup_rounds removable 0 30 fs"

lemma cleanup_rounds_left:
  "f \<in> set (cleanup_rounds removable i n fs) \<longleftrightarrow> f \<in> set fs \<and> (\<forall>j. i \<le> j \<and> j < i + n \<longrightarrow> \<not> removable j f)"
proof (induction n arbitrary: i fs)
  case (Suc n)
  have "(\<forall>j. i \<le> j \<and> j < i + Suc n \<longrightarrow> \<not> removable j f) \<longleftrightarrow>
      \<not> removable i f \<and> (\<forall>j. Suc i \<le> j \<and> j < Suc i + n \<longrightarrow> \<not> removable j f)"
    using Suc_leI by (auto simp: le_eq_less_or_eq)
  then show ?case using Suc.IH [of "Suc i" "filter (\<lambda>f. \<not> removable i f) fs"]
    by (auto simp: Let_def filter_empty_conv)
qed auto

lemma cleanup_old_left:
  "f \<in> set (cleanup_old_files removable fs) \<longleftrightarrow> f \<in> set fs \<and> (\<forall>j < 30. \<not> removable j f)"
  by (simp add: cleanup_old_files_def cleanup_rounds_left)

end
