(* ===== verification/Listeners.thy ===== *)
theory Listeners
  imports Server Reality CommandLine "HOL-Library.Sublist"
begin

text \<open>
  What \<open>cmd/supervpn-server/main.go\<close> runs around the packet handlers: the listeners \<open>Run\<close> starts, the
  two UDP read loops with the bounded job queue and its workers, the accept paths of the stream
  listeners, and the status report. The UDP machine is related to the sequential one of \<open>Server\<close>:
  whatever the workers do is a run of \<open>server_step\<close>.
\<close>

section \<open>The listeners\<close>

datatype listener_kind = UdpPrimary | UdpSecondary | TlsPrimary | TlsSecondary | RealityFront | StatusApi | UpdateMirror

definition update_listen_of :: "server_config \<Rightarrow> string" where
  "update_listen_of cfg = (if sc_update_listen cfg = '''' then '':993'' else sc_update_listen cfg)"

text \<open>\<open>Run\<close>: without the primary socket nothing starts; a listener that fails to bind is left out.\<close>

definition run_listeners :: "(listener_kind \<Rightarrow> string \<Rightarrow> bool) \<Rightarrow> server_config \<Rightarrow> (listener_kind \<times> string) list option" where
  "run_listeners bind cfg =
     (let sec = (\<lambda>k a. let a2 = derive_secondary_addr a in if a2 = '''' then [] else [(k, a2)]);
          wanted = sec UdpSecondary (sc_listen cfg) @
            (if sc_listen_tcp cfg \<noteq> '''' then (TlsPrimary, sc_listen_tcp cfg) # sec TlsSecondary (sc_listen_tcp cfg) else []) @
            (if rs_disable (sc_reality cfg) then [] else [(RealityFront, rs_listen (sc_reality cfg))]) @
            (if sc_status_listen cfg \<noteq> '''' then [(StatusApi, sc_status_listen cfg)] else []) @
            [(UpdateMirror, update_listen_of cfg)]
      in if bind UdpPrimary (sc_listen cfg)
         then Some ((UdpPrimary, sc_listen cfg) # filter (\<lambda>(k, a). bind k a) wanted) else None)"

text \<open>The keys the Reality listener starts with: the configured ones, or the built-in pool.\<close>

definition reality_keys :: "string list \<Rightarrow> reality_server_config \<Rightarrow> string list" where
  "reality_keys pool rc =
     (let ks = (if rs_private_key rc \<noteq> '''' then [rs_private_key rc] else []) @ rs_private_keys rc
      in if ks = [] then pool else ks)"

text \<open>The routes of the two HTTP muxes; \<open>own\<close> is whether the update mirror has a listener of its own.\<close>

datatype route = RouteStatus | RouteApi | RouteBans | RouteIpBan | RouteUpdateVersion | RouteUpdateAsset | RouteNone

definition starts :: "string \<Rightarrow> string \<Rightarrow> bool" where "starts pre s = (take (length pre) s = pre)"

definition update_route :: "string \<Rightarrow> route" where
  "update_route path = (if path = ''/update/version'' then RouteUpdateVersion
     else if starts ''/update/'' path then RouteUpdateAsset else RouteNone)"

definition status_route :: "bool \<Rightarrow> string \<Rightarrow> route" where
  "status_route own path =
     (if path = ''/status'' then RouteStatus
      else if starts ''/api/hubs/'' path then RouteApi
      else if path = ''/api/bans'' then RouteBans
      else if starts ''/api/ips/'' path then RouteIpBan
      else if own then RouteNone else update_route path)"

section \<open>Connections of the stream listeners\<close>

definition handle_tcp_conn :: "env \<Rightarrow> string \<Rightarrow> bool \<Rightarrow> arrival list \<Rightarrow> server \<Rightarrow> effect list \<times> server" where
  "handle_tcp_conn env addr handshake_ok frames sv =
     (let e = ''tls:'' @ addr in
      if \<not> handshake_ok then ([], sv)
      else case serve_stream env \<lparr>og_send = e, og_addr = addr, og_mode = ''tls'', og_close = Some e\<rparr> 0 frames sv of
          (out, sv') \<Rightarrow> (out @ [CloseConn e], sv'))"

text \<open>Only a connection that \<open>AcceptReality\<close> authorised reaches the handlers.\<close>

definition handle_reality_conn ::
  "env \<Rightarrow> string \<Rightarrow> bool option \<Rightarrow> arrival list \<Rightarrow> server \<Rightarrow> effect list \<times> server"
where
  "handle_reality_conn env addr authorized frames sv =
     (let e = ''reality:'' @ addr in
      case authorized of
        Some True \<Rightarrow>
          (case serve_stream env \<lparr>og_send = e, og_addr = addr, og_mode = ''reality'', og_close = Some e\<rparr> 0 frames sv of
             (out, sv') \<Rightarrow> (out @ [CloseConn e], sv'))
      | _ \<Rightarrow> ([], sv))"

section \<open>The UDP job queue\<close>

text \<open>
  A job is a datagram with where it came from. A worker holds at most one; what happens when it
  handles it (the random id, the salt, the time) is part of the event.
\<close>

record udp_job =
  uj_pkt :: bytes
  uj_addr :: string
  uj_sec :: bool

record udp_state =
  us_server :: server
  us_queue :: "udp_job list"
  us_workers :: "udp_job option list"

definition udp_origin :: "udp_job \<Rightarrow> origin" where
  "udp_origin j = \<lparr>og_send = (if uj_sec j then ''udp2:'' else ''udp:'') @ uj_addr j, og_addr = uj_addr j,
     og_mode = (if uj_sec j then ''udp2'' else ''udp''), og_close = None\<rparr>"

definition udp_buffer :: nat where "udp_buffer = 2048"
definition jobs_per_worker :: nat where "jobs_per_worker = 64"

definition udp_init :: "nat \<Rightarrow> server \<Rightarrow> udp_state" where
  "udp_init workers sv = \<lparr>us_server = sv, us_queue = [], us_workers = replicate workers None\<rparr>"

definition queue_cap :: "udp_state \<Rightarrow> nat" where
  "queue_cap s = jobs_per_worker * length (us_workers s)"

text \<open>Repairs and pings are handled in the read loop.\<close>

definition handled_inline :: "bytes \<Rightarrow> bool" where
  "handled_inline pkt = (case parse_header pkt of None \<Rightarrow> False
     | Some h \<Rightarrow> hdr_type h = FrameRepair \<or> hdr_type h = FramePing)"

definition run_job :: "env \<Rightarrow> 32 word \<Rightarrow> bytes \<Rightarrow> time \<Rightarrow> udp_job \<Rightarrow> server \<Rightarrow> effect list \<times> server" where
  "run_job env rnd salt now j sv = snd (handle_packet env rnd salt now (udp_origin j) (uj_sec j) (uj_pkt j) sv)"

datatype udp_event =
    Datagram "32 word" bytes time bytes string bool
  | TakeJob nat
  | FinishJob "32 word" bytes time nat

text \<open>The effects, the job that was handled, and the next state.\<close>

definition udp_event_step ::
  "env \<Rightarrow> udp_state \<Rightarrow> udp_event \<Rightarrow> effect list \<times> (server_event \<times> udp_job) list \<times> udp_state"
where
  "udp_event_step env s e = (case e of
      Datagram rnd salt now data addr sec \<Rightarrow>
        let j = \<lparr>uj_pkt = take udp_buffer data, uj_addr = addr, uj_sec = sec\<rparr>
        in if handled_inline (uj_pkt j) then
             (case run_job env rnd salt now j (us_server s) of
                (out, sv) \<Rightarrow> (out, [(Packet rnd salt now (udp_origin j) sec (uj_pkt j), j)], s\<lparr>us_server := sv\<rparr>))
           else if length (us_queue s) < queue_cap s then ([], [], s\<lparr>us_queue := us_queue s @ [j]\<rparr>)
           else ([], [], s)
    | TakeJob w \<Rightarrow>
        (case us_queue s of
           [] \<Rightarrow> ([], [], s)
         | j # js \<Rightarrow>
             if w < length (us_workers s) \<and> us_workers s ! w = None
             then ([], [], s\<lparr>us_queue := js, us_workers := (us_workers s)[w := Some j]\<rparr>) else ([], [], s))
    | FinishJob rnd salt now w \<Rightarrow>
        (if w < length (us_workers s) then
           (case us_workers s ! w of
              None \<Rightarrow> ([], [], s)
            | Some j \<Rightarrow>
                (case run_job env rnd salt now j (us_server s) of
                   (out, sv) \<Rightarrow> (out, [(Packet rnd salt now (udp_origin j) (uj_sec j) (uj_pkt j), j)],
                     s\<lparr>us_server := sv, us_workers := (us_workers s)[w := None]\<rparr>)))
         else ([], [], s)))"

fun udp_run :: "env \<Rightarrow> udp_event list \<Rightarrow> udp_state \<Rightarrow> effect list \<times> (server_event \<times> udp_job) list \<times> udp_state" where
  "udp_run env [] s = ([], [], s)"
| "udp_run env (e # es) s =
     (case udp_event_step env s e of (out, hs, s1) \<Rightarrow>
        case udp_run env es s1 of (rest, hs', s2) \<Rightarrow> (out @ rest, hs @ hs', s2))"

definition received :: "udp_event list \<Rightarrow> udp_job list" where
  "received es = List.map_filter (\<lambda>e. case e of
     Datagram rnd salt now data addr sec \<Rightarrow> Some \<lparr>uj_pkt = take udp_buffer data, uj_addr = addr, uj_sec = sec\<rparr>
   | _ \<Rightarrow> None) es"

definition in_flight :: "udp_state \<Rightarrow> udp_job multiset" where
  "in_flight s = mset (us_queue s) + mset (List.map_filter id (us_workers s))"

section \<open>The pool is a sequential server\<close>

lemma map_filter_append: "List.map_filter f (xs @ ys) = List.map_filter f xs @ List.map_filter f ys"
  by (simp add: map_filter_def)

definition held :: "'a option \<Rightarrow> 'a multiset" where
  "held x = (case x of None \<Rightarrow> {#} | Some j \<Rightarrow> {#j#})"

lemma mset_workers_update:
  assumes "w < length ws"
  shows "mset (List.map_filter id (ws[w := x])) + held (ws ! w) = mset (List.map_filter id ws) + held x"
proof -
  have one: "mset (List.map_filter id [y]) = held y" for y :: "'a option"
    by (cases y) (simp_all add: held_def map_filter_simps)
  have parts: "mset (List.map_filter id (xs @ [y] @ ys)) =
      mset (List.map_filter id xs) + held y + mset (List.map_filter id ys)" for xs ys and y :: "'a option"
    unfolding map_filter_append mset_append one by (simp add: ac_simps)
  have "take w ws @ [ws ! w] @ drop (Suc w) ws = ws" using assms by (simp add: id_take_nth_drop [symmetric])
  then have "mset (List.map_filter id ws) =
      mset (List.map_filter id (take w ws)) + held (ws ! w) + mset (List.map_filter id (drop (Suc w) ws))"
    using parts [of "take w ws" "ws ! w" "drop (Suc w) ws"] by argo
  moreover have "ws[w := x] = take w ws @ [x] @ drop (Suc w) ws" using assms by (simp add: upd_conv_take_nth_drop)
  ultimately show ?thesis using parts [of "take w ws" x "drop (Suc w) ws"] by (simp add: ac_simps)
qed

lemma run_jobD: "run_job env rnd salt now j sv = (out, sv') \<Longrightarrow>
  server_step env sv (Packet rnd salt now (udp_origin j) (uj_sec j) (uj_pkt j)) = sv'"
  by (simp add: run_job_def server_step_def server_event_step_def)

lemma received_Cons: "received (e # es) = received [e] @ received es"
  by (simp add: received_def map_filter_def)

lemma udp_step_spec:
  assumes "udp_event_step env s e = (out, hs, s')" and "length (us_queue s) \<le> queue_cap s"
  shows "us_server s' = foldl (server_step env) (us_server s) (map fst hs)"
    and "mset (map snd hs) + in_flight s' \<subseteq># mset (received [e]) + in_flight s"
    and "length (us_queue s') \<le> queue_cap s'" and "length (us_workers s') = length (us_workers s)"
proof -
  show "us_server s' = foldl (server_step env) (us_server s) (map fst hs)"
    using assms(1)
    by (auto simp: udp_event_step_def Let_def dest!: run_jobD
        split: udp_event.splits if_splits list.splits option.splits prod.splits)
  show "length (us_workers s') = length (us_workers s)"
    using assms(1) by (auto simp: udp_event_step_def Let_def split: udp_event.splits if_splits list.splits option.splits prod.splits)
  show "length (us_queue s') \<le> queue_cap s'"
    using assms by (auto simp: udp_event_step_def Let_def queue_cap_def split: udp_event.splits if_splits list.splits option.splits prod.splits)
  show "mset (map snd hs) + in_flight s' \<subseteq># mset (received [e]) + in_flight s"
  proof (cases e)
    case (Datagram rnd salt now data addr sec)
    then show ?thesis using assms(1)
      by (auto simp: udp_event_step_def Let_def in_flight_def received_def map_filter_simps split: if_splits prod.splits)
  next
    case (TakeJob w)
    show ?thesis
    proof (cases "us_queue s")
      case (Cons j js)
      then show ?thesis using assms(1) TakeJob mset_workers_update [of w "us_workers s" "Some j"]
        by (auto simp: udp_event_step_def in_flight_def received_def map_filter_simps held_def split: if_splits)
    qed (use assms(1) TakeJob in \<open>simp add: udp_event_step_def\<close>)
  next
    case (FinishJob rnd salt now w)
    show ?thesis
    proof (cases "w < length (us_workers s) \<and> us_workers s ! w \<noteq> None")
      case True
      then obtain j where j: "us_workers s ! w = Some j" by blast
      then show ?thesis using True assms(1) FinishJob mset_workers_update [of w "us_workers s" None]
        by (auto simp: udp_event_step_def in_flight_def received_def map_filter_simps held_def split: prod.splits)
    qed (use assms(1) FinishJob in \<open>auto simp: udp_event_step_def split: if_splits option.splits\<close>)
  qed
qed

lemma udp_run_spec:
  assumes "udp_run env es s = (out, hs, s')" and "length (us_queue s) \<le> queue_cap s"
  shows "us_server s' = foldl (server_step env) (us_server s) (map fst hs) \<and>
    mset (map snd hs) + in_flight s' \<subseteq># mset (received es) + in_flight s \<and>
    length (us_queue s') \<le> queue_cap s' \<and> length (us_workers s') = length (us_workers s)"
  using assms
proof (induction es arbitrary: s out hs)
  case Nil
  then show ?case by (simp add: received_def map_filter_simps)
next
  case (Cons e es)
  obtain o1 h1 s1 where e: "udp_event_step env s e = (o1, h1, s1)" by (cases "udp_event_step env s e")
  obtain o2 h2 s2 where r: "udp_run env es s1 = (o2, h2, s2)" by (cases "udp_run env es s1")
  have eq: "hs = h1 @ h2" "s' = s2" using Cons.prems(1) e r by auto
  note step = udp_step_spec [OF e Cons.prems(2)]
  note rest = Cons.IH [OF r [folded eq(2)] step(3)]
  have "mset (map snd h1) + (mset (map snd h2) + in_flight s') \<subseteq>#
      mset (map snd h1) + (mset (received es) + in_flight s1)" using rest by simp
  also have "\<dots> = mset (received es) + (mset (map snd h1) + in_flight s1)" by (simp add: ac_simps)
  also have "\<dots> \<subseteq># mset (received es) + (mset (received [e]) + in_flight s)" using step(2) by simp
  finally have "mset (map snd hs) + in_flight s' \<subseteq># mset (received (e # es)) + in_flight s"
    unfolding received_Cons [of e es] by (simp add: eq ac_simps)
  then show ?case using rest step(1,4) by (simp add: eq)
qed

section \<open>Order of arrival\<close>

text \<open>With one worker the queued packets are handled in the order they were read.\<close>

definition queued :: "udp_job list \<Rightarrow> udp_job list" where
  "queued js = filter (\<lambda>j. \<not> handled_inline (uj_pkt j)) js"

definition flight :: "udp_state \<Rightarrow> udp_job list" where
  "flight s = List.map_filter id (us_workers s) @ us_queue s"

lemma one_worker_step:
  assumes "udp_event_step env s e = (out, hs, s')" and "length (us_workers s) = 1" and "\<forall>j \<in> set (flight s). \<not> handled_inline (uj_pkt j)"
  shows "\<exists>new. subseq new (queued (received [e])) \<and> queued (map snd hs) @ flight s' = flight s @ new"
    and "\<forall>j \<in> set (flight s'). \<not> handled_inline (uj_pkt j)"
proof -
  obtain x where x: "us_workers s = [x]" using assms(2) by (cases "us_workers s") auto
  note simps = udp_event_step_def Let_def queued_def flight_def received_def map_filter_simps
  have "(\<exists>new. subseq new (queued (received [e])) \<and> queued (map snd hs) @ flight s' = flight s @ new) \<and>
        (\<forall>j \<in> set (flight s'). \<not> handled_inline (uj_pkt j))"
  proof (cases e)
    case (Datagram rnd salt now data addr sec)
    then show ?thesis using assms(1,3) x
      by (cases x) (auto simp: simps split: if_splits prod.splits)
  next
    case (TakeJob w)
    then show ?thesis using assms(1,3) x
      by (cases x) (auto simp: simps split: if_splits list.splits)
  next
    case (FinishJob rnd salt now w)
    then show ?thesis using assms(1,3) x
      by (cases x) (auto simp: simps split: if_splits prod.splits)
  qed
  then show "\<exists>new. subseq new (queued (received [e])) \<and> queued (map snd hs) @ flight s' = flight s @ new"
    "\<forall>j \<in> set (flight s'). \<not> handled_inline (uj_pkt j)" by auto
qed

lemma one_worker_order:
  assumes "udp_run env es s = (out, hs, s')" and "length (us_workers s) = 1" "length (us_queue s) \<le> queue_cap s"
    and "\<forall>j \<in> set (flight s). \<not> handled_inline (uj_pkt j)"
  shows "\<exists>new. subseq new (queued (received es)) \<and> queued (map snd hs) @ flight s' = flight s @ new"
  using assms
proof (induction es arbitrary: s out hs)
  case Nil
  then show ?case by (simp add: received_def map_filter_simps queued_def)
next
  case (Cons e es)
  obtain o1 h1 s1 where e: "udp_event_step env s e = (o1, h1, s1)" by (cases "udp_event_step env s e")
  obtain o2 h2 s2 where r: "udp_run env es s1 = (o2, h2, s2)" by (cases "udp_run env es s1")
  have eq: "hs = h1 @ h2" "s' = s2" using Cons.prems(1) e r by auto
  note step = udp_step_spec(3,4) [OF e Cons.prems(3)] one_worker_step [OF e Cons.prems(2,4)]
  obtain n1 where n1: "subseq n1 (queued (received [e]))" "queued (map snd h1) @ flight s1 = flight s @ n1"
    using step(3) by blast
  obtain n2 where n2: "subseq n2 (queued (received es))" "queued (map snd h2) @ flight s' = flight s1 @ n2"
    using Cons.IH [OF r [folded eq(2)] _ step(1) step(4)] step(2) Cons.prems(2) by auto
  have "queued (map snd hs) @ flight s' = flight s @ (n1 @ n2)"
    using n1(2) n2(2) by (simp add: eq queued_def)
  moreover have "subseq (n1 @ n2) (queued (received (e # es)))"
    unfolding received_Cons [of e es] queued_def filter_append using n1(1) n2(1) by (simp add: list_emb_append_mono queued_def)
  ultimately show ?case by blast
qed

text \<open>With two workers a later packet may be handled first; a repair always may.\<close>

lemma two_workers_overtake:
  fixes sv :: server
  defines "a \<equiv> \<lparr>uj_pkt = [1], uj_addr = ''p'', uj_sec = False\<rparr>" and "b \<equiv> \<lparr>uj_pkt = [2], uj_addr = ''p'', uj_sec = False\<rparr>"
  shows "map snd (fst (snd (udp_run env [Datagram 0 [] 0 [1] ''p'' False, Datagram 0 [] 0 [2] ''p'' False,
      TakeJob 0, TakeJob 1, FinishJob 0 [] 0 1, FinishJob 0 [] 0 0] (udp_init 2 sv)))) = [b, a]"
  by (simp add: a_def b_def udp_event_step_def udp_init_def queue_cap_def jobs_per_worker_def udp_buffer_def
      handled_inline_def parse_header_def HeaderSize_def numeral_2_eq_2 case_prod_beta)

section \<open>The status report\<close>

record client_status =
  cs_session :: session_id
  cs_login :: string
  cs_addr :: string
  cs_addr2 :: string
  cs_mode :: string
  cs_connected :: string
  cs_last_seen :: string
  cs_duration :: time
  cs_rx :: "64 word"
  cs_tx :: "64 word"
  cs_hub_calls :: "64 word"

record hub_status =
  hs_id :: "16 word"
  hs_name :: string
  hs_clients :: "client_status list"
  hs_macs :: "mac_record list"

record mirror_status =
  mi_url :: string
  mi_assets :: "(string \<times> string) list"

text \<open>What the report needs beside the tables: the listeners' flags, the start, the mirror's assets.\<close>

record server_info =
  si_tcp_up :: bool
  si_tcp2_up :: bool
  si_start :: time
  si_assets :: "(string, nat) amap option"

record status_response =
  sr_version :: string
  sr_uptime :: time
  sr_udp :: string
  sr_udp2 :: string
  sr_tcp :: string
  sr_tcp2 :: string
  sr_tcp_up :: bool
  sr_tcp2_up :: bool
  sr_hubs :: "hub_status list"
  sr_blocked :: "(string \<times> string) list"
  sr_banned_ips :: "string list"
  sr_banned_logins :: "(string \<times> 16 word list) list"
  sr_mirror :: "mirror_status option"

definition truncate_second :: "time \<Rightarrow> time" where "truncate_second d = (d div second) * second"

definition client_status_of :: "env \<Rightarrow> time \<Rightarrow> session \<Rightarrow> client_status" where
  "client_status_of env now s = \<lparr>cs_session = ss_id s, cs_login = ss_login s, cs_addr = ss_addr s,
     cs_addr2 = ss_addr2 s, cs_mode = ss_mode s, cs_connected = en_format_time env (ss_connected s),
     cs_last_seen = en_format_time env (ss_last_seen s), cs_duration = truncate_second (now - ss_connected s),
     cs_rx = ss_rx s, cs_tx = ss_tx s, cs_hub_calls = ss_hub_calls s\<rparr>"

definition hub_sessions :: "server \<Rightarrow> 16 word \<Rightarrow> session list" where
  "hub_sessions sv hub = filter (\<lambda>s. ss_hub s = hub) (map (\<lambda>(n, r). get_obj sv r) (sv_sessions sv))"

definition hub_status_of :: "env \<Rightarrow> time \<Rightarrow> server \<Rightarrow> hub_config \<Rightarrow> hub_status" where
  "hub_status_of env now sv h = \<lparr>hs_id = hcfg_id h, hs_name = hcfg_name h,
     hs_clients = map (client_status_of env now) (hub_sessions sv (hcfg_id h)),
     hs_macs = (case manager_get (hcfg_id h) (sv_hubs sv) of None \<Rightarrow> [] | Some hb \<Rightarrow> mac_table_snapshot now hb)\<rparr>"

definition asset_text :: "nat \<Rightarrow> string" where
  "asset_text n = (if 0 < n then ''ok ('' @ itoa (int n) @ '' bytes)'' else ''missing'')"

definition mirror_status_of :: "server_config \<Rightarrow> server_info \<Rightarrow> mirror_status option" where
  "mirror_status_of cfg si =
     (if sc_status_listen cfg = '''' then None
      else map_option (\<lambda>m. \<lparr>mi_url = mirror_url cfg, mi_assets = map (\<lambda>n. (n, asset_text
        (case map_of m n of None \<Rightarrow> 0 | Some k \<Rightarrow> k))) client_assets\<rparr>) (si_assets si))"

definition blocked_logins :: "env \<Rightarrow> time \<Rightarrow> server \<Rightarrow> (string \<times> string) list" where
  "blocked_logins env now sv =
     map (\<lambda>(l, t). (l, en_format_time env t)) (filter (\<lambda>(l, t). now < t) (sv_kicked sv))"

definition handle_status :: "env \<Rightarrow> time \<Rightarrow> server_info \<Rightarrow> server \<Rightarrow> status_response" where
  "handle_status env now si sv =
     (let cfg = sv_cfg sv in
      \<lparr>sr_version = en_version env, sr_uptime = truncate_second (now - si_start si),
       sr_udp = sc_listen cfg, sr_udp2 = derive_secondary_addr (sc_listen cfg),
       sr_tcp = sc_listen_tcp cfg, sr_tcp2 = derive_secondary_addr (sc_listen_tcp cfg),
       sr_tcp_up = si_tcp_up si, sr_tcp2_up = si_tcp2_up si,
       sr_hubs = map (hub_status_of env now sv) (sc_hubs cfg),
       sr_blocked = blocked_logins env now sv,
       sr_banned_ips = sort (sv_banned_ips sv),
       sr_banned_logins = map (\<lambda>(l, hs). (l, sort_key unat hs)) (sv_banned_logins sv),
       sr_mirror = mirror_status_of cfg si\<rparr>)"

text \<open>One row of the mirror's page: the asset's link and size, or that it is missing.\<close>

definition update_listing :: "(string, nat) amap \<Rightarrow> (string \<times> nat option) list" where
  "update_listing assets = map (\<lambda>n. (n, case map_of assets n of None \<Rightarrow> None
     | Some k \<Rightarrow> if 0 < k then Some k else None)) client_assets"

section \<open>The report is the tables\<close>

text \<open>The ids listed for a hub are exactly the table's sessions of that hub, each once.\<close>

lemma hub_sessions_ids:
  assumes "server_ok sv"
  shows "distinct (map ss_id (hub_sessions sv hub))"
    and "n \<in> set (map ss_id (hub_sessions sv hub)) \<longleftrightarrow> (\<exists>r. find_session sv n = Some r \<and> ss_hub (get_obj sv r) = hub)"
proof -
  have ids: "ss_id (get_obj sv r) = n" if "(n, r) \<in> set (sv_sessions sv)" for n r
    using that server_okD(1) [OF assms] assms by (auto simp: find_session_def server_ok_def amap_ok_def)
  have map_ids: "map ss_id (map (\<lambda>(n, r). get_obj sv r) (sv_sessions sv)) = map fst (sv_sessions sv)"
    using ids by (auto simp: map_eq_conv)
  have "distinct (map fst (sv_sessions sv))" using assms by (simp add: server_ok_def amap_ok_def)
  then have "distinct (map ss_id (map (\<lambda>(n, r). get_obj sv r) (sv_sessions sv)))" by (simp only: map_ids)
  then show "distinct (map ss_id (hub_sessions sv hub))"
    unfolding hub_sessions_def by (rule distinct_map_filter)
  show "n \<in> set (map ss_id (hub_sessions sv hub)) \<longleftrightarrow> (\<exists>r. find_session sv n = Some r \<and> ss_hub (get_obj sv r) = hub)"
    using ids assms
    by (fastforce simp: hub_sessions_def find_session_def server_ok_def amap_ok_def image_iff dest: map_of_SomeD)
qed

text \<open>A login is reported as blocked exactly while authentication refuses it for a kick.\<close>

lemma blocked_logins_iff:
  assumes "server_ok sv"
  shows "l \<in> fst ` set (blocked_logins env now sv) \<longleftrightarrow> kick_blocked sv now l \<noteq> None"
proof -
  have "distinct (map fst (sv_kicked sv))" using assms by (simp add: server_ok_def amap_ok_def)
  then have "(l, t) \<in> set (sv_kicked sv) \<longleftrightarrow> map_of (sv_kicked sv) l = Some t" for t by simp
  then show ?thesis by (auto simp: blocked_logins_def kick_blocked_def image_iff split: option.split)
qed

text \<open>The hub's address table shows the login of a member or nothing, and no expired entry.\<close>

lemma reported_macs:
  assumes "manager_get (hcfg_id h) (sv_hubs sv) = Some hb" "rec \<in> set (hs_macs (hub_status_of env now sv h))"
  shows "\<exists>e. (mr_mac rec, e) \<in> set (h_macs hb) \<and> now \<le> me_expires e \<and> mr_session rec = me_session e \<and>
    mr_login rec = (case map_of (h_clients hb) (me_session e) of None \<Rightarrow> '''' | Some c \<Rightarrow> hc_login c)"
  using assms by (force simp: hub_status_of_def mac_table_snapshot_def)

lemma reported_bans:
  "set (sr_banned_ips (handle_status env now si sv)) = set (sv_banned_ips sv)"
  "sorted (sr_banned_ips (handle_status env now si sv))"
  by (simp_all add: handle_status_def Let_def)

lemma reality_keys_some: "pool \<noteq> [] \<Longrightarrow> reality_keys pool rc \<noteq> []"
  by (simp add: reality_keys_def Let_def)

text \<open>The connectivity test's probe is answered by every running server.\<close>

lemma probe_answered:
  "\<exists>pkt. handle_packet env rnd salt now og sec list_hubs_frame sv = (0, [SendTo (og_send og) pkt], sv)"
proof -
  have "split_packet list_hubs_frame = Some (\<lparr>hdr_type = FrameListHubs, hdr_hub = 0, hdr_session = 0, hdr_seq = 0\<rparr>, [])"
    by code_simp
  then show ?thesis by (simp add: handle_packet_def handle_list_hubs_def FrameListHubs_def FrameAuth_def FrameData_def
      FrameDataFrag_def FrameRepair_def FrameJoin_def)
qed

end
