(* ===== verification/GuiSession.thy ===== *)
theory GuiSession
  imports ClientConn Gateway
begin

text \<open>
  What the desktop clients do around a VPN session: the status line and the disconnect counter of the
  two GUIs (\<open>ui.go\<close>, \<open>ui_windows.go\<close>) and of the single-purpose client (\<open>supervpn-client-bmgarage\<close>,
  whose copy \<open>supervpn-client-seema\<close> differs in its constants only), the Connect and Disconnect
  buttons with the goroutine that opens the adapter, the battery poller, the car's row, and the log
  tab. The interface \<open>drop_tracker\<close> is what the three status functions share.
\<close>

section \<open>The status line\<close>

datatype dot = DotGray | DotGreen | DotYellow | DotRed

text \<open>A speed is kept as the bytes and the time it is computed from; zero without an earlier reading.\<close>

record stats_line =
  sl_tx :: "(64 word \<times> time) option"
  sl_rx :: "(64 word \<times> time) option"
  sl_recovered :: "64 word"
  sl_lost :: "64 word"

record gui_view =
  gv_connected :: bool
  gv_drop :: "time option"
  gv_rx :: "64 word"
  gv_tx :: "64 word"
  gv_time :: "time option"
  gv_saved :: bool
  gv_dot :: dot
  gv_label :: string
  gv_stats :: "stats_line option"
  gv_saves :: nat

definition em_dash :: string where "em_dash = [CHR 0xE2, CHR 0x80, CHR 0x94]"
definition right_arrow :: string where "right_arrow = [CHR 0xE2, CHR 0x86, CHR 0x92]"

definition status_text :: "session_stats \<Rightarrow> string" where
  "status_text st = (case st_state st of
      StateConnected \<Rightarrow> ''Connected '' @ em_dash @ '' '' @ st_transport st @ '' '' @ right_arrow @ '' '' @ st_server st @
        (if st_adapter_mode st \<noteq> '''' then '' | '' @ st_adapter_mode st else '''')
    | StateConnecting \<Rightarrow> ''Connecting...''
    | StateDisconnected \<Rightarrow> ''Reconnecting...'' @
        (if st_last_error st \<noteq> '''' then '' ('' @ st_last_error st @ '')'' else ''''))"

definition state_dot :: "conn_state \<Rightarrow> dot" where
  "state_dot s = (case s of StateConnected \<Rightarrow> DotGreen | StateConnecting \<Rightarrow> DotYellow | StateDisconnected \<Rightarrow> DotRed)"

definition speed_of :: "time \<Rightarrow> time option \<Rightarrow> 64 word \<Rightarrow> 64 word \<Rightarrow> (64 word \<times> time) option" where
  "speed_of now prev new old =
     (case prev of None \<Rightarrow> None | Some t \<Rightarrow> if 0 < now - t then Some (new - old, now - t) else None)"

definition drop_time :: "time \<Rightarrow> bool \<Rightarrow> bool \<Rightarrow> time option \<Rightarrow> time option" where
  "drop_time now was is old = (if was \<and> \<not> is then Some now else old)"

text \<open>\<open>refreshStatus\<close>; \<open>gv_saves\<close> counts the automatic saves it starts.\<close>

definition main_refresh :: "time \<Rightarrow> session_stats \<Rightarrow> gui_view \<Rightarrow> gui_view" where
  "main_refresh now st g =
     (let up = (st_state st = StateConnected);
          line = \<lparr>sl_tx = speed_of now (gv_time g) (st_tx st) (gv_tx g),
                  sl_rx = speed_of now (gv_time g) (st_rx st) (gv_rx g),
                  sl_recovered = st_fec_recovered st, sl_lost = st_fec_lost st\<rparr>;
          g1 = (if up then g\<lparr>gv_rx := st_rx st, gv_tx := st_tx st, gv_time := Some now\<rparr> else g);
          g2 = g1\<lparr>gv_drop := drop_time now (gv_connected g) up (gv_drop g), gv_connected := up,
                  gv_dot := state_dot (st_state st), gv_label := status_text st,
                  gv_stats := (if up then Some line else None)\<rparr>
      in if up \<and> \<not> gv_saved g then g2\<lparr>gv_saved := True, gv_saves := gv_saves g + 1\<rparr> else g2)"

text \<open>
  \<open>doRefreshStatus\<close> of the Windows client: the same, but the widgets and the save wait in a closure
  for the UI thread, so it returns that closure.
\<close>

definition win_closure :: "session_stats \<Rightarrow> stats_line option \<Rightarrow> gui_view \<Rightarrow> gui_view" where
  "win_closure st line g =
     (let g1 = g\<lparr>gv_dot := state_dot (st_state st), gv_label := status_text st, gv_stats := line\<rparr>
      in if st_state st = StateConnected \<and> \<not> gv_saved g then g1\<lparr>gv_saved := True, gv_saves := gv_saves g + 1\<rparr>
         else g1)"

definition win_refresh :: "time \<Rightarrow> session_stats \<Rightarrow> gui_view \<Rightarrow> (gui_view \<Rightarrow> gui_view) \<times> gui_view" where
  "win_refresh now st g =
     (let up = (st_state st = StateConnected);
          line = \<lparr>sl_tx = speed_of now (gv_time g) (st_tx st) (gv_tx g),
                  sl_rx = speed_of now (gv_time g) (st_rx st) (gv_rx g),
                  sl_recovered = st_fec_recovered st, sl_lost = st_fec_lost st\<rparr>;
          g1 = (if up then g\<lparr>gv_rx := st_rx st, gv_tx := st_tx st, gv_time := Some now\<rparr> else g)
      in (win_closure st (if up then Some line else None),
          g1\<lparr>gv_drop := drop_time now (gv_connected g) up (gv_drop g), gv_connected := up\<rparr>))"

text \<open>\<open>doRefresh\<close> of the single-purpose client.\<close>

record garage_view =
  ga_connected :: bool
  ga_drop :: "time option"
  ga_text :: string
  ga_mode :: string
  ga_dot :: dot

definition garage_refresh :: "time \<Rightarrow> session_stats \<Rightarrow> garage_view \<Rightarrow> garage_view" where
  "garage_refresh now st a =
     (let up = (st_state st = StateConnected)
      in a\<lparr>ga_drop := drop_time now (ga_connected a) up (ga_drop a), ga_connected := up,
           ga_text := (case st_state st of StateConnected \<Rightarrow> ''Connected'' | StateConnecting \<Rightarrow> ''Connecting...''
             | StateDisconnected \<Rightarrow> ''Reconnecting...'' @
                 (if st_last_error st \<noteq> '''' then '' ('' @ st_last_error st @ '')'' else '''')),
           ga_mode := (if up then st_adapter_mode st else ''''),
           ga_dot := state_dot (st_state st)\<rparr>)"

text \<open>\<open>formatAgo\<close>.\<close>

definition format_ago :: "time \<Rightarrow> time option \<Rightarrow> string" where
  "format_ago now t = (case t of None \<Rightarrow> ''''
    | Some t \<Rightarrow> ''Last disconnect: '' @ itoa ((now - t) div minute) @ ''m '' @ itoa (((now - t) div second) mod 60) @ ''s ago'')"

text \<open>The counter's ticker, and what Connect and Disconnect reset.\<close>

definition ago_tick :: "time \<Rightarrow> gui_view \<Rightarrow> string" where
  "ago_tick now g = (if gv_connected g then format_ago now (gv_drop g) else '''')"

definition connect_view :: "gui_view \<Rightarrow> gui_view" where
  "connect_view g = g\<lparr>gv_drop := None, gv_connected := False\<rparr>"

definition disconnect_view :: "gui_view \<Rightarrow> gui_view" where
  "disconnect_view g = g\<lparr>gv_connected := False, gv_dot := DotGray, gv_label := ''Disconnected'', gv_stats := None,
     gv_time := None, gv_saved := False\<rparr>"

definition session_view :: "(time \<times> session_stats) list \<Rightarrow> gui_view \<Rightarrow> gui_view" where
  "session_view xs g = disconnect_view (fold (\<lambda>(t, st). main_refresh t st) xs (connect_view g))"

section \<open>Connect and Disconnect\<close>

text \<open>
  Every goroutine of \<open>onConnect\<close> that opened its adapter has made a client with a context and a
  framer of its own; the UI keeps the last of each.
\<close>

record gui_run =
  gu_live :: bool
  gu_open :: bool

record gui_ctl =
  gc_connect :: bool
  gc_disconnect :: bool
  gc_opening :: nat
  gc_runs :: "gui_run list"
  gc_client :: "nat option"
  gc_framer :: "nat option"
  gc_cancel :: "nat option"

definition ctl_start :: gui_ctl where
  "ctl_start = \<lparr>gc_connect = True, gc_disconnect = False, gc_opening = 0, gc_runs = [], gc_client = None,
     gc_framer = None, gc_cancel = None\<rparr>"

text \<open>\<open>onConnect\<close> up to the goroutine; \<open>valid\<close> is the configuration's check.\<close>

definition ctl_connect :: "bool \<Rightarrow> gui_ctl \<Rightarrow> gui_ctl" where
  "ctl_connect valid c =
     (if valid then c\<lparr>gc_connect := False, gc_disconnect := True, gc_opening := gc_opening c + 1\<rparr> else c)"

definition ctl_open_failed :: "gui_ctl \<Rightarrow> gui_ctl" where
  "ctl_open_failed c = c\<lparr>gc_opening := gc_opening c - 1, gc_connect := True, gc_disconnect := False\<rparr>"

definition ctl_opened :: "gui_ctl \<Rightarrow> gui_ctl" where
  "ctl_opened c = (let i = length (gc_runs c) in c\<lparr>gc_opening := gc_opening c - 1,
     gc_runs := gc_runs c @ [\<lparr>gu_live = True, gu_open = True\<rparr>],
     gc_framer := Some i, gc_cancel := Some i, gc_client := Some i\<rparr>)"

definition run_at :: "nat option \<Rightarrow> (gui_run \<Rightarrow> gui_run) \<Rightarrow> gui_run list \<Rightarrow> gui_run list" where
  "run_at i f rs = (case i of None \<Rightarrow> rs | Some i \<Rightarrow> rs[i := f (rs ! i)])"

definition ctl_disconnect :: "gui_ctl \<Rightarrow> gui_ctl" where
  "ctl_disconnect c = c\<lparr>gc_connect := True, gc_disconnect := False, gc_client := None, gc_framer := None,
     gc_runs := run_at (gc_framer c) (\<lambda>r. r\<lparr>gu_open := False\<rparr>)
       (run_at (gc_client c) (\<lambda>r. r\<lparr>gu_live := False\<rparr>)
         (run_at (gc_cancel c) (\<lambda>r. r\<lparr>gu_live := False\<rparr>) (gc_runs c)))\<rparr>"

inductive ctl_step :: "gui_ctl \<Rightarrow> gui_ctl \<Rightarrow> bool" where
  connect: "gc_connect c \<Longrightarrow> ctl_step c (ctl_connect valid c)"
| failed: "0 < gc_opening c \<Longrightarrow> ctl_step c (ctl_open_failed c)"
| opened: "0 < gc_opening c \<Longrightarrow> ctl_step c (ctl_opened c)"
| disconnect: "gc_disconnect c \<Longrightarrow> ctl_step c (ctl_disconnect c)"

text \<open>The runs in which Disconnect is not pressed while an adapter is being opened.\<close>

inductive calm_step :: "gui_ctl \<Rightarrow> gui_ctl \<Rightarrow> bool" where
  connect: "gc_connect c \<Longrightarrow> calm_step c (ctl_connect valid c)"
| failed: "0 < gc_opening c \<Longrightarrow> calm_step c (ctl_open_failed c)"
| opened: "0 < gc_opening c \<Longrightarrow> calm_step c (ctl_opened c)"
| disconnect: "gc_disconnect c \<Longrightarrow> gc_opening c = 0 \<Longrightarrow> calm_step c (ctl_disconnect c)"


definition ctl_reach :: "gui_ctl \<Rightarrow> bool" where "ctl_reach = ctl_step\<^sup>*\<^sup>* ctl_start"
definition calm_reach :: "gui_ctl \<Rightarrow> bool" where "calm_reach = calm_step\<^sup>*\<^sup>* ctl_start"

definition live_runs :: "gui_ctl \<Rightarrow> nat set" where
  "live_runs c = {i. i < length (gc_runs c) \<and> (gu_live (gc_runs c ! i) \<or> gu_open (gc_runs c ! i))}"

section \<open>The battery poller and the car's row\<close>

text \<open>\<open>bp_poll\<close> is the address and platform of the poll that runs, if one does.\<close>

record battery_ctl =
  bp_ip :: string
  bp_poll :: "(string \<times> string) option"
  bp_label :: string
  bp_enabled :: bool
  bp_info :: "gw_info option"

definition battery_start :: battery_ctl where
  "battery_start = \<lparr>bp_ip = '''', bp_poll = None, bp_label = '''', bp_enabled = True, bp_info = None\<rparr>"

definition battery_target :: "gw_info option \<Rightarrow> string \<times> string" where
  "battery_target i = (case i of None \<Rightarrow> ('''', '''')
    | Some i \<Rightarrow> if gi_vin i = '''' \<or> gi_chassis i = '''' \<or> hd (gi_chassis i) \<notin> {CHR ''F'', CHR ''G''} then ('''', '''')
        else (gi_ip i, gi_platform i))"

definition update_battery :: "gw_info option \<Rightarrow> battery_ctl \<Rightarrow> battery_ctl" where
  "update_battery i b =
     (if \<not> bp_enabled b then b
      else case battery_target i of (ip, platform) \<Rightarrow>
        if ip = bp_ip b then b
        else if ip = '''' then b\<lparr>bp_poll := None, bp_ip := '''', bp_label := ''''\<rparr>
        else b\<lparr>bp_poll := Some (ip, platform), bp_ip := ip,
               bp_label := ''Battery: reading'' @ [CHR 0xE2, CHR 0x80, CHR 0xA6]\<rparr>)"

definition row_add :: "string \<Rightarrow> string \<Rightarrow> string" where
  "row_add s d = (if s = '''' then d else if d \<noteq> '''' then d @ ''  '' @ s else s)"

definition car_detail :: "gw_info \<Rightarrow> string" where
  "car_detail i = row_add (gi_body i)
     ((if 0 < gi_power i then row_add (itoa (gi_power i) @ ''kW'') else id)
       (row_add (gi_platform i) (row_add (gi_model i) '''')))"

text \<open>\<open>bmwLinkMarkup\<close>: the markup, the address and the identification number it links.\<close>

definition bmw_link_markup :: "gw_info option \<Rightarrow> string \<times> string \<times> string" where
  "bmw_link_markup i = (case i of
      None \<Rightarrow> (''BMW: not found'', '''', '''')
    | Some i \<Rightarrow>
        let link = ''BMW: <a id=\"ip\">'' @ gi_ip i @ ''</a>''
        in if gi_vin i = '''' then (link @ '' (no ZGW response)'', gi_ip i, '''')
           else (link @ ''  <a id=\"vin\">'' @ gi_vin i @ ''</a>'' @
                   (if car_detail i \<noteq> '''' then CHR 0x0A # car_detail i else ''''), gi_ip i, gi_vin i))"

text \<open>\<open>updateBMW\<close> of the cross-platform GUI: the buttons' address and number, the detail line.\<close>

record car_row =
  cr_ip :: string
  cr_vin :: string
  cr_detail :: string

definition update_bmw :: "gw_info option \<Rightarrow> car_row \<times> battery_ctl \<Rightarrow> car_row \<times> battery_ctl" where
  "update_bmw i rb = (case rb of (r, b) \<Rightarrow> (case i of
      None \<Rightarrow> (r\<lparr>cr_ip := '''', cr_vin := '''', cr_detail := ''not found''\<rparr>, b)
    | Some j \<Rightarrow>
        if gi_vin j = '''' then (r\<lparr>cr_ip := gi_ip j, cr_vin := '''', cr_detail := ''(no ZGW response)''\<rparr>, b)
        else (r\<lparr>cr_ip := gi_ip j, cr_vin := gi_vin j, cr_detail := car_detail j\<rparr>, update_battery i b)))"

text \<open>The check box: the Windows client resumes with the last car, the other waits for the next report.\<close>

definition main_battery_toggle :: "bool \<Rightarrow> battery_ctl \<Rightarrow> battery_ctl" where
  "main_battery_toggle on b =
     (if on then b\<lparr>bp_enabled := True, bp_ip := ''''\<rparr>
      else b\<lparr>bp_enabled := False, bp_poll := None, bp_label := ''''\<rparr>)"

definition win_battery_toggle :: "bool \<Rightarrow> battery_ctl \<Rightarrow> battery_ctl" where
  "win_battery_toggle on b =
     (if on then update_battery (bp_info b) (b\<lparr>bp_enabled := True, bp_ip := ''''\<rparr>)
      else b\<lparr>bp_enabled := False, bp_poll := None, bp_ip := '''', bp_label := ''''\<rparr>)"

datatype battery_event = CarReport "gw_info option" | PollToggle bool

definition win_battery_step :: "battery_ctl \<Rightarrow> battery_event \<Rightarrow> battery_ctl" where
  "win_battery_step b e = (case e of
      CarReport i \<Rightarrow> update_battery i (b\<lparr>bp_info := i\<rparr>) | PollToggle on \<Rightarrow> win_battery_toggle on b)"

definition main_battery_step :: "car_row \<times> battery_ctl \<Rightarrow> battery_event \<Rightarrow> car_row \<times> battery_ctl" where
  "main_battery_step rb e = (case e of
      CarReport i \<Rightarrow> update_bmw i rb | PollToggle on \<Rightarrow> (fst rb, main_battery_toggle on (snd rb)))"

section \<open>The log tab\<close>

record ring =
  ri_lines :: "string list"
  ri_version :: "64 word"
  ri_max :: nat

definition maxLogDisplay :: nat where "maxLogDisplay = 150"

definition ring_write :: "string \<Rightarrow> ring \<Rightarrow> ring" where
  "ring_write p r =
     (let line = trim_right {CHR 0x0D, CHR 0x0A} p; ls = ri_lines r @ [line]
      in if line = '''' then r
         else r\<lparr>ri_lines := (if ri_max r < length ls then drop (length ls - ri_max r) ls else ls),
                ri_version := ri_version r + 1\<rparr>)"

text \<open>The ticker: the last version shown, and the shown lines.\<close>

definition log_tick :: "ring \<Rightarrow> 64 word \<times> string list \<Rightarrow> 64 word \<times> string list" where
  "log_tick r v = (if ri_version r = fst v then v
     else (ri_version r, let ls = ri_lines r in
       if maxLogDisplay < length ls then drop (length ls - maxLogDisplay) ls else ls))"

definition log_reset :: "64 word \<times> string list \<Rightarrow> 64 word \<times> string list" where
  "log_reset v = (0, snd v)"

section \<open>The last disconnect\<close>

text \<open>The times at which a connection was seen to have gone, in a list of readings.\<close>

fun drops :: "bool \<Rightarrow> (time \<times> session_stats) list \<Rightarrow> time list" where
  "drops was [] = []"
| "drops was ((t, st) # xs) =
     (if was \<and> st_state st \<noteq> StateConnected then [t] else []) @ drops (st_state st = StateConnected) xs"

locale drop_tracker =
  fixes refresh :: "time \<Rightarrow> session_stats \<Rightarrow> 'g \<Rightarrow> 'g" and up :: "'g \<Rightarrow> bool" and dropped :: "'g \<Rightarrow> time option"
  assumes up_refresh: "up (refresh t st g) \<longleftrightarrow> st_state st = StateConnected"
    and drop_refresh: "dropped (refresh t st g) = drop_time t (up g) (st_state st = StateConnected) (dropped g)"
begin

lemma shows_last_drop:
  "dropped (fold (\<lambda>(t, st). refresh t st) xs g) =
     (if drops (up g) xs = [] then dropped g else Some (last (drops (up g) xs)))"
  by (induction "up g" xs arbitrary: g rule: drops.induct)
    (auto simp: up_refresh drop_refresh drop_time_def)

end

interpretation main_view: drop_tracker main_refresh gv_connected gv_drop
  by unfold_locales (simp_all add: main_refresh_def Let_def)

interpretation win_view: drop_tracker "\<lambda>t st g. snd (win_refresh t st g)" gv_connected gv_drop
  by unfold_locales (simp_all add: win_refresh_def Let_def)

interpretation garage: drop_tracker garage_refresh ga_connected ga_drop
  by unfold_locales (simp_all add: garage_refresh_def Let_def)

text \<open>The Windows closure, run at once, gives what the other GUI shows; any number of closures save once.\<close>

lemma win_closure_main: "fst (win_refresh t st g) (snd (win_refresh t st g)) = main_refresh t st g"
  by (simp add: win_refresh_def win_closure_def main_refresh_def Let_def)

lemma saves_once:
  "gv_saves (fold (\<lambda>(t, st). main_refresh t st) xs g) \<le> gv_saves g + (if gv_saved g then 0 else 1)"
proof -
  have "gv_saves (main_refresh t st g) + (if gv_saved (main_refresh t st g) then 0 else 1) \<le>
        gv_saves g + (if gv_saved g then 0 else 1)" for t st g
    by (simp add: main_refresh_def Let_def)
  note one = this
  have "gv_saves (fold (\<lambda>(t, st). main_refresh t st) xs g) +
      (if gv_saved (fold (\<lambda>(t, st). main_refresh t st) xs g) then 0 else 1) \<le> gv_saves g + (if gv_saved g then 0 else 1)"
  proof (induction xs arbitrary: g)
    case (Cons x xs)
    show ?case using order_trans [OF Cons.IH [of "main_refresh (fst x) (snd x) g"] one [of "fst x" "snd x" g]]
      by (simp add: case_prod_beta)
  qed simp
  then show ?thesis by simp
qed

text \<open>One save for each time the user connects, at most; a reading shows a speed only after another one.\<close>

lemma saves_per_session: "gv_saves (fold session_view xss g) \<le> gv_saves g + length xss"
proof (induction xss arbitrary: g)
  case (Cons xs xss)
  have "gv_saves (session_view xs g) \<le> gv_saves g + 1"
    using saves_once [of xs "connect_view g"]
    by (simp add: session_view_def disconnect_view_def connect_view_def split: if_splits)
  then show ?case using Cons.IH [of "session_view xs g"] by simp
qed simp

lemma first_reading_no_speed:
  "gv_stats (main_refresh now st (connect_view (disconnect_view g))) =
     (if st_state st = StateConnected then Some \<lparr>sl_tx = None, sl_rx = None, sl_recovered = st_fec_recovered st,
        sl_lost = st_fec_lost st\<rparr> else None)"
  by (simp add: main_refresh_def connect_view_def disconnect_view_def Let_def speed_of_def)

text \<open>The counter shows the last drop of the present session, while it is connected again.\<close>

lemma session_counter:
  fixes xs g
  defines "g' \<equiv> fold (\<lambda>(t, st). main_refresh t st) xs (connect_view g)"
  shows "ago_tick now g' = (if gv_connected g' \<and> drops False xs \<noteq> [] then format_ago now (Some (last (drops False xs))) else '''')"
  using main_view.shows_last_drop [of xs "connect_view g"]
  by (simp add: g'_def ago_tick_def connect_view_def format_ago_def split: if_splits)

text \<open>The first reading of a new session: the difference to the old session's bytes wraps around.\<close>

lemma reconnect_speed:
  assumes "st_state st = StateConnected" "gv_time g = Some t" "t < now" "st_rx st < gv_rx g"
  shows "\<exists>line d. gv_stats (main_refresh now st g) = Some line \<and> sl_rx line = Some (d, now - t) \<and>
    unat d = 2 ^ 64 - (unat (gv_rx g) - unat (st_rx st))"
proof -
  have "unat (st_rx st - gv_rx g) = 2 ^ 64 - (unat (gv_rx g) - unat (st_rx st))"
    using assms(4) by (simp add: unat_sub_if_size word_less_nat_alt word_size)
  moreover have "gv_stats (main_refresh now st g) = Some \<lparr>sl_tx = speed_of now (gv_time g) (st_tx st) (gv_tx g),
      sl_rx = speed_of now (gv_time g) (st_rx st) (gv_rx g), sl_recovered = st_fec_recovered st, sl_lost = st_fec_lost st\<rparr>"
    using assms(1) by (simp add: main_refresh_def Let_def)
  ultimately show ?thesis using assms(2,3) by (simp add: speed_of_def)
qed

section \<open>One session at a time\<close>

text \<open>Idle, opening an adapter, or running the session the UI knows.\<close>

definition calm_ok :: "gui_ctl \<Rightarrow> bool" where
  "calm_ok c \<longleftrightarrow>
     (gc_opening c = 0 \<and> gc_connect c \<and> \<not> gc_disconnect c \<and> live_runs c = {} \<and> gc_client c = None \<and> gc_framer c = None) \<or>
     (gc_opening c = 1 \<and> \<not> gc_connect c \<and> gc_disconnect c \<and> live_runs c = {} \<and> gc_client c = None \<and> gc_framer c = None) \<or>
     (gc_opening c = 0 \<and> \<not> gc_connect c \<and> gc_disconnect c \<and> (\<exists>i < length (gc_runs c). live_runs c = {i} \<and>
        gc_client c = Some i \<and> gc_framer c = Some i \<and> gc_cancel c = Some i))"

lemma live_runs_cong [simp]:
  "live_runs (c\<lparr>gc_connect := a\<rparr>) = live_runs c" "live_runs (c\<lparr>gc_disconnect := a\<rparr>) = live_runs c"
  "live_runs (c\<lparr>gc_opening := n\<rparr>) = live_runs c" "live_runs (c\<lparr>gc_client := p\<rparr>) = live_runs c"
  "live_runs (c\<lparr>gc_framer := p\<rparr>) = live_runs c" "live_runs (c\<lparr>gc_cancel := p\<rparr>) = live_runs c"
  by (simp_all add: live_runs_def)

lemma live_opened: "live_runs (ctl_opened c) = insert (length (gc_runs c)) (live_runs c)"
  by (auto simp: live_runs_def ctl_opened_def Let_def nth_append less_Suc_eq)

text \<open>What Disconnect leaves alone.\<close>

lemma disconnect_others:
  "i \<noteq> j \<Longrightarrow> run_at (Some j) f rs ! i = rs ! i" "length (run_at p f rs) = length rs" "run_at None f rs = rs"
  by (simp_all add: run_at_def split: option.split)

lemma live_disconnect:
  assumes "gc_client c = Some i" "gc_framer c = Some i" "gc_cancel c = Some i" "i < length (gc_runs c)"
  shows "live_runs (ctl_disconnect c) = live_runs c - {i}"
proof -
  have "gc_runs (ctl_disconnect c) ! j = (if j = i then \<lparr>gu_live = False, gu_open = False\<rparr> else gc_runs c ! j)"
    if "j < length (gc_runs c)" for j
    using assms that by (cases "gc_runs c ! i") (auto simp: ctl_disconnect_def run_at_def)
  moreover have "length (gc_runs (ctl_disconnect c)) = length (gc_runs c)"
    by (simp add: ctl_disconnect_def disconnect_others)
  ultimately show ?thesis by (auto simp: live_runs_def split: if_splits)
qed

lemma calm_ok_step:
  assumes "calm_ok c" "calm_step c c'"
  shows "calm_ok c'"
  using assms(2)
proof (cases rule: calm_step.cases)
  case (connect valid)
  then show ?thesis using assms(1) by (auto simp: calm_ok_def ctl_connect_def)
next
  case failed
  then show ?thesis using assms(1) by (auto simp: calm_ok_def ctl_open_failed_def)
next
  case opened
  then have "live_runs c = {}" "gc_opening c = 1" "\<not> gc_connect c" "gc_disconnect c"
    using assms(1) by (auto simp: calm_ok_def)
  then show ?thesis using opened(1) live_opened [of c] by (simp add: calm_ok_def) (simp add: ctl_opened_def Let_def)
next
  case disconnect
  then obtain i where i: "i < length (gc_runs c)" "live_runs c = {i}" "gc_client c = Some i" "gc_framer c = Some i"
      "gc_cancel c = Some i" using assms(1) by (auto simp: calm_ok_def)
  then show ?thesis using disconnect live_disconnect [of c i] by (simp add: calm_ok_def) (simp add: ctl_disconnect_def)
qed

lemma calm_ok_reach: "calm_reach c \<Longrightarrow> calm_ok c"
  unfolding calm_reach_def
proof (induction rule: rtranclp_induct)
  case base
  then show ?case by (simp add: calm_ok_def ctl_start_def live_runs_def)
next
  case (step c c')
  then show ?case by (blast intro: calm_ok_step)
qed

text \<open>A run the UI has lost: nothing it can still do ends it.\<close>

definition lost_run :: "nat \<Rightarrow> gui_ctl \<Rightarrow> bool" where
  "lost_run i c \<longleftrightarrow> i \<in> live_runs c \<and> gc_client c \<noteq> Some i \<and> gc_framer c \<noteq> Some i \<and> gc_cancel c \<noteq> Some i"

lemma lost_disconnect:
  assumes "lost_run i c"
  shows "lost_run i (ctl_disconnect c)"
proof -
  have "gc_runs (ctl_disconnect c) ! i = gc_runs c ! i" "length (gc_runs (ctl_disconnect c)) = length (gc_runs c)"
    using assms by (auto simp: ctl_disconnect_def lost_run_def run_at_def split: option.split)
  then show ?thesis using assms by (auto simp: lost_run_def live_runs_def) (auto simp: ctl_disconnect_def)
qed

lemma lost_step:
  assumes "lost_run i c" "ctl_step c c'"
  shows "lost_run i c'"
  using assms(2)
proof cases
  case opened
  have "i < length (gc_runs c)" using assms(1) by (simp add: lost_run_def live_runs_def)
  then show ?thesis using assms(1) opened live_opened [of c]
    by (simp add: lost_run_def) (simp add: ctl_opened_def Let_def)
next
  case disconnect
  then show ?thesis using lost_disconnect assms(1) by simp
qed (use assms(1) in \<open>simp_all add: lost_run_def ctl_connect_def ctl_open_failed_def\<close>)

lemma lost_forever: "ctl_step\<^sup>*\<^sup>* c c' \<Longrightarrow> lost_run i c \<Longrightarrow> lost_run i c'"
  by (induction rule: rtranclp_induct) (auto intro: lost_step)

text \<open>Connect, Disconnect while the adapter opens, Connect again: the first session is lost.\<close>

definition cancel_race :: gui_ctl where
  "cancel_race = ctl_opened (ctl_connect True (ctl_opened (ctl_disconnect (ctl_connect True ctl_start))))"

lemmas ctl_defs = ctl_start_def ctl_connect_def ctl_opened_def ctl_disconnect_def ctl_open_failed_def run_at_def

lemma cancel_race_reached: "ctl_reach cancel_race"
proof -
  let ?c1 = "ctl_connect True ctl_start"
  let ?c2 = "ctl_disconnect ?c1" let ?c3 = "ctl_opened ?c2" let ?c4 = "ctl_connect True ?c3"
  have "ctl_step ctl_start ?c1" "ctl_step ?c1 ?c2" "ctl_step ?c2 ?c3" "ctl_step ?c3 ?c4" "ctl_step ?c4 cancel_race"
    unfolding cancel_race_def by (rule ctl_step.intros; simp add: ctl_defs Let_def)+
  then show ?thesis unfolding ctl_reach_def by (meson rtranclp.rtrancl_into_rtrancl rtranclp.rtrancl_refl)
qed

lemma cancel_race_lost: "lost_run 0 cancel_race" "live_runs cancel_race = {0, 1}"
  by (auto simp: lost_run_def live_runs_def cancel_race_def ctl_defs Let_def less_Suc_eq nth_Cons')

text \<open>Before the second Connect the session runs while only Connect can be pressed.\<close>

lemma cancelled_session_runs:
  "live_runs (ctl_opened (ctl_disconnect (ctl_connect True ctl_start))) = {0}"
  "\<not> gc_disconnect (ctl_opened (ctl_disconnect (ctl_connect True ctl_start)))"
  by (auto simp: live_runs_def ctl_defs Let_def)

section \<open>The poller follows the car\<close>

text \<open>The Windows client: a poll runs for the last reported car that has one, while the box is checked.\<close>

definition win_battery_ok :: "battery_ctl \<Rightarrow> bool" where
  "win_battery_ok b \<longleftrightarrow>
     bp_ip b = (if bp_enabled b then fst (battery_target (bp_info b)) else '''') \<and>
     map_option fst (bp_poll b) = (if bp_ip b = '''' then None else Some (bp_ip b))"

lemma win_battery_step_ok: "win_battery_ok b \<Longrightarrow> win_battery_ok (win_battery_step b e)"
  by (cases e) (auto simp: win_battery_ok_def win_battery_step_def win_battery_toggle_def update_battery_def
      split: prod.splits if_splits)

interpretation win_battery: machine battery_start win_battery_step win_battery_ok
  by unfold_locales (simp add: win_battery_ok_def battery_start_def battery_target_def, rule win_battery_step_ok)

text \<open>The other GUI keeps polling a car that is gone, and does not resume when the box is checked again.\<close>

lemma main_poll_survives:
  assumes "battery_target (Some i) = (ip, platform)" "ip \<noteq> ''''"
  shows "\<exists>r b. foldl main_battery_step (r0, battery_start) [CarReport (Some i), CarReport None] = (r, b) \<and>
    cr_detail r = ''not found'' \<and> bp_poll b = Some (ip, platform)"
  using assms
  by (auto simp: main_battery_step_def update_bmw_def update_battery_def battery_start_def battery_target_def
      split: prod.splits if_splits)

lemma main_poll_not_resumed:
  assumes "battery_target (Some i) = (ip, platform)" "ip \<noteq> ''''"
  shows "bp_poll (snd (foldl main_battery_step (r0, battery_start) [CarReport (Some i), PollToggle False, PollToggle True])) = None"
    "bp_poll (foldl win_battery_step battery_start [CarReport (Some i), PollToggle False, PollToggle True]) = Some (ip, platform)"
  using assms
  by (auto simp: main_battery_step_def main_battery_toggle_def win_battery_step_def win_battery_toggle_def
      update_bmw_def update_battery_def battery_start_def split: prod.splits if_splits)

section \<open>The log tab shows the last lines\<close>

definition last_lines :: "nat \<Rightarrow> 'a list \<Rightarrow> 'a list" where
  "last_lines n ls = drop (length ls - n) ls"

lemma last_lines_snoc: "last_lines n (last_lines n ls @ [x]) = last_lines n (ls @ [x])"
proof (cases "length ls \<le> n")
  case False
  then have "length ls - n = length (take (length ls - n) ls)" by simp
  then show ?thesis using False by (cases n) (simp_all add: last_lines_def Suc_diff_Suc)
qed (simp add: last_lines_def)

definition log_lines :: "string list \<Rightarrow> string list" where
  "log_lines ps = filter (\<lambda>l. l \<noteq> '''') (map (trim_right {CHR 0x0D, CHR 0x0A}) ps)"

lemma ring_run:
  assumes "ri_lines r = last_lines (ri_max r) ls"
  shows "ri_lines (fold ring_write ps r) = last_lines (ri_max r) (ls @ log_lines ps) \<and>
    ri_version (fold ring_write ps r) = ri_version r + of_nat (length (log_lines ps)) \<and>
    ri_max (fold ring_write ps r) = ri_max r"
  using assms
proof (induction ps arbitrary: r ls)
  case (Cons p ps)
  let ?l = "trim_right {CHR 0x0D, CHR 0x0A} p"
  show ?case
  proof (cases "?l = ''''")
    case True
    then show ?thesis using Cons by (simp add: ring_write_def log_lines_def Let_def)
  next
    case False
    have "ri_lines (ring_write p r) = last_lines (ri_max r) (ri_lines r @ [?l])"
      using False by (simp add: ring_write_def Let_def last_lines_def)
    then have "ri_lines (ring_write p r) = last_lines (ri_max r) (ls @ [?l])"
      by (simp add: Cons.prems last_lines_snoc)
    moreover have "ri_max (ring_write p r) = ri_max r" "ri_version (ring_write p r) = ri_version r + 1"
      using False by (simp_all add: ring_write_def Let_def)
    ultimately show ?thesis using Cons.IH [of "ring_write p r" "ls @ [?l]"] False by (simp add: log_lines_def)
  qed
qed (simp add: log_lines_def)

lemma log_reset_shows:
  "ri_version r \<noteq> 0 \<Longrightarrow> snd (log_tick r (log_reset v)) = last_lines maxLogDisplay (ri_lines r)"
  by (simp add: log_tick_def log_reset_def Let_def last_lines_def)

lemma log_tick_shows:
  "ri_version r \<noteq> fst v \<Longrightarrow> log_tick r v = (ri_version r, last_lines maxLogDisplay (ri_lines r))"
  by (simp add: log_tick_def Let_def last_lines_def)

end
