(* ===== verification/WinDevices.thy ===== *)
theory WinDevices
  imports Adapter L2Emulation
begin

text \<open>
  The Windows devices of \<open>pkg/tun\<close>: finding, installing, renaming and opening a TAP adapter
  (\<open>tap_windows.go\<close>), the Npcap framer with its filter for injected frames and the choice of its
  installer (\<open>npcap_windows.go\<close>), the NDISUIO framer (\<open>ndisuio_windows.go\<close>), WinTun's fixed device
  identifier, its DLL on disk and opening it (\<open>tun_windows.go\<close>, \<open>wintun_init_windows.go\<close>), and
  SoftEther's adapters (\<open>softether_windows.go\<close>). The registry is a value; what the system answers to a
  call is a parameter.
\<close>

section \<open>The registry\<close>

text \<open>\<open>strings.EqualFold\<close>, and a Windows path written with slashes.\<close>

definition equal_fold :: "string \<Rightarrow> string \<Rightarrow> bool" where
  "equal_fold a b = (to_lower a = to_lower b)"

definition win_path :: "string \<Rightarrow> string" where
  "win_path = map (\<lambda>c. if c = CHR ''/'' then CHR 0x5C else c)"

text \<open>A network adapter's class entry; a value that is not there reads as an empty string.\<close>

record class_entry =
  ce_component :: string
  ce_desc :: string
  ce_guid :: string

text \<open>
  The subkeys of the adapter class (\<open>None\<close> for one that cannot be opened), the connection name of a GUID,
  and the subkeys of the network key.
\<close>

record registry =
  rg_class :: "class_entry option list option"
  rg_name :: "string \<Rightarrow> string option"
  rg_network :: "string list option"

definition is_tap0901 :: "class_entry \<Rightarrow> bool" where
  "is_tap0901 e = equal_fold (ce_component e) ''tap0901''"

fun guid_loop :: "(string \<Rightarrow> string option) \<Rightarrow> string \<Rightarrow> class_entry option list \<Rightarrow> string option" where
  "guid_loop names name [] = None"
| "guid_loop names name (None # es) = guid_loop names name es"
| "guid_loop names name (Some e # es) =
     (if \<not> is_tap0901 e then guid_loop names name es
      else if ce_guid e = '''' then guid_loop names name es
      else case names (ce_guid e) of
          None \<Rightarrow> guid_loop names name es
        | Some friendly \<Rightarrow> if equal_fold friendly name then Some (ce_guid e) else guid_loop names name es)"

definition tap_guid_by_name :: "registry \<Rightarrow> string \<Rightarrow> string option" where
  "tap_guid_by_name reg name = (case rg_class reg of None \<Rightarrow> None | Some es \<Rightarrow> guid_loop (rg_name reg) name es)"

fun any_loop :: "(string \<Rightarrow> string option) \<Rightarrow> class_entry option list \<Rightarrow> (string \<times> string) option" where
  "any_loop names [] = None"
| "any_loop names (None # es) = any_loop names es"
| "any_loop names (Some e # es) =
     (if \<not> is_tap0901 e \<or> ce_guid e = '''' then any_loop names es
      else case names (ce_guid e) of None \<Rightarrow> any_loop names es | Some friendly \<Rightarrow> Some (ce_guid e, friendly))"

definition find_any_tap0901 :: "registry \<Rightarrow> (string \<times> string) option" where
  "find_any_tap0901 reg = (case rg_class reg of None \<Rightarrow> None | Some es \<Rightarrow> any_loop (rg_name reg) es)"

fun network_loop :: "(string \<Rightarrow> string option) \<Rightarrow> string \<Rightarrow> string list \<Rightarrow> string option" where
  "network_loop names name [] = None"
| "network_loop names name (g # gs) =
     (case names g of
        None \<Rightarrow> network_loop names name gs
      | Some n \<Rightarrow> if equal_fold n name then Some g else network_loop names name gs)"

definition adapter_guid_by_friendly_name :: "registry \<Rightarrow> string \<Rightarrow> string option" where
  "adapter_guid_by_friendly_name reg name =
     (case rg_network reg of None \<Rightarrow> None | Some gs \<Rightarrow> network_loop (rg_name reg) name gs)"

section \<open>Opening a TAP adapter\<close>

text \<open>
  What the system does: the driver's installer, \<open>Rename-NetAdapter\<close>, opening a device, and its control
  code for the media status. The first two change the registry.
\<close>

record tap_system =
  ts_install :: "registry \<Rightarrow> registry option"
  ts_rename :: "string \<Rightarrow> string \<Rightarrow> registry \<Rightarrow> registry option"
  ts_open :: "string \<Rightarrow> bool"
  ts_media :: "string \<Rightarrow> bool"

datatype tap_error = TapInstallFailed | TapRebootNeeded | TapRenameFailed string | TapOpenFailed string | TapMediaFailed string

datatype tap_call = InstallDriver | RenameAdapter string string | OpenHandle string | CloseHandle string | AssignAddress "string list"

definition tap_device_path :: "string \<Rightarrow> string" where
  "tap_device_path guid = win_path ''//./Global/'' @ guid @ ''.tap''"

definition rename_command :: "string \<Rightarrow> string \<Rightarrow> string" where
  "rename_command old new = ''Rename-NetAdapter -Name '' @ ps_single_quote old @ '' -NewName '' @ ps_single_quote new"

definition tap_address_command :: "string \<Rightarrow> string \<Rightarrow> string list" where
  "tap_address_command name guid =
     (case tap_link_local guid of (a, b) \<Rightarrow>
        [''netsh'', ''interface'', ''ip'', ''set'', ''address'', ''name='' @ name, ''static'',
         ''169.254.'' @ itoa (int a) @ ''.'' @ itoa (int b), ''255.255.0.0''])"

text \<open>The device with the name, or any other that is then renamed, or one the driver's installation made.\<close>

definition tap_rename :: "tap_system \<Rightarrow> string \<Rightarrow> string \<Rightarrow> string \<Rightarrow> registry \<Rightarrow> (tap_error + string) \<times> tap_call list \<times> registry" where
  "tap_rename sys name guid old reg =
     (case ts_rename sys old name reg of
        None \<Rightarrow> (Inl (TapRenameFailed old), [RenameAdapter old name], reg)
      | Some reg' \<Rightarrow> (Inr guid, [RenameAdapter old name], reg'))"

definition tap_choose :: "tap_system \<Rightarrow> string \<Rightarrow> registry \<Rightarrow> (tap_error + string) \<times> tap_call list \<times> registry" where
  "tap_choose sys name reg =
     (case tap_guid_by_name reg name of
        Some guid \<Rightarrow> (Inr guid, [], reg)
      | None \<Rightarrow>
          (case find_any_tap0901 reg of
             Some (guid, old) \<Rightarrow> tap_rename sys name guid old reg
           | None \<Rightarrow>
               (case ts_install sys reg of
                  None \<Rightarrow> (Inl TapInstallFailed, [InstallDriver], reg)
                | Some reg' \<Rightarrow>
                    (case find_any_tap0901 reg' of
                       None \<Rightarrow> (Inl TapRebootNeeded, [InstallDriver], reg')
                     | Some (guid, old) \<Rightarrow> apsnd (apfst ((#) InstallDriver)) (tap_rename sys name guid old reg')))))"

definition tap_bring_up :: "tap_system \<Rightarrow> string \<Rightarrow> string \<Rightarrow> (tap_error + string) \<times> tap_call list" where
  "tap_bring_up sys name guid =
     (if \<not> ts_open sys (tap_device_path guid) then (Inl (TapOpenFailed guid), [])
      else if \<not> ts_media sys guid then (Inl (TapMediaFailed guid), [OpenHandle guid, CloseHandle guid])
      else (Inr guid, [OpenHandle guid, AssignAddress (tap_address_command name guid)]))"

definition open_tap :: "tap_system \<Rightarrow> string \<Rightarrow> registry \<Rightarrow> (tap_error + string) \<times> tap_call list \<times> registry" where
  "open_tap sys name reg =
     (case tap_choose sys name reg of
        (Inl e, calls, reg') \<Rightarrow> (Inl e, calls, reg')
      | (Inr guid, calls, reg') \<Rightarrow>
          (case tap_bring_up sys name guid of (r, ups) \<Rightarrow> (r, calls @ ups, reg')))"

section \<open>The driver packages\<close>

definition tap_driver_embedded :: "string list \<Rightarrow> bool" where
  "tap_driver_embedded names = list_ex (\<lambda>n. drop (length n - 4) (to_lower n) = ''.sys'') names"

datatype driver_error = TempDirFailed | ReadFailed string | WriteFailed string | InfMissing | PnpUtilFailed

text \<open>
  Extracting the embedded package (names with their kind and contents): the written files, or the first error.
\<close>

fun extract_driver :: "(string \<Rightarrow> bool) \<Rightarrow> (string \<times> bool \<times> bytes option) list \<Rightarrow> driver_error + (string \<times> bytes) list" where
  "extract_driver writable [] = Inr []"
| "extract_driver writable ((n, is_dir, data) # es) =
     (if is_dir then extract_driver writable es
      else case data of
          None \<Rightarrow> Inl (ReadFailed n)
        | Some d \<Rightarrow>
            if \<not> writable n then Inl (WriteFailed n)
            else map_sum id ((#) (n, d)) (extract_driver writable es))"

definition install_from_embed ::
  "bool \<Rightarrow> (string \<Rightarrow> bool) \<Rightarrow> ((string \<times> bytes) list \<Rightarrow> bool) \<Rightarrow> (string \<times> bool \<times> bytes option) list \<Rightarrow> driver_error + unit" where
  "install_from_embed temp writable pnp es =
     (if \<not> temp then Inl TempDirFailed
      else case extract_driver writable es of
          Inl e \<Rightarrow> Inl e
        | Inr files \<Rightarrow>
            if \<not> list_ex (\<lambda>(n, d). equal_fold n ''OemVista.inf'') files then Inl InfMissing
            else if pnp files then Inr () else Inl PnpUtilFailed)"

text \<open>\<open>windows7OrOlder\<close> on a version, and which of the embedded installers \<open>InstallNpcap\<close> runs.\<close>

definition windows7_or_older :: "nat \<Rightarrow> nat \<Rightarrow> bool" where
  "windows7_or_older major minor = (if major < 6 then True else major = 6 \<and> minor \<le> 1)"

fun installers :: "string list \<Rightarrow> string \<Rightarrow> string \<Rightarrow> string \<times> string" where
  "installers [] npcap winpcap = (npcap, winpcap)"
| "installers (e # es) npcap winpcap =
     (if drop (length e - 4) (to_lower e) \<noteq> ''.exe'' then installers es npcap winpcap
      else if contains (to_lower e) ''winpcap'' then installers es npcap e
      else installers es e winpcap)"

definition install_npcap :: "string list \<Rightarrow> bool \<Rightarrow> string option" where
  "install_npcap names old =
     (case installers names '''' '''' of (npcap, winpcap) \<Rightarrow>
        if winpcap \<noteq> '''' \<and> (npcap = '''' \<or> old) then Some winpcap
        else if npcap \<noteq> '''' then Some npcap else None)"

definition npcap_probes :: "string list \<times> string list \<times> string list" where
  "npcap_probes = (map win_path [''SOFTWARE/Npcap'', ''SOFTWARE/WinPcap''],
     map win_path [''SYSTEM/CurrentControlSet/Services/npcap'', ''SYSTEM/CurrentControlSet/Services/npf''],
     map win_path [''C:/Windows/System32/Npcap/wpcap.dll'', ''C:/Windows/System32/wpcap.dll''])"

definition npcap_installed :: "(string \<Rightarrow> bool) \<Rightarrow> (string \<Rightarrow> bool) \<Rightarrow> bool" where
  "npcap_installed has_key has_file =
     (case npcap_probes of (software, services, dlls) \<Rightarrow>
        list_ex has_key software \<or> list_ex has_key services \<or> list_ex has_file dlls)"

section \<open>The Npcap framer\<close>

text \<open>The only state besides the handle: the source addresses injected so far.\<close>

record npcap =
  np_injected :: "bytes list"

datatype next_packet = NextPacket bytes | NextTimeout | NextError int
datatype npcap_error = NpcapCancelled | NpcapReadError int

text \<open>\<open>ReadFrame\<close> over the results of \<open>pcap_next_ex\<close>; the context is cancelled at their end.\<close>

fun npcap_read_frame :: "next_packet list \<Rightarrow> npcap \<Rightarrow> npcap_error + bytes" where
  "npcap_read_frame [] s = Inl NpcapCancelled"
| "npcap_read_frame (NextPacket p # rs) s =
     (if length p < 14 then npcap_read_frame rs s
      else if slice 6 12 p \<in> set (np_injected s) then npcap_read_frame rs s
      else Inr p)"
| "npcap_read_frame (NextTimeout # rs) s = npcap_read_frame rs s"
| "npcap_read_frame (NextError e # rs) s = Inl (NpcapReadError e)"

text \<open>\<open>WriteFrame\<close>: the frame handed to \<open>pcap_sendpacket\<close>, if any, and the state.\<close>

definition npcap_write_frame :: "bytes \<Rightarrow> npcap \<Rightarrow> bytes option \<times> npcap" where
  "npcap_write_frame f s =
     (if f = [] then (None, s)
      else (Some f, if 14 \<le> length f then s\<lparr>np_injected := List.insert (slice 6 12 f) (np_injected s)\<rparr> else s))"

datatype npcap_event = NpInject bytes | NpCapture "next_packet list"

fun npcap_run :: "npcap_event list \<Rightarrow> npcap \<Rightarrow> bytes list" where
  "npcap_run [] s = []"
| "npcap_run (NpInject f # es) s = npcap_run es (snd (npcap_write_frame f s))"
| "npcap_run (NpCapture rs # es) s =
     (case npcap_read_frame rs s of Inr f \<Rightarrow> [f] | Inl _ \<Rightarrow> []) @ npcap_run es s"

text \<open>
  \<open>openNpcapFramer\<close>: the library of the first path that loads, its four procedures, the adapter's GUID, the
  capture. The flag says whether the library stays loaded.
\<close>

datatype npcap_open_error = DllMissing | ProcMissing | NoSuchAdapter | CaptureFailed

definition load_pcap_dll :: "(string \<Rightarrow> bool) \<Rightarrow> string option" where
  "load_pcap_dll loads = find loads [win_path ''C:/Windows/System32/Npcap/wpcap.dll'', ''wpcap.dll'']"

definition open_npcap_framer ::
  "(string \<Rightarrow> bool) \<Rightarrow> (string \<Rightarrow> bool) \<Rightarrow> registry \<Rightarrow> (string \<Rightarrow> bool) \<Rightarrow> string \<Rightarrow> (npcap_open_error + npcap) \<times> bool" where
  "open_npcap_framer loads proc reg open_live nic =
     (case load_pcap_dll loads of
        None \<Rightarrow> (Inl DllMissing, False)
      | Some dll \<Rightarrow>
          if \<not> list_all proc [''pcap_open_live'', ''pcap_next_ex'', ''pcap_sendpacket'', ''pcap_close''] then (Inl ProcMissing, False)
          else case adapter_guid_by_friendly_name reg nic of
              None \<Rightarrow> (Inl NoSuchAdapter, False)
            | Some guid \<Rightarrow>
                if open_live (win_path ''/Device/NPF_'' @ guid) then (Inr \<lparr>np_injected = []\<rparr>, True)
                else (Inl CaptureFailed, False))"

section \<open>Overlapped reads and writes\<close>

text \<open>
  The read and write both TAP and NDISUIO handles use: the event, the call itself, the polls of the event
  (signalled, or the context cancelled meanwhile; cancelled at their end), and the final result.
\<close>

datatype io_error = EventFailed | StartFailed | ResultFailed | IoCancelled
datatype 'a io_result = IoDone 'a | IoFailed

fun wait_polls :: "(bool \<times> bool) list \<Rightarrow> bool" where
  "wait_polls [] = False"
| "wait_polls ((signalled, cancelled) # ps) = (if signalled then True else if cancelled then False else wait_polls ps)"

definition overlapped_read :: "bool \<Rightarrow> bool \<Rightarrow> (bool \<times> bool) list \<Rightarrow> bytes io_result \<Rightarrow> io_error + bytes" where
  "overlapped_read event started polls result =
     (if \<not> event then Inl EventFailed
      else if \<not> started then Inl StartFailed
      else if \<not> wait_polls polls then Inl IoCancelled
      else case result of IoFailed \<Rightarrow> Inl ResultFailed | IoDone f \<Rightarrow> Inr f)"

definition tap_write_frame :: "bool \<Rightarrow> bool \<Rightarrow> unit io_result \<Rightarrow> bytes \<Rightarrow> io_error + unit" where
  "tap_write_frame event started result f =
     (if f = [] then Inr ()
      else if \<not> event then Inl EventFailed
      else if \<not> started then Inl StartFailed
      else case result of IoFailed \<Rightarrow> Inl ResultFailed | IoDone _ \<Rightarrow> Inr ())"

text \<open>The NDISUIO framer waits for the write but does not ask for its result.\<close>

definition ndisuio_write_frame :: "bool \<Rightarrow> bool \<Rightarrow> unit io_result \<Rightarrow> bytes \<Rightarrow> io_error + unit" where
  "ndisuio_write_frame event started result f =
     (if f = [] then Inr ()
      else if \<not> event then Inl EventFailed
      else if \<not> started then Inl StartFailed
      else Inr ())"

section \<open>The NDISUIO driver\<close>

text \<open>A string as UTF-16LE without a terminator, for code points below 256, and little-endian words.\<close>

definition utf16le :: "string \<Rightarrow> bytes" where
  "utf16le s = concat (map (\<lambda>c. [of_char c, 0]) s)"

definition le_put :: "nat \<Rightarrow> 'a::len word \<Rightarrow> bytes" where
  "le_put n w = rev (be_put n w)"

text \<open>\<open>IOCTL_NDISUIO_SET_OID\<close>: the packet filter and its five bits.\<close>

definition promiscuous_payload :: bytes where
  "promiscuous_payload =
     le_put 4 (0x0001010E :: 32 word) @
     le_put 4 (0x0020 OR 0x0001 OR 0x0004 OR 0x0008 OR 0x0010 :: 32 word)"

datatype ndis_call = BindWait | OpenDevice bytes | SetOid bytes

datatype ndis_error = DriverMissing | NdisNoAdapter | BindFailed

text \<open>The calls made, the result, and whether the handle stays open; two of the calls may fail unnoticed.\<close>

definition open_ndisuio_framer ::
  "bool \<Rightarrow> registry \<Rightarrow> (ndis_call \<Rightarrow> bool) \<Rightarrow> string \<Rightarrow> (ndis_error + string) \<times> ndis_call list \<times> bool" where
  "open_ndisuio_framer driver reg control nic =
     (if \<not> driver then (Inl DriverMissing, [], False)
      else case adapter_guid_by_friendly_name reg nic of
          None \<Rightarrow> (Inl NdisNoAdapter, [], False)
        | Some guid \<Rightarrow>
            let bind = OpenDevice (utf16le (win_path ''/Device/'' @ guid))
            in if \<not> control bind then (Inl BindFailed, [BindWait, bind], False)
               else (Inr nic, [BindWait, bind, SetOid promiscuous_payload], True))"

section \<open>WinTun\<close>

text \<open>\<open>adapterGUID\<close>: the fixed identifier of the device of a name; \<open>sha\<close> is SHA-256.\<close>

record guid =
  g_data1 :: "32 word"
  g_data2 :: "16 word"
  g_data3 :: "16 word"
  g_data4 :: bytes

definition le_get :: "bytes \<Rightarrow> 'a::len word" where
  "le_get b = be_get (rev b)"

definition adapter_guid :: "(bytes \<Rightarrow> bytes) \<Rightarrow> string \<Rightarrow> guid" where
  "adapter_guid sha name =
     (let h = sha (str_bytes (''supervpn-wintun-v1:'' @ name))
      in \<lparr>g_data1 = le_get (slice 0 4 h), g_data2 = le_get (slice 4 6 h), g_data3 = le_get (slice 6 8 h),
          g_data4 = slice 8 16 h\<rparr>)"

text \<open>
  \<open>wintunDLLPath\<close> over a file system: the candidate directories, whether each can be made, and a write,
  which reports an error or not and leaves the contents it leaves.
\<close>

definition wintun_candidate_dirs :: "string option \<Rightarrow> string \<Rightarrow> string list" where
  "wintun_candidate_dirs cache temp =
     (case cache of Some l \<Rightarrow> [l @ win_path ''/superVPN''] | None \<Rightarrow> []) @ [temp @ win_path ''/supervpn-wintun'']"

type_synonym files = "string \<Rightarrow> bytes option"

fun wintun_dll_path ::
  "(string \<Rightarrow> bool) \<Rightarrow> (string \<Rightarrow> bytes \<Rightarrow> bool \<times> bytes option) \<Rightarrow> bytes \<Rightarrow> string list \<Rightarrow> files \<Rightarrow> string option \<times> files" where
  "wintun_dll_path mk wr data [] fs = (None, fs)"
| "wintun_dll_path mk wr data (d # ds) fs =
     (if \<not> mk d then wintun_dll_path mk wr data ds fs
      else let dest = d @ win_path ''/wintun.dll'' in
        if fs dest \<noteq> None then (Some dest, fs)
        else case wr dest data of (ok, left) \<Rightarrow>
          if ok then (Some dest, fs(dest := left)) else wintun_dll_path mk wr data ds (fs(dest := left)))"

fun read_embedded_wintun_dll :: "(string \<times> bool \<times> bytes) list \<Rightarrow> bytes option" where
  "read_embedded_wintun_dll [] = None"
| "read_embedded_wintun_dll ((n, is_dir, data) # es) =
     (if \<not> is_dir \<and> equal_fold n ''wintun.dll'' then Some data else read_embedded_wintun_dll es)"

text \<open>\<open>openWinTUN\<close>: the result, and the adapters left open.\<close>

datatype wintun_error = WintunOpenFailed | WintunSessionFailed

definition open_wintun :: "(string \<Rightarrow> guid \<Rightarrow> bool) \<Rightarrow> (string \<Rightarrow> bool) \<Rightarrow> bool \<Rightarrow> (bytes \<Rightarrow> bytes) \<Rightarrow> string \<Rightarrow>
    (wintun_error + string) \<times> nat" where
  "open_wintun create open_dev session sha name =
     (if \<not> create name (adapter_guid sha name) \<and> \<not> open_dev name then (Inl WintunOpenFailed, 0)
      else if \<not> session then (Inl WintunSessionFailed, 1)
      else (Inr name, 1))"

text \<open>\<open>readIPOnce\<close>: a packet, nothing yet, or the context is cancelled.\<close>

definition read_ip_once :: "bool \<Rightarrow> bytes option \<Rightarrow> unit + bytes option" where
  "read_ip_once cancelled received = (if cancelled then Inl () else Inr received)"

text \<open>\<open>writeIP\<close>: what goes to the ring.\<close>

definition win_write_ip :: "(nat \<Rightarrow> bool) \<Rightarrow> bytes \<Rightarrow> unit + bytes option" where
  "win_write_ip alloc ip = (if ip = [] then Inr None else if alloc (length ip) then Inr (Some ip) else Inl ())"

section \<open>SoftEther's adapters\<close>

fun soft_ether_loop :: "(string \<Rightarrow> string option) \<Rightarrow> class_entry option list \<Rightarrow> string list" where
  "soft_ether_loop names [] = []"
| "soft_ether_loop names (None # es) = soft_ether_loop names es"
| "soft_ether_loop names (Some e # es) =
     (if ce_guid e = '''' then soft_ether_loop names es
      else if \<not> is_softether_adapter (ce_component e) (ce_desc e) then soft_ether_loop names es
      else case names (ce_guid e) of None \<Rightarrow> soft_ether_loop names es | Some n \<Rightarrow> n # soft_ether_loop names es)"

definition soft_ether_adapter_names :: "registry \<Rightarrow> string list option" where
  "soft_ether_adapter_names reg = map_option (soft_ether_loop (rg_name reg)) (rg_class reg)"

definition netsh_disable_command :: "string \<Rightarrow> string list" where
  "netsh_disable_command name = [''netsh'', ''interface'', ''set'', ''interface'', name, ''admin=disabled'']"

text \<open>\<open>DisableSoftEtherAdapters\<close>: the commands it runs; a failed one does not stop it.\<close>

definition disable_soft_ether_adapters :: "registry \<Rightarrow> string list list" where
  "disable_soft_ether_adapters reg =
     (case soft_ether_adapter_names reg of None \<Rightarrow> [] | Some names \<Rightarrow> map netsh_disable_command names)"

section \<open>TAP: soundness\<close>

text \<open>A named TAP entry of the registry.\<close>

definition tap_entry :: "registry \<Rightarrow> string \<Rightarrow> string \<Rightarrow> bool" where
  "tap_entry reg guid friendly \<longleftrightarrow> (\<exists>es e. rg_class reg = Some es \<and> Some e \<in> set es \<and> is_tap0901 e \<and>
     ce_guid e = guid \<and> guid \<noteq> '''' \<and> rg_name reg guid = Some friendly)"

lemma guid_loop_Some:
  "guid_loop names name es = Some g \<Longrightarrow>
     \<exists>e f. Some e \<in> set es \<and> is_tap0901 e \<and> ce_guid e = g \<and> g \<noteq> '''' \<and> names g = Some f \<and> equal_fold f name"
  by (induction names name es rule: guid_loop.induct) (auto split: if_splits option.splits)

lemma guid_loop_None:
  "guid_loop names name es = None \<Longrightarrow> Some e \<in> set es \<Longrightarrow> is_tap0901 e \<Longrightarrow> ce_guid e \<noteq> '''' \<Longrightarrow>
     names (ce_guid e) = Some f \<Longrightarrow> \<not> equal_fold f name"
  by (induction names name es rule: guid_loop.induct) (auto split: if_splits option.splits)

lemma any_loop_Some:
  "any_loop names es = Some (g, f) \<Longrightarrow>
     \<exists>e. Some e \<in> set es \<and> is_tap0901 e \<and> ce_guid e = g \<and> g \<noteq> '''' \<and> names g = Some f"
  by (induction names es rule: any_loop.induct) (auto split: if_splits option.splits)

lemma any_loop_None:
  "any_loop names es = None \<Longrightarrow> Some e \<in> set es \<Longrightarrow> is_tap0901 e \<Longrightarrow> ce_guid e \<noteq> '''' \<Longrightarrow> names (ce_guid e) = None"
  by (induction names es rule: any_loop.induct) (auto split: if_splits option.splits)

lemma tap_guid_by_name_iff:
  "tap_guid_by_name reg name = Some g \<Longrightarrow> \<exists>f. tap_entry reg g f \<and> equal_fold f name"
  "tap_guid_by_name reg name = None \<Longrightarrow> tap_entry reg g f \<Longrightarrow> \<not> equal_fold f name"
  using guid_loop_Some [of "rg_name reg" name _ g]
  by (fastforce simp: tap_guid_by_name_def tap_entry_def split: option.splits)
    (auto simp: tap_guid_by_name_def tap_entry_def guid_loop_None split: option.splits)

lemma find_any_tap0901_iff:
  "find_any_tap0901 reg = Some (g, f) \<Longrightarrow> tap_entry reg g f"
  "find_any_tap0901 reg = None \<Longrightarrow> \<not> tap_entry reg g f"
  using any_loop_Some [of "rg_name reg" _ g f] any_loop_None [of "rg_name reg"]
  by (auto simp: find_any_tap0901_def tap_entry_def split: option.splits)

text \<open>Every handle the opening makes is given back or closed.\<close>

definition open_handles :: "tap_call list \<Rightarrow> string list" where
  "open_handles calls = foldl (\<lambda>hs c. case c of OpenHandle g \<Rightarrow> hs @ [g] | CloseHandle g \<Rightarrow> remove1 g hs | _ \<Rightarrow> hs) [] calls"

text \<open>The registry in which the device was found: the one before, or the one the installation left.\<close>

definition looked_in :: "tap_system \<Rightarrow> registry \<Rightarrow> registry \<Rightarrow> bool" where
  "looked_in sys reg r \<longleftrightarrow> r = reg \<or> (ts_install sys reg = Some r \<and> (\<forall>g f. \<not> tap_entry reg g f))"

definition no_handles :: "tap_call list \<Rightarrow> bool" where
  "no_handles calls = list_all (\<lambda>c. case c of OpenHandle _ \<Rightarrow> False | CloseHandle _ \<Rightarrow> False | _ \<Rightarrow> True) calls"

lemma open_handles_after: "no_handles calls \<Longrightarrow> open_handles (calls @ ups) = open_handles ups"
proof -
  have "foldl (\<lambda>hs c. case c of OpenHandle g \<Rightarrow> hs @ [g] | CloseHandle g \<Rightarrow> remove1 g hs | _ \<Rightarrow> hs) hs calls = hs"
    if "no_handles calls" for hs
    using that by (induction calls) (auto simp: no_handles_def split: tap_call.splits)
  then show "no_handles calls \<Longrightarrow> open_handles (calls @ ups) = open_handles ups" by (simp add: open_handles_def)
qed

definition tap_taken :: "registry \<Rightarrow> string \<Rightarrow> bool" where
  "tap_taken reg name \<longleftrightarrow> (\<exists>g f. tap_entry reg g f \<and> equal_fold f name)"

definition tap_found :: "tap_system \<Rightarrow> registry \<Rightarrow> string \<Rightarrow> tap_call list \<Rightarrow> string \<Rightarrow> bool" where
  "tap_found sys reg name calls g \<longleftrightarrow> (\<exists>reg1 f. looked_in sys reg reg1 \<and> tap_entry reg1 g f \<and>
     (equal_fold f name \<or> RenameAdapter f name \<in> set calls))"

text \<open>The driver is installed only without any TAP adapter, and a rename is to a name none has.\<close>

definition tap_call_ok :: "registry \<Rightarrow> string \<Rightarrow> tap_call \<Rightarrow> bool" where
  "tap_call_ok reg name c = (case c of
      InstallDriver \<Rightarrow> \<forall>g f. \<not> tap_entry reg g f
    | RenameAdapter old new \<Rightarrow> new = name \<and> \<not> tap_taken reg name
    | _ \<Rightarrow> True)"

lemma tap_rename_spec:
  assumes "tap_rename sys name guid old reg1 = (r, calls, reg')" "looked_in sys reg reg1" "tap_entry reg1 guid old"
    and "\<not> tap_taken reg name"
  shows "no_handles calls \<and> list_all (tap_call_ok reg name) calls \<and> (\<forall>g. r = Inr g \<longrightarrow> tap_found sys reg name calls g)"
proof (cases "ts_rename sys old name reg1")
  case None
  then show ?thesis using assms by (auto simp: tap_rename_def no_handles_def tap_call_ok_def)
next
  case (Some reg2)
  then have r: "r = Inr guid" "calls = [RenameAdapter old name]" using assms(1) by (simp_all add: tap_rename_def)
  then have "tap_found sys reg name calls guid" using assms(2,3) unfolding tap_found_def by auto
  then show ?thesis using assms(4) by (simp add: r no_handles_def tap_call_ok_def)
qed

lemma tap_choose_spec:
  assumes "tap_choose sys name reg = (r, calls, reg')"
  shows "no_handles calls \<and> list_all (tap_call_ok reg name) calls \<and> (\<forall>g. r = Inr g \<longrightarrow> tap_found sys reg name calls g)"
proof (cases "tap_guid_by_name reg name")
  case (Some g)
  then have "\<exists>f. tap_entry reg g f \<and> equal_fold f name" by (rule tap_guid_by_name_iff)
  then show ?thesis using Some assms by (auto simp: tap_choose_def no_handles_def tap_found_def looked_in_def)
next
  case None
  then have free: "\<not> tap_taken reg name" using tap_guid_by_name_iff(2) by (auto simp: tap_taken_def)
  show ?thesis
  proof (cases "find_any_tap0901 reg")
    case (Some gf)
    then have "tap_entry reg (fst gf) (snd gf)" using find_any_tap0901_iff(1) by (cases gf) auto
    then show ?thesis using tap_rename_spec [of sys name "fst gf" "snd gf" reg r calls reg' reg] assms None Some free
      by (auto simp: tap_choose_def looked_in_def split: prod.splits)
  next
    case no: None
    note never = find_any_tap0901_iff(2) [OF no]
    show ?thesis
    proof (cases "ts_install sys reg")
      case None
      with assms \<open>tap_guid_by_name reg name = None\<close> no never show ?thesis
        by (auto simp: tap_choose_def no_handles_def tap_call_ok_def)
    next
      case inst: (Some reg1)
      show ?thesis
      proof (cases "find_any_tap0901 reg1")
        case None
        with assms \<open>tap_guid_by_name reg name = None\<close> no never inst show ?thesis
          by (auto simp: tap_choose_def no_handles_def tap_call_ok_def)
      next
        case (Some gf)
        then have e: "tap_entry reg1 (fst gf) (snd gf)" using find_any_tap0901_iff(1) by (cases gf) auto
        have "looked_in sys reg reg1" using inst never by (simp add: looked_in_def)
        note ren = tap_rename_spec [OF _ this e free]
        obtain c1 where c: "tap_rename sys name (fst gf) (snd gf) reg1 = (r, c1, reg')" "calls = InstallDriver # c1"
          using assms None no inst Some by (auto simp: tap_choose_def split: prod.splits) (metis apfst_conv apsnd_conv prod.collapse prod.inject)
        show ?thesis using ren [OF c(1)] c(2) never
          by (auto simp: no_handles_def tap_call_ok_def tap_found_def)
      qed
    qed
  qed
qed

lemma tap_bring_up_spec:
  "tap_bring_up sys name guid = (r, ups) \<Longrightarrow>
     open_handles ups = (case r of Inr g \<Rightarrow> [g] | Inl _ \<Rightarrow> []) \<and> (\<forall>g. r = Inr g \<longrightarrow> g = guid) \<and>
     list_all (tap_call_ok reg n) ups"
  by (auto simp: tap_bring_up_def open_handles_def tap_call_ok_def split: if_splits)

text \<open>
  Whatever the registry holds and the system answers, only a TAP adapter is opened, one that had the name
  or was renamed to it; every call is called for, and exactly the returned handle stays open.
\<close>

lemma open_tap_spec:
  assumes "open_tap sys name reg = (r, calls, reg')"
  shows "open_handles calls = (case r of Inr g \<Rightarrow> [g] | Inl _ \<Rightarrow> []) \<and> list_all (tap_call_ok reg name) calls \<and>
    (\<forall>g. r = Inr g \<longrightarrow> tap_found sys reg name calls g)"
proof -
  obtain r1 c1 reg1 where c: "tap_choose sys name reg = (r1, c1, reg1)" by (rule prod_cases3)
  note s = tap_choose_spec [OF c]
  show ?thesis
  proof (cases r1)
    case (Inl e)
    then have r: "r = Inl e" "calls = c1" using assms c by (simp_all add: open_tap_def)
    have "open_handles c1 = []" using s open_handles_after [of c1 "[]"] by (simp add: open_handles_def)
    then show ?thesis using s unfolding r by simp
  next
    case (Inr guid)
    obtain ups where b: "tap_bring_up sys name guid = (r, ups)" "calls = c1 @ ups"
      using assms c Inr by (cases "tap_bring_up sys name guid") (auto simp: open_tap_def)
    have "open_handles calls = open_handles ups" using open_handles_after s b(2) by blast
    moreover have "tap_found sys reg name calls guid" using s Inr b(2) by (auto simp: tap_found_def)
    ultimately show ?thesis using s tap_bring_up_spec [OF b(1), of reg name] b(2) by auto
  qed
qed

section \<open>Npcap: the filter\<close>

definition admitted :: "npcap \<Rightarrow> bytes \<Rightarrow> bool" where
  "admitted s p \<longleftrightarrow> 14 \<le> length p \<and> slice 6 12 p \<notin> set (np_injected s)"

text \<open>The packets up to the first error.\<close>

fun before_error :: "next_packet list \<Rightarrow> bytes list" where
  "before_error [] = []"
| "before_error (NextPacket p # rs) = p # before_error rs"
| "before_error (NextTimeout # rs) = before_error rs"
| "before_error (NextError e # rs) = []"

text \<open>A read gives the first packet that is admitted, so nothing else is skipped.\<close>

lemma npcap_read_first:
  "npcap_read_frame rs s = Inr f \<longleftrightarrow> find (admitted s) (before_error rs) = Some f"
  by (induction rs s rule: npcap_read_frame.induct) (auto simp: admitted_def)

lemma npcap_injected_grows: "set (np_injected s) \<subseteq> set (np_injected (snd (npcap_write_frame f s)))"
  by (auto simp: npcap_write_frame_def)

lemma npcap_run_admitted: "f \<in> set (npcap_run es s) \<Longrightarrow> admitted s f"
proof (induction es s rule: npcap_run.induct)
  case (2 g es s)
  then show ?case using npcap_injected_grows [of s g] by (auto simp: admitted_def)
next
  case (3 rs es s)
  then show ?case
    using npcap_read_first [of rs s f] find_in [of "admitted s" "before_error rs" f]
    by (cases "npcap_read_frame rs s") auto
qed simp

lemma npcap_never_echoes:
  assumes "14 \<le> length g"
  shows "list_all (\<lambda>f. 14 \<le> length f \<and> slice 6 12 f \<noteq> slice 6 12 g) (npcap_run (NpInject g # es) s)"
proof -
  have "g \<noteq> []" using assms by auto
  then have "slice 6 12 g \<in> set (np_injected (snd (npcap_write_frame g s)))" using assms by (simp add: npcap_write_frame_def)
  then show ?thesis using npcap_run_admitted [of _ es "snd (npcap_write_frame g s)"]
    unfolding list_all_iff npcap_run.simps admitted_def by metis
qed

text \<open>
  The filter has no end and no exception: a station whose address one injected frame carried, be it the
  local machine itself, is never captured again, whatever it sends.
\<close>

lemma npcap_silenced:
  assumes "14 \<le> length g" "list_all (\<lambda>p. slice 6 12 p = slice 6 12 g) (before_error rs)"
  shows "npcap_run [NpInject g, NpCapture rs] s = []"
proof (cases "npcap_read_frame rs (snd (npcap_write_frame g s))")
  case (Inr f)
  then have "f \<in> set (before_error rs)" using npcap_read_first find_in by metis
  then show ?thesis using npcap_never_echoes [OF assms(1), of "[NpCapture rs]" s] assms(2) Inr by (auto simp: list_all_iff)
qed simp

section \<open>WinTun, installers and SoftEther\<close>

lemma le_get_inj32: "length a = 4 \<Longrightarrow> length b = 4 \<Longrightarrow> (le_get a :: 32 word) = le_get b \<Longrightarrow> a = b"
  using put32_get32 [of "rev a"] put32_get32 [of "rev b"] by (simp add: le_get_def get32_def)

lemma le_get_inj16: "length a = 2 \<Longrightarrow> length b = 2 \<Longrightarrow> (le_get a :: 16 word) = le_get b \<Longrightarrow> a = b"
  using put16_get16 [of "rev a"] put16_get16 [of "rev b"] by (simp add: le_get_def get16_def)

text \<open>Two names share a device exactly when the first half of their hashes agrees.\<close>

lemma adapter_guid_iff:
  assumes "\<And>b. length (sha b) = 32"
  shows "adapter_guid sha m = adapter_guid sha n \<longleftrightarrow>
    take 16 (sha (str_bytes (''supervpn-wintun-v1:'' @ m))) = take 16 (sha (str_bytes (''supervpn-wintun-v1:'' @ n)))"
    (is "?g m = ?g n \<longleftrightarrow> take 16 ?a = take 16 ?b")
proof -
  have cut: "slice 0 4 h @ slice 4 6 h @ slice 6 8 h @ slice 8 16 h = take 16 h" if "length h = 32" for h :: bytes
    using that by (simp add: slice_concat) (simp add: slice_def)
  have l: "length ?a = 32" "length ?b = 32" by (rule assms)+
  have "?g m = ?g n \<longleftrightarrow> slice 0 4 ?a = slice 0 4 ?b \<and> slice 4 6 ?a = slice 4 6 ?b \<and> slice 6 8 ?a = slice 6 8 ?b \<and>
      slice 8 16 ?a = slice 8 16 ?b"
    using le_get_inj32 [of "slice 0 4 ?a" "slice 0 4 ?b"] le_get_inj16 [of "slice 4 6 ?a" "slice 4 6 ?b"]
      le_get_inj16 [of "slice 6 8 ?a" "slice 6 8 ?b"] l by (auto simp: adapter_guid_def Let_def)
  also have "\<dots> \<longleftrightarrow> take 16 ?a = take 16 ?b" using l unfolding cut [OF l(1), symmetric] cut [OF l(2), symmetric]
    by (simp add: append_eq_append_conv)
  finally show ?thesis .
qed

text \<open>On a machine without the DLL the path given holds what was embedded.\<close>

lemma wintun_fresh:
  assumes "\<And>p d left. wr p d = (True, left) \<Longrightarrow> left = Some d" "\<forall>d \<in> set ds. fs (d @ win_path ''/wintun.dll'') = None"
    and "distinct ds" "wintun_dll_path mk wr data ds fs = (Some p, fs')"
  shows "fs' p = Some data"
  using assms
proof (induction mk wr data ds fs rule: wintun_dll_path.induct)
  case (2 mk wr data d ds fs)
  let ?d = "d @ win_path ''/wintun.dll''"
  have fresh: "fs ?d = None" using "2.prems" by simp
  consider "\<not> mk d" | left where "mk d" "wr ?d data = (True, left)" | left where "mk d" "wr ?d data = (False, left)"
    by (cases "wr ?d data") (metis (full_types))
  then show ?case
  proof cases
    case 1
    then show ?thesis using "2.IH"(1) "2.prems" by simp
  next
    case 2
    then have "left = Some data" using "2.prems"(1) by metis
    then show ?thesis using "2.prems" fresh 2 by (auto simp: Let_def)
  next
    case 3
    have "\<forall>x \<in> set ds. (fs(?d := left)) (x @ win_path ''/wintun.dll'') = None" using "2.prems"(2,3) by auto
    moreover have "wintun_dll_path mk wr data ds (fs(?d := left)) = (Some p, fs')"
      using "2.prems"(4) 3 fresh by (simp add: Let_def)
    ultimately show ?thesis using "2.IH"(2) [of ?d False left] 3 "2.prems"(1,3) fresh by (simp del: fun_upd_apply)
  qed
qed simp

text \<open>
  A write that fails part-way leaves a file which the next start takes for the DLL: its contents are
  never compared.
\<close>

lemma wintun_partial_kept:
  assumes "mk d" "fs (d @ win_path ''/wintun.dll'') = None" "wr (d @ win_path ''/wintun.dll'') data = (False, Some part)"
    and "part \<noteq> data"
  shows "\<exists>fs'. wintun_dll_path mk wr data [d] fs = (None, fs') \<and>
    wintun_dll_path mk wr data [d] fs' = (Some (d @ win_path ''/wintun.dll''), fs') \<and> fs' (d @ win_path ''/wintun.dll'') \<noteq> Some data"
  using assms by (simp add: Let_def)

lemma wintun_session_leak: "open_dev name \<Longrightarrow> open_wintun create open_dev False sha name = (Inl WintunSessionFailed, 1)"
  by (simp add: open_wintun_def)

text \<open>The write of a frame the driver rejected is an error on TAP and a success on NDISUIO.\<close>

lemma write_result_lost:
  assumes "f \<noteq> []"
  shows "tap_write_frame True True IoFailed f = Inl ResultFailed" "ndisuio_write_frame True True IoFailed f = Inr ()"
  using assms by (simp_all add: tap_write_frame_def ndisuio_write_frame_def)

lemma overlapped_read_Inr:
  "overlapped_read event started polls result = Inr f \<longleftrightarrow> event \<and> started \<and> wait_polls polls \<and> result = IoDone f"
  by (auto simp: overlapped_read_def split: io_result.split)

lemma wait_polls_iff: "wait_polls ps \<longleftrightarrow> (\<exists>i < length ps. fst (ps ! i) \<and> (\<forall>j < i. \<not> snd (ps ! j)))"
proof (induction ps)
  case (Cons p ps)
  obtain s c where p: "p = (s, c)" by force
  show ?case using Cons.IH unfolding p
    by (auto simp: less_Suc_eq_0_disj nth_Cons' gr0_conv_Suc split: if_splits) (metis Suc_less_eq diff_Suc_1 Suc_pred less_Suc_eq_0_disj)+
qed simp

text \<open>A successful installation extracted every file of the package, in order.\<close>

lemma extract_driver_all:
  "extract_driver writable es = Inr files \<Longrightarrow>
     files = map (\<lambda>(n, _, d). (n, the d)) (filter (\<lambda>(_, is_dir, _). \<not> is_dir) es) \<and>
     (\<forall>(n, is_dir, d) \<in> set es. is_dir \<or> d \<noteq> None \<and> writable n)"
  by (induction writable es arbitrary: files rule: extract_driver.induct)
    (auto simp: map_sum_def split: if_splits option.splits sum.splits)

lemma installers_in:
  "installers es a b = (np, wp) \<Longrightarrow> (np = a \<or> np \<in> set es \<and> \<not> contains (to_lower np) ''winpcap'') \<and>
     (wp = b \<or> wp \<in> set es \<and> contains (to_lower wp) ''winpcap'')"
  by (induction es a b rule: installers.induct) (auto split: if_splits)

text \<open>The installer run is one of those embedded: on an old Windows never Npcap when WinPcap is there.\<close>

lemma install_npcap_choice:
  assumes "install_npcap names old = Some e"
  shows "e \<in> set names" "old \<Longrightarrow> snd (installers names '''' '''') \<noteq> '''' \<Longrightarrow> contains (to_lower e) ''winpcap''"
  using assms installers_in [of names "''''" "''''"]
  by (fastforce simp: install_npcap_def split: prod.splits if_splits)+

lemma soft_ether_names_iff:
  "n \<in> set (soft_ether_loop names es) \<longleftrightarrow>
     (\<exists>e. Some e \<in> set es \<and> ce_guid e \<noteq> '''' \<and> is_softether_adapter (ce_component e) (ce_desc e) \<and> names (ce_guid e) = Some n)"
  by (induction names es rule: soft_ether_loop.induct) (auto split: option.split)

text \<open>No TAP adapter is taken for one of SoftEther's, unless its description is.\<close>

lemma tap_not_softether:
  assumes "is_tap0901 e" "take 18 (to_lower (ce_desc e)) \<noteq> ''vpn client adapter''"
  shows "\<not> is_softether_adapter (ce_component e) (ce_desc e)"
proof -
  have "to_lower (ce_component e) = ''tap0901''" using assms(1) by (simp add: is_tap0901_def equal_fold_def to_lower_def lower_char_def)
  then show ?thesis using assms(2) by (simp add: is_softether_adapter_def)
qed

end
