(* ===== verification/Startup.thy ===== *)
theory Startup
  imports WinDevices GuiSession ConfigForm
begin

text \<open>
  How the Windows clients start and end: elevation (\<open>elevation_windows.go\<close>), one instance at a time
  (\<open>single_instance_windows.go\<close>), the order of \<open>main\<close> (\<open>main_windows.go\<close>), the firewall that is off
  while a client runs (\<open>internal/winfirewall\<close>), the logon task, the last configuration and the window
  (\<open>ui_windows.go\<close>), and the two single-purpose clients \<open>supervpn-client-bmgarage\<close> and
  \<open>supervpn-client-seema\<close>, which are one program with two sets of constants.
\<close>

section \<open>Elevation\<close>

text \<open>A process: its token, whether \<open>SUPERVPN_ELEVATION_TRIED\<close> is 1, its arguments.\<close>

record process =
  pr_elevated :: bool
  pr_tried :: bool
  pr_args :: "string list"

datatype elevation = Proceed bool | Handed string

text \<open>\<open>esc\<close> is \<open>syscall.EscapeArg\<close>, \<open>exe\<close> whether the program's path is known, \<open>shell\<close> whether \<open>runas\<close> succeeds.\<close>

definition runas_arguments :: "(string \<Rightarrow> string) \<Rightarrow> string list \<Rightarrow> string" where
  "runas_arguments esc args = join_with (CHR '' '') (map esc args)"

definition ensure_admin :: "(string \<Rightarrow> string) \<Rightarrow> bool \<Rightarrow> bool \<Rightarrow> process \<Rightarrow> elevation \<times> process" where
  "ensure_admin esc exe shell p =
     (if pr_elevated p then (Proceed True, p)
      else if pr_tried p then (Proceed False, p)
      else if \<not> exe then (Proceed False, p)
      else let p' = p\<lparr>pr_tried := True\<rparr>
        in if shell then (Handed (runas_arguments esc (pr_args p)), p') else (Proceed False, p'))"

text \<open>
  A relaunch: the child is elevated, or has inherited the environment because no boundary was crossed.
\<close>

definition relaunches :: "(string \<Rightarrow> string) \<Rightarrow> process \<Rightarrow> process \<Rightarrow> bool" where
  "relaunches esc p c \<longleftrightarrow> (\<exists>args p'. ensure_admin esc True True p = (Handed args, p') \<and>
     (pr_elevated c \<or> pr_tried c = pr_tried p'))"

section \<open>One instance\<close>

text \<open>
  The named mutex exists while a process holds a handle of it. A process that \<open>CreateMutex\<close> fails for
  runs without one, and so does the successor of an update whose attempts are used up.
\<close>

record desk =
  dk_holder :: "nat option"
  dk_running :: "nat set"
  dk_waiting :: "(nat, nat) amap"
  dk_unguarded :: "nat set"
  dk_raised :: nat

datatype mutex_result = MutexNew | MutexExists | MutexError

definition create_mutex :: "bool \<Rightarrow> desk \<Rightarrow> mutex_result" where
  "create_mutex fails d = (if fails then MutexError else if dk_holder d = None then MutexNew else MutexExists)"

text \<open>\<open>acquireSingleInstance\<close>: whether the process goes on; otherwise the other's window was raised.\<close>

definition acquire_single_instance :: "nat \<Rightarrow> bool \<Rightarrow> desk \<Rightarrow> bool \<times> desk" where
  "acquire_single_instance p fails d = (case create_mutex fails d of
      MutexNew \<Rightarrow> (True, d\<lparr>dk_holder := Some p\<rparr>)
    | MutexExists \<Rightarrow> (False, d\<lparr>dk_raised := dk_raised d + 1\<rparr>)
    | MutexError \<Rightarrow> (True, d))"

definition try_acquire_single_instance :: "nat \<Rightarrow> bool \<Rightarrow> desk \<Rightarrow> bool \<times> desk" where
  "try_acquire_single_instance p fails d = (case create_mutex fails d of
      MutexNew \<Rightarrow> (True, d\<lparr>dk_holder := Some p\<rparr>)
    | MutexExists \<Rightarrow> (False, d)
    | MutexError \<Rightarrow> (False, d))"

definition takeover_attempts :: nat where "takeover_attempts = 20"

text \<open>A process appears, a waiting successor makes its next attempt, a process ends.\<close>

datatype desk_event = Launch nat bool bool | Attempt nat bool | Quit nat

definition go_on :: "nat \<Rightarrow> desk \<Rightarrow> desk" where
  "go_on p d = d\<lparr>dk_running := insert p (dk_running d),
     dk_unguarded := (if dk_holder d = Some p then dk_unguarded d else insert p (dk_unguarded d))\<rparr>"

definition desk_step :: "desk \<Rightarrow> desk_event \<Rightarrow> desk" where
  "desk_step d e = (case e of
      Launch p relaunched fails \<Rightarrow>
        if p \<in> dk_running d \<or> map_of (dk_waiting d) p \<noteq> None then d
        else if relaunched then d\<lparr>dk_waiting := mput p takeover_attempts (dk_waiting d)\<rparr>
        else (case acquire_single_instance p fails d of (ok, d') \<Rightarrow> if ok then go_on p d' else d')
    | Attempt p fails \<Rightarrow>
        (case map_of (dk_waiting d) p of
           None \<Rightarrow> d
         | Some k \<Rightarrow>
             (case try_acquire_single_instance p fails d of (ok, d') \<Rightarrow>
                if ok \<or> k \<le> 1 then go_on p (d'\<lparr>dk_waiting := mdel p (dk_waiting d')\<rparr>)
                else d'\<lparr>dk_waiting := mput p (k - 1) (dk_waiting d')\<rparr>))
    | Quit p \<Rightarrow>
        d\<lparr>dk_running := dk_running d - {p}, dk_unguarded := dk_unguarded d - {p},
          dk_waiting := mdel p (dk_waiting d),
          dk_holder := (if dk_holder d = Some p then None else dk_holder d)\<rparr>)"

definition empty_desk :: desk where
  "empty_desk = \<lparr>dk_holder = None, dk_running = {}, dk_waiting = [], dk_unguarded = {}, dk_raised = 0\<rparr>"

section \<open>The order of a start\<close>

datatype start_act =
    RunAs string | ExitLauncher | DisableSoftEther | WaitForMutex | RaiseOther | OpenLog | CleanOld | CheckUpdate string | RunUi

text \<open>\<open>main\<close>: what a process does, in order; \<open>first\<close> says whether the mutex was new when it was asked for.\<close>

definition start_main :: "(string \<Rightarrow> string) \<Rightarrow> bool \<Rightarrow> bool \<Rightarrow> bool \<Rightarrow> bool \<Rightarrow> string \<Rightarrow> process \<Rightarrow> start_act list" where
  "start_main esc exe shell relaunched first asset p =
     (case ensure_admin esc exe shell p of
        (Handed args, _) \<Rightarrow> [RunAs args, ExitLauncher]
      | (Proceed _, _) \<Rightarrow>
          DisableSoftEther #
          (if relaunched then [WaitForMutex, OpenLog, CleanOld, RunUi]
           else if \<not> first then [RaiseOther]
           else [OpenLog, CleanOld, CheckUpdate asset, RunUi]))"

text \<open>The window that is raised: the first one whose title starts with the program's name.\<close>

definition raised_window :: "string \<Rightarrow> string list \<Rightarrow> nat option" where
  "raised_window prefix titles =
     map_option fst (find (\<lambda>(i, t). take (length prefix) t = prefix) (enumerate 0 titles))"

section \<open>The firewall\<close>

definition firewall_command :: "string \<Rightarrow> string list" where
  "firewall_command state = [''netsh'', ''advfirewall'', ''set'', ''allprofiles'', ''state'', state]"

text \<open>\<open>Disable\<close> and \<open>Enable\<close> on the firewall of the machine; \<open>ok\<close> says whether \<open>netsh\<close> ended in time and well.\<close>

definition firewall_run :: "string \<Rightarrow> bool \<Rightarrow> bool \<Rightarrow> bool" where
  "firewall_run state ok on = (if ok then state = ''on'' else on)"

text \<open>A window's application: its firewall, whether it runs and is visible, whether its closing handler is attached.\<close>

record win_app =
  wa_firewall :: bool
  wa_alive :: bool
  wa_visible :: bool
  wa_handler :: bool

text \<open>
  What happens to it: the goroutine that disables the firewall ends, the window is closed, minimised or
  shown again, \<open>Quit\<close> is chosen in the tray (which leaves the message loop without closing the window),
  the process dies. The flag of the closing is \<open>minimize_to_tray\<close>.
\<close>

datatype win_event = Disabled bool | CloseWindow bool bool | Minimized bool | ShowWindow | TrayQuit | Killed

definition tray_closing :: "bool \<Rightarrow> bool \<Rightarrow> win_app \<Rightarrow> win_app" where
  "tray_closing minimize ok a =
     (if \<not> wa_handler a then a\<lparr>wa_alive := False\<rparr>
      else if minimize then a\<lparr>wa_visible := False\<rparr>
      else a\<lparr>wa_firewall := firewall_run ''on'' ok (wa_firewall a), wa_alive := False\<rparr>)"

text \<open>\<open>netsh\<close> is a process of its own: the one that turns the firewall off may end after the client has.\<close>

definition late_disable :: "win_app \<Rightarrow> win_event \<Rightarrow> win_app" where
  "late_disable a e = (case e of Disabled ok \<Rightarrow> a\<lparr>wa_firewall := firewall_run ''off'' ok (wa_firewall a)\<rparr> | _ \<Rightarrow> a)"

definition win_step :: "win_app \<Rightarrow> win_event \<Rightarrow> win_app" where
  "win_step a e =
     (if \<not> wa_alive a then late_disable a e
      else case e of
          Disabled ok \<Rightarrow> a\<lparr>wa_firewall := firewall_run ''off'' ok (wa_firewall a)\<rparr>
        | CloseWindow minimize ok \<Rightarrow> tray_closing minimize ok a
        | Minimized minimize \<Rightarrow> if minimize \<and> wa_handler a then a\<lparr>wa_visible := False\<rparr> else a
        | ShowWindow \<Rightarrow> a\<lparr>wa_visible := True\<rparr>
        | TrayQuit \<Rightarrow> if wa_handler a then a\<lparr>wa_alive := False\<rparr> else a
        | Killed \<Rightarrow> a\<lparr>wa_alive := False\<rparr>)"

text \<open>\<open>setupTray\<close> attaches the handler after the icon was made; a single-purpose client always does.\<close>

definition win_start :: "bool \<Rightarrow> bool \<Rightarrow> win_app" where
  "win_start icon on = \<lparr>wa_firewall = on, wa_alive = True, wa_visible = True, wa_handler = icon\<rparr>"

definition fixed_step :: "win_app \<Rightarrow> win_event \<Rightarrow> win_app" where
  "fixed_step a e =
     (if \<not> wa_alive a then late_disable a e
      else case e of
          Disabled ok \<Rightarrow> a\<lparr>wa_firewall := firewall_run ''off'' ok (wa_firewall a)\<rparr>
        | CloseWindow _ ok \<Rightarrow> a\<lparr>wa_firewall := firewall_run ''on'' ok (wa_firewall a), wa_alive := False\<rparr>
        | Killed \<Rightarrow> a\<lparr>wa_alive := False\<rparr>
        | _ \<Rightarrow> a)"

section \<open>The main window\<close>

text \<open>Go's division of integers, which truncates, and \<open>centerWindow\<close>.\<close>

definition go_div :: "int \<Rightarrow> int \<Rightarrow> int" where
  "go_div a b = sgn a * sgn b * (\<bar>a\<bar> div \<bar>b\<bar>)"

definition center_axis :: "int \<Rightarrow> int \<Rightarrow> int" where
  "center_axis screen extent = (let x = go_div (screen - extent) 2 in if x < 0 then 0 else x)"

definition center_window :: "int \<times> int \<Rightarrow> int \<times> int \<Rightarrow> int \<times> int" where
  "center_window screen extent = (center_axis (fst screen) (fst extent), center_axis (snd screen) (snd extent))"

text \<open>The last configuration's file: what is written and what is read back.\<close>

definition last_config_file :: "string option \<Rightarrow> string" where
  "last_config_file dir = (case dir of None \<Rightarrow> '''' | Some d \<Rightarrow> d @ win_path ''/superVPN/.last_config'')"

definition save_last_config_path :: "string option \<Rightarrow> string \<Rightarrow> (string \<Rightarrow> string option) \<Rightarrow> string \<Rightarrow> string option" where
  "save_last_config_path dir path fs =
     (if last_config_file dir = '''' then fs else fs(last_config_file dir \<mapsto> path))"

definition read_last_config_path :: "string option \<Rightarrow> (string \<Rightarrow> string option) \<Rightarrow> string" where
  "read_last_config_path dir fs =
     (if last_config_file dir = '''' then ''''
      else case fs (last_config_file dir) of None \<Rightarrow> '''' | Some b \<Rightarrow> trim_space b)"

text \<open>The program's path inside the script of the logon task, between single quotes.\<close>

definition task_action :: "string \<Rightarrow> string" where
  "task_action exe = ''New-ScheduledTaskAction -Execute '' @ [CHR 0x27] @ double_quotes exe @ [CHR 0x27]"

text \<open>\<open>listAdapterNames\<close>: the interfaces offered for bridging.\<close>

definition list_adapter_names :: "adapter list \<Rightarrow> os_iface list option \<Rightarrow> string list" where
  "list_adapter_names ads ifs =
     (case ifs of None \<Rightarrow> [] | Some is \<Rightarrow> filter (\<lambda>n. \<not> is_excluded_from_bridge ads n) (map if_name is))"

text \<open>What a click on the car's address or VIN puts on the clipboard.\<close>

definition link_activated :: "string \<Rightarrow> string \<Rightarrow> string \<Rightarrow> string option" where
  "link_activated ip vin link =
     (let v = (if link = ''ip'' then ip else if link = ''vin'' then vin else '''') in if v = '''' then None else Some v)"

text \<open>The question about Npcap, and the button after an installation, whatever its result.\<close>

definition maybe_install_npcap :: "bool \<Rightarrow> bool \<Rightarrow> bool" where
  "maybe_install_npcap installed yes = (if installed then False else yes)"

datatype npcap_button = Reinstall | InstallNow

definition update_npcap_button :: "bool \<Rightarrow> npcap_button \<times> bool" where
  "update_npcap_button installed = (if installed then Reinstall else InstallNow, True)"

section \<open>The status dot\<close>

text \<open>
  \<open>makeDotBitmap\<close> in exact arithmetic: for a pixel of the 16 by 16 image, \<open>dot_dist x y\<close> is the square
  of twice its distance to the centre. The radius is 6.5, and in the next half ring of one pixel the alpha
  is \<open>(7.5 - dist) * 255\<close> rounded down.
\<close>

definition dot_dist :: "nat \<Rightarrow> nat \<Rightarrow> int" where
  "dot_dist x y = (2 * int x - 15)\<^sup>2 + (2 * int y - 15)\<^sup>2"

definition edge_alpha :: "int \<Rightarrow> nat" where
  "edge_alpha q = last (filter (\<lambda>k. 65025 * q \<le> (3825 - 2 * int k)\<^sup>2) [0..<256])"

text \<open>The alpha of a pixel; 0 for one that is not set.\<close>

definition dot_alpha :: "nat \<Rightarrow> nat \<Rightarrow> nat" where
  "dot_alpha x y = (let q = dot_dist x y in if q \<le> 169 then 255 else if q \<le> 225 then edge_alpha q else 0)"

type_synonym rgb = "nat \<times> nat \<times> nat"

definition dot_color :: "dot \<Rightarrow> rgb" where
  "dot_color d = (case d of DotGray \<Rightarrow> (140, 140, 140) | DotGreen \<Rightarrow> (60, 185, 80) | DotYellow \<Rightarrow> (220, 180, 0)
     | DotRed \<Rightarrow> (210, 50, 50))"

definition make_dot_bitmap :: "rgb \<Rightarrow> (rgb \<times> nat) list list" where
  "make_dot_bitmap col = map (\<lambda>y. map (\<lambda>x. let a = dot_alpha x y in (if a = 0 then (0, 0, 0) else col, a)) [0..<16]) [0..<16]"

section \<open>The single-purpose clients\<close>

record fixed_client =
  fx_name :: string
  fx_server :: string
  fx_hub :: "16 word"
  fx_login :: string
  fx_password :: string
  fx_mutex :: string

definition bmgarage :: fixed_client where
  "bmgarage = \<lparr>fx_name = ''bmgarage'', fx_server = ''49.13.4.85:5555'', fx_hub = 5, fx_login = ''bingo'',
     fx_password = ''bInG0!'', fx_mutex = win_path ''Global/superVPN-bmgarage-client''\<rparr>"

definition seema :: fixed_client where
  "seema = \<lparr>fx_name = ''seema'', fx_server = ''81.27.241.25:5555'', fx_hub = 2, fx_login = ''seema'',
     fx_password = ''cApIb@!'', fx_mutex = win_path ''Global/superVPN-seema-client''\<rparr>"

text \<open>\<open>connect\<close>: the configuration it builds, and what the window shows while and after it opens an adapter.\<close>

definition fixed_config :: "fixed_client \<Rightarrow> client_config" where
  "fixed_config x = \<lparr>cc_server = fx_server x, cc_server_tcp = '''', cc_status_listen = '''', cc_hub_id = fx_hub x,
     cc_login = fx_login x, cc_password = fx_password x, cc_transport = ''auto'', cc_mode = ''auto'',
     cc_tun_name = '''', cc_tun_ip = '''', cc_fec = fec_defaults \<lparr>fc_k = 0, fc_r = 0, fc_delay = 0\<rparr>,
     cc_tls_sni = '''', cc_tls_skip = False,
     cc_udp = udp_defaults \<lparr>ud_knock_count = 0, ud_knock_size = 0, ud_attempts = 0\<rparr>,
     cc_bridge = bridge_defaults \<lparr>br_tap = '''', br_nic = '''', br_setup = '''', br_mss_clamp = 0\<rparr>,
     cc_reality = no_reality, cc_mirrors = [], cc_timeout = '''', cc_minimize = False, cc_auto_connect = False,
     cc_start_windows = False, cc_no_battery = False\<rparr>"

definition fixed_connect :: "(adapter_error \<Rightarrow> string) \<Rightarrow> adapter_env \<Rightarrow> client_config \<Rightarrow> garage_view \<Rightarrow> opened option \<times> garage_view" where
  "fixed_connect msg env cfg a =
     (let a0 = a\<lparr>ga_drop := None, ga_connected := False\<rparr>
      in case open_adapter env cfg of
          Inl e \<Rightarrow> (None, a0\<lparr>ga_text := ''Error: '' @ msg e, ga_dot := DotRed\<rparr>)
        | Inr o' \<Rightarrow> (Some o', a0))"

definition garage_connect :: "(adapter_error \<Rightarrow> string) \<Rightarrow> adapter_env \<Rightarrow> garage_view \<Rightarrow> opened option \<times> garage_view" where
  "garage_connect msg env = fixed_connect msg env (fixed_config bmgarage)"

definition seema_connect :: "(adapter_error \<Rightarrow> string) \<Rightarrow> adapter_env \<Rightarrow> garage_view \<Rightarrow> opened option \<times> garage_view" where
  "seema_connect msg env = fixed_connect msg env (fixed_config seema)"

text \<open>What the two share with the GUI is there in copies: elevation, the mutex, the dot and the car's line.\<close>

definition garage_elevate :: "(string \<Rightarrow> string) \<Rightarrow> bool \<Rightarrow> bool \<Rightarrow> process \<Rightarrow> elevation \<times> process" where
  "garage_elevate = ensure_admin"

definition seema_elevate :: "(string \<Rightarrow> string) \<Rightarrow> bool \<Rightarrow> bool \<Rightarrow> process \<Rightarrow> elevation \<times> process" where
  "seema_elevate = ensure_admin"

definition garage_acquire :: "nat \<Rightarrow> bool \<Rightarrow> desk \<Rightarrow> bool \<times> desk" where
  "garage_acquire = acquire_single_instance"

definition seema_acquire :: "nat \<Rightarrow> bool \<Rightarrow> desk \<Rightarrow> bool \<times> desk" where
  "seema_acquire = acquire_single_instance"

definition garage_try_acquire :: "nat \<Rightarrow> bool \<Rightarrow> desk \<Rightarrow> bool \<times> desk" where
  "garage_try_acquire = try_acquire_single_instance"

definition seema_try_acquire :: "nat \<Rightarrow> bool \<Rightarrow> desk \<Rightarrow> bool \<times> desk" where
  "seema_try_acquire = try_acquire_single_instance"

definition garage_raised_window :: "string list \<Rightarrow> nat option" where
  "garage_raised_window = raised_window (fx_name bmgarage)"

definition seema_raised_window :: "string list \<Rightarrow> nat option" where
  "seema_raised_window = raised_window (fx_name seema)"

definition garage_dot_bitmap :: "dot \<Rightarrow> (rgb \<times> nat) list list" where
  "garage_dot_bitmap d = make_dot_bitmap (dot_color d)"

definition seema_dot_bitmap :: "dot \<Rightarrow> (rgb \<times> nat) list list" where
  "seema_dot_bitmap d = make_dot_bitmap (dot_color d)"

definition garage_link_markup :: "gw_info option \<Rightarrow> string \<times> string \<times> string" where
  "garage_link_markup = bmw_link_markup"

definition seema_link_markup :: "gw_info option \<Rightarrow> string \<times> string \<times> string" where
  "seema_link_markup = bmw_link_markup"

definition garage_link_activated :: "string \<Rightarrow> string \<Rightarrow> string \<Rightarrow> string option" where
  "garage_link_activated = link_activated"

definition seema_link_activated :: "string \<Rightarrow> string \<Rightarrow> string \<Rightarrow> string option" where
  "seema_link_activated = link_activated"

text \<open>\<open>doRefresh\<close> of the second client, and the counter both show while connected.\<close>

definition seema_refresh :: "time \<Rightarrow> session_stats \<Rightarrow> garage_view \<Rightarrow> garage_view" where
  "seema_refresh = garage_refresh"

definition garage_ago :: "time \<Rightarrow> garage_view \<Rightarrow> string" where
  "garage_ago now a = (if ga_connected a then format_ago now (ga_drop a) else '''')"

definition seema_ago :: "time \<Rightarrow> garage_view \<Rightarrow> string" where
  "seema_ago = garage_ago"

text \<open>\<open>run\<close>: without Npcap the installer and nothing else; the window, then everything it starts.\<close>

datatype ui_act =
    NpcapWizard | NpcapQuestion | NpcapButton | InitConfig | LogTicker | ShowError | FixSize | PlaceWindow int int | SetDot dot | FirewallOff | RestoreOnClose | Discover string | AgoTicker | StartVpn | ToFront

definition fixed_run :: "bool \<Rightarrow> bool \<Rightarrow> int \<times> int \<Rightarrow> int \<times> int \<Rightarrow> ui_act list" where
  "fixed_run npcap window screen extent =
     (if \<not> npcap then [NpcapWizard]
      else if \<not> window then [ShowError]
      else case center_window screen extent of (x, y) \<Rightarrow>
        [FixSize, PlaceWindow x y, SetDot DotYellow, FirewallOff, RestoreOnClose, Discover ''supervpn'', AgoTicker, StartVpn, ToFront])"

definition garage_run :: "bool \<Rightarrow> bool \<Rightarrow> int \<times> int \<Rightarrow> int \<times> int \<Rightarrow> ui_act list" where
  "garage_run = fixed_run"

definition seema_run :: "bool \<Rightarrow> bool \<Rightarrow> int \<times> int \<Rightarrow> int \<times> int \<Rightarrow> ui_act list" where
  "seema_run = fixed_run"

text \<open>\<open>runApp\<close> of the GUI: the window exists, or an error is shown.\<close>

definition win_run_app :: "bool \<Rightarrow> int \<times> int \<Rightarrow> int \<times> int \<Rightarrow> string \<Rightarrow> bool \<Rightarrow> ui_act list" where
  "win_run_app window screen extent tun auto =
     (if \<not> window then [ShowError]
      else case center_window screen extent of (x, y) \<Rightarrow>
        [PlaceWindow x y, RestoreOnClose, SetDot DotGray, InitConfig, NpcapButton, FirewallOff,
         Discover (if trim_space tun = '''' then ''supervpn'' else trim_space tun), LogTicker, AgoTicker, NpcapQuestion] @
        (if auto then [StartVpn] else []) @ [ToFront])"

definition garage_main :: "(string \<Rightarrow> string) \<Rightarrow> bool \<Rightarrow> bool \<Rightarrow> bool \<Rightarrow> bool \<Rightarrow> process \<Rightarrow> start_act list" where
  "garage_main esc exe shell relaunched first = start_main esc exe shell relaunched first ''supervpn-bmgarage-windows-amd64.exe''"

definition seema_main :: "(string \<Rightarrow> string) \<Rightarrow> bool \<Rightarrow> bool \<Rightarrow> bool \<Rightarrow> bool \<Rightarrow> process \<Rightarrow> start_act list" where
  "seema_main esc exe shell relaunched first = start_main esc exe shell relaunched first ''supervpn-seema-windows-amd64.exe''"

section \<open>Elevation and instances: properties\<close>

text \<open>A relaunched process never relaunches: there is no loop of relaunches.\<close>

lemma relaunch_once: "relaunches esc p c \<Longrightarrow> \<not> relaunches esc c d"
  by (auto simp: relaunches_def ensure_admin_def Let_def split: if_splits)

lemma proceeds: "fst (ensure_admin esc exe shell p) = Proceed True \<longleftrightarrow> pr_elevated p"
  by (auto simp: ensure_admin_def Let_def)

text \<open>The launcher that hands over touches nothing else.\<close>

lemma launcher_only_hands_over:
  assumes "\<not> pr_elevated p" "\<not> pr_tried p" "exe" "shell"
  shows "start_main esc exe shell relaunched first asset p = [RunAs (runas_arguments esc (pr_args p)), ExitLauncher]"
  using assms by (simp add: start_main_def ensure_admin_def Let_def)

lemma successor_runs:
  assumes "fst (ensure_admin esc exe shell p) = Proceed b"
  shows "RunUi \<in> set (start_main esc exe shell True first asset p)"
    "CheckUpdate a \<notin> set (start_main esc exe shell True first asset p)"
  using assms by (cases "ensure_admin esc exe shell p"; auto simp: start_main_def)+

definition desk_ok :: "desk \<Rightarrow> bool" where
  "desk_ok d \<longleftrightarrow> (\<forall>p. dk_holder d = Some p \<longrightarrow> p \<in> dk_running d \<and> p \<notin> dk_unguarded d) \<and>
     (\<forall>p \<in> dk_running d. dk_holder d = Some p \<or> p \<in> dk_unguarded d) \<and> dk_unguarded d \<subseteq> dk_running d \<and>
     (\<forall>p k. map_of (dk_waiting d) p = Some k \<longrightarrow> p \<notin> dk_running d \<and> 1 \<le> k \<and> k \<le> takeover_attempts)"

lemma desk_ok_step: "desk_ok d \<Longrightarrow> desk_ok (desk_step d e)"
proof (cases e)
  case (Launch p relaunched fails)
  then show "desk_ok d \<Longrightarrow> desk_ok (desk_step d e)"
    by (auto simp: desk_ok_def desk_step_def acquire_single_instance_def create_mutex_def go_on_def takeover_attempts_def)
next
  case (Attempt p fails)
  show "desk_ok (desk_step d e)" if ok: "desk_ok d"
  proof (cases "map_of (dk_waiting d) p")
    case (Some k)
    have "k \<le> takeover_attempts" using ok Some unfolding desk_ok_def by blast
    then have "k - 1 \<le> takeover_attempts" by simp
    then show ?thesis using ok Attempt Some
      by (cases "dk_holder d") (auto simp: desk_ok_def desk_step_def try_acquire_single_instance_def create_mutex_def go_on_def)
  qed (use ok Attempt in \<open>simp add: desk_step_def\<close>)
next
  case (Quit p)
  then show "desk_ok d \<Longrightarrow> desk_ok (desk_step d e)" by (auto simp: desk_ok_def desk_step_def split: if_splits)
qed

interpretation desk: machine empty_desk desk_step desk_ok
  by unfold_locales (simp_all add: desk_ok_step, simp add: desk_ok_def empty_desk_def)

text \<open>Two processes that run are not both guarded: at most one holds the mutex.\<close>

lemma guarded_once: "desk_ok d \<Longrightarrow> {p, q} \<subseteq> dk_running d \<Longrightarrow> p \<noteq> q \<Longrightarrow> p \<in> dk_unguarded d \<or> q \<in> dk_unguarded d"
  unfolding desk_ok_def by (metis insert_subset option.inject)

text \<open>Without errors of \<open>CreateMutex\<close> and without updates none is ever unguarded.\<close>

definition ordinary :: "desk_event \<Rightarrow> bool" where
  "ordinary e = (case e of Launch _ relaunched fails \<Rightarrow> \<not> relaunched \<and> \<not> fails | Attempt _ _ \<Rightarrow> True | Quit _ \<Rightarrow> True)"

lemma ordinary_guarded:
  "list_all ordinary es \<Longrightarrow> dk_unguarded d = {} \<Longrightarrow> dk_waiting d = [] \<Longrightarrow>
     dk_unguarded (foldl desk_step d es) = {} \<and> dk_waiting (foldl desk_step d es) = []"
proof (induction es arbitrary: d)
  case (Cons e es)
  have "dk_unguarded (desk_step d e) = {} \<and> dk_waiting (desk_step d e) = []"
    using Cons.prems by (auto simp: ordinary_def desk_step_def acquire_single_instance_def create_mutex_def go_on_def
        split: desk_event.splits)
  then show ?case using Cons by simp
qed simp

text \<open>
  A successor that waits in vain runs without the mutex, and nothing makes up for it: once its
  predecessor has ended, a third process finds the mutex free.
\<close>

definition slow_takeover :: "desk_event list" where
  "slow_takeover = Launch 0 False False # Launch 1 True False # replicate 20 (Attempt 1 False) @ [Quit 0, Launch 2 False False]"

lemma slow_takeover_two: "dk_running (foldl desk_step empty_desk slow_takeover) = {1, 2}"
  by code_simp

section \<open>The firewall: properties\<close>

text \<open>Closing the window restores the firewall when the goroutine that turned it off is done.\<close>

definition quiet :: "win_event \<Rightarrow> bool" where
  "quiet e = (case e of Disabled ok \<Rightarrow> \<not> ok | _ \<Rightarrow> True)"

lemma ended_stays:
  "\<not> wa_alive a \<Longrightarrow> list_all quiet es \<Longrightarrow> foldl win_step a es = a"
  "\<not> wa_alive a \<Longrightarrow> list_all quiet es \<Longrightarrow> foldl fixed_step a es = a"
  by (induction es) (auto simp: win_step_def fixed_step_def late_disable_def quiet_def firewall_run_def split: win_event.splits)

lemma handler_kept: "wa_handler (foldl win_step a es) = wa_handler a"
proof -
  have "wa_handler (win_step a e) = wa_handler a" for a e
    by (simp add: win_step_def late_disable_def tray_closing_def split: win_event.split)
  then show ?thesis by (induction es arbitrary: a) simp_all
qed

lemma close_restores:
  assumes "wa_alive (foldl win_step (win_start True on) es)" "list_all quiet rest"
  shows "wa_firewall (foldl win_step (win_start True on) (es @ CloseWindow False True # rest))"
proof -
  let ?a = "foldl win_step (win_start True on) es"
  have h: "wa_handler ?a" by (simp add: handler_kept win_start_def)
  then have s: "win_step ?a (CloseWindow False True) = ?a\<lparr>wa_firewall := True, wa_alive := False\<rparr>"
    using assms(1) by (simp add: win_step_def tray_closing_def firewall_run_def)
  then have "\<not> wa_alive (win_step ?a (CloseWindow False True))" by simp
  then show ?thesis using ended_stays(1) [OF _ assms(2)] s by simp
qed

lemma fixed_close_restores:
  assumes "wa_alive (foldl fixed_step (win_start True on) es)" "list_all quiet rest"
  shows "wa_firewall (foldl fixed_step (win_start True on) (es @ CloseWindow m True # rest))"
proof -
  let ?a = "foldl fixed_step (win_start True on) es"
  have s: "fixed_step ?a (CloseWindow m True) = ?a\<lparr>wa_firewall := True, wa_alive := False\<rparr>"
    using assms(1) by (simp add: fixed_step_def firewall_run_def)
  then have "\<not> wa_alive (fixed_step ?a (CloseWindow m True))" by simp
  then show ?thesis using ended_stays(2) [OF _ assms(2)] s by simp
qed

text \<open>
  With the window hidden to the tray on closing, the only way out is the tray's Quit, which runs no closing
  handler: the firewall the client turned off stays off.
\<close>

definition leaves :: "win_event \<Rightarrow> bool" where
  "leaves e = (case e of CloseWindow minimize _ \<Rightarrow> minimize | Killed \<Rightarrow> False | _ \<Rightarrow> True)"

lemma hidden_keeps_off:
  "list_all leaves es \<Longrightarrow> \<not> wa_firewall a \<Longrightarrow> wa_handler a \<Longrightarrow>
     \<not> wa_firewall (foldl win_step a es) \<and> (wa_alive a \<longrightarrow> TrayQuit \<notin> set es \<longrightarrow> wa_alive (foldl win_step a es))"
proof (induction es arbitrary: a)
  case (Cons e es)
  have "\<not> wa_firewall (win_step a e) \<and> wa_handler (win_step a e) \<and> (wa_alive a \<longrightarrow> e \<noteq> TrayQuit \<longrightarrow> wa_alive (win_step a e))"
    using Cons.prems by (auto simp: leaves_def win_step_def late_disable_def tray_closing_def firewall_run_def split: win_event.splits)
  then show ?case using Cons.IH [of "win_step a e"] Cons.prems(1) by auto
qed simp

lemma tray_quit_leaves_off:
  "list_all leaves es \<Longrightarrow> \<not> wa_firewall (foldl win_step (win_start True on) (Disabled True # es @ [TrayQuit]))"
  using hidden_keeps_off [of "es @ [TrayQuit]" "win_step (win_start True on) (Disabled True)"]
  by (simp add: leaves_def win_step_def win_start_def firewall_run_def)

text \<open>Closing it before the goroutine is done leaves it off as well, and a firewall that was off before ends on.\<close>

lemma early_close_leaves_off: "\<not> wa_firewall (foldl win_step (win_start icon on) [CloseWindow False True, Disabled True])"
  by (simp add: win_step_def win_start_def tray_closing_def late_disable_def firewall_run_def)

section \<open>The window and the dot: properties\<close>

lemma center_axis_fits:
  assumes "0 \<le> extent"
  shows "0 \<le> center_axis screen extent" "extent \<le> screen \<Longrightarrow> center_axis screen extent + extent \<le> screen"
    "extent \<le> screen \<Longrightarrow> screen - (center_axis screen extent + extent) - center_axis screen extent \<in> {0, 1}"
    "screen < extent \<Longrightarrow> center_axis screen extent = 0"
proof -
  show "0 \<le> center_axis screen extent" by (simp add: center_axis_def Let_def)
  show "center_axis screen extent = 0" if "screen < extent"
    using that by (simp add: center_axis_def Let_def go_div_def sgn_if)
  have fit: "center_axis screen extent = (screen - extent) div 2" if "extent \<le> screen"
    using that by (auto simp: center_axis_def Let_def go_div_def sgn_if)
  show "center_axis screen extent + extent \<le> screen" if "extent \<le> screen" unfolding fit [OF that] using that by linarith
  show "screen - (center_axis screen extent + extent) - center_axis screen extent \<in> {0, 1}" if "extent \<le> screen"
    unfolding fit [OF that] using that by simp presburger
qed

lemma dot_symmetric: "x < 16 \<Longrightarrow> dot_alpha (15 - x) y = dot_alpha x y" "dot_alpha x y = dot_alpha y x"
proof -
  show "dot_alpha (15 - x) y = dot_alpha x y" if "x < 16"
  proof -
    have "2 * int (15 - x) - 15 = - (2 * int x - 15)" using that by (simp add: of_nat_diff)
    then have "(2 * int (15 - x) - 15)\<^sup>2 = (2 * int x - 15)\<^sup>2" by (simp only: power2_minus)
    then show ?thesis by (simp add: dot_alpha_def dot_dist_def)
  qed
  show "dot_alpha x y = dot_alpha y x" by (simp add: dot_alpha_def dot_dist_def add.commute)
qed

lemma edge_alpha_spec:
  assumes "0 \<le> q" "q \<le> 225"
  shows "edge_alpha q < 256 \<and> 65025 * q \<le> (3825 - 2 * int (edge_alpha q))\<^sup>2"
proof -
  let ?ks = "filter (\<lambda>k. 65025 * q \<le> (3825 - 2 * int k)\<^sup>2) [0..<256]"
  have "0 \<in> set ?ks" using assms by simp
  then have "?ks \<noteq> []" by fastforce
  then have "last ?ks \<in> set ?ks" by (rule last_in_set)
  then show ?thesis by (simp add: edge_alpha_def)
qed

lemma last_config_round_trip:
  assumes "trim_space path = path"
  shows "read_last_config_path (Some d) (save_last_config_path (Some d) path fs) = path"
  using assms by (simp add: read_last_config_path_def save_last_config_path_def last_config_file_def win_path_def)

lemma task_action_read_back:
  "ps_literal (drop 34 (task_action exe)) = Some (exe, [])"
proof -
  have d: "drop 34 (task_action exe) = double_quotes exe @ [CHR 0x27]" by (simp add: task_action_def)
  show ?thesis unfolding d using ps_literal_quoted [of "[]" exe] by simp
qed

lemma fixed_configs_valid: "validate_client (fixed_config bmgarage) = None" "validate_client (fixed_config seema) = None"
  by code_simp+

text \<open>The two single-purpose clients do not keep each other out, although both use the adapter \<open>supervpn\<close>.\<close>

lemma fixed_clients_collide:
  "fx_mutex bmgarage \<noteq> fx_mutex seema" "tun_name_of (fixed_config bmgarage) = tun_name_of (fixed_config seema)"
  by code_simp+

interpretation seema_drops: drop_tracker seema_refresh ga_connected ga_drop
  by unfold_locales (simp_all add: seema_refresh_def garage_refresh_def Let_def)

lemma offered_adapters: "n \<in> set (list_adapter_names ads ifs) \<Longrightarrow> \<not> is_excluded_from_bridge ads n"
  by (auto simp: list_adapter_names_def split: option.splits)

text \<open>Without a tray icon no closing handler is attached, and closing leaves it off too.\<close>

lemma no_icon_leaves_off: "\<not> wa_firewall (foldl win_step (win_start False on) [Disabled True, CloseWindow False True])"
  by (simp add: win_step_def win_start_def tray_closing_def firewall_run_def)

lemma prior_state_forgotten: "wa_firewall (foldl fixed_step (win_start icon False) [Disabled True, CloseWindow False True])"
  by (simp add: fixed_step_def win_start_def firewall_run_def)

end
