(* ===== verification/Transports.thy ===== *)
theory Transports
  imports Upstream Listeners CommandLine
begin

text \<open>
  The glue around the wire: UDP sockets with the knock (\<open>internal/transport/udp.go\<close>), dialling and accepting
  TLS (\<open>tls.go\<close>), the Reality dialer and the camouflage proxy (\<open>reality_client.go\<close>, \<open>reality_server.go\<close>), the
  key pool's generator and the command line of the server (\<open>cmd/supervpn-server/main.go\<close>), the connectivity
  test (\<open>conntest.go\<close>) and the cross-platform GUI's \<open>main.go\<close>. What a socket or a TLS stack answers is an
  argument.
\<close>

section \<open>UDP\<close>

definition udp_read_buf :: nat where "udp_read_buf = 2048"

text \<open>One round of \<open>Recv\<close>: whether the context is cancelled, and what the socket answers.\<close>

datatype udp_result = UdpData bytes string | UdpTimeout | UdpFailed
datatype recv_error = RecvCancelled | RecvFailed

fun udp_recv :: "(bool \<times> udp_result) list \<Rightarrow> recv_error + bytes \<times> string" where
  "udp_recv [] = Inl RecvCancelled"
| "udp_recv ((cancelled, r) # rs) =
     (if cancelled then Inl RecvCancelled
      else case r of
          UdpData d a \<Rightarrow> Inr (take udp_read_buf d, a)
        | UdpTimeout \<Rightarrow> udp_recv rs
        | UdpFailed \<Rightarrow> Inl RecvFailed)"

datatype dial_udp_error = ResolveFailed | DialFailed

text \<open>Resolving and dialling: \<open>resolve\<close> gives the address, \<open>open_socket\<close> says whether the socket opens.\<close>

definition dial_udp :: "(string \<Rightarrow> string option) \<Rightarrow> (string \<Rightarrow> bool) \<Rightarrow> string \<Rightarrow> dial_udp_error + string" where
  "dial_udp resolve open_socket addr =
     (case resolve addr of None \<Rightarrow> Inl ResolveFailed
      | Some a \<Rightarrow> if open_socket a then Inr a else Inl DialFailed)"

text \<open>\<open>KnockAndDial\<close>: the datagrams written first (\<open>rnd n\<close> are \<open>n\<close> random bytes), and the time it waits.\<close>

definition knocks :: "(nat \<Rightarrow> bytes) \<Rightarrow> int \<Rightarrow> int \<Rightarrow> bytes list" where
  "knocks rnd num bytes_each = (if 0 < num \<and> 0 < bytes_each then replicate (nat num) (rnd (nat bytes_each)) else [])"

definition knock_delay :: "int \<Rightarrow> int \<Rightarrow> time" where
  "knock_delay num bytes_each = (if 0 < num \<and> 0 < bytes_each then num * (50 * millisecond) + 100 * millisecond else 0)"

definition knock_and_dial ::
  "(string \<Rightarrow> string option) \<Rightarrow> (string \<Rightarrow> bool) \<Rightarrow> (nat \<Rightarrow> bytes) \<Rightarrow> string \<Rightarrow> int \<Rightarrow> int \<Rightarrow> dial_udp_error + string \<times> bytes list \<times> time" where
  "knock_and_dial resolve open_socket rnd addr num bytes_each =
     (case dial_udp resolve open_socket addr of
        Inl e \<Rightarrow> Inl e
      | Inr a \<Rightarrow> Inr (a, knocks rnd num bytes_each, knock_delay num bytes_each))"

section \<open>TLS\<close>

text \<open>A step's outcome with whether the connection it had was closed.\<close>

datatype tls_error = TcpDialFailed | HandshakeFailed | ListenFailed | CertFailed

definition dial_tls :: "bool \<Rightarrow> bool \<Rightarrow> (tls_error + unit) \<times> bool" where
  "dial_tls dials handshake =
     (if \<not> dials then (Inl TcpDialFailed, False)
      else if \<not> handshake then (Inl HandshakeFailed, True) else (Inr (), False))"

text \<open>\<open>AcceptTLS\<close>: a connection that is no TLS connection is wrapped as it is.\<close>

definition accept_tls :: "bool \<Rightarrow> bool \<Rightarrow> (tls_error + unit) \<times> bool" where
  "accept_tls is_tls handshake =
     (if \<not> is_tls then (Inr (), False) else if \<not> handshake then (Inl HandshakeFailed, True) else (Inr (), False))"

datatype 'a cert_source = Loaded 'a | SelfSigned 'a

definition new_server_tls_config ::
  "(string \<Rightarrow> string \<Rightarrow> 'c option) \<Rightarrow> 'c option \<Rightarrow> string \<Rightarrow> string \<Rightarrow> tls_error + 'c cert_source" where
  "new_server_tls_config load generated cert key =
     (if cert \<noteq> '''' \<and> key \<noteq> '''' then
        (case load cert key of None \<Rightarrow> Inl CertFailed | Some c \<Rightarrow> Inr (Loaded c))
      else case generated of None \<Rightarrow> Inl CertFailed | Some c \<Rightarrow> Inr (SelfSigned c))"

text \<open>
  The accept loop of a listener, over what \<open>Accept\<close> answers: an error ends it when the context is done and is
  skipped otherwise. The connections it serves.
\<close>

datatype 'a accept_event = Accepted 'a | AcceptError bool

fun accept_loop :: "'c accept_event list \<Rightarrow> 'c list" where
  "accept_loop [] = []"
| "accept_loop (Accepted c # as) = c # accept_loop as"
| "accept_loop (AcceptError done # as) = (if done then [] else accept_loop as)"

definition run_tcp_listener :: "tls_error + 'k \<Rightarrow> bool \<Rightarrow> 'c accept_event list \<Rightarrow> 'c list" where
  "run_tcp_listener cfg listens as = (case cfg of Inl _ \<Rightarrow> [] | Inr _ \<Rightarrow> if listens then accept_loop as else [])"

definition run_tcp_listener2 :: "string \<Rightarrow> tls_error + 'k \<Rightarrow> bool \<Rightarrow> 'c accept_event list \<Rightarrow> 'c list" where
  "run_tcp_listener2 listen cfg listens as =
     (if derive_secondary_addr listen = '''' then [] else run_tcp_listener cfg listens as)"

section \<open>Reality\<close>

datatype fingerprint = Chrome | Firefox | Safari | Edge | Ios | Randomized

definition fingerprint_id :: "string \<Rightarrow> fingerprint" where
  "fingerprint_id name =
     (if name = ''firefox'' then Firefox else if name = ''safari'' then Safari else if name = ''edge'' then Edge
      else if name = ''ios'' then Ios else if name = ''random'' then Randomized else Chrome)"

text \<open>
  \<open>DialReality\<close> in its order. \<open>hello fp\<close> is the state uTLS builds for a fingerprint: its X25519 share, if
  it offers one, and its random; \<open>accepts sid\<close> says whether the handshake with that session id ends well.
  The flag says whether a connection that was made has been closed.
\<close>

datatype reality_dial_error = BadKey | NoRoute | BuildFailed | NotSealed dial_error | RealityHandshake

definition dial_reality ::
  "reality_prims \<Rightarrow> (string \<Rightarrow> bytes option) \<Rightarrow> (string \<Rightarrow> bool) \<Rightarrow> (fingerprint \<Rightarrow> (bytes option \<times> bytes) option) \<Rightarrow> (bytes \<Rightarrow> bool) \<Rightarrow>
     64 word \<Rightarrow> reality_dial \<Rightarrow> string \<Rightarrow> (reality_dial_error + bytes) \<times> bool"
where
  "dial_reality pr dec route hello accepts now rd fp =
     (if dec (rd_public_key rd) = None then (Inl BadKey, False)
      else if \<not> route (rd_addr rd) then (Inl NoRoute, False)
      else case hello (fingerprint_id fp) of
          None \<Rightarrow> (Inl BuildFailed, True)
        | Some (ecdhe, random) \<Rightarrow>
            (case dial_session_id pr dec (rd_public_key rd) (rd_short_id rd) ecdhe random now of
               Inl e \<Rightarrow> (Inl (NotSealed e), True)
             | Inr sid \<Rightarrow> if accepts sid then (Inr sid, False) else (Inl RealityHandshake, True)))"

text \<open>
  \<open>realityFallback\<close>: what the destination and the prober get, given what each sends until it ends its half.
\<close>

definition reality_fallback :: "bool \<Rightarrow> bool \<Rightarrow> bytes \<Rightarrow> bytes \<Rightarrow> bytes \<Rightarrow> bytes \<times> bytes" where
  "reality_fallback dials writes consumed from_client from_dest =
     (if \<not> dials then ([], [])
      else if consumed \<noteq> [] \<and> \<not> writes then ([], [])
      else (consumed @ from_client, from_dest))"

section \<open>The server's command line and the key pool\<close>

datatype command = HashPw string | HashUsage | Keygen | Genpool "string list" | Serve

definition server_command :: "string list \<Rightarrow> command" where
  "server_command args =
     (case args of
        [] \<Rightarrow> Serve
      | a # rest \<Rightarrow>
          if a = ''hashpw'' then (case rest of [] \<Rightarrow> HashUsage | pw # _ \<Rightarrow> HashPw pw)
          else if a = ''reality-keygen'' then Keygen
          else if a = ''reality-genpool'' then Genpool rest else Serve)"

text \<open>The number of keys and the two names, and the three files with the keys each lists, in order of writing.\<close>

definition genpool_args :: "string list \<Rightarrow> (int \<times> string \<times> string) option" where
  "genpool_args args =
     (case (if args \<noteq> [] \<and> args ! 0 \<noteq> '''' then (case atoi (args ! 0) of Some v \<Rightarrow> if v \<le> 0 then None else Some v | None \<Rightarrow> None)
            else Some 64) of
        None \<Rightarrow> None
      | Some n \<Rightarrow> Some (n, if 2 \<le> length args then args ! 1 else ''internal/transport/reality_pool.go'',
                         if 3 \<le> length args then args ! 2 else ''reality-private-pool.toml''))"

definition genpool_server_file :: string where
  "genpool_server_file = ''cmd/supervpn-server/reality_default_pool.go''"

fun write_all :: "(string \<Rightarrow> bool) \<Rightarrow> (string \<times> string list) list \<Rightarrow> (string \<Rightarrow> string list option) \<Rightarrow> bool \<times> (string \<Rightarrow> string list option)" where
  "write_all writable [] fs = (True, fs)"
| "write_all writable ((n, keys) # ws) fs =
     (if writable n then write_all writable ws (fs(n \<mapsto> keys)) else (False, fs))"

definition run_reality_genpool ::
  "(nat \<Rightarrow> (string \<times> string) list option) \<Rightarrow> (string \<Rightarrow> bool) \<Rightarrow> string list \<Rightarrow> (string \<Rightarrow> string list option) \<Rightarrow>
     bool \<times> (string \<Rightarrow> string list option)"
where
  "run_reality_genpool gen writable args fs =
     (case genpool_args args of
        None \<Rightarrow> (False, fs)
      | Some (n, go_file, priv_file) \<Rightarrow>
          (case gen (nat n) of
             None \<Rightarrow> (False, fs)
           | Some pairs \<Rightarrow> write_all writable
               [(go_file, map fst pairs), (genpool_server_file, map snd pairs), (priv_file, map snd pairs)] fs))"

text \<open>The private keys the listener uses: the configured ones, or the built-in pool.\<close>

definition listener_privs :: "string list \<Rightarrow> string \<Rightarrow> string list \<Rightarrow> string list" where
  "listener_privs pool key keys =
     (let privs = (if key \<noteq> '''' then [key] else []) @ keys in if privs = [] then pool else privs)"

definition run_reality_listener :: "'e + 'p \<Rightarrow> bool \<Rightarrow> 'c accept_event list \<Rightarrow> 'c list" where
  "run_reality_listener params listens as = (case params of Inl _ \<Rightarrow> [] | Inr _ \<Rightarrow> if listens then accept_loop as else [])"

text \<open>The files of the bans, next to the executable when it is known.\<close>

definition ban_file :: "string option \<Rightarrow> string \<Rightarrow> string" where
  "ban_file exe_dir name = (case exe_dir of None \<Rightarrow> name | Some d \<Rightarrow> d @ ''/'' @ name)"

definition ban_file_path :: "string option \<Rightarrow> string" where "ban_file_path dir = ban_file dir ''banned_ips.json''"
definition login_ban_file_path :: "string option \<Rightarrow> string" where "login_ban_file_path dir = ban_file dir ''banned_logins.json''"

section \<open>The connectivity test\<close>

text \<open>A probe succeeds when the dial, the send and one receive do; a TCP probe when the dial does.\<close>

definition probe_ok :: "bool \<Rightarrow> bool \<Rightarrow> recv_error + bytes \<times> string \<Rightarrow> bool" where
  "probe_ok dials sends r = (if \<not> dials then False else if \<not> sends then False else \<not> isl r)"

definition test_reality :: "string \<Rightarrow> bool \<Rightarrow> bool \<Rightarrow> recv_error + bytes \<times> string \<Rightarrow> bool" where
  "test_reality pub dials sends r = (if pub = '''' then False else probe_ok dials sends r)"

record server_test =
  sx_name :: string
  sx_addr :: string
  sx_udp :: bool
  sx_udp2 :: bool
  sx_tcp :: bool
  sx_tcp2 :: bool
  sx_reality :: bool

definition test_server :: "(string \<Rightarrow> bool) \<Rightarrow> (string \<Rightarrow> bool) \<Rightarrow> (string \<Rightarrow> bool) \<Rightarrow> string \<times> string \<Rightarrow> server_test" where
  "test_server udp tcp reality s =
     (let host = (case split_host_port (snd s) of Inr (h, _) \<Rightarrow> h | Inl _ \<Rightarrow> '''')
      in \<lparr>sx_name = fst s, sx_addr = snd s, sx_udp = udp (snd s), sx_udp2 = udp (port_plus_one (snd s)),
          sx_tcp = tcp (join_host_port host ''8443''), sx_tcp2 = tcp (join_host_port host ''8444''),
          sx_reality = reality (join_host_port host ''443'')\<rparr>)"

text \<open>\<open>TestAllServers\<close>: the results in the order the servers' tests end.\<close>

definition test_all_servers :: "(string \<Rightarrow> bool) \<Rightarrow> (string \<Rightarrow> bool) \<Rightarrow> (string \<Rightarrow> bool) \<Rightarrow> nat list \<Rightarrow> (string \<times> string) list \<Rightarrow> server_test list" where
  "test_all_servers udp tcp reality ends servers = map (\<lambda>i. test_server udp tcp reality (servers ! i)) ends"

section \<open>The cross-platform GUI\<close>

text \<open>\<open>main.go\<close>: hiding on close, quitting, and the firewall a deferred call turns on again.\<close>

record fyne_app =
  fy_alive :: bool
  fy_shown :: bool
  fy_firewall :: bool

datatype fyne_event = FyneClose bool bool | FyneQuit bool | FyneShow | FyneKilled

definition fyne_start :: "bool \<Rightarrow> bool \<Rightarrow> fyne_app" where
  "fyne_start off_ok on = \<lparr>fy_alive = True, fy_shown = True, fy_firewall = (if off_ok then False else on)\<rparr>"

definition fyne_quit :: "bool \<Rightarrow> fyne_app \<Rightarrow> fyne_app" where
  "fyne_quit ok a = a\<lparr>fy_alive := False, fy_firewall := (if ok then True else fy_firewall a)\<rparr>"

definition fyne_step :: "fyne_app \<Rightarrow> fyne_event \<Rightarrow> fyne_app" where
  "fyne_step a e = (if \<not> fy_alive a then a else case e of
      FyneClose minimize ok \<Rightarrow> if minimize then a\<lparr>fy_shown := False\<rparr> else fyne_quit ok a
    | FyneQuit ok \<Rightarrow> fyne_quit ok a
    | FyneShow \<Rightarrow> a\<lparr>fy_shown := True\<rparr>
    | FyneKilled \<Rightarrow> a\<lparr>fy_alive := False\<rparr>)"

text \<open>\<open>loadSavedMirrors\<close>: the part before the last colon, which no code calls.\<close>

definition load_saved_mirrors :: "string \<Rightarrow> string list" where
  "load_saved_mirrors server =
     (if server = '''' then []
      else let host = (case last_index_byte (CHR '':'') server of None \<Rightarrow> server | Some i \<Rightarrow> if 0 < i then take i server else server)
        in if host = '''' then [] else [''http://'' @ host @ ''/update''])"

section \<open>Datagrams\<close>

lemma udp_recv_data:
  assumes "list_all (\<lambda>(c, r). \<not> c \<and> r = UdpTimeout) quiet"
  shows "udp_recv (quiet @ (False, UdpData d a) # rest) = Inr (take udp_read_buf d, a)"
  using assms by (induction quiet) auto

lemma length_sealed:
  assumes "client_sealed env ty seq plain s = (out, t)" "aead_law (en_seal env) (en_open env)" "cipher_ok (k_cipher s)"
  shows "(\<forall>(l, p) \<in> set out. length p = length plain + 55 \<and> hd p = ty) \<and> cipher_ok (k_cipher t)"
proof -
  obtain c enc where e: "seal_packet (en_seal env) (k_cipher s) plain = (c, enc)" by fastforce
  have "length enc = length plain + 40" "cipher_ok c"
    using length_seal_packet [OF assms(2,3), of plain] cipher_ok_seal [of "en_seal env" "k_cipher s" plain] assms(3) e by simp_all
  then show ?thesis using assms(1) e
    by (auto simp: client_sealed_def send_on_both_def mk_packet_def marshal_header_def split: if_splits)
qed

lemma length_pieces:
  assumes "aead_law (en_seal env) (en_open env)"
  shows "client_pieces env fid i n pcs s = (out, t) \<Longrightarrow> cipher_ok (k_cipher s) \<Longrightarrow> (\<forall>p \<in> set pcs. length p \<le> m) \<Longrightarrow>
    \<forall>(l, p) \<in> set out. length p \<le> m + 55"
proof (induction pcs arbitrary: i s out)
  case (Cons pc pcs)
  obtain o1 s1 where w: "client_sealed env FrameDataFrag (pack_frag_seq fid (of_nat i) (of_nat n)) pc s = (o1, s1)" by fastforce
  obtain o2 where r: "client_pieces env fid (Suc i) n pcs s1 = (o2, t)" "out = o1 @ o2"
    using Cons.prems(1) w by (auto split: prod.splits)
  note l = length_sealed [OF w assms Cons.prems(2)]
  have "\<forall>(l, p) \<in> set o2. length p \<le> m + 55" using Cons.IH [OF r(1)] l Cons.prems(3) by simp
  then show ?case using l Cons.prems(3) r(2) by fastforce
qed simp

lemma length_wires:
  assumes "aead_law (en_seal env) (en_open env)"
  shows "client_wires env ws s = (out, t) \<Longrightarrow> cipher_ok (k_cipher s) \<Longrightarrow> (\<forall>bid idx d. WireData bid idx d \<in> set ws \<longrightarrow> length d \<le> m) \<Longrightarrow>
    \<forall>(l, p) \<in> set out. hd p \<noteq> FrameRepair \<longrightarrow> length p \<le> m + 55"
proof (induction ws arbitrary: s out)
  case (Cons w ws)
  obtain o1 s1 where w: "client_wire env w s = (o1, s1)" by fastforce
  obtain o2 where r: "client_wires env ws s1 = (o2, t)" "out = o1 @ o2" using Cons.prems(1) w by (auto split: prod.splits)
  have one: "(\<forall>(l, p) \<in> set o1. hd p \<noteq> FrameRepair \<longrightarrow> length p \<le> m + 55) \<and> cipher_ok (k_cipher s1)"
  proof (cases w)
    case (WireData bid idx d)
    then show ?thesis using length_sealed [OF _ assms, of FrameData "pack_data_seq bid idx" d "count_tx (length d) s" o1 s1] w Cons.prems(2,3)
      by (auto simp: client_wire_def count_tx_def)
  next
    case (WireRepair bid idx d)
    obtain seq where "client_sealed env FrameRepair seq d (count_tx (length d) s) = (o1, s1)"
      using w WireRepair by (auto simp: client_wire_def)
    from length_sealed [OF this assms] show ?thesis using Cons.prems(2)
      by (auto simp: count_tx_def frame_types)
  qed
  have "\<forall>(l, p) \<in> set o2. hd p \<noteq> FrameRepair \<longrightarrow> length p \<le> m + 55" using Cons.IH [OF r(1)] one Cons.prems(3) by simp
  then show ?case using one r(2) by auto
qed simp

lemma set_until_error: "set (snd (until_error ok ws)) \<subseteq> set ws"
  by (induction ws) (auto split: prod.splits)

lemma pipe_send_data: "pipe_send rs ok now frame p = (b, ws, p') \<Longrightarrow> WireData bid idx d \<in> set ws \<Longrightarrow> d = frame"
proof -
  assume s: "pipe_send rs ok now frame p = (b, ws, p')" and d: "WireData bid idx d \<in> set ws"
  have no: "WireData x y z \<notin> set (repair_wires v reps)" for x y z v reps by (auto simp: repair_wires_def)
  have u: "WireData x y z \<notin> set rest" if "until_error ok (repair_wires v reps) = (e, rest)" for x y z v reps e rest
    using set_until_error [of ok "repair_wires v reps"] no that by auto
  show "d = frame" using s d no u
    by (auto simp: pipe_send_def Let_def split: prod.splits option.splits if_splits)
qed

text \<open>
  What a client puts into a data or fragment packet fits the receiver's buffer, so \<open>Recv\<close> returns it whole: always
  with fragmentation, and without it for a frame of at most 1993 bytes.
\<close>

lemma datagrams_fit:
  assumes "client_send env now frame s = (out, t)" "aead_law (en_seal env) (en_open env)" "cipher_ok (k_cipher s)"
    and "k_frag s \<or> length frame \<le> 1993" "(l, p) \<in> set out" "hd p \<noteq> FrameRepair"
  shows "udp_recv [(False, UdpData p a)] = Inr (p, a)"
proof -
  have "length p \<le> 2048"
  proof (cases "k_frag s \<and> needs_split frame (int MaxFramePlaintext)")
    case True
    let ?pcs = "split_frame frame (int MaxFramePlaintext)"
    obtain o1 s1 where c: "client_pieces env (k_frag_id s + 1) 0 (length ?pcs) ?pcs (s\<lparr>k_frag_id := k_frag_id s + 1\<rparr>) = (o1, s1)"
      by fastforce
    have "\<forall>q \<in> set ?pcs. length q \<le> MaxFramePlaintext" using split_frame_pieces True by fastforce
    from length_pieces [OF assms(2) c _ this] have "\<forall>(l, p) \<in> set o1. length p \<le> MaxFramePlaintext + 55" using assms(3) by simp
    moreover have "out = o1" using assms(1) True c by (simp add: client_send_def Let_def)
    ultimately show ?thesis using assms(5) by (auto simp: MaxFramePlaintext_def)
  next
    case False
    obtain b ws q where p: "pipe_send (en_rs env) (\<lambda>_. True) now frame (k_pipe s) = (b, ws, q)" by (rule prod_cases3)
    have small: "length frame \<le> 1993" using False assms(4) by (auto simp: needs_split_def MaxFramePlaintext_def)
    have w: "client_wires env ws (s\<lparr>k_pipe := q\<rparr>) = (out, t)" using assms(1) p by (simp add: client_send_def if_not_P [OF False])
    have "\<forall>bid idx d. WireData bid idx d \<in> set ws \<longrightarrow> length d \<le> 1993" using pipe_send_data [OF p] small by blast
    from length_wires [OF assms(2) w _ this] have "\<forall>(l, p) \<in> set out. hd p \<noteq> FrameRepair \<longrightarrow> length p \<le> 1993 + 55"
      using assms(3) by simp
    then show ?thesis using assms(5,6) by fastforce
  qed
  then show ?thesis by (simp add: udp_read_buf_def)
qed

text \<open>A larger frame without fragmentation is cut, and what is left does not open.\<close>

lemma datagram_cut: "2048 < length p \<Longrightarrow> udp_recv [(False, UdpData p a)] = Inr (take 2048 p, a)"
  by (simp add: udp_read_buf_def)

text \<open>
  The knock is not always dropped: one that happens to look like a login is answered, and the answer ends
  the client's own login, whatever comes after it.
\<close>

definition unlucky_knock :: bytes where
  "unlucky_knock = FrameAuth # replicate 14 0 @ [AuthMsgHello]"

lemma knock_rejects_login:
  assumes "\<not> ip_banned sv (og_addr og)"
  shows "\<exists>out. handle_packet env rnd salt now og False unlucky_knock sv = (0, out, sv) \<and>
    auth_loop env csalt cfg (map packet_of out @ rest) = Inl (AuthRejected ''malformed auth request'')"
proof -
  have s: "split_packet unlucky_knock = Some (\<lparr>hdr_type = FrameAuth, hdr_hub = 0, hdr_session = 0, hdr_seq = 0\<rparr>, [AuthMsgHello])"
    by code_simp
  have "parse_auth_hello [] \<noteq> Inr h" for h by code_simp
  then have "auth_decide env now (og_addr og) [AuthMsgHello] sv = AuthReject ''malformed auth request''"
    using assms by (auto simp: auth_decide_def split: sum.split)
  then have h: "handle_packet env rnd salt now og False unlucky_knock sv =
      (0, [SendTo (og_send og) (auth_error_packet 0 ''malformed auth request'')], sv)"
    by (simp add: handle_packet_def s handle_auth_def)
  have "auth_loop env csalt cfg (auth_error_packet 0 ''malformed auth request'' # rest) = Inl (AuthRejected (rejection (marshal_auth_error ''malformed auth request'')))"
    by (simp add: auth_error_packet_def simple_header_def auth_msgs)
  moreover have "rejection (marshal_auth_error ''malformed auth request'') = ''malformed auth request''" by code_simp
  ultimately show ?thesis using h by (simp add: packet_of_def)
qed

section \<open>Connections\<close>

text \<open>A dial that fails closes what it opened, and one that succeeds leaves it open.\<close>

lemma dials_close:
  "fst (dial_tls d h) = Inr u \<Longrightarrow> \<not> snd (dial_tls d h)" "fst (dial_tls d h) = Inl HandshakeFailed \<Longrightarrow> snd (dial_tls d h)"
  "fst (dial_reality pr dec route hello accepts now rd fp) = Inr sid \<Longrightarrow>
     \<not> snd (dial_reality pr dec route hello accepts now rd fp) \<and> accepts sid"
  "fst (dial_reality pr dec route hello accepts now rd fp) = Inl e \<Longrightarrow> e \<noteq> BadKey \<Longrightarrow> e \<noteq> NoRoute \<Longrightarrow>
     snd (dial_reality pr dec route hello accepts now rd fp)"
  by (auto simp: dial_tls_def dial_reality_def split: if_splits option.splits sum.splits prod.splits)

text \<open>A prober's bytes reach the destination exactly as sent, and its answer comes back unchanged.\<close>

lemma prober_sees_destination:
  assumes "accept_reality pr p now s = (AcceptFallback dest consumed rest, p')"
  shows "dest = rp_dest p \<and> reality_fallback True True consumed rest reply = (s, reply)"
  using accept_reality_fallback [OF assms] by (simp add: reality_fallback_def)

lemma accept_loop_serves: "list_all (\<lambda>a. a \<noteq> AcceptError True) as \<Longrightarrow>
    accept_loop as = List.map_filter (\<lambda>a. case a of Accepted c \<Rightarrow> Some c | AcceptError _ \<Rightarrow> None) as"
  by (induction as rule: accept_loop.induct) (auto simp: map_filter_simps)

section \<open>The key pool\<close>

text \<open>A generator that ends well leaves matching pools: the files list the two halves of the same pairs.\<close>

lemma genpool_matches:
  assumes "run_reality_genpool gen writable args fs = (True, fs')" "genpool_args args = Some (n, go_file, priv_file)"
    and "distinct [go_file, genpool_server_file, priv_file]"
  shows "\<exists>pairs. gen (nat n) = Some pairs \<and> fs' go_file = Some (map fst pairs) \<and>
    fs' genpool_server_file = Some (map snd pairs) \<and> fs' priv_file = Some (map snd pairs)"
  using assms by (auto simp: run_reality_genpool_def split: option.splits if_splits)

text \<open>One that fails at the second file leaves a client pool no server has the keys of.\<close>

lemma genpool_half_written:
  assumes "genpool_args args = Some (n, go_file, priv_file)" "gen (nat n) = Some pairs" "go_file \<noteq> genpool_server_file"
    and "writable go_file" "\<not> writable genpool_server_file"
  shows "\<exists>fs'. run_reality_genpool gen writable args fs = (False, fs') \<and> fs' go_file = Some (map fst pairs) \<and>
    fs' genpool_server_file = fs genpool_server_file"
  using assms by (auto simp: run_reality_genpool_def)

lemma default_genpool_files: "genpool_args [] = Some (64, ''internal/transport/reality_pool.go'', ''reality-private-pool.toml'')"
  by (simp add: genpool_args_def)

lemma listener_privs_some: "pool \<noteq> [] \<Longrightarrow> listener_privs pool key keys \<noteq> []"
  by (simp add: listener_privs_def Let_def)

text \<open>A subcommand behind a flag is not seen: the server starts instead.\<close>

lemma command_behind_flag: "server_command [''-config'', c, ''reality-keygen''] = Serve"
  by (simp add: server_command_def)

section \<open>The cross-platform GUI ends well\<close>

text \<open>Every way out but a kill restores the firewall, the tray's Quit included.\<close>

lemma fyne_over: "\<not> fy_alive a \<Longrightarrow> foldl fyne_step a es = a"
  by (induction es) (simp_all add: fyne_step_def)

lemma fyne_restores:
  assumes "fy_alive (foldl fyne_step a es)"
  shows "fy_firewall (foldl fyne_step a (es @ FyneQuit True # rest))"
    "fy_firewall (foldl fyne_step a (es @ FyneClose False True # rest))"
  using assms by (simp_all add: fyne_step_def fyne_quit_def fyne_over)

end
