(* ===== verification/UnixDevices.thy ===== *)
theory UnixDevices
  imports BpfGuard L2Emulation
begin

text \<open>
  Opening and reading the devices of macOS and Linux: the packet-filter device (\<open>openBPF\<close> of
  \<open>pkg/tun/bpf_darwin.go\<close>), the tunnel device of macOS (\<open>tun_darwin.go\<close>) and the TAP device of Linux
  (\<open>tun_linux.go\<close>), and \<open>ActualName\<close> (\<open>tun.go\<close>). The kernel's answers are parameters; a trace of the
  system calls shows which descriptors stay open.
\<close>

section \<open>System calls\<close>

text \<open>What is asked of a descriptor, with the argument that matters.\<close>

datatype sys_request =
    BpfSetIf bytes | BpfImmediate nat | BpfPromisc | BpfReadTimeout nat | BpfHdrComplete nat
  | BpfSeeSent nat | BpfGetBufLen
  | CtlInfo string | CtlConnect nat
  | TunSetIff bytes | GetIfFlags bytes | SetIfFlags "16 word"

datatype sys_call = SysOpen nat | SysAsk nat sys_request | SysClose nat

text \<open>The descriptors open after a trace.\<close>

fun sys_held :: "sys_call list \<Rightarrow> nat list \<Rightarrow> nat list" where
  "sys_held [] s = s"
| "sys_held (SysOpen fd # t) s = sys_held t (fd # s)"
| "sys_held (SysAsk fd r # t) s = sys_held t s"
| "sys_held (SysClose fd # t) s = sys_held t (remove1 fd s)"

text \<open>
  A sequence of requests, each followed by the same error path: close the descriptor and report the
  request that failed.
\<close>

fun ask_all :: "(sys_request \<Rightarrow> bool) \<Rightarrow> nat \<Rightarrow> sys_request list \<Rightarrow> sys_call list \<times> sys_request option" where
  "ask_all ok fd [] = ([], None)"
| "ask_all ok fd (r # rs) =
     (if ok r then apfst ((#) (SysAsk fd r)) (ask_all ok fd rs) else ([SysAsk fd r, SysClose fd], Some r))"

datatype sys_error = SysNoDevice | SysOpenFailed nat | SysRequestFailed sys_request | SysNoSocket

section \<open>The packet-filter device\<close>

datatype bpf_try = BpfFd nat | BpfBusy | BpfDenied nat

text \<open>\<open>openBPFDevice\<close>: the devices are tried in order, and only a busy one is passed over.\<close>

fun open_bpf_from :: "(nat \<Rightarrow> bpf_try) \<Rightarrow> nat list \<Rightarrow> sys_error + nat" where
  "open_bpf_from dev [] = Inl SysNoDevice"
| "open_bpf_from dev (i # is) = (case dev i of BpfFd fd \<Rightarrow> Inr fd | BpfBusy \<Rightarrow> open_bpf_from dev is
     | BpfDenied e \<Rightarrow> Inl (SysOpenFailed e))"

definition open_bpf_device :: "(nat \<Rightarrow> bpf_try) \<Rightarrow> sys_error + nat" where
  "open_bpf_device dev = open_bpf_from dev [0..<256]"

definition if_name_size :: nat where "if_name_size = 16"

definition padded :: "nat \<Rightarrow> bytes \<Rightarrow> bytes" where
  "padded n b = take n b @ replicate (n - length b) 0"

definition bpf_requests :: "bytes \<Rightarrow> sys_request list" where
  "bpf_requests name =
     [BpfSetIf (padded 32 (take if_name_size name)), BpfImmediate 1, BpfPromisc, BpfReadTimeout 100000,
      BpfHdrComplete 1, BpfSeeSent 1, BpfGetBufLen]"

text \<open>\<open>openBPF\<close>; \<open>hw\<close> is the interface's hardware address, when it can be read.\<close>

definition open_bpf_on ::
  "(sys_request \<Rightarrow> bool) \<Rightarrow> (nat \<Rightarrow> bpf_try) \<Rightarrow> bytes option \<Rightarrow> bytes \<Rightarrow> sys_call list \<times> (sys_error + nat \<times> bpf)" where
  "open_bpf_on ok dev hw name =
     (case open_bpf_device dev of Inl e \<Rightarrow> ([], Inl e)
      | Inr fd \<Rightarrow> (case ask_all ok fd (bpf_requests name) of
            (t, Some r) \<Rightarrow> (SysOpen fd # t, Inl (SysRequestFailed r))
          | (t, None) \<Rightarrow> (SysOpen fd # t, Inr (fd, open_bpf hw))))"

section \<open>The tunnel device of macOS\<close>

text \<open>\<open>getsockopt\<close> writes a name with its final zero and its length; when it fails nothing is written.\<close>

definition utun_if_name :: "string option \<Rightarrow> string" where
  "utun_if_name reply =
     (let size = if_name_size + 1;
          (written, len) = (case reply of None \<Rightarrow> ([], size) | Some s \<Rightarrow> (s, length s + 1));
          name = take size (written @ replicate (size - length written) (CHR 0x00))
      in if 1 < len then take (len - 1) name else ''utun'')"

definition utun_requests :: "sys_request list" where
  "utun_requests = [CtlInfo ''com.apple.net.utun_control'', CtlConnect 0]"

text \<open>\<open>openPlatform\<close> of macOS; \<open>rnd\<close> is what the random source gives, \<open>addrs\<close> the device's addresses.\<close>

definition open_utun ::
  "(sys_request \<Rightarrow> bool) \<Rightarrow> nat option \<Rightarrow> bytes \<Rightarrow> bytes option list option \<Rightarrow> sys_call list \<times> (sys_error + nat \<times> l2)" where
  "open_utun ok sock rnd addrs =
     (case sock of None \<Rightarrow> ([], Inl SysNoSocket)
      | Some fd \<Rightarrow> (case ask_all ok fd utun_requests of
            (t, Some r) \<Rightarrow> (SysOpen fd # t, Inl (SysRequestFailed r))
          | (t, None) \<Rightarrow> (SysOpen fd # t, Inr (fd, new_l2 rnd (iface_ip addrs)))))"

text \<open>One round of the loop of \<open>readIP\<close>: the context, the wait for the descriptor, the read.\<close>

datatype read_round = RoundCancelled | SelectIntr | SelectFailed | NotReady | ReadAgain | ReadFailed | GotData bytes

datatype read_error = ReadCancelled | ReadSelectErr | ReadSysErr

text \<open>No result: the rounds given are used up and the loop goes on.\<close>

fun read_ip :: "read_round list \<Rightarrow> ((read_error + bytes) \<times> read_round list) option" where
  "read_ip [] = None"
| "read_ip (e # es) = (case e of
      RoundCancelled \<Rightarrow> Some (Inl ReadCancelled, es)
    | SelectIntr \<Rightarrow> read_ip es
    | SelectFailed \<Rightarrow> Some (Inl ReadSelectErr, es)
    | NotReady \<Rightarrow> read_ip es
    | ReadAgain \<Rightarrow> read_ip es
    | ReadFailed \<Rightarrow> Some (Inl ReadSysErr, es)
    | GotData b \<Rightarrow> (case utun_get (take 65536 b) of None \<Rightarrow> read_ip es | Some p \<Rightarrow> Some (Inr p, es)))"

section \<open>The TAP device of Linux\<close>

definition tap_flags :: "16 word" where "tap_flags = 0x0002 OR 0x1000"

definition put16_le :: "16 word \<Rightarrow> bytes" where "put16_le w = rev (put16 w)"

text \<open>The request: the name, then the flags at offset 16, whatever of a long name was there.\<close>

definition tap_ifreq :: "bytes \<Rightarrow> bytes" where
  "tap_ifreq name =
     (let b = padded (if_name_size + 64) name
      in take if_name_size b @ put16_le tap_flags @ drop (if_name_size + 2) b)"

definition up_flags :: "16 word \<Rightarrow> 16 word" where "up_flags f = f OR (0x0001 OR 0x0040)"

text \<open>\<open>setIfaceUp\<close>: \<open>flags\<close> is what the kernel reports; the socket is closed on every path.\<close>

definition set_iface_up ::
  "(sys_request \<Rightarrow> bool) \<Rightarrow> nat option \<Rightarrow> 16 word \<Rightarrow> bytes \<Rightarrow> sys_call list \<times> sys_error option" where
  "set_iface_up ok sock flags name =
     (case sock of None \<Rightarrow> ([], Some SysNoSocket)
      | Some s \<Rightarrow>
          (case ask_all ok s [GetIfFlags (padded (if_name_size + 64) name), SetIfFlags (up_flags flags)] of
             (t, Some r) \<Rightarrow> (SysOpen s # t, Some (SysRequestFailed r))
           | (t, None) \<Rightarrow> (SysOpen s # t @ [SysClose s], None)))"

text \<open>\<open>openPlatform\<close> of Linux; an error is the number of the failed open.\<close>

definition open_linux_tap ::
  "(sys_request \<Rightarrow> bool) \<Rightarrow> nat + nat \<Rightarrow> nat option \<Rightarrow> 16 word \<Rightarrow> bytes \<Rightarrow> sys_call list \<times> (sys_error + nat)" where
  "open_linux_tap ok dev sock flags name =
     (case dev of Inl e \<Rightarrow> ([], Inl (SysOpenFailed e))
      | Inr fd \<Rightarrow> (case ask_all ok fd [TunSetIff (tap_ifreq name)] of
            (t, Some r) \<Rightarrow> (SysOpen fd # t, Inl (SysRequestFailed r))
          | (t, None) \<Rightarrow> (case set_iface_up ok sock flags name of
                (u, Some e) \<Rightarrow> (SysOpen fd # t @ u @ [SysClose fd], Inl e)
              | (u, None) \<Rightarrow> (SysOpen fd # t @ u, Inr fd))))"

definition tap_read_buffer :: nat where "tap_read_buffer = 2048"

definition linux_tap_read :: "bytes option \<Rightarrow> bytes option" where
  "linux_tap_read frame = map_option (take tap_read_buffer) frame"

text \<open>\<open>ActualName\<close>: a framer that reports a name, or the name that was asked for.\<close>

definition actual_name :: "string option \<Rightarrow> string \<Rightarrow> string" where
  "actual_name namer requested = (case namer of Some n \<Rightarrow> n | None \<Rightarrow> requested)"

section \<open>Descriptors\<close>

lemma sys_held_append: "sys_held (t @ u) s = sys_held u (sys_held t s)"
  by (induction t s rule: sys_held.induct) auto

lemma ask_all_held:
  "ask_all ok fd rs = (t, res) \<Longrightarrow> sys_held t s = (if res = None then s else remove1 fd s)"
  by (induction ok fd rs arbitrary: t res rule: ask_all.induct) (auto simp: apfst_def map_prod_def split: if_splits prod.splits)

lemma ask_all_done: "ask_all ok fd rs = (t, None) \<Longrightarrow> sys_held t s = s"
  by (simp add: ask_all_held)

lemma ask_all_fail: "ask_all ok fd rs = (t, Some r) \<Longrightarrow> sys_held t (fd # s) = s"
  by (simp add: ask_all_held)

lemma ask_all_good: "\<forall>r\<in>set rs. ok r \<Longrightarrow> ask_all ok fd rs = (map (SysAsk fd) rs, None)"
  by (induction rs) auto

lemma ask_all_none: "ask_all ok fd rs = (t, None) \<Longrightarrow> t = map (SysAsk fd) rs \<and> (\<forall>r\<in>set rs. ok r)"
proof (induction rs arbitrary: t)
  case (Cons r rs)
  then show ?case by (cases "ask_all ok fd rs") (auto split: if_splits)
qed simp

text \<open>A request that fails is the first one that does.\<close>

lemma ask_all_some:
  "ask_all ok fd rs = (t, Some r) \<Longrightarrow> \<not> ok r \<and> (\<exists>pre post. rs = pre @ r # post \<and> (\<forall>x\<in>set pre. ok x))"
proof (induction ok fd rs arbitrary: t rule: ask_all.induct)
  case (2 ok fd x rs)
  show ?case
  proof (cases "ok x")
    case True
    then obtain u where "ask_all ok fd rs = (u, Some r)"
      using "2.prems" by (cases "ask_all ok fd rs") auto
    then obtain pre post where "\<not> ok r" "rs = pre @ r # post" "\<forall>y\<in>set pre. ok y"
      using "2.IH" [OF True] by blast
    then show ?thesis using True by (metis append_Cons set_ConsD)
  next
    case False
    then have "r = x" using "2.prems" by simp
    then show ?thesis using False by (intro conjI exI [of _ "[]"] exI [of _ rs]) simp_all
  qed
qed simp

lemma set_iface_up_held: "set_iface_up ok sock flags name = (t, e) \<Longrightarrow> sys_held t s = s"
  by (auto simp: set_iface_up_def sys_held_append ask_all_done ask_all_fail simp del: ask_all.simps
      split: option.splits prod.splits)

text \<open>
  Each of the three openings leaves exactly the descriptor of the device it returns, and none when it
  fails.
\<close>

lemma open_bpf_on_held:
  "open_bpf_on ok dev hw name = (t, r) \<Longrightarrow> sys_held t [] = (case r of Inl _ \<Rightarrow> [] | Inr (fd, _) \<Rightarrow> [fd])"
  by (auto simp: open_bpf_on_def ask_all_done ask_all_fail split: sum.splits prod.splits option.splits)

lemma open_utun_held:
  "open_utun ok sock rnd addrs = (t, r) \<Longrightarrow> sys_held t [] = (case r of Inl _ \<Rightarrow> [] | Inr (fd, _) \<Rightarrow> [fd])"
  by (auto simp: open_utun_def ask_all_done ask_all_fail split: prod.splits option.splits)

lemma open_linux_tap_held:
  "open_linux_tap ok dev sock flags name = (t, r) \<Longrightarrow> sys_held t [] = (case r of Inl _ \<Rightarrow> [] | Inr fd \<Rightarrow> [fd])"
  by (auto simp: open_linux_tap_def sys_held_append ask_all_done ask_all_fail set_iface_up_held simp del: ask_all.simps
      split: sum.splits prod.splits option.splits)

text \<open>A bridge device that is in use injects frames with their own source address and sees what its host sends.\<close>

lemma open_bpf_on_asked:
  assumes "open_bpf_on ok dev hw name = (t, Inr (fd, b))"
  shows "t = SysOpen fd # map (SysAsk fd) (bpf_requests name)"
    and "SysAsk fd (BpfHdrComplete 1) \<in> set t" and "SysAsk fd (BpfSeeSent 1) \<in> set t" and "b = open_bpf hw"
proof -
  show t: "t = SysOpen fd # map (SysAsk fd) (bpf_requests name)" and "b = open_bpf hw"
    using assms by (auto simp: open_bpf_on_def dest!: ask_all_none split: sum.splits prod.splits option.splits)
  show "SysAsk fd (BpfHdrComplete 1) \<in> set t" "SysAsk fd (BpfSeeSent 1) \<in> set t"
    by (auto simp: t bpf_requests_def)
qed

text \<open>The device opened is the first that is not busy; its refusal ends the search.\<close>

lemma open_bpf_from_first:
  "open_bpf_from dev is = (case dropWhile (\<lambda>i. dev i = BpfBusy) is of [] \<Rightarrow> Inl SysNoDevice
     | i # _ \<Rightarrow> (case dev i of BpfFd fd \<Rightarrow> Inr fd | BpfBusy \<Rightarrow> Inl SysNoDevice | BpfDenied e \<Rightarrow> Inl (SysOpenFailed e)))"
  by (induction "is") (auto split: bpf_try.splits)

lemma no_bpf_device: "open_bpf_device dev = Inl SysNoDevice \<longleftrightarrow> (\<forall>i < 256. dev i = BpfBusy)"
proof -
  have "open_bpf_from dev is = Inl SysNoDevice \<longleftrightarrow> (\<forall>i\<in>set is. dev i = BpfBusy)" for "is"
    by (induction "is") (auto split: bpf_try.splits)
  then show ?thesis by (auto simp: open_bpf_device_def)
qed

section \<open>Reading\<close>

definition quiet_round :: "read_round \<Rightarrow> bool" where
  "quiet_round e = (case e of SelectIntr \<Rightarrow> True | NotReady \<Rightarrow> True | ReadAgain \<Rightarrow> True
     | GotData b \<Rightarrow> length b < 4 | _ \<Rightarrow> False)"

lemma read_ip_quiet: "\<forall>e\<in>set q. quiet_round e \<Longrightarrow> read_ip (q @ es) = read_ip es"
  by (induction q) (auto simp: quiet_round_def utun_get_def split: read_round.splits)

text \<open>What was put on the device is what the next reading gives, whatever happens in between.\<close>

lemma read_ip_put:
  assumes "\<forall>e\<in>set q. quiet_round e" "length p + 4 \<le> 65536"
  shows "read_ip (q @ GotData (utun_put p) # es) = Some (Inr p, es)"
  using assms by (simp add: read_ip_quiet utun_get_def utun_put_def)

lemma read_ip_loud:
  "read_ip es = Some (r, rest) \<Longrightarrow> \<exists>q e. es = q @ e # rest \<and> (\<forall>x\<in>set q. quiet_round x) \<and> \<not> quiet_round e"
proof (induction es)
  case (Cons e es)
  show ?case
  proof (cases "quiet_round e")
    case True
    then have "read_ip (e # es) = read_ip es" using read_ip_quiet [of "[e]" es] by simp
    then obtain q x where "es = q @ x # rest" "\<forall>y\<in>set q. quiet_round y" "\<not> quiet_round x"
      using Cons by auto
    then show ?thesis using True by (intro exI [of _ "e # q"]) auto
  next
    case False
    then have "rest = es" using Cons.prems
      by (auto simp: quiet_round_def utun_get_def split: read_round.splits if_splits)
    then show ?thesis using False by (intro exI [of _ "[]"]) simp
  qed
qed simp

text \<open>Four bytes are a packet without any, on which \<open>ReadFrame\<close> panics.\<close>

lemma read_ip_empty_panics: "read_ip (GotData [0, 0, 0, 2] # es) = Some (Inr [], es)" "l2_wrap [] d = None"
  by (simp_all add: utun_get_def l2_wrap_def)

section \<open>Names and frames\<close>

text \<open>The reported name; but a failed query gives sixteen zeros, not the fallback.\<close>

lemma utun_if_name_ok: "s \<noteq> [] \<Longrightarrow> length s \<le> if_name_size \<Longrightarrow> utun_if_name (Some s) = s"
  by (simp add: utun_if_name_def if_name_size_def)

lemma utun_if_name_failed: "utun_if_name None = replicate 16 (CHR 0x00)"
  by (simp add: utun_if_name_def if_name_size_def)

lemma padded_length [simp]: "length (padded n b) = n"
  by (simp add: padded_def)

lemma tap_flags_bytes: "put16_le tap_flags = [0x02, 0x10]"
  by code_simp

lemma tap_ifreq_fields:
  "length (tap_ifreq name) = 80" "take 16 (tap_ifreq name) = take 16 (padded 80 name)"
  "slice 16 18 (tap_ifreq name) = [0x02, 0x10]"
  by (simp_all add: tap_ifreq_def if_name_size_def Let_def tap_flags_bytes slice_def)

lemma up_flags_keeps: "up_flags f AND f = f" "bit (up_flags f) 0"
  by (rule bit_word_eqI; auto simp: up_flags_def bit_simps) (simp add: up_flags_def bit_simps)

lemma linux_tap_read_whole: "length f \<le> tap_read_buffer \<Longrightarrow> linux_tap_read (Some f) = Some f"
  by (simp add: linux_tap_read_def)

lemma linux_tap_read_cut: "tap_read_buffer < length f \<Longrightarrow> linux_tap_read (Some f) \<noteq> Some f"
  by (metis length_take linux_tap_read_def min_less_iff_conj nat_less_le not_le option.inject option.map(2) take_all_iff)

end
