(* ===== verification/WindowsBridge.thy ===== *)
theory WindowsBridge
  imports Adapter
begin

text \<open>
  The Windows network bridge of the clients (\<open>internal/clientadapter/hint_windows.go\<close>): what
  \<open>ensureBridge\<close> makes of the answers of its PowerShell scripts, and the C# program one of them runs
  against the network configuration; the lookup of an adapter (\<open>internal/bridge/link_windows.go\<close>). The
  texts of the scripts are not modelled: a script is the question it asks.
\<close>

section \<open>Scripts\<close>

datatype ps_script = FindBridge | AskElevated | AskCmdlets | AskState | BindAdapters | RunNetCfg

text \<open>The output, and whether PowerShell succeeded.\<close>

type_synonym ps_answer = "string \<times> bool"

definition is_elevated :: "ps_answer \<Rightarrow> bool" where
  "is_elevated a = (snd a \<and> trim_space (fst a) = ''True'')"

definition find_win_bridge :: "ps_answer \<Rightarrow> string" where
  "find_win_bridge a = (if snd a then trim_space (fst a) else '''')"

definition ms_bridge_bound :: "ps_answer \<Rightarrow> bool" where
  "ms_bridge_bound a = (snd a \<and> trim_space (fst a) = ''True'')"

text \<open>\<open>bindMsBridge\<close>: the scripts it runs, and whether it succeeds.\<close>

definition bind_ms_bridge :: "ps_answer \<Rightarrow> ps_script list \<times> bool" where
  "bind_ms_bridge a = ([AskCmdlets, AskState, BindAdapters] @ (if snd a then [AskState] else []), snd a)"

datatype netcfg_error = NetCfgPowershell string | NetCfgReboot | NetCfgResult string

text \<open>\<open>bindMsBridgeINetCfg\<close> reads the line the program prints.\<close>

definition netcfg_outcome :: "ps_answer \<Rightarrow> netcfg_error option" where
  "netcfg_outcome a =
     (let r = trim_space (fst a) in
      if \<not> snd a then Some (NetCfgPowershell r) else if r = ''NEED_REBOOT'' then Some NetCfgReboot
      else if r \<noteq> ''OK'' then Some (NetCfgResult r) else None)"

text \<open>
  \<open>ensureBridge\<close> with the answer of every script: the scripts it runs, in order, and whether it reports
  success. A bridge that is still missing at the end is only logged.
\<close>

definition ensure_win_bridge :: "(ps_script \<Rightarrow> ps_answer) \<Rightarrow> ps_script list \<times> bool" where
  "ensure_win_bridge ps =
     (if find_win_bridge (ps FindBridge) \<noteq> '''' then ([FindBridge], True)
      else if \<not> is_elevated (ps AskElevated) then ([FindBridge, AskElevated], True)
      else case bind_ms_bridge (ps BindAdapters) of (scripts, bound) \<Rightarrow>
        let tried = [FindBridge, AskElevated] @ scripts @ [RunNetCfg] in
        if \<not> bound \<and> netcfg_outcome (ps RunNetCfg) \<noteq> None then (tried, False)
        else (tried @ [FindBridge], True))"

section \<open>The program run against the network configuration\<close>

text \<open>The results of its calls; a name in \<open>nf_adapters\<close> is one an adapter displays.\<close>

record netcfg =
  nf_init :: "32 word"
  nf_lock_iface :: bool
  nf_lock :: "32 word"
  nf_holder :: "string option"
  nf_bridge :: "32 word"
  nf_bind_iface :: bool
  nf_enum :: "32 word"
  nf_adapters :: "string list"
  nf_bind :: "string \<Rightarrow> 32 word"
  nf_apply :: "32 word"

datatype netcfg_call =
    NcInitialize | NcAcquire | NcFindBridge | NcEnum string | NcBind string | NcApply | NcRelease | NcUninitialize

definition hr_digit :: "nat \<Rightarrow> char" where
  "hr_digit n = (if n < 10 then char_of (n + 48) else char_of (n + 55))"

definition hex8 :: "32 word \<Rightarrow> string" where
  "hex8 w = map (\<lambda>i. hr_digit (unat w div 16 ^ i mod 16)) (rev [0..<8])"

definition hr_failed :: "string \<Rightarrow> 32 word \<Rightarrow> string" where "hr_failed what hr = what @ '' failed: 0x'' @ hex8 hr"

definition hr_needs_reboot :: "32 word" where "hr_needs_reboot = 0x8004A020"
definition hr_already_exists :: "32 word" where "hr_already_exists = 0x800700B7"

definition bind_ok :: "32 word \<Rightarrow> bool" where "bind_ok hr \<longleftrightarrow> hr = 0 \<or> hr = hr_already_exists"

text \<open>\<open>FindAdapter\<close>: the displayed name, compared without case; here for the letters of ASCII.\<close>

definition find_net_adapter :: "netcfg \<Rightarrow> string \<Rightarrow> string option" where
  "find_net_adapter cfg name =
     (if nf_enum cfg \<noteq> 0 then None
      else find (\<lambda>a. to_lower a = to_lower name) (nf_adapters cfg))"

text \<open>The body of \<open>Run\<close> while the lock is held.\<close>

definition netcfg_locked :: "netcfg \<Rightarrow> string \<Rightarrow> string \<Rightarrow> netcfg_call list \<times> string" where
  "netcfg_locked cfg nic tap =
     (if nf_bridge cfg \<noteq> 0 then ([NcFindBridge], hr_failed ''FindComponent ms_bridge'' (nf_bridge cfg))
      else if \<not> nf_bind_iface cfg then ([NcFindBridge], ''INetCfgComponentBindings QI failed'')
      else case find_net_adapter cfg nic of
        None \<Rightarrow> ([NcFindBridge, NcEnum nic], ''adapter not found: '' @ nic)
      | Some n \<Rightarrow> (case find_net_adapter cfg tap of
          None \<Rightarrow> ([NcFindBridge, NcEnum nic, NcEnum tap], ''adapter not found: '' @ tap)
        | Some t \<Rightarrow>
            let looked = [NcFindBridge, NcEnum nic, NcEnum tap] in
            if \<not> bind_ok (nf_bind cfg n) then (looked @ [NcBind n], hr_failed (''BindTo('' @ nic @ '')'') (nf_bind cfg n))
            else if \<not> bind_ok (nf_bind cfg t)
            then (looked @ [NcBind n, NcBind t], hr_failed (''BindTo('' @ tap @ '')'') (nf_bind cfg t))
            else (looked @ [NcBind n, NcBind t, NcApply],
                  if nf_apply cfg \<noteq> 0 then hr_failed ''Apply'' (nf_apply cfg) else ''OK'')))"

definition netcfg_run :: "netcfg \<Rightarrow> string \<Rightarrow> string \<Rightarrow> netcfg_call list \<times> string" where
  "netcfg_run cfg nic tap =
     (if nf_init cfg \<noteq> 0 then ([NcInitialize], hr_failed ''Initialize'' (nf_init cfg))
      else if \<not> nf_lock_iface cfg then ([NcInitialize, NcUninitialize], ''INetCfgLock QI failed'')
      else if nf_lock cfg = hr_needs_reboot then ([NcInitialize, NcAcquire, NcUninitialize], ''NEED_REBOOT'')
      else if nf_lock cfg \<noteq> 0
      then ([NcInitialize, NcAcquire, NcUninitialize],
            ''AcquireWriteLock failed (holder='' @ (case nf_holder cfg of None \<Rightarrow> '''' | Some h \<Rightarrow> h) @ ''): 0x'' @
              hex8 (nf_lock cfg))
      else case netcfg_locked cfg nic tap of (t, r) \<Rightarrow>
        ([NcInitialize, NcAcquire] @ t @ [NcRelease, NcUninitialize], r))"

section \<open>Looking up an adapter\<close>

datatype query_reply = QueryOk | QueryOverflow | QueryError

text \<open>
  The four attempts of \<open>findAdapter\<close>, from the size of the buffer: the system's answer to a size is a
  reply and the size it wants.
\<close>

fun query_adapters :: "(nat \<Rightarrow> query_reply \<times> nat) \<Rightarrow> nat \<Rightarrow> nat \<Rightarrow> bool" where
  "query_adapters q 0 sz = False"
| "query_adapters q (Suc n) sz =
     (case q sz of (QueryOk, _) \<Rightarrow> True | (QueryOverflow, sz') \<Rightarrow> query_adapters q n sz' | (QueryError, _) \<Rightarrow> False)"

text \<open>The list the lookup then walks; a failed query is one without an adapter.\<close>

definition queried_adapters :: "(nat \<Rightarrow> query_reply \<times> nat) \<Rightarrow> adapter list \<Rightarrow> adapter list" where
  "queried_adapters q ads = (if query_adapters q 4 15000 then ads else [])"

section \<open>Properties of the scripts\<close>

text \<open>The abstract description of the adapters' own file is what the scripts' answers give.\<close>

lemma ensure_win_bridge_abs:
  "snd (ensure_win_bridge ps) =
     fst (ensure_bridge (find_win_bridge (ps FindBridge)) (is_elevated (ps AskElevated))
            (snd (ps BindAdapters)) (netcfg_outcome (ps RunNetCfg) = None))"
  by (simp add: ensure_win_bridge_def ensure_bridge_def bind_ms_bridge_def Let_def)

text \<open>Nothing is bound where a bridge exists, or without the rights to do it.\<close>

lemma ensure_win_bridge_binds:
  "BindAdapters \<in> set (fst (ensure_win_bridge ps)) \<longleftrightarrow>
     find_win_bridge (ps FindBridge) = '''' \<and> is_elevated (ps AskElevated)"
  "RunNetCfg \<in> set (fst (ensure_win_bridge ps)) \<longleftrightarrow> BindAdapters \<in> set (fst (ensure_win_bridge ps))"
  by (simp_all add: ensure_win_bridge_def bind_ms_bridge_def Let_def)

text \<open>A failing PowerShell has no bridge and no rights, so nothing is changed.\<close>

lemma broken_powershell: "\<not> snd (ps AskElevated) \<Longrightarrow> BindAdapters \<notin> set (fst (ensure_win_bridge ps))"
  by (simp add: ensure_win_bridge_binds is_elevated_def)

section \<open>Properties of the program\<close>

lemma locked_calls:
  "netcfg_locked cfg nic tap = (t, r) \<Longrightarrow>
     NcInitialize \<notin> set t \<and> NcAcquire \<notin> set t \<and> NcRelease \<notin> set t \<and> NcUninitialize \<notin> set t"
  by (auto simp: netcfg_locked_def Let_def split: if_splits option.splits)

text \<open>The lock that was obtained is given back, the configuration that was initialised is closed last, and once.\<close>

lemma netcfg_run_releases:
  assumes "netcfg_run cfg nic tap = (t, r)"
  shows "count_list t NcRelease = (if nf_init cfg = 0 \<and> nf_lock_iface cfg \<and> nf_lock cfg = 0 then 1 else 0)"
    and "count_list t NcUninitialize = (if nf_init cfg = 0 then 1 else 0)"
    and "nf_init cfg = 0 \<Longrightarrow> last t = NcUninitialize"
proof -
  obtain u v where l: "netcfg_locked cfg nic tap = (u, v)" by fastforce
  have "count_list u NcRelease = 0" "count_list u NcUninitialize = 0"
    using locked_calls [OF l] by (simp_all add: count_list_0_iff)
  then show "count_list t NcRelease = (if nf_init cfg = 0 \<and> nf_lock_iface cfg \<and> nf_lock cfg = 0 then 1 else 0)"
    "count_list t NcUninitialize = (if nf_init cfg = 0 then 1 else 0)"
    "nf_init cfg = 0 \<Longrightarrow> last t = NcUninitialize"
    using assms l by (auto simp: netcfg_run_def hr_needs_reboot_def split: if_splits)
qed

lemma locked_ok:
  "netcfg_locked cfg nic tap = (t, ''OK'') \<longleftrightarrow>
     nf_bridge cfg = 0 \<and> nf_bind_iface cfg \<and> nf_apply cfg = 0 \<and>
     (\<exists>n m. find_net_adapter cfg nic = Some n \<and> find_net_adapter cfg tap = Some m \<and>
        bind_ok (nf_bind cfg n) \<and> bind_ok (nf_bind cfg m) \<and>
        t = [NcFindBridge, NcEnum nic, NcEnum tap, NcBind n, NcBind m, NcApply])"
  by (auto simp: netcfg_locked_def Let_def hr_failed_def split: if_splits option.splits)

text \<open>The program reports success exactly when both adapters are bound and the change is applied.\<close>

lemma netcfg_run_ok:
  "snd (netcfg_run cfg nic tap) = ''OK'' \<longleftrightarrow>
     nf_init cfg = 0 \<and> nf_lock_iface cfg \<and> nf_lock cfg = 0 \<and> snd (netcfg_locked cfg nic tap) = ''OK''"
  by (auto simp: netcfg_run_def hr_failed_def hr_needs_reboot_def split: prod.splits)

section \<open>Properties of the lookup\<close>

text \<open>A buffer of the size the system asks for is enough, so the second attempt succeeds.\<close>

lemma query_adapters_grow:
  assumes "\<And>s. q s = (if need \<le> s then QueryOk else QueryOverflow, need)"
  shows "query_adapters q 4 15000"
  by (simp add: assms eval_nat_numeral)

text \<open>Without an answer every interface keeps its link and none is excluded by its description.\<close>

lemma failed_query_open:
  assumes "\<not> query_adapters q 4 15000"
  shows "iface_has_link (queried_adapters q ads) name" "adapter_description (queried_adapters q ads) name = ''''"
  using assms by (simp_all add: queried_adapters_def iface_has_link_def adapter_description_def find_adapter_def)

lemma four_overflows: "(\<And>s. fst (q s) = QueryOverflow) \<Longrightarrow> \<not> query_adapters q n s"
  by (induction n arbitrary: s) (auto split: prod.splits query_reply.splits, metis fst_conv query_reply.distinct(1,5))

end
