(* ===== verification/Housekeeping.thy ===== *)
theory Housekeeping
  imports Listeners Update
begin

text \<open>
  The second UDP socket of the server (\<open>runSecondaryUDP\<close> of \<open>cmd/supervpn-server/main.go\<close>), and
  \<open>FetchAsset\<close> of \<open>internal/update/update.go\<close>.
\<close>

section \<open>The second UDP socket\<close>

text \<open>One round of the loop: a datagram of an address, or the error that ends it.\<close>

datatype udp_read = UdpData "32 word" bytes time bytes string | UdpReadError

definition secondary_datagram ::
  "env \<Rightarrow> 32 word \<Rightarrow> bytes \<Rightarrow> time \<Rightarrow> bytes \<Rightarrow> string \<Rightarrow> udp_state \<Rightarrow> effect list \<times> udp_state" where
  "secondary_datagram env rnd salt now data addr s =
     (let pkt = take udp_buffer data; j = \<lparr>uj_pkt = pkt, uj_addr = addr, uj_sec = True\<rparr>;
          inline = (case parse_header pkt of None \<Rightarrow> False | Some h \<Rightarrow> hdr_type h \<in> {FrameRepair, FramePing})
      in if inline
         then (case snd (handle_packet env rnd salt now (udp_origin j) True pkt (us_server s)) of
                 (out, sv) \<Rightarrow> (out, s\<lparr>us_server := sv\<rparr>))
         else ([], if length (us_queue s) < queue_cap s then s\<lparr>us_queue := us_queue s @ [j]\<rparr> else s))"

fun run_secondary_udp :: "env \<Rightarrow> udp_read list \<Rightarrow> udp_state \<Rightarrow> effect list \<times> udp_state" where
  "run_secondary_udp env [] s = ([], s)"
| "run_secondary_udp env (UdpReadError # es) s = ([], s)"
| "run_secondary_udp env (UdpData rnd salt now data addr # es) s =
     (case secondary_datagram env rnd salt now data addr s of
        (out, s1) \<Rightarrow> apfst ((@) out) (run_secondary_udp env es s1))"

text \<open>Both sockets read in the same way: the datagram is the one the listener's model knows.\<close>

lemma secondary_datagram_event:
  "udp_event_step env s (Datagram rnd salt now data addr True) = (out, hs, s') \<Longrightarrow>
     secondary_datagram env rnd salt now data addr s = (out, s')"
  by (auto simp: udp_event_step_def secondary_datagram_def handled_inline_def run_job_def Let_def
      split: if_splits option.splits prod.splits)

definition secondary_events :: "udp_read list \<Rightarrow> udp_event list" where
  "secondary_events es = List.map_filter (\<lambda>e. case e of UdpReadError \<Rightarrow> None
     | UdpData rnd salt now data addr \<Rightarrow> Some (Datagram rnd salt now data addr True)) (takeWhile (\<lambda>e. e \<noteq> UdpReadError) es)"

lemma run_secondary_udp_events:
  "run_secondary_udp env es s = (case udp_run env (secondary_events es) s of (out, _, s') \<Rightarrow> (out, s'))"
proof (induction env es s rule: run_secondary_udp.induct)
  case (3 env rnd salt now data addr es s)
  obtain out hs s1 where e: "udp_event_step env s (Datagram rnd salt now data addr True) = (out, hs, s1)"
    by (metis prod_cases3)
  note d = secondary_datagram_event [OF e]
  show ?case
    using 3 [OF d [symmetric]] by (simp add: d e secondary_events_def map_filter_simps split: prod.splits)
qed (simp_all add: secondary_events_def map_filter_simps)

text \<open>After one read error the second path of every client is gone until the server restarts.\<close>

lemma secondary_stops: "run_secondary_udp env (UdpReadError # es) s = ([], s)"
  by simp

section \<open>Fetching an asset\<close>

datatype fetch_error = MkdirFailed | FetchFailed update_error

definition fetch_asset ::
  "http \<Rightarrow> fs_ops \<Rightarrow> bool \<Rightarrow> (string \<Rightarrow> bool) \<Rightarrow> string \<Rightarrow> string \<Rightarrow> string \<Rightarrow> fs \<Rightarrow> fetch_error option \<times> fs" where
  "fetch_asset get ops windows mkdir tag asset dest fs =
     (if \<not> mkdir (path_dir dest) then (Some MkdirFailed, fs)
      else apfst (map_option FetchFailed)
             (download_and_replace get ops windows (githubDLBase @ tag @ ''/'' @ asset) dest fs))"

text \<open>The file is replaced whole or not at all, and then by a complete answer for this tag and asset.\<close>

lemma fetch_asset_whole:
  assumes "fetch_asset get ops False mkdir tag asset dest fs = (r, fs')"
  shows "r \<noteq> None \<Longrightarrow> map_of fs' dest = map_of fs dest"
    and "r = None \<Longrightarrow> \<exists>body. get (githubDLBase @ tag @ ''/'' @ asset) = HttpReply 200 body True \<and> map_of fs' dest = Some body"
proof -
  obtain q where d: "download_and_replace get ops False (githubDLBase @ tag @ ''/'' @ asset) dest fs = (q, fs')
      \<and> r = map_option FetchFailed q \<or> r = Some MkdirFailed \<and> fs' = fs"
    using assms by (cases "mkdir (path_dir dest)"; cases "download_and_replace get ops False (githubDLBase @ tag @ ''/'' @ asset) dest fs")
      (auto simp: fetch_asset_def)
  then show "r \<noteq> None \<Longrightarrow> map_of fs' dest = map_of fs dest"
    by (auto simp: download_and_replace_def split: http_reply.splits if_splits dest!: apply_binary_unix)
  show "r = None \<Longrightarrow> \<exists>body. get (githubDLBase @ tag @ ''/'' @ asset) = HttpReply 200 body True \<and> map_of fs' dest = Some body"
    using d by (auto simp: download_and_replace_def split: http_reply.splits if_splits dest!: apply_binary_unix)
qed

end
