(* ===== verification/WinSession.thy ===== *)
theory WinSession
  imports GuiSession Adapter
begin

text \<open>
  The Windows client's own handlers around a session (\<open>cmd/supervpn-client-gui/ui_windows.go\<close>):
  \<open>onConnect\<close> with the goroutine that opens the adapter, \<open>onDisconnect\<close>, the refresh loop, and the
  scheduled task behind "start with Windows". Connecting and disconnecting refine the buttons' model the
  cross-platform client has.
\<close>

section \<open>State\<close>

record win_session =
  ws_ctl :: gui_ctl
  ws_view :: gui_view
  ws_status :: string
  ws_drop_label :: string
  ws_log :: "64 word \<times> string list"
  ws_posted :: "(session_stats \<times> stats_line option) list"

definition win_connect :: "bool \<Rightarrow> win_session \<Rightarrow> win_session" where
  "win_connect valid w =
     (if \<not> valid then w
      else w\<lparr>ws_view := connect_view (ws_view w), ws_drop_label := '''', ws_ctl := (ws_ctl w)\<lparr>gc_connect := False,
             gc_disconnect := True, gc_opening := gc_opening (ws_ctl w) + 1\<rparr>\<rparr>)"

text \<open>The goroutine's end: the adapter could not be opened, or the client is started.\<close>

definition win_open_failed :: "string \<Rightarrow> win_session \<Rightarrow> win_session" where
  "win_open_failed err w = w\<lparr>ws_status := ''Error: '' @ err, ws_ctl := (ws_ctl w)\<lparr>gc_opening := gc_opening (ws_ctl w) - 1,
     gc_connect := True, gc_disconnect := False\<rparr>\<rparr>"

definition win_opened :: "win_session \<Rightarrow> win_session" where
  "win_opened w =
     (let c = ws_ctl w; i = length (gc_runs c)
      in w\<lparr>ws_ctl := c\<lparr>gc_opening := gc_opening c - 1, gc_framer := Some i, gc_cancel := Some i, gc_client := Some i,
             gc_runs := gc_runs c @ [\<lparr>gu_live = True, gu_open = True\<rparr>]\<rparr>\<rparr>)"

definition win_disconnect :: "win_session \<Rightarrow> win_session" where
  "win_disconnect w =
     (let c = ws_ctl w;
          cancelled = run_at (gc_cancel c) (\<lambda>r. r\<lparr>gu_live := False\<rparr>) (gc_runs c);
          stopped = run_at (gc_client c) (\<lambda>r. r\<lparr>gu_live := False\<rparr>) cancelled;
          closed = run_at (gc_framer c) (\<lambda>r. r\<lparr>gu_open := False\<rparr>) stopped
      in w\<lparr>ws_ctl := c\<lparr>gc_runs := closed, gc_client := None, gc_framer := None, gc_connect := True, gc_disconnect := False\<rparr>,
           ws_view := disconnect_view (ws_view w), ws_drop_label := '''', ws_status := ''Disconnected'',
           ws_log := (0, snd (ws_log w))\<rparr>)"

text \<open>
  The refresh loop of a session: a change of the client, which posts a closure to the UI thread, and the
  ticker of the log, which sets the text only when the version moved; and the UI thread, which runs the
  closure posted first.
\<close>

datatype refresh_event = ClientChanged time session_stats | LogTicked ring | RunPosted

definition crlf_join :: "string list \<Rightarrow> string" where
  "crlf_join ls = (case ls of [] \<Rightarrow> '''' | l # r \<Rightarrow> l @ concat (map (\<lambda>s. [CHR 0x0D, CHR 0x0A] @ s) r))"

text \<open>The state after an event and the text the log widget is given, if it is.\<close>

definition win_refresh_step :: "refresh_event \<Rightarrow> win_session \<Rightarrow> win_session \<times> string option" where
  "win_refresh_step e w = (case e of
      ClientChanged now st \<Rightarrow>
        (if gc_client (ws_ctl w) = None then (w, None)
         else let g = ws_view w; up = (st_state st = StateConnected);
                  line = \<lparr>sl_tx = speed_of now (gv_time g) (st_tx st) (gv_tx g),
                          sl_rx = speed_of now (gv_time g) (st_rx st) (gv_rx g),
                          sl_recovered = st_fec_recovered st, sl_lost = st_fec_lost st\<rparr>
           in (w\<lparr>ws_view := snd (win_refresh now st g), ws_posted := ws_posted w @ [(st, if up then Some line else None)]\<rparr>, None))
    | RunPosted \<Rightarrow>
        (case ws_posted w of [] \<Rightarrow> (w, None)
         | (st, line) # ps \<Rightarrow>
             (w\<lparr>ws_view := win_closure st line (ws_view w), ws_status := status_text st, ws_posted := ps\<rparr>, None))
    | LogTicked r \<Rightarrow>
        (if ri_version r = fst (ws_log w) then (w, None)
         else let ls = ri_lines r;
                  shown = (if maxLogDisplay < length ls then drop (length ls - maxLogDisplay) ls else ls)
           in (w\<lparr>ws_log := (ri_version r, shown)\<rparr>, Some (crlf_join shown))))"

section \<open>The scheduled task\<close>

definition lines_of :: "string list \<Rightarrow> string" where
  "lines_of ls = concat (map (\<lambda>l. l @ [CHR 0x0A]) ls)"

definition register_head :: string where
  "register_head = lines_of ['''', ''$ErrorActionPreference = '' @ ps_single_quote ''Stop'',
     ''$who      = [System.Security.Principal.WindowsIdentity]::GetCurrent().Name''] @
     ''$action   = New-ScheduledTaskAction -Execute ''"

definition register_tail :: string where
  "register_tail = lines_of ['''', ''$trigger  = New-ScheduledTaskTrigger -AtLogon -User $who'',
     ''$settings = New-ScheduledTaskSettingsSet -ExecutionTimeLimit 0 '' @
       ''-AllowStartIfOnBatteries -DontStopIfGoingOnBatteries '' @ ''-MultipleInstances IgnoreNew'',
     ''$principal = New-ScheduledTaskPrincipal '' @ ''-UserId $who -RunLevel Highest -LogonType Interactive'',
     ''Register-ScheduledTask -TaskName '' @ ps_single_quote ''superVPN'' @ '' '' @
       ''-Action $action -Trigger $trigger '' @ ''-Settings $settings -Principal $principal -Force | Out-Null'',
     ''Write-Output '' @ ps_single_quote ''OK'']"

definition unregister_script :: string where
  "unregister_script = ''Unregister-ScheduledTask -TaskName '' @ ps_single_quote ''superVPN'' @ '' '' @
     ''-Confirm:$false -ErrorAction SilentlyContinue; Write-Output '' @ ps_single_quote ''OK''"

text \<open>The script PowerShell is given, for the program's path.\<close>

definition start_task_script :: "bool \<Rightarrow> string \<Rightarrow> string" where
  "start_task_script enable exe =
     (if enable then register_head @ [CHR 0x27] @ double_quotes exe @ [CHR 0x27] @ register_tail
      else unregister_script)"

datatype start_outcome = NoProgram | TaskFailed string | TaskDone string

text \<open>
  \<open>applyStartWithWindows\<close>: the error of \<open>EvalSymlinks\<close> is ignored, and its result is then empty. \<open>ps\<close> gives
  the output and whether PowerShell succeeded.
\<close>

definition apply_start_with_windows ::
  "string option \<Rightarrow> (string \<Rightarrow> string option) \<Rightarrow> (string \<Rightarrow> string \<times> bool) \<Rightarrow> bool \<Rightarrow> start_outcome" where
  "apply_start_with_windows exe resolve ps enable = (case exe of None \<Rightarrow> NoProgram
    | Some p \<Rightarrow> (case ps (start_task_script enable (case resolve p of None \<Rightarrow> '''' | Some q \<Rightarrow> q)) of (out, ok) \<Rightarrow>
        if \<not> ok then TaskFailed (trim_space out) else TaskDone (if enable then ''registered'' else ''removed'')))"

section \<open>Refinement\<close>

inductive win_session_step :: "win_session \<Rightarrow> win_session \<Rightarrow> bool" where
  connect: "gc_connect (ws_ctl w) \<Longrightarrow> win_session_step w (win_connect valid w)"
| failed: "0 < gc_opening (ws_ctl w) \<Longrightarrow> win_session_step w (win_open_failed err w)"
| opened: "0 < gc_opening (ws_ctl w) \<Longrightarrow> win_session_step w (win_opened w)"
| disconnect: "gc_disconnect (ws_ctl w) \<Longrightarrow> win_session_step w (win_disconnect w)"
| refresh: "win_session_step w (fst (win_refresh_step e w))"

lemma win_ctl_steps [simp]:
  "ws_ctl (win_connect valid w) = ctl_connect valid (ws_ctl w)"
  "ws_ctl (win_open_failed err w) = ctl_open_failed (ws_ctl w)"
  "ws_ctl (win_opened w) = ctl_opened (ws_ctl w)"
  "ws_ctl (win_disconnect w) = ctl_disconnect (ws_ctl w)"
  "ws_ctl (fst (win_refresh_step e w)) = ws_ctl w"
  by (simp_all add: win_connect_def ctl_connect_def win_open_failed_def ctl_open_failed_def win_opened_def
      ctl_opened_def Let_def win_disconnect_def ctl_disconnect_def win_refresh_step_def
      split: refresh_event.split prod.split list.split)

text \<open>Every step of the Windows client is a step of the buttons' model, or does not concern it.\<close>

lemma win_session_refines:
  assumes "win_session_step w w'"
  shows "ctl_step (ws_ctl w) (ws_ctl w') \<or> ws_ctl w' = ws_ctl w"
  using assms by cases (auto intro: ctl_step.intros)

lemma win_session_runs_refine: "win_session_step\<^sup>*\<^sup>* w w' \<Longrightarrow> ctl_step\<^sup>*\<^sup>* (ws_ctl w) (ws_ctl w')"
  by (induction rule: rtranclp_induct) (auto dest!: win_session_refines)

text \<open>Conversely, every step of the model is one the Windows client can make: it has the same race.\<close>

lemma ctl_step_lifts:
  assumes "ctl_step (ws_ctl w) c"
  shows "\<exists>w'. win_session_step w w' \<and> ws_ctl w' = c"
  using assms
proof cases
  case (connect valid)
  then show ?thesis by (intro exI [of _ "win_connect valid w"]) (simp add: win_session_step.connect)
next
  case failed
  then show ?thesis by (intro exI [of _ "win_open_failed [] w"]) (simp add: win_session_step.failed)
next
  case opened
  then show ?thesis by (intro exI [of _ "win_opened w"]) (simp add: win_session_step.opened)
next
  case disconnect
  then show ?thesis by (intro exI [of _ "win_disconnect w"]) (simp add: win_session_step.disconnect)
qed

lemma ctl_steps_lift: "ctl_step\<^sup>*\<^sup>* (ws_ctl w) c \<Longrightarrow> \<exists>w'. win_session_step\<^sup>*\<^sup>* w w' \<and> ws_ctl w' = c"
proof (induction rule: rtranclp_induct)
  case base
  then show ?case by blast
next
  case (step c c')
  then show ?case by (metis ctl_step_lifts rtranclp.rtrancl_into_rtrancl)
qed

lemma win_lost_run:
  assumes "ws_ctl w = ctl_start"
  shows "\<exists>w'. win_session_step\<^sup>*\<^sup>* w w' \<and> ws_ctl w' = cancel_race"
  using ctl_steps_lift [of w cancel_race] cancel_race_reached assms by (simp add: ctl_reach_def)

section \<open>The display\<close>

text \<open>A change whose closure runs at once shows what the cross-platform client shows for it.\<close>

definition change_shown :: "time \<Rightarrow> session_stats \<Rightarrow> win_session \<Rightarrow> win_session" where
  "change_shown now st w = fst (win_refresh_step RunPosted (fst (win_refresh_step (ClientChanged now st) w)))"

lemma win_change_shown:
  assumes "gc_client (ws_ctl w) = Some i" "ws_posted w = []"
  shows "ws_view (change_shown now st w) = main_refresh now st (ws_view w)"
    and "ws_status (change_shown now st w) = status_text st" and "ws_posted (change_shown now st w) = []"
proof -
  show "ws_view (change_shown now st w) = main_refresh now st (ws_view w)"
    using assms win_closure_main [of now st "ws_view w"]
    by (simp add: change_shown_def win_refresh_step_def win_refresh_def Let_def)
qed (use assms in \<open>simp_all add: change_shown_def win_refresh_step_def Let_def\<close>)

text \<open>After Disconnect a change of the stopped client posts nothing.\<close>

lemma win_disconnected_quiet:
  "fst (win_refresh_step (ClientChanged now st) (win_disconnect w)) = win_disconnect w"
  by (simp add: win_refresh_step_def win_disconnect_def Let_def)

text \<open>But a closure posted before it still runs: the window then says Connected without a session.\<close>

lemma late_closure_shown:
  assumes "ws_posted w = [(st, line)]" "st_state st = StateConnected"
  shows "gc_client (ws_ctl (fst (win_refresh_step RunPosted (win_disconnect w)))) = None"
    and "ws_status (fst (win_refresh_step RunPosted (win_disconnect w))) = status_text st"
    and "gv_dot (ws_view (fst (win_refresh_step RunPosted (win_disconnect w)))) = DotGreen"
  using assms by (simp_all add: win_refresh_step_def win_disconnect_def win_closure_def state_dot_def Let_def)

text \<open>The log of both clients shows the same lines; here they are joined by the line ends of the widget.\<close>

lemma win_log_tick: "ws_log (fst (win_refresh_step (LogTicked r) w)) = log_tick r (ws_log w)"
  by (simp add: win_refresh_step_def log_tick_def Let_def prod_eq_iff)

lemma win_log_text:
  "ri_version r \<noteq> fst (ws_log w) \<Longrightarrow>
     snd (win_refresh_step (LogTicked r) w) = Some (crlf_join (snd (log_tick r (ws_log w))))"
  by (simp add: win_refresh_step_def log_tick_def Let_def)

section \<open>The script's path\<close>

text \<open>PowerShell reads the path back as it is, whatever quotes it has: it cannot end its literal.\<close>

lemma start_script_literal:
  "drop (length register_head + 1) (start_task_script True exe) = double_quotes exe @ CHR 0x27 # register_tail"
  by (simp add: start_task_script_def)

lemma start_script_path:
  "ps_literal (drop (length register_head + 1) (start_task_script True exe)) = Some (exe, register_tail)"
  unfolding start_script_literal by (rule ps_literal_quoted) (simp add: register_tail_def lines_of_def)


text \<open>A path that cannot be resolved is registered as an empty one, and reported as done.\<close>

lemma unresolved_registered:
  "resolve p = None \<Longrightarrow> snd (ps (start_task_script True '''')) \<Longrightarrow>
     apply_start_with_windows (Some p) resolve ps True = TaskDone ''registered''"
  by (cases "ps (start_task_script True [])") (simp add: apply_start_with_windows_def)


end
