(* ===== verification/Spec2Isabelle.thy ===== *)
theory Spec2Isabelle
  imports Instances EndToEnd Battery Standalone Listeners GuiSession Startup Transports UnixDevices
    WindowsBridge Housekeeping WinSession
begin

text \<open>
  A verification development of the supervpn layer-2 VPN (server \<open>cmd/supervpn-server\<close>, client
  \<open>internal/vpnclient\<close> and the packages under \<open>internal/\<close> they share).

  \<^bold>\<open>The program.\<close> A client authenticates to the server over UDP, TLS or a Reality-camouflaged TLS
  stream and joins a hub, a learning switch. Each Ethernet frame it reads from its adapter has its TCP
  MSS clamped, is numbered by the FEC pipe (blocks of K frames with R repairs) or cut into fragments,
  sealed with AES-GCM under the pairwise key, and put behind a 15-byte header. The server opens it,
  checks the replay window, lets the decoder or the reassembler restore frames, and hands each to the
  hub, which names the sessions to deliver to; delivery runs the same pipe in the other direction.

  \<^bold>\<open>The theories.\<close>
  \<^item> \<open>Prelude\<close>: bytes, big-endian integers, strings, time, Go maps as association lists, and the
    interface locales \<open>codec\<close>, \<open>exact_codec\<close> and \<open>machine\<close>; \<open>GoNet\<close>: the parts of the Go library the
    sources call (host and port splitting, number parsing, string helpers).
  \<^item> \<open>Proto\<close> (\<open>internal/proto/packet.go\<close>): header, sequence fields, handshake messages, hub list.
  \<^item> \<open>Replay\<close>, \<open>Crypto\<close> (\<open>internal/crypto/crypto.go\<close>): the anti-replay bitmap with its specification
    and the locale \<open>replay_filter\<close>; sealing, opening, key derivation.
  \<^item> \<open>Fragment\<close> (\<open>internal/fragment/fragment.go\<close>): splitting and reassembly.
  \<^item> \<open>FecCode\<close>, \<open>FecDecoder\<close> (\<open>internal/fec/fec.go\<close>), \<open>FecPipe\<close> (\<open>internal/fec/pipe.go\<close>): the codes,
    the decoder state machine, and the pipe.
  \<^item> \<open>Hub\<close> (\<open>internal/hub/hub.go\<close>): the learning switch; \<open>MssClamp\<close>, \<open>Bridge\<close> (\<open>internal/bridge\<close>): the
    clamp, interface detection and the two pump loops.
  \<^item> \<open>Framing\<close> (\<open>internal/transport/tcp.go\<close>), \<open>ClientHello\<close> (\<open>reality_hello.go\<close>), \<open>Reality\<close>
    (\<open>reality_auth.go\<close>, \<open>reality_server.go\<close>, \<open>reality_client.go\<close>): stream framing and camouflage.
  \<^item> \<open>Config\<close> (\<open>internal/config/config.go\<close>), \<open>Auth\<close> (\<open>internal/auth/auth.go\<close> and the client's hash),
    \<open>Update\<close> (\<open>internal/update\<close> and the server's mirror).
  \<^item> \<open>Session\<close>, \<open>Server\<close> (\<open>cmd/supervpn-server/main.go\<close>): a session object and its send paths; the
    session and ban tables, every packet handler, connection loops, background ticks and admin calls.
  \<^item> \<open>ClientConn\<close>, \<open>ClientSession\<close> (\<open>internal/vpnclient\<close>): the client object, its life cycle and
    reconnect loop, the handshake and the choice of a transport; the session's send and receive steps.
  \<^item> \<open>FecOrder\<close>, \<open>Tunnel\<close>: the decoder on symbols in order, and client and server composed: the
    handshake, and every frame of \<open>Session.Send\<close> up to the client's adapter; \<open>Upstream\<close>, \<open>EndToEnd\<close>: the
    way up with duplicated packets (a session as a function from packets to frames, \<open>takes\<close>), and from one
    client's adapter through the hub to another's, against an ideal switch (\<open>switched\<close>).
  \<^item> \<open>VinDecode\<close>, \<open>Gateway\<close> (\<open>internal/zgw\<close>): VIN decoding and gateway discovery; \<open>Standalone\<close>
    (\<open>standalone/bmwzgw\<close>): the module that repeats it, and where the two agree; \<open>Battery\<close>
    (\<open>internal/bmwbattery\<close>): the battery readout over the diagnostic link.
  \<^item> \<open>Adapter\<close> (\<open>internal/clientadapter\<close>, \<open>pkg/tun/bridge_windows.go\<close>): which adapter a session
    opens; \<open>BpfGuard\<close> (\<open>pkg/tun/bpf_darwin.go\<close>): the macOS bridge and its loop guards; \<open>L2Emulation\<close>
    (\<open>tun_darwin.go\<close>, \<open>wintun_l2_windows.go\<close>): virtual stations over a layer-3 device, with the locale
    \<open>l2_driver\<close> both platforms interpret.
  \<^item> \<open>WinDevices\<close> (\<open>pkg/tun\<close> on Windows): TAP, Npcap, NDISUIO and WinTun over a registry that is a value;
    \<open>Startup\<close> (\<open>main_windows.go\<close> and its neighbours, \<open>internal/winfirewall\<close>, \<open>supervpn-client-bmgarage\<close>
    and \<open>supervpn-client-seema\<close>): elevation, one instance at a time, closing and the firewall, the
    single-purpose clients.
  \<^item> \<open>Transports\<close> (\<open>udp.go\<close>, \<open>tls.go\<close>, \<open>reality_client.go\<close>, \<open>reality_server.go\<close>, \<open>conntest.go\<close>, both GUIs'
    \<open>main.go\<close> and the server's): sockets with their buffer and knock, dialling and accepting, the proxy to
    the camouflage site, the key-pool generator.
  \<^item> \<open>UnixDevices\<close> (\<open>bpf_darwin.go\<close>, \<open>tun_darwin.go\<close>, \<open>tun_linux.go\<close>): opening and reading the devices, with
    the descriptors each opening leaves; \<open>WindowsBridge\<close> (\<open>hint_windows.go\<close>, \<open>link_windows.go\<close>): what the bridge
    scripts' answers lead to, and the program run against the network configuration.
  \<^item> \<open>Housekeeping\<close>: the server's second UDP socket and \<open>FetchAsset\<close>;
    \<open>WinSession\<close> (\<open>ui_windows.go\<close>): Connect and Disconnect of the Windows client as a refinement of the buttons'
    model, its refresh loop, and the scheduled task.
  \<^item> \<open>Listeners\<close> (\<open>cmd/supervpn-server/main.go\<close>): what \<open>Run\<close> starts, the UDP job queue with its workers
    related to the sequential server, and the status report.
  \<^item> \<open>CommandLine\<close> (\<open>cmd/supervpn-client/main.go\<close>, \<open>conntest.go\<close>): flags over the configuration file,
    the client's status report, release assets.
  \<^item> \<open>ConfigForm\<close>, \<open>GuiSession\<close> (\<open>cmd/supervpn-client-gui\<close>, \<open>supervpn-client-bmgarage\<close>): the two forms
    with loading and saving a configuration (locale \<open>config_form\<close>), the lists of files and hubs; the
    status line (locale \<open>drop_tracker\<close>), Connect and Disconnect as a step relation, the battery poller and
    the log tab.
  \<^item> \<open>Instances\<close>: concrete values of the parameters, for the witnesses.

  \<^bold>\<open>How it is modelled.\<close> Go structs are records, machine integers are words of their width, byte slices
  are lists of bytes and maps are association lists with distinct keys. A function that mutates its
  receiver returns the new state; errors are values of a sum or option. Pointers shared between the
  session table and hub closures are indices into a store of session objects (\<open>sv_objs\<close>). Goroutines
  and connections are events: \<open>server_event_step\<close> runs one handler to its end, as the mutexes make
  them run, and the theorems about the server hold after every sequence of events. Network writes are
  lists of effects. Code outside the repository (AES-GCM, SHA-256, HKDF, bcrypt, X25519, Reed-Solomon,
  the file system, HTTP) is an argument; \<open>aead_law\<close> and \<open>rs_law\<close> state what is relied on of it.

  \<^bold>\<open>What is shown.\<close> Every component has an invariant kept by all its operations (an instance of
  \<open>machine\<close>), its codecs are inverse to each other, the replay window refines a set-based
  specification, the hub refines an abstract switch, the FEC pipe and the reassembler restore what was
  sent, the Reality decision is sound and admits honest clients once, the server isolates hubs,
  registers only granted sessions, and makes bans and cleanup exact, the two ends agree
  after the handshake, what one client's adapter reads is what a switch would give the other's, the UDP workers
  are a run of the sequential server, the adapters bridge nothing excluded and send nothing back that they
  injected, a program runs once and gives the firewall back when closed, a form saves what it was given, and a self-update never leaves a half-written executable. Several theorems pin down behaviour that is wrong in the code, such as the
  unauthenticated counter, the checksum at odd offsets and the kick that leaves a session running.

  \<^bold>\<open>Termination.\<close> No fuel is used: every loop is a total function with its own measure, including the
  block-id loop of the decoder's expiry and the carry folding of the checksum.

  \<^bold>\<open>Not modelled.\<close> The layout and dialogs of the graphical clients; system calls and drivers, whose answers
  are arguments, and the texts of the PowerShell scripts; sockets, TLS stacks and YAML decoding (input and output
  around the modelled code); the HTML and JSON text of the server's pages and the creation of certificates;
  data races between a handler and the fields the code reads outside a lock.
  What a GUI toolkit leaves in a widget is an argument (\<open>toolkit\<close>), as is what the system says about its
  interfaces (\<open>adapter_env\<close>, \<open>bpf_layout\<close>, \<open>registry\<close>). The tables generated from vehicle backups
  (\<open>fa_typekeys.go\<close>, \<open>bmw_types.csv\<close>) are arguments.
\<close>

text \<open>
  C1: On every reachable server state, everything a packet makes \<open>handlePacket\<close> send
  is either a reply on the endpoint it came from, or goes to the endpoints of another member of
  the hub of the session the packet names: a frame never leaves its hub and is never echoed to
  its sender.
\<close>

theorem packets_stay_in_hub:
  "let sv = foldl (server_step env) (new_server cfg) evs;
       (sid, out, sv') = handle_packet env rnd salt now og sec pkt sv
   in effects_to {og_send og} out \<or>
      (\<exists>h payload r. split_packet pkt = Some (h, payload) \<and> find_session sv (hdr_session h) = Some r \<and>
         effects_to (peer_endpoints sv (ss_hub (get_obj sv r)) (hdr_session h)) out)"
proof -
  obtain sid out sv' where
    "handle_packet env rnd salt now og sec pkt (foldl (server_step env) (new_server cfg) evs) = (sid, out, sv')"
    using prod_cases3 by blast
  then show ?thesis using handle_packet_isolated [OF server.inv_run] by (simp add: Let_def)
qed


text \<open>
  C3: The server's state changes on an Auth packet only when the checks granted a session and its
  key, cipher and FEC pipe could be built: then exactly one session is registered, under the
  drawn id (never 0), and the AuthOK reply goes to the peer. On every other branch the state is
  untouched and at most a reply to the peer is sent.
\<close>

theorem auth_registers_granted_only:
  "case handle_auth env rnd salt now og payload sv of (sid, out, sv') \<Rightarrow>
     if sid = 0 then sv' = sv \<and> effects_to {og_send og} out
     else \<exists>hello s. auth_decide env now (og_addr og) payload sv = AuthGrant hello \<and>
       build_session env (new_session_id rnd) salt now og hello (fec_defaults (sc_fec (sv_cfg sv))) = Some s \<and>
       sid = new_session_id rnd \<and> sv' = register_session s sv \<and>
       out = [SendTo (og_send og) (auth_ok_packet s (fec_defaults (sc_fec (sv_cfg sv))))]"
proof -
  obtain sid out sv' where h: "handle_auth env rnd salt now og payload sv = (sid, out, sv')"
    by (rule prod_cases3)
  show ?thesis
  proof (cases "sid = 0")
    case True
    then show ?thesis using h handle_auth_refused by simp
  next
    case False
    from handle_auth_session [OF h False] show ?thesis unfolding h by (simp add: False) metis
  qed
qed

text \<open>
  C4: Over every sequence of packets, lost connections, cleanup and flush ticks and admin calls
  the server's tables stay consistent: every id of the session table names an object with that
  id, every hub client closure belongs to a session of that hub, and every hub's client set is
  exactly the set of its closures.
\<close>

theorem server_tables_consistent: "server_ok (foldl (server_step env) (new_server cfg) evs)"
  by (rule server.inv_run)

text \<open>
  C5: End to end the VPN is a learning switch. Two clients log in to the same hub; whatever
  frames the first reads from its adapter, its packets arrive at the server in order, each one or
  more times and over either path, and the server's packets arrive at the second client in order:
  then the second writes to its adapter exactly the frames that an ideal switch would deliver to
  it, each once and in order. Clamping apart, every step is covered: sealing, replay windows,
  headers, block numbering, fragments and reassembly, the hub's table, and the way back.
\<close>

theorem end_to_end_switched:
  assumes "sendable env cfg" "sendable env cfg'" "length csalt = 4" "length salt' = 4" "server_ok sv"
    and "aead_law (en_seal env) (en_open env)"
    and "fec = fec_defaults (sc_fec (sv_cfg sv))" "encodes (en_rs env) (nat (fc_k fec)) (nat (fc_r fec))"
    and "handle_auth env rnd' salt' now' og' (request_payload env cfg') sv = (t, hello', svb)" "t \<noteq> 0"
    and "auth_loop env csalt' cfg' (map packet_of hello') = Inr ar'" "open_session env cnow' cfg' mode' ar' sec' = Inr c'"
    and "handle_auth env rnd salt now og (request_payload env cfg) svb = (n, hello, sva)" "n \<noteq> 0" "n \<noteq> t"
    and "auth_loop env csalt cfg (map packet_of hello) = Inr ar" "open_session env cnow cfg mode ar sec = Inr c"
    and "cc_hub_id cfg' = cc_hub_id cfg" "manager_get (cc_hub_id cfg) (sv_hubs sva) = Some h"
    and "og_send og' \<notin> peer_endpoints sva (cc_hub_id cfg) t"
    and "client_sends env fs c = (out, cz)" "list_all2 arrives (primary out) gs"
    and "server_run env (concat gs) sva = (effs, svz)" "map snd as = map packet_of (sent_to (og_send og') effs)"
    and "list_all fits (map snd fs)" "length (primary out) < 2 ^ 64" "length (sent_to (og_send og') effs) < 2 ^ 64"
    and "length fs < 4294967296"
  shows "\<exists>st. client_recv_all env as (new_recv_loop, c') =
    (switched (abs_clients h) t n (abs_table h) (map snd fs), None, st)"
  using assms by (rule frames_cross)

lemma end_to_end_switched_witness:
  "let f = replicate 6 255 @ replicate 8 2; ps = primary (fst (client_sends flat_env [(2, f)] (projr far_session)));
       effs = fst (server_run flat_env (map (Packet 0 [] 3 far_origin False) ps) (snd (snd far_login)))
   in \<exists>st. client_recv_all flat_env (map (\<lambda>e. (4, packet_of e)) (sent_to ''u'' effs)) (new_recv_loop, projr bob_session) =
        ([f], None, st)"
proof -
  let ?f = "replicate 6 255 @ replicate 8 2 :: bytes"
  let ?sv = "snd (snd far_login)"
  let ?out = "client_sends flat_env [(2, ?f)] (projr far_session)"
  let ?gs = "map (\<lambda>p. [Packet 0 [] 3 far_origin False p]) (primary (fst ?out))"
  let ?run = "server_run flat_env (concat ?gs) ?sv"
  let ?fec = "fec_defaults (sc_fec (sv_cfg (new_server bob_server)))"
  have gs: "concat ?gs = map (Packet 0 [] 3 far_origin False) (primary (fst ?out))" by (simp add: concat_map_singleton)
  have "\<exists>st. client_recv_all flat_env (map (\<lambda>e. (4, packet_of e)) (sent_to ''u'' (fst ?run))) (new_recv_loop, projr bob_session) =
      (switched (abs_clients far_hub) 7 8 (abs_table far_hub) (map snd [(2 :: time, ?f)]), None, st)"
  proof (rule end_to_end_switched [where cfg = bob and cfg' = bob and sv = "new_server bob_server" and fec = ?fec
        and rnd' = 7 and salt' = "[1, 2, 3, 4]" and now' = 0 and og' = bob_origin and hello' = "fst (snd bob_login)"
        and svb = "snd (snd bob_login)" and csalt' = "[5, 6, 7, 8]" and cnow' = 0 and mode' = "''udp''"
        and ar' = "projr bob_auth" and sec' = False
        and rnd = 8 and salt = "[4, 3, 2, 1]" and now = 1 and og = far_origin and hello = "fst (snd far_login)" and sva = ?sv
        and csalt = "[8, 7, 6, 5]" and cnow = 1 and mode = "''udp''" and ar = "projr far_auth" and sec = False
        and c = "projr far_session" and out = "fst ?out" and cz = "snd ?out" and gs = ?gs
        and effs = "fst ?run" and svz = "snd ?run"])
    show "sendable flat_env bob" "sendable flat_env bob" by code_simp+
    show "server_ok (new_server bob_server)" by (rule new_server_ok)
    show "aead_law (en_seal flat_env) (en_open flat_env)" using tag_law by (simp add: flat_env_def)
    have "nat (fc_r ?fec) = 1" by code_simp
    then show "encodes (en_rs flat_env) (nat (fc_k ?fec)) (nat (fc_r ?fec))" by (simp add: xor_encodes del: One_nat_def)
    show "handle_auth flat_env 7 [1, 2, 3, 4] 0 bob_origin (request_payload flat_env bob) (new_server bob_server) =
        (7, fst (snd bob_login), snd (snd bob_login))"
      using bob_login_ok by (simp add: prod_eq_iff flip: bob_login_def)
    show "auth_loop flat_env [5, 6, 7, 8] bob (map packet_of (fst (snd bob_login))) = Inr (projr bob_auth)"
      using bob_auth_ok by (simp flip: bob_auth_def)
    show "open_session flat_env 0 bob ''udp'' (projr bob_auth) False = Inr (projr bob_session)"
      using bob_session_ok by (simp flip: bob_session_def)
    show "handle_auth flat_env 8 [4, 3, 2, 1] 1 far_origin (request_payload flat_env bob) (snd (snd bob_login)) =
        (8, fst (snd far_login), ?sv)"
      using far_login_ok by (simp add: prod_eq_iff flip: far_login_def)
    show "auth_loop flat_env [8, 7, 6, 5] bob (map packet_of (fst (snd far_login))) = Inr (projr far_auth)"
      using far_auth_ok by (simp flip: far_auth_def)
    show "open_session flat_env 1 bob ''udp'' (projr far_auth) False = Inr (projr far_session)"
      using far_session_ok by (simp flip: far_session_def)
    have hub: "cc_hub_id bob = 1" by (simp add: bob_def)
    show "manager_get (cc_hub_id bob) (sv_hubs ?sv) = Some far_hub" using far_hub_ok by (auto simp: hub far_hub_def)
    show "og_send bob_origin \<notin> peer_endpoints ?sv (cc_hub_id bob) 7"
      by (auto simp: peer_endpoints_def hub far_clients session_endpoints_def far_endpoints bob_origin_def split: if_splits)
    show "list_all2 arrives (primary (fst ?out)) ?gs"
      by (simp add: list_all2_conv_all_nth arrives_def carries_def)
    show "list_all fits (map snd [(2 :: time, ?f)])" by code_simp
    have "length (primary (fst ?out)) = 1" by code_simp
    then show "length (primary (fst ?out)) < 2 ^ 64" by simp
    have "length (sent_to ''u'' (fst ?run)) = 1" unfolding gs by code_simp
    then show "length (sent_to (og_send bob_origin) (fst ?run)) < 2 ^ 64" by (simp add: bob_origin_def)
    show "map snd (map (\<lambda>e. (4 :: time, packet_of e)) (sent_to ''u'' (fst ?run))) =
        map packet_of (sent_to (og_send bob_origin) (fst ?run))" by (simp add: bob_origin_def comp_def)
  qed (simp_all del: client_sends.simps)
  moreover have "switched (abs_clients far_hub) 7 8 (abs_table far_hub) (map snd [(2 :: time, ?f)]) = [?f]"
    by (simp add: switch_targets_def abs_clients_def far_hub_state is_broadcast_def is_multicast_def dst_mac_def slice_def
        numeral_eq_Suc)
  ultimately show ?thesis unfolding Let_def gs by simp
qed

text \<open>
  C6: Upstream the tunnel is transparent. A client logs in and sends frames, and its data and
  fragment packets arrive at the server in order, each one or more times in a row and over either
  path: the server sends exactly what it would have sent had the frames been put straight into
  the hub, and ends in the same state but for the session's own object.
\<close>

theorem upstream_reaches_hub:
  assumes "sendable env cfg" "length csalt = 4" "server_ok sv" "aead_law (en_seal env) (en_open env)"
    and "fec = fec_defaults (sc_fec (sv_cfg sv))" "encodes (en_rs env) (nat (fc_k fec)) (nat (fc_r fec))"
    and "handle_auth env rnd salt now og (request_payload env cfg) sv = (n, hello, sva)" "n \<noteq> 0"
    and "auth_loop env csalt cfg (map packet_of hello) = Inr ar" "open_session env cnow cfg mode ar sec = Inr c"
    and "client_sends env fs c = (out, cz)" "list_all2 arrives (primary out) gs"
    and "list_all fits (map snd fs)" "length (primary out) < 2 ^ 64" "length fs < 4294967296"
  shows "\<exists>i ts s. find_session sva n = Some i \<and> length ts = length fs \<and> set ts \<subseteq> event_time ` set (concat gs) \<and>
    server_run env (concat gs) sva =
      map_prod id (put_obj i s) (relay_all env (cc_hub_id cfg) n (zip ts (map snd fs)) sva)"
  using assms by (rule client_reaches_hub)

lemma upstream_reaches_hub_witness:
  "let f = replicate 6 255 @ replicate 8 2; ps = primary (fst (client_sends flat_env [(2, f)] (projr far_session)))
   in \<exists>ts. length ts = 1 \<and>
     fst (server_run flat_env (concat (map (\<lambda>p. [Packet 0 [] 3 far_origin False p, Packet 0 [] 4 far_origin True p]) ps))
       (snd (snd far_login))) = fst (relay_all flat_env 1 8 (zip ts [f]) (snd (snd far_login)))"
proof -
  let ?f = "replicate 6 255 @ replicate 8 2 :: bytes"
  let ?sv = "snd (snd far_login)"
  let ?out = "client_sends flat_env [(2, ?f)] (projr far_session)"
  let ?gs = "map (\<lambda>p. [Packet 0 [] 3 far_origin False p, Packet 0 [] 4 far_origin True p]) (primary (fst ?out))"
  let ?fec = "fec_defaults (sc_fec (sv_cfg (snd (snd bob_login))))"
  have "\<exists>i ts s. find_session ?sv 8 = Some i \<and> length ts = length [(2 :: time, ?f)] \<and> set ts \<subseteq> event_time ` set (concat ?gs) \<and>
    server_run flat_env (concat ?gs) ?sv =
      map_prod id (put_obj i s) (relay_all flat_env (cc_hub_id bob) 8 (zip ts (map snd [(2 :: time, ?f)])) ?sv)"
  proof (rule upstream_reaches_hub [where cfg = bob and sv = "snd (snd bob_login)" and fec = ?fec
        and rnd = 8 and salt = "[4, 3, 2, 1]" and now = 1 and og = far_origin and hello = "fst (snd far_login)" and sva = ?sv
        and csalt = "[8, 7, 6, 5]" and cnow = 1 and mode = "''udp''" and ar = "projr far_auth" and sec = False
        and c = "projr far_session" and out = "fst ?out" and cz = "snd ?out" and gs = ?gs])
    show "sendable flat_env bob" by code_simp
    show "server_ok (snd (snd bob_login))" by (rule bob_login_tables)
    show "aead_law (en_seal flat_env) (en_open flat_env)" using tag_law by (simp add: flat_env_def)
    have "nat (fc_r ?fec) = 1" by code_simp
    then show "encodes (en_rs flat_env) (nat (fc_k ?fec)) (nat (fc_r ?fec))" by (simp add: xor_encodes del: One_nat_def)
    show "handle_auth flat_env 8 [4, 3, 2, 1] 1 far_origin (request_payload flat_env bob) (snd (snd bob_login)) =
        (8, fst (snd far_login), ?sv)"
      using far_login_ok by (simp add: prod_eq_iff flip: far_login_def)
    show "auth_loop flat_env [8, 7, 6, 5] bob (map packet_of (fst (snd far_login))) = Inr (projr far_auth)"
      using far_auth_ok by (simp flip: far_auth_def)
    show "open_session flat_env 1 bob ''udp'' (projr far_auth) False = Inr (projr far_session)"
      using far_session_ok by (simp flip: far_session_def)
    show "list_all2 arrives (primary (fst ?out)) ?gs" by (simp add: list_all2_conv_all_nth arrives_def carries_def)
    show "list_all fits (map snd [(2 :: time, ?f)])" by code_simp
    have "length (primary (fst ?out)) = 1" by code_simp
    then show "length (primary (fst ?out)) < 2 ^ 64" by simp
  qed (simp_all del: client_sends.simps)
  then obtain i ts s where "length ts = 1" and "server_run flat_env (concat ?gs) ?sv =
      map_prod id (put_obj i s) (relay_all flat_env 1 8 (zip ts [?f]) ?sv)"
    by (auto simp: bob_def simp del: client_sends.simps)
  then show ?thesis unfolding Let_def by (intro exI [of _ ts]) (simp del: client_sends.simps)
qed





text \<open>
  C9: The 512-bit anti-replay bitmap refines its specification (the highest counter seen and the
  set of counters accepted within 512 of it): after any sequence of counters the bitmap
  represents the specification's state, and \<open>Check\<close> accepts the next counter exactly
  when the specification does.
\<close>

theorem replay_window_refines:
  "let w = foldl (\<lambda>w c. snd (replay_check w c)) replay_init cs;
       s = foldl spec_step (0, {}) (map unat cs)
   in replay_abs w = s \<and> fst (replay_check w c) = spec_accepts s (unat c)"
  using window_run_refines [OF replay_ok_init, of cs] replay_refines [OF window_machine.inv_run, of cs c]
  by (simp add: replay_abs_init Let_def)

text \<open>
  C10: The counter the replay window checks is not the authenticated one: a sealed packet whose
  counter field is overwritten by any counter the window still accepts opens to the same
  plaintext, so a recorded packet can be replayed by rewriting eight bytes.
\<close>

theorem counter_field_unauthenticated:
  assumes "aead_law aseal aopen" and "cipher_ok c" and "c_key d = c_key c" and "fst (replay_check w cnt)"
  shows "open_packet aopen d (with_counter cnt (snd (seal_packet aseal c p))) w =
    (Inr p, snd (replay_check w cnt))"
  using assms by (rule open_with_counter)

lemma counter_field_unauthenticated_witness:
  "let pkt = snd (seal_packet tag_seal tag_cipher [9]); w = snd (open_packet tag_open tag_cipher pkt replay_init)
   in fst (open_packet tag_open tag_cipher pkt w) = Inl Replayed \<and>
      fst (open_packet tag_open tag_cipher (with_counter 2 pkt) w) = Inr [9]"
proof -
  let ?pkt = "snd (seal_packet tag_seal tag_cipher [9])"
  let ?w = "snd (open_packet tag_open tag_cipher ?pkt replay_init)"
  have w: "fst (replay_check ?w 2)" and r: "fst (open_packet tag_open tag_cipher ?pkt ?w) = Inl Replayed"
    by code_simp+
  have "open_packet tag_open tag_cipher (with_counter 2 ?pkt) ?w = (Inr [9], snd (replay_check ?w 2))"
    by (rule counter_field_unauthenticated [OF tag_law tag_cipher_ok refl w])
  with r show ?thesis by simp
qed

text \<open>
  C11: A frame that \<open>Split\<close> cut into at most 255 pieces is rebuilt by the
  reassembler exactly once, whatever the order of its pieces, however often each is repeated, and
  at whatever times they arrive, provided its id is fresh and no other frame intervenes.
\<close>

theorem frame_reassembled_once:
  assumes "needs_split frame max_piece" and "length (split_frame frame max_piece) < 256"
    and "map_of r frag = None" and "set (map snd ds) = {..<length (split_frame frame max_piece)}"
  shows "filter (\<lambda>x. x \<noteq> None) (fst (deliver_pieces frag (split_frame frame max_piece) ds r)) = [Some frame]"
  using deliver_pieces_complete [OF split_frame_at_least_two [OF assms(1)] assms(2-4)]
  by (simp add: concat_split_frame)

lemma frame_reassembled_once_witness:
  "filter (\<lambda>x. x \<noteq> None) (fst (deliver_pieces 4 (split_frame [1, 2, 3] 2) [(5, 1), (6, 1), (9, 0), (9, 1)] [])) =
     [Some [1, 2, 3]]"
proof -
  have two: "split_frame [1, 2, 3 :: byte] 2 = [[1, 2], [3]]" by code_simp
  have s: "{..<2 :: nat} = {0, 1}" by auto
  show ?thesis
    by (rule frame_reassembled_once) (auto simp: two needs_split_def s)
qed

text \<open>
  C12: Whatever pieces arrive, the reassembler holds at most 256 unfinished frames, each with a
  distinct id, a slot per announced piece, and a count and byte total that match the pieces it
  has; a finished frame keeps no payload.
\<close>

theorem reassembler_bounded:
  "reasm_ok (foldl (\<lambda>r (now, frag, idx, count, piece). snd (reasm_add now frag idx count piece r)) [] evs)"
  by (rule reasm.inv_run)




text \<open>
  C15: In every reachable state \<open>Forward\<close> is a learning switch: a frame of at least
  12 bytes updates the table at its source MAC and goes exactly to the clients the abstract
  switch names (the owner of a known unicast address, else everyone but the sender), each once; a
  shorter frame does nothing.
\<close>

theorem hub_refines_switch:
  "let h = foldl hub_step (new_hub n name) evs; (ts, h') = hub_forward now s f h
   in if length f < 12 then ts = [] \<and> h' = h
      else set ts = switch_targets (abs_clients h) ((abs_table h)(src_mac f \<mapsto> s)) s (dst_mac f) \<and> distinct ts \<and>
        abs_clients h' = abs_clients h \<and> abs_table h' = (abs_table h)(src_mac f \<mapsto> s)"
  using hub_forward_refines [OF hub_machine.inv_run [of n name evs], of f now s] short_frame_ignored [of f now s]
  by (auto simp: Let_def not_less split: prod.split)










text \<open>
  C21: The stream framing: whatever sequence of payloads is sent, the receiver reads back exactly
  those \<open>Send\<close> accepted (at most 65535 bytes each), in order; from any truncation of
  the stream it reads a prefix of them.
\<close>

theorem stream_framing_roundtrip:
  "let stream = concat (List.map_filter tcp_send ds); sent = filter (\<lambda>d. length d \<le> 65535) ds
   in recv_frames stream = sent \<and> prefix (recv_frames (take n stream)) sent"
proof -
  let ?sent = "filter frame_ok ds"
  have s: "List.map_filter tcp_send ds = map encode_frame ?sent"
    by (induction ds) (simp_all add: map_filter_simps tcp_send_ok)
  have ok: "list_all frame_ok ?sent" by (simp add: list_all_iff)
  have "?sent = filter (\<lambda>d. length d \<le> 65535) ds" by (rule filter_cong) (simp_all add: frame_ok_def tcpMaxFrame_def)
  then show ?thesis using recv_frames_all [OF ok] recv_frames_take [OF ok] by (simp add: s Let_def)
qed

text \<open>
  C22: Reading frames off a stream of n bytes ends after at most n/2 frames: every
  \<open>Recv\<close> that returns consumes at least its two-byte header, an empty frame
  included.
\<close>

theorem stream_reading_ends: "2 * length (recv_frames s) \<le> length s"
  by (rule recv_frames_count)


text \<open>
  C24: A cleanup pass removes exactly the sessions that have been silent for more than 15
  seconds: in every reachable state each of them is gone after it, and every other session stays.
\<close>

theorem cleanup_exact:
  "let sv = foldl (server_step env) (new_server cfg) evs in
   find_session (snd (cleanup_sessions now sv)) n =
     (case find_session sv n of None \<Rightarrow> None
      | Some r \<Rightarrow> if is_stale now (get_obj sv r) then None else Some r)"
  using cleanup_sessions_table [OF server.inv_run, of now env cfg evs n] by (simp add: Let_def)

text \<open>
  C25: A kick removes the session from the table and blocks its login for five minutes and its
  address until unbanned; but the session object is left as it was, so a live one is not
  cancelled and its flush goroutine goes on forwarding into the hub.
\<close>

theorem kick_leaves_object_running:
  "let sv' = snd (snd (api_kick env now n sv)) in
   case find_session sv n of
     None \<Rightarrow> sv' = sv
   | Some r \<Rightarrow> find_session sv' n = None \<and> get_obj sv' r = get_obj sv r \<and>
       kick_blocked sv' now (ss_login (get_obj sv r)) = Some (now + kick_block_duration) \<and>
       (addr_host (ss_addr (get_obj sv r)) = '''' \<or> ip_banned sv' (ss_addr (get_obj sv r)))"
proof (cases "find_session sv n")
  case None
  then show ?thesis by (simp add: api_kick_def Let_def)
next
  case (Some r)
  show ?thesis using api_kick_effect [OF Some, of env now] by (simp add: Some Let_def) blast
qed


text \<open>
  C27: Stop can lose the client: when Start follows Stop before the old goroutine has ended, the
  old one clears the running flag of the new one; a further Start then overwrites the stored
  cancel function, and from there on a working run exists that no sequence of Start and Stop
  ends.
\<close>

theorem restart_orphans_run:
  assumes "rtranclp life_step restart_race s"
  shows "life_reach s \<and> orphan 1 s"
  using assms by (rule orphaned_for_good)

lemma restart_orphans_run_witness: "life_reach (life_stop restart_race) \<and> orphan 1 (life_stop restart_race)"
  by (rule restart_orphans_run) (blast intro: r_into_rtranclp life_step.stop)



text \<open>
  C29: The discovery loop reports the interface first, then only changes: over any events no two
  reports in a row agree in what the comparison looks at, and what it holds is the last one
  reported.
\<close>

theorem gateway_reports_changes:
  "case gw_run_all db scan es of (outs, r) \<Rightarrow> hd outs = scan \<and> gr_last r = last outs \<and>
     successively (\<lambda>a b. \<not> info_equal a b) outs"
  by (rule gw_run_said)

text \<open>
  C30: Battery readings are well formed whatever bytes the car sends: charge and ageing lie in 1
  to 100, the voltage between 11.0 and 15.2 volts, an absent field is zero, and so is every
  status that sticky polling shows.
\<close>

theorem battery_well_formed:
  "(case fst (read_battery conn platform) of None \<Rightarrow> True | Some b \<Rightarrow> battery_ok b) \<and>
   list_all battery_ok (sticky_poll None (map (\<lambda>c. fst (read_battery c platform)) cs))"
  using readings_ok sticky_readings_ok by blast

text \<open>
  C31: The client's gateway code and the standalone module that repeats it decode a VIN alike
  when the vehicle backups know its type key and wherever their tables agree, and the module
  reports the client's platform for every chassis the client has one for.
\<close>

theorem modules_decode_alike:
  assumes "length vin < 17 \<or> db_fa db (slice 3 7 vin) \<noteq> None \<or> same_tables vin"
  shows "sa_decode_vin db vin = decode_vin db vin \<and>
    (platform_for_chassis c = '''' \<or> sa_platform_for_chassis c = platform_for_chassis c)"
  using sa_decode_agrees [OF assms] sa_platform_extends by blast

lemma modules_decode_alike_witness:
  "sa_decode_vin \<lparr>db_fa = (\<lambda>_. None), db_variants = []\<rparr> ''WBAA1500000F12345'' =
     decode_vin \<lparr>db_fa = (\<lambda>_. None), db_variants = []\<rparr> ''WBAA1500000F12345''"
proof -
  have "same_tables ''WBAA1500000F12345''" by code_simp
  then show ?thesis using modules_decode_alike [of "''WBAA1500000F12345''"] by blast
qed




text \<open>
  C34: The status report is the tables: in every reachable state it lists the configured hubs in
  their order, for each hub exactly the sessions the table has in it and each once, as blocked
  exactly the logins that authentication refuses for a kick at that time, and exactly the banned
  addresses.
\<close>

theorem status_truthful:
  fixes cfg env evs
  defines "sv \<equiv> foldl (server_step env) (new_server cfg) evs"
  shows "map hs_id (sr_hubs (handle_status env now si sv)) = map hcfg_id (sc_hubs (sv_cfg sv)) \<and>
    list_all (\<lambda>h. distinct (map cs_session (hs_clients h)) \<and>
        set (map cs_session (hs_clients h)) = {n. \<exists>r. find_session sv n = Some r \<and> ss_hub (get_obj sv r) = hs_id h})
      (sr_hubs (handle_status env now si sv)) \<and>
    fst ` set (sr_blocked (handle_status env now si sv)) = {l. kick_blocked sv now l \<noteq> None} \<and>
    set (sr_banned_ips (handle_status env now si sv)) = set (sv_banned_ips sv)"
proof -
  have ok: "server_ok sv" unfolding sv_def by (rule server.inv_run)
  have ids: "map cs_session (hs_clients (hub_status_of env now sv h)) = map ss_id (hub_sessions sv (hcfg_id h))"
    "hs_id (hub_status_of env now sv h) = hcfg_id h" for h
    by (simp_all add: hub_status_of_def client_status_of_def)
  have blocked: "fst ` set (blocked_logins env now sv) = {l. kick_blocked sv now l \<noteq> None}"
    using blocked_logins_iff [OF ok] by blast
  have hub: "distinct (map cs_session (hs_clients h)) \<and>
      set (map cs_session (hs_clients h)) = {n. \<exists>r. find_session sv n = Some r \<and> ss_hub (get_obj sv r) = hs_id h}"
    if h: "h \<in> set (map (hub_status_of env now sv) (sc_hubs (sv_cfg sv)))" for h
  proof -
    obtain k where "h = hub_status_of env now sv k" using h by auto
    then show ?thesis using hub_sessions_ids [OF ok, where hub = "hcfg_id k"] by (simp only: ids) blast
  qed
  show ?thesis using hub blocked reported_bans [of env now si sv]
    by (simp add: handle_status_def Let_def list_all_iff ids(2) comp_def)
qed



text \<open>
  C36: The client bridges no interface of an excluded VPN product, whether detected or
  configured, bridges nothing in direct mode, and without a configured interface bridges only a
  link-local one that is not its own adapter.
\<close>

theorem never_bridges_excluded:
  assumes "open_adapter env cfg = Inr (OpenedBridge i n)"
    and "\<And>nic name hw. ae_by_name env nic = Some (name, hw) \<Longrightarrow> name = nic"
  shows "\<not> is_excluded_from_bridge (ae_adapters env) (bi_name i) \<and> cc_mode cfg \<noteq> ''direct'' \<and>
    (wanted_nic env cfg = '''' \<longrightarrow>
       is_link_local (bi_addr i) \<and> bi_name i \<noteq> tun_name_of cfg \<and> bi_name i \<noteq> br_tap (bridge_defaults (cc_bridge cfg)))"
proof -
  have link: "is_link_local (bi_addr b)" if "detect_link_local (ae_adapters env) (ae_ifaces env) = Some out" "b \<in> set out" for b out
    using that detect_link_local_sound by (cases "ae_ifaces env") (auto simp: detect_link_local_def)
  have name: "name = wanted_nic env cfg" if "ae_by_name env (wanted_nic env cfg) = Some (name, hw)" for name hw
    using that by (rule assms(2))
  show ?thesis using open_adapter_bridged [OF assms(1)] name detected_not_excluded wanted_not_excluded [of env cfg] link
    by (auto simp: is_physical_def)
qed

lemma never_bridges_excluded_witness:
  "\<not> is_excluded_from_bridge [] ''eth'' \<and> is_link_local [169, 254, 1, 1]"
proof -
  have "wanted_nic home_adapters home_config = ''''" by code_simp
  then show ?thesis using never_bridges_excluded [OF home_opened] by (simp add: home_adapters_def home_iface_def)
qed

text \<open>
  C37: No frame goes back to the hub. On macOS, for five minutes after a frame of a remote
  station was injected, whatever else is injected or captured and however its bytes come back, no
  captured frame has that station as its source; through Npcap none ever has, for as long as the
  capture is open, and a read gives the first packet that is not of an injected station.
\<close>

theorem injected_frames_stay:
  assumes "bpf_ok b" and "14 \<le> length f" and "src_of f \<noteq> bf_local b" and "list_all (within t) es"
  shows "list_all (\<lambda>(u, g). length g < 12 \<or> src_of g \<noteq> src_of f) (fst (bpf_run bl sha (Inject t f # es) b)) \<and>
    list_all (\<lambda>g. 14 \<le> length g \<and> src_of g \<noteq> src_of f) (npcap_run (NpInject f # ns) s) \<and>
    (npcap_read_frame rs s = Inr g \<longleftrightarrow> find (admitted s) (before_error rs) = Some g)"
proof -
  have "12 \<le> length f" using assms(2) by simp
  from injected_never_captured [OF assms(1) this assms(3,4)]
  have "list_all (\<lambda>(u, g). length g < 12 \<or> src_of g \<noteq> src_of f) (fst (bpf_run bl sha (Inject t f # es) b))"
    by (auto simp: list_all_iff not_less)
  then show ?thesis using npcap_never_echoes [OF assms(2), of ns s] npcap_read_first [of rs s g] by (simp add: src_of_def)
qed

lemma injected_frames_stay_witness:
  "map snd (fst (bpf_run tiny_layout id [Inject 0 (station_frame 1), Capture 1 [(1, ReadData echo_read)]]
       (open_bpf (Some (replicate 6 7))))) = [station_frame 2] \<and> src_of (station_frame 2) \<noteq> src_of (station_frame 1) \<and>
   npcap_run [NpInject (station_frame 1), NpCapture [NextPacket (station_frame 1), NextPacket (station_frame 2)]]
     \<lparr>np_injected = []\<rparr> = [station_frame 2]"
proof -
  have out: "fst (bpf_run tiny_layout id [Inject 0 (station_frame 1), Capture 1 [(1, ReadData echo_read)]]
       (open_bpf (Some (replicate 6 7)))) = [(1, station_frame 2)]" by code_simp
  have npcap: "npcap_run [NpInject (station_frame 1), NpCapture [NextPacket (station_frame 1), NextPacket (station_frame 2)]]
     \<lparr>np_injected = []\<rparr> = [station_frame 2]" by code_simp
  have "list_all (\<lambda>(u, g). length g < 12 \<or> src_of g \<noteq> src_of (station_frame 1))
      (fst (bpf_run tiny_layout id (Inject 0 (station_frame 1) # [Capture 1 [(1, ReadData echo_read)]])
       (open_bpf (Some (replicate 6 7))))) \<and>
    list_all (\<lambda>g. 14 \<le> length g \<and> src_of g \<noteq> src_of (station_frame 1)) (npcap_run (NpInject (station_frame 1) #
       [NpCapture [NextPacket (station_frame 1), NextPacket (station_frame 2)]]) \<lparr>np_injected = []\<rparr>) \<and>
    (npcap_read_frame [] \<lparr>np_injected = []\<rparr> = Inr [] \<longleftrightarrow> find (admitted \<lparr>np_injected = []\<rparr>) (before_error []) = Some [])"
    by (rule injected_frames_stay; code_simp)
  then show ?thesis unfolding out npcap by (simp add: station_frame_def)
qed

text \<open>
  C38: While Disconnect is not pressed during the opening of an adapter, a GUI never runs more
  than one session, and the one that runs can be stopped; pressed there it does not stop the
  opening, and after another Connect two sessions run of which one is lost for good.
\<close>

theorem gui_session_control:
  "(calm_reach c \<longrightarrow> (live_runs c = {} \<or> (\<exists>i. live_runs c = {i} \<and> gc_client c = Some i \<and> gc_cancel c = Some i \<and>
      gc_disconnect c \<and> \<not> gc_connect c))) \<and>
   ctl_reach cancel_race \<and> live_runs cancel_race = {0, 1} \<and>
   (ctl_step\<^sup>*\<^sup>* cancel_race d \<longrightarrow> 0 \<in> live_runs d \<and> gc_client d \<noteq> Some 0)"
  using calm_ok_reach [of c] cancel_race_reached cancel_race_lost lost_forever [of cancel_race d 0]
  by (auto simp: calm_ok_def lost_run_def)

lemma gui_session_control_witness:
  "calm_reach ctl_start \<and> 0 \<in> live_runs cancel_race \<and> gc_client cancel_race \<noteq> Some 0"
  using gui_session_control [of ctl_start cancel_race] by (simp add: calm_reach_def)



text \<open>
  C40: One instance at a time: over any launches, attempts and ends of processes, of two that run
  at most one holds the mutex, and without updates and errors of the mutex no two run; but a
  successor of an update whose attempts run out goes on without it, and then a third process
  starts beside it.
\<close>

theorem one_instance_runs:
  "(let d = foldl desk_step empty_desk es in
     {p, q} \<subseteq> dk_running d \<and> p \<noteq> q \<longrightarrow> (p \<in> dk_unguarded d \<or> q \<in> dk_unguarded d) \<and> \<not> list_all ordinary es) \<and>
   dk_running (foldl desk_step empty_desk slow_takeover) = {1, 2}"
proof -
  let ?d = "foldl desk_step empty_desk es"
  have "(p \<in> dk_unguarded ?d \<or> q \<in> dk_unguarded ?d) \<and> \<not> list_all ordinary es" if "{p, q} \<subseteq> dk_running ?d" "p \<noteq> q"
    using guarded_once [OF desk.inv_run that] ordinary_guarded [of es empty_desk] by (auto simp: empty_desk_def)
  then show ?thesis using slow_takeover_two by (simp add: Let_def)
qed

lemma one_instance_runs_witness: "\<not> list_all ordinary slow_takeover"
  using one_instance_runs [where p = 1 and q = 2 and es = slow_takeover] by (simp add: Let_def)

end
